(* ===== verification/Prelude.thy ===== *)
theory Prelude
  imports Main "HOL-Library.Sublist"
begin

text \<open>
  Shared vocabulary of the development: the JavaScript values the Superconductor sources use
  (typed arrays, plain arrays, objects keyed by array indices), the collections of rewrite
  rules, and the list lemmas that more than one component needs.

  A typed array drops a store outside its bounds; on a list this is exactly
  \<open>xs[i := v]\<close>.  A plain array grows instead and leaves holes; a hole reads as
  \<open>undefined\<close>, the argument \<open>hole\<close> of the operations below.  An object whose keys are
  array indices enumerates them in ascending order whatever the order of insertion, so it is
  an association list sorted by key.
\<close>

named_theorems js_store \<open>what a store leaves at each index of a JavaScript array\<close>
named_theorems js_dict \<open>what a store leaves at each key of a JavaScript object\<close>

section \<open>Arrays\<close>

datatype akind = TypedArr | PlainArr

text \<open>One store \<open>a[i] = v\<close> with an index that may be negative or past the end.\<close>

definition arr_store :: "akind \<Rightarrow> 'a \<Rightarrow> 'a list \<Rightarrow> int \<Rightarrow> 'a \<Rightarrow> 'a list" where
  "arr_store k hole xs i v =
     (if i < 0 then xs
      else if nat i < length xs then xs[nat i := v]
      else case k of
        TypedArr \<Rightarrow> xs
      | PlainArr \<Rightarrow> xs @ replicate (nat i - length xs) hole @ [v])"

text \<open>A read: outside the bounds the value is \<open>undefined\<close>.\<close>

definition arr_read :: "'a list \<Rightarrow> nat \<Rightarrow> 'a option" where
  "arr_read xs i = (if i < length xs then Some (xs ! i) else None)"

lemma arr_store_in [js_store]: "i < length xs \<Longrightarrow> arr_store k hole xs (int i) v = xs[i := v]"
  by (simp add: arr_store_def)

lemma arr_store_typed [js_store]:
  "arr_store TypedArr hole xs i v = (if i < 0 then xs else xs[nat i := v])"
  by (simp add: arr_store_def list_update_beyond)

lemma length_arr_store_typed [simp]: "length (arr_store TypedArr hole xs i v) = length xs"
  by (simp add: js_store)

lemma arr_read_Some: "arr_read xs i = Some v \<longleftrightarrow> i < length xs \<and> xs ! i = v"
  by (auto simp: arr_read_def)

text \<open>\<open>xs.indexOf(v)\<close>: \<open>None\<close> is the code's \<open>-1\<close>.\<close>

fun index_of :: "'a \<Rightarrow> 'a list \<Rightarrow> nat option" where
  "index_of v [] = None"
| "index_of v (x # xs) = (if x = v then Some 0 else map_option Suc (index_of v xs))"

lemma index_of_None: "index_of v xs = None \<longleftrightarrow> v \<notin> set xs"
  by (induction xs) auto

lemma index_of_Some: "index_of v xs = Some i \<Longrightarrow> i < length xs \<and> xs ! i = v"
  by (induction xs arbitrary: i) (auto split: if_splits)

lemma index_of_append:
  "index_of v (xs @ ys) =
     (case index_of v xs of Some i \<Rightarrow> Some i | None \<Rightarrow> map_option ((+) (length xs)) (index_of v ys))"
proof (induction xs)
  case Nil
  show ?case by (cases "index_of v ys") auto
next
  case (Cons x xs)
  then show ?case
    by (cases "index_of v xs"; cases "index_of v ys") auto
qed

lemma index_of_mem: "v \<in> set xs \<Longrightarrow> \<exists>i. index_of v xs = Some i"
  using index_of_None by fastforce

text \<open>A run of stores at indices inside the bounds, each writing what \<open>f\<close> says.\<close>

definition stores :: "(nat \<times> 'a) list \<Rightarrow> 'a list \<Rightarrow> 'a list" where
  "stores ws xs = foldl (\<lambda>t (p, v). t[p := v]) xs ws"

lemma stores_simps [simp]:
  "stores [] xs = xs"
  "stores ((p, v) # ws) xs = stores ws (xs[p := v])"
  by (simp_all add: stores_def)

lemma stores_append [simp]: "stores (us @ ws) xs = stores ws (stores us xs)"
  by (simp add: stores_def)

lemma length_stores [simp]: "length (stores ws xs) = length xs"
  by (induction ws arbitrary: xs) auto

lemma nth_stores:
  assumes "\<And>p v. (p, v) \<in> set ws \<Longrightarrow> v = f p" and "q < length xs"
  shows "stores ws xs ! q = (if q \<in> fst ` set ws then f q else xs ! q)"
  using assms
proof (induction ws arbitrary: xs)
  case (Cons w ws)
  obtain p v where w: "w = (p, v)" by (cases w)
  with Cons.prems have v: "v = f p" by simp
  have "stores ws (xs[p := v]) ! q = (if q \<in> fst ` set ws then f q else xs[p := v] ! q)"
    using Cons.prems by (intro Cons.IH) auto
  with Cons.prems(2) show ?case
    by (auto simp: w v nth_list_update)
qed simp

text \<open>\<open>if (!n) n = d\<close> for an optional size: absent and 0 both take the default.\<close>

definition js_default :: "nat \<Rightarrow> nat option \<Rightarrow> nat" where
  "js_default d n = (case n of None \<Rightarrow> d | Some k \<Rightarrow> if k = 0 then d else k)"

lemma js_default_pos [simp]: "0 < d \<Longrightarrow> 0 < js_default d n"
  by (simp add: js_default_def split: option.split)

lemma js_default_nonzero [simp]: "0 < d \<Longrightarrow> js_default d n \<noteq> 0"
  by (simp add: js_default_def split: option.split)

lemma js_default_None [simp]: "js_default d None = d"
  by (simp add: js_default_def)

lemma js_default_Some [simp]: "0 < k \<Longrightarrow> js_default d (Some k) = k"
  by (simp add: js_default_def)

section \<open>Objects keyed by array indices\<close>

type_synonym 'v dict = "(nat \<times> 'v) list"

text \<open>\<open>o[k] = v\<close>: replaces the entry, or inserts it at its place in the enumeration order.\<close>

fun obj_put :: "nat \<Rightarrow> 'v \<Rightarrow> (nat \<times> 'v) list \<Rightarrow> (nat \<times> 'v) list" where
  "obj_put k v [] = [(k, v)]"
| "obj_put k v ((l, w) # ps) =
     (if k < l then (k, v) # (l, w) # ps
      else if k = l then (k, v) # ps
      else (l, w) # obj_put k v ps)"

definition obj_keys_sorted :: "(nat \<times> 'v) list \<Rightarrow> bool" where
  "obj_keys_sorted ps \<longleftrightarrow> sorted_wrt (<) (map fst ps)"

lemma obj_put_set: "fst ` set (obj_put k v ps) = insert k (fst ` set ps)"
  by (induction k v ps rule: obj_put.induct) (simp_all add: insert_commute)

lemma obj_put_sorted: "obj_keys_sorted ps \<Longrightarrow> obj_keys_sorted (obj_put k v ps)"
proof (induction ps)
  case (Cons p ps)
  obtain l w where p: "p = (l, w)" by (cases p)
  from Cons.prems have l: "\<forall>x \<in> fst ` set ps. l < x" and s: "obj_keys_sorted ps"
    by (auto simp: p obj_keys_sorted_def)
  with Cons.IH have IH: "sorted_wrt (<) (map fst (obj_put k v ps))"
    by (simp add: obj_keys_sorted_def)
  show ?case
    using Cons.prems l IH obj_put_set [of k v ps]
    by (auto simp: p obj_keys_sorted_def)
qed (simp add: obj_keys_sorted_def)

lemma obj_put_lookup: "obj_keys_sorted ps \<Longrightarrow> map_of (obj_put k v ps) = (map_of ps)(k \<mapsto> v)"
proof (induction ps)
  case (Cons p ps)
  obtain l w where p: "p = (l, w)" by (cases p)
  have IH: "map_of (obj_put k v ps) = (map_of ps)(k \<mapsto> v)"
    by (rule Cons.IH) (use Cons.prems in \<open>simp add: p obj_keys_sorted_def\<close>)
  show ?case
  proof (rule ext)
    fix x
    show "map_of (obj_put k v (p # ps)) x = ((map_of (p # ps))(k \<mapsto> v)) x"
      by (simp add: p IH)
  qed
qed simp

text \<open>
  Storing at a key above every key appends: the case of the loops that walk an array from
  left to right.
\<close>

lemma obj_put_snoc [js_dict]: "(\<And>x. x \<in> fst ` set ps \<Longrightarrow> x < k) \<Longrightarrow> obj_put k v ps = ps @ [(k, v)]"
proof (induction ps)
  case (Cons p ps)
  obtain l w where p: "p = (l, w)" by (cases p)
  with Cons.prems [of l] have "l < k" by simp
  moreover have "obj_put k v ps = ps @ [(k, v)]"
    using Cons.prems by (intro Cons.IH) simp
  ultimately show ?case by (simp add: p)
qed simp

text \<open>
  The contract of a dictionary, and its laws for any implementation: what a lookup returns
  after a store, and that the representation stays well formed.
\<close>

locale js_object =
  fixes put :: "'k \<Rightarrow> 'v \<Rightarrow> 'o \<Rightarrow> 'o"
    and get :: "'o \<Rightarrow> 'k \<Rightarrow> 'v option"
    and ok :: "'o \<Rightarrow> bool"
  assumes get_put: "ok d \<Longrightarrow> get (put k v d) = (get d)(k \<mapsto> v)"
    and ok_put: "ok d \<Longrightarrow> ok (put k v d)"
begin

lemma get_put_same: "ok d \<Longrightarrow> get (put k v d) k = Some v"
  by (simp add: get_put)

lemma get_put_other: "ok d \<Longrightarrow> l \<noteq> k \<Longrightarrow> get (put k v d) l = get d l"
  by (simp add: get_put)

lemma put_foldl: "ok d \<Longrightarrow> ok (foldl (\<lambda>d (k, v). put k v d) d kvs)"
  by (induction kvs arbitrary: d) (auto simp: ok_put)

lemma get_foldl:
  "ok d \<Longrightarrow> get (foldl (\<lambda>d (k, v). put k v d) d kvs) = get d ++ map_of (rev kvs)"
  by (induction kvs arbitrary: d) (auto simp: ok_put get_put map_add_def fun_eq_iff split: option.splits)

end

interpretation indexed: js_object obj_put map_of obj_keys_sorted
  by unfold_locales (simp_all add: obj_put_lookup obj_put_sorted)

section \<open>Strings\<close>

text \<open>\<open>s.indexOf(p)\<close>; \<open>None\<close> is the code's \<open>-1\<close>.\<close>

fun str_index :: "string \<Rightarrow> string \<Rightarrow> nat option" where
  "str_index p [] = (if p = [] then Some 0 else None)"
| "str_index p (c # s) = (if prefix p (c # s) then Some 0 else map_option Suc (str_index p s))"

text \<open>\<open>s.split(p)[0]\<close>: the part before the first occurrence of \<open>p\<close>.\<close>

definition split_first :: "string \<Rightarrow> string \<Rightarrow> string" where
  "split_first p s = (case str_index p s of None \<Rightarrow> s | Some n \<Rightarrow> take n s)"

text \<open>\<open>s.toLowerCase()\<close> and \<open>s.toUpperCase()\<close> on the ASCII letters.\<close>

definition lower_char :: "char \<Rightarrow> char" where
  "lower_char c = (if 65 \<le> (of_char c :: nat) \<and> (of_char c :: nat) \<le> 90 then char_of ((of_char c :: nat) + 32) else c)"

definition upper_char :: "char \<Rightarrow> char" where
  "upper_char c = (if 97 \<le> (of_char c :: nat) \<and> (of_char c :: nat) \<le> 122 then char_of ((of_char c :: nat) - 32) else c)"

definition lower_case :: "string \<Rightarrow> string" where
  "lower_case s = map lower_char s"

definition upper_case :: "string \<Rightarrow> string" where
  "upper_case s = map upper_char s"

text \<open>\<open>s.replace("_", "")\<close> with a string pattern: the first occurrence only.\<close>

fun remove_first :: "char \<Rightarrow> string \<Rightarrow> string" where
  "remove_first p [] = []"
| "remove_first p (c # s) = (if c = p then s else c # remove_first p s)"

text \<open>The decimal text of a whole number.\<close>

function nat_digits :: "nat \<Rightarrow> string" where
  "nat_digits n = (if n < 10 then [char_of (48 + n)] else nat_digits (n div 10) @ [char_of (48 + n mod 10)])"
  by pat_completeness auto
termination by (relation "measure id") auto

declare nat_digits.simps [simp del]

definition int_string :: "int \<Rightarrow> string" where
  "int_string n = (if n < 0 then ''-'' @ nat_digits (nat (- n)) else nat_digits (nat n))"

lemma str_index_prefix: "str_index p s = Some n \<Longrightarrow> prefix p (drop n s) \<and> n \<le> length s"
proof (induction s arbitrary: n)
  case (Cons c s)
  then show ?case by (auto split: if_splits)
qed (auto split: if_splits)

lemma str_index_None: "str_index p s = None \<longleftrightarrow> \<not> sublist p s"
  by (induction s) (auto simp: sublist_Cons_right prefix_def)

section \<open>Ranges\<close>

lemma in_fst_zip_upt [simp]: "q \<in> fst ` set (zip [s..<s + length xs] xs) \<longleftrightarrow> s \<le> q \<and> q < s + length xs"
proof -
  have "fst ` set (zip [s..<s + length xs] xs) = set (map fst (zip [s..<s + length xs] xs))"
    by (simp only: set_map)
  then show ?thesis by simp
qed

lemma sum_list_take_le: "sum_list (take n xs) \<le> (sum_list xs :: nat)"
  using sum_list_append [of "take n xs" "drop n xs"] by simp

section \<open>Lists of options\<close>

lemma those_map_Some: "(\<And>x. x \<in> set xs \<Longrightarrow> f x = Some (g x)) \<Longrightarrow> those (map f xs) = Some (map g xs)"
  by (induction xs) simp_all

lemma those_None: "x \<in> set xs \<Longrightarrow> f x = None \<Longrightarrow> those (map f xs) = None"
  by (induction xs) (auto split: option.split)

end
