(* ===== verification/SparseCodec.thy ===== *)
theory SparseCodec
  imports Prelude
begin

text \<open>
  The sparse encoding of a flattened buffer (\<open>src/CLRunner.js\<close>, \<open>deflate\<close> to \<open>inflate\<close>):
  runs of zeros become a dictionary from start to length, everything else dense blocks keyed
  by their start, and \<open>deflateMT\<close> cuts the blocks into files of bounded size.  The lemmas
  show that inflating undoes deflating, for one file and for many, and bound the blocks and the
  files.  Element values are an arbitrary type with a zero; \<open>== 0\<close> of the source is \<open>= 0\<close>
  (so a negative zero counts as the zero it is read back as).
\<close>

section \<open>Encoded arrays\<close>

text \<open>
  \<open>{dense, zeros, len, optTypeName}\<close>.  Only the first file of a split array has \<open>zeros\<close>
  and \<open>len\<close>.
\<close>

record 'a sparr =
  dense :: "'a list dict"
  zeros :: "nat dict option"
  len :: "nat option"
  optTypeName :: "string option"

section \<open>deflate\<close>

text \<open>The two inner loops: zeros from \<open>i\<close> on, and the length of the dense block at \<open>i\<close>.\<close>

fun zero_run :: "'a::zero list \<Rightarrow> nat" where
  "zero_run [] = 0"
| "zero_run (x # xs) = (if x = 0 then Suc (zero_run xs) else 0)"

fun dense_run :: "nat \<Rightarrow> nat \<Rightarrow> 'a::zero list \<Rightarrow> nat" where
  "dense_run m off [] = 0"
| "dense_run m off (x # xs) =
     (if off < m
      then if x = 0 \<and> m \<le> off then 0 else Suc (dense_run m (Suc off) xs)
      else 0)"

lemma dense_run_eq: "dense_run m off xs = min (m - off) (length xs)"
  by (induction m off xs rule: dense_run.induct) auto

lemma zero_run_le: "zero_run xs \<le> length xs"
  by (induction xs) auto

lemma zero_run_zero: "k < zero_run xs \<Longrightarrow> xs ! k = 0"
proof (induction xs arbitrary: k)
  case (Cons x xs)
  then show ?case by (cases k) (auto split: if_splits)
qed simp

text \<open>
  The outer loop.  Its test \<open>0 < m\<close> holds in every call of \<open>deflate\<close>, which replaces a
  block size of 0; it makes the function total.
\<close>

function deflate_loop :: "nat \<Rightarrow> 'a::zero list \<Rightarrow> nat \<Rightarrow> 'a sparr \<Rightarrow> 'a sparr" where
  "deflate_loop m arr i res =
     (if i < length arr \<and> 0 < m then
        let zeroCount = zero_run (drop i arr) in
        if m \<le> zeroCount
        then deflate_loop m arr (i + zeroCount)
               (res\<lparr>zeros := map_option (obj_put i zeroCount) (zeros res)\<rparr>)
        else
          let denseCount = dense_run m 0 (drop i arr);
              sub = map (\<lambda>k. arr ! (i + k)) [0..<denseCount]
          in deflate_loop m arr (i + denseCount) (res\<lparr>dense := obj_put i sub (dense res)\<rparr>)
      else res)"
  by pat_completeness auto
termination
  by (relation "measure (\<lambda>(m, arr, i, res). length arr - i)") (auto simp: dense_run_eq)

declare deflate_loop.simps [simp del]

text \<open>\<open>ty\<close> is what the \<open>try\<close> around the constructor's name yields.\<close>

definition deflate :: "'a::zero list \<Rightarrow> string option \<Rightarrow> nat option \<Rightarrow> 'a sparr" where
  "deflate arr ty minBlockSize =
     deflate_loop (js_default 64 minBlockSize) arr 0
       \<lparr>dense = [], zeros = Some [], len = Some (length arr), optTypeName = ty\<rparr>"

section \<open>inflate\<close>

definition inflateChunk ::
    "akind \<Rightarrow> 'a::zero \<Rightarrow> ('a, 'b) sparr_scheme \<Rightarrow> 'a list \<Rightarrow> int \<Rightarrow> 'a list" where
  "inflateChunk k hole spArr denseSubArr offset =
     (let t = foldl (\<lambda>t (start, buff).
                foldl (\<lambda>t i. arr_store k hole t (int start + int i - offset) (buff ! i)) t [0..<length buff])
              denseSubArr (dense spArr)
      in case zeros spArr of
           Some z \<Rightarrow>
             if k = PlainArr
             then foldl (\<lambda>t (start, l).
                    foldl (\<lambda>t i. arr_store k hole t (int i - offset) 0) t [start..<start + l]) t z
             else t
         | None \<Rightarrow> t)"

text \<open>\<open>nativeConstructors\<close> as the names it has a constructor for.\<close>

definition allocArray :: "'a::zero \<Rightarrow> ('a, 'b) sparr_scheme \<Rightarrow> string list \<Rightarrow> akind \<times> 'a list" where
  "allocArray hole spArr nativeConstructors =
     (case optTypeName spArr of
        Some ty \<Rightarrow>
          if ty \<in> set nativeConstructors
          then (TypedArr, case len spArr of Some n \<Rightarrow> replicate n 0 | None \<Rightarrow> [])
          else (PlainArr, case len spArr of Some n \<Rightarrow> replicate n hole | None \<Rightarrow> [hole])
      | None \<Rightarrow> (PlainArr, case len spArr of Some n \<Rightarrow> replicate n hole | None \<Rightarrow> [hole]))"

definition inflate :: "'a::zero \<Rightarrow> ('a, 'b) sparr_scheme \<Rightarrow> string list \<Rightarrow> akind \<times> 'a list" where
  "inflate hole spArr nativeConstructors =
     (let (k, res) = allocArray hole spArr nativeConstructors
      in (k, inflateChunk k hole spArr res 0))"

section \<open>The invariant of deflate's loop\<close>

definition block_of :: "'a list \<Rightarrow> nat \<Rightarrow> 'a list \<Rightarrow> bool" where
  "block_of arr s b \<longleftrightarrow> s + length b \<le> length arr \<and> (\<forall>i < length b. b ! i = arr ! (s + i))"

definition zeros_of :: "'a::zero list \<Rightarrow> nat \<Rightarrow> nat \<Rightarrow> bool" where
  "zeros_of arr s l \<longleftrightarrow> s + l \<le> length arr \<and> (\<forall>p. s \<le> p \<and> p < s + l \<longrightarrow> arr ! p = 0)"

definition covers :: "(nat \<times> nat) list \<Rightarrow> nat \<Rightarrow> bool" where
  "covers rs p \<longleftrightarrow> (\<exists>e \<in> set rs. fst e \<le> p \<and> p < fst e + snd e)"

abbreviation extents :: "'a list dict \<Rightarrow> nat dict" where
  "extents d \<equiv> map (\<lambda>e. (fst e, length (snd e))) d"

definition block_ok :: "nat \<Rightarrow> 'a list \<Rightarrow> nat \<Rightarrow> nat \<times> 'a list \<Rightarrow> bool" where
  "block_ok m arr i e \<longleftrightarrow> block_of arr (fst e) (snd e) \<and> fst e + length (snd e) \<le> i \<and>
     0 < length (snd e) \<and> length (snd e) \<le> m \<and>
     (length (snd e) = m \<or> fst e + length (snd e) = length arr)"

text \<open>Blocks in ascending order without overlap; empty blocks may share a start.\<close>

definition in_order :: "'a list dict \<Rightarrow> bool" where
  "in_order d \<longleftrightarrow> sorted_wrt (\<lambda>e f. fst e + length (snd e) \<le> fst f) d"

definition zeros_run_ok :: "nat \<Rightarrow> 'a::zero list \<Rightarrow> nat \<Rightarrow> nat \<times> nat \<Rightarrow> bool" where
  "zeros_run_ok m arr i e \<longleftrightarrow>
     zeros_of arr (fst e) (snd e) \<and> fst e + snd e \<le> i \<and> m \<le> snd e \<and> 0 < snd e"

definition dense_ok :: "nat \<Rightarrow> 'a list \<Rightarrow> nat \<Rightarrow> 'a list dict \<Rightarrow> bool" where
  "dense_ok m arr i d \<longleftrightarrow> obj_keys_sorted d \<and> in_order d \<and> (\<forall>e \<in> set d. block_ok m arr i e)"

definition zeros_ok :: "nat \<Rightarrow> 'a::zero list \<Rightarrow> nat \<Rightarrow> nat dict \<Rightarrow> bool" where
  "zeros_ok m arr i z \<longleftrightarrow> (\<forall>e \<in> set z. zeros_run_ok m arr i e)"

definition encodes_upto :: "nat \<Rightarrow> 'a::zero list \<Rightarrow> nat \<Rightarrow> 'a sparr \<Rightarrow> bool" where
  "encodes_upto m arr i res \<longleftrightarrow>
     i \<le> length arr \<and> len res = Some (length arr) \<and> dense_ok m arr i (dense res) \<and>
     (\<exists>z. zeros res = Some z \<and> zeros_ok m arr i z \<and>
        (\<forall>p < i. covers (extents (dense res)) p \<or> covers z p))"

lemma covers_append [simp]: "covers (xs @ ys) p \<longleftrightarrow> covers xs p \<or> covers ys p"
  by (auto simp: covers_def)

lemma covers_Cons [simp]: "covers ((s, l) # rs) p \<longleftrightarrow> (s \<le> p \<and> p < s + l) \<or> covers rs p"
  by (simp add: covers_def)

lemma covers_Nil [simp]: "\<not> covers [] p"
  by (simp add: covers_def)

lemma zeros_of_run:
  assumes "i \<le> length arr"
  shows "zeros_of arr i (zero_run (drop i arr))"
  unfolding zeros_of_def
proof (intro conjI allI impI)
  show "i + zero_run (drop i arr) \<le> length arr"
    using zero_run_le [of "drop i arr"] assms by simp
  fix p
  assume p: "i \<le> p \<and> p < i + zero_run (drop i arr)"
  then have "drop i arr ! (p - i) = 0"
    by (intro zero_run_zero) linarith
  with p assms show "arr ! p = 0" by simp
qed

lemma block_of_slice:
  "i + n \<le> length arr \<Longrightarrow> block_of arr i (map (\<lambda>k. arr ! (i + k)) [0..<n])"
  by (simp add: block_of_def)

lemma block_ok_mono: "block_ok m arr i e \<Longrightarrow> i \<le> j \<Longrightarrow> block_ok m arr j e"
  by (auto simp: block_ok_def)

lemma zeros_ok_mono: "zeros_ok m arr i z \<Longrightarrow> i \<le> j \<Longrightarrow> zeros_ok m arr j z"
  unfolding zeros_ok_def zeros_run_ok_def by fastforce

lemma dense_ok_mono: "dense_ok m arr i d \<Longrightarrow> i \<le> j \<Longrightarrow> dense_ok m arr j d"
  unfolding dense_ok_def by (blast intro: block_ok_mono)

lemma zeros_ok_put:
  assumes "zeros_ok m arr i z" and "zeros_run_ok m arr (i + l) (i, l)"
  shows "obj_put i l z = z @ [(i, l)]" and "zeros_ok m arr (i + l) (obj_put i l z)"
proof -
  have "x < i" if "x \<in> fst ` set z" for x
    using that assms(1) by (fastforce simp: zeros_ok_def zeros_run_ok_def)
  then show put: "obj_put i l z = z @ [(i, l)]"
    by (rule obj_put_snoc)
  show "zeros_ok m arr (i + l) (obj_put i l z)"
    using zeros_ok_mono [OF assms(1), of "i + l"] assms(2)
    by (simp add: put zeros_ok_def)
qed

lemma dense_ok_put:
  assumes "dense_ok m arr i d" and "block_ok m arr (i + n) (i, b)"
  shows "obj_put i b d = d @ [(i, b)]" and "dense_ok m arr (i + n) (obj_put i b d)"
proof -
  have "x < i" if "x \<in> fst ` set d" for x
  proof -
    from that obtain e where "e \<in> set d" "x = fst e" by blast
    moreover from this assms(1) have "block_ok m arr i e" by (simp add: dense_ok_def)
    then have "fst e + length (snd e) \<le> i" "0 < length (snd e)" by (simp_all only: block_ok_def)
    ultimately show ?thesis by linarith
  qed
  then show put: "obj_put i b d = d @ [(i, b)]"
    by (rule obj_put_snoc)
  have "obj_keys_sorted (obj_put i b d)"
    using assms(1) by (intro obj_put_sorted) (simp add: dense_ok_def)
  moreover have "in_order (d @ [(i, b)])"
    using assms(1) by (auto simp: in_order_def sorted_wrt_append dense_ok_def block_ok_def)
  ultimately show "dense_ok m arr (i + n) (obj_put i b d)"
    using dense_ok_mono [OF assms(1), of "i + n"] assms(2)
    by (simp add: put dense_ok_def)
qed

lemma encodes_uptoI:
  assumes "i \<le> length arr" and "len res = Some (length arr)" and "dense_ok m arr i (dense res)"
    and "zeros res = Some z" and "zeros_ok m arr i z"
    and "\<And>p. p < i \<Longrightarrow> covers (extents (dense res)) p \<or> covers z p"
  shows "encodes_upto m arr i res"
  using assms unfolding encodes_upto_def by blast

lemma encodes_uptoE:
  assumes "encodes_upto m arr i res"
  obtains z where "i \<le> length arr" and "len res = Some (length arr)"
    and "dense_ok m arr i (dense res)" and "zeros res = Some z" and "zeros_ok m arr i z"
    and "\<And>p. p < i \<Longrightarrow> covers (extents (dense res)) p \<or> covers z p"
  using assms unfolding encodes_upto_def by blast

lemma encodes_upto_zeros:
  assumes "encodes_upto m arr i res" and "i < length arr" and "0 < m"
    and l: "l = zero_run (drop i arr)" "m \<le> l"
  shows "encodes_upto m arr (i + l) (res\<lparr>zeros := map_option (obj_put i l) (zeros res)\<rparr>)"
  using assms(1)
proof (rule encodes_uptoE)
  fix z
  assume z: "zeros res = Some z" "zeros_ok m arr i z"
    and cov: "\<And>p. p < i \<Longrightarrow> covers (extents (dense res)) p \<or> covers z p"
    and d: "dense_ok m arr i (dense res)" "len res = Some (length arr)"
  have zo: "zeros_of arr i l"
    unfolding l using assms(2) by (intro zeros_of_run) simp
  then have le: "i + l \<le> length arr" by (simp only: zeros_of_def)
  have ok: "zeros_run_ok m arr (i + l) (i, l)"
    using zo l(2) assms(3) by (simp add: zeros_run_ok_def)
  note put = zeros_ok_put [OF z(2) ok]
  show ?thesis
  proof (rule encodes_uptoI [OF le])
    show "dense_ok m arr (i + l) (dense (res\<lparr>zeros := map_option (obj_put i l) (zeros res)\<rparr>))"
      using dense_ok_mono [OF d(1), of "i + l"] by simp
    show "zeros_ok m arr (i + l) (z @ [(i, l)])"
      using put by simp
    fix p
    assume "p < i + l"
    then show "covers (extents (dense (res\<lparr>zeros := map_option (obj_put i l) (zeros res)\<rparr>))) p \<or>
        covers (z @ [(i, l)]) p"
      using cov by (cases "p < i") auto
  qed (simp_all add: d z put(1))
qed

lemma encodes_upto_dense:
  assumes "encodes_upto m arr i res" and "i < length arr" and "0 < m"
    and n: "n = dense_run m 0 (drop i arr)" and b: "b = map (\<lambda>k. arr ! (i + k)) [0..<n]"
  shows "encodes_upto m arr (i + n) (res\<lparr>dense := obj_put i b (dense res)\<rparr>)"
  using assms(1)
proof (rule encodes_uptoE)
  fix z
  assume z: "zeros res = Some z" "zeros_ok m arr i z"
    and cov: "\<And>p. p < i \<Longrightarrow> covers (extents (dense res)) p \<or> covers z p"
    and d: "dense_ok m arr i (dense res)" "len res = Some (length arr)"
  have n': "n = min m (length arr - i)"
    by (simp add: n dense_run_eq)
  have lb: "length b = n" by (simp add: b)
  have le: "i + n \<le> length arr" using assms(2) by (simp add: n')
  have "block_of arr i b"
    unfolding b using le by (rule block_of_slice)
  then have ok: "block_ok m arr (i + n) (i, b)"
    using assms(2,3) by (auto simp: block_ok_def lb n')
  note put = dense_ok_put [OF d(1) ok]
  show ?thesis
  proof (rule encodes_uptoI [OF le])
    show "zeros_ok m arr (i + n) z"
      by (rule zeros_ok_mono [OF z(2)]) simp
    fix p
    assume "p < i + n"
    then show "covers (extents (dense (res\<lparr>dense := obj_put i b (dense res)\<rparr>))) p \<or> covers z p"
      using cov by (cases "p < i") (auto simp: put(1) lb)
  qed (simp_all add: d z put(2))
qed

lemma deflate_loop_encodes:
  assumes "encodes_upto m arr i res" and "0 < m"
  shows "encodes_upto m arr (length arr) (deflate_loop m arr i res)"
  using assms
proof (induction m arr i res rule: deflate_loop.induct)
  case (1 m arr i res)
  show ?case
  proof (cases "i < length arr")
    case True
    then show ?thesis
      using 1 encodes_upto_zeros [OF "1.prems"(1) True _ refl] encodes_upto_dense [OF "1.prems"(1) True _ refl refl]
      by (auto simp: deflate_loop.simps [of m arr i res] Let_def)
  next
    case False
    with "1.prems"(1) have "i = length arr" by (simp add: encodes_upto_def)
    with "1.prems"(1) show ?thesis by (simp add: deflate_loop.simps [of m arr "length arr" res])
  qed
qed

lemma deflate_encodes:
  "encodes_upto (js_default 64 mb) arr (length arr) (deflate arr ty mb)"
  unfolding deflate_def
  by (rule deflate_loop_encodes) (simp_all add: encodes_upto_def dense_ok_def zeros_ok_def obj_keys_sorted_def in_order_def)

lemma deflate_loop_type [simp]: "optTypeName (deflate_loop m arr i res) = optTypeName res"
  by (induction m arr i res rule: deflate_loop.induct)
     (subst deflate_loop.simps, simp add: Let_def)

lemma deflate_type [simp]: "optTypeName (deflate arr ty mb) = ty"
  by (simp add: deflate_def)

lemma deflate_len [simp]: "len (deflate arr ty mb) = Some (length arr)"
  using deflate_encodes [of mb arr ty] by (simp add: encodes_upto_def)

section \<open>Inflating as a run of stores\<close>

lemma foldl_arr_store:
  "(\<And>i. i \<in> set is \<Longrightarrow> f i < length t) \<Longrightarrow>
   foldl (\<lambda>t i. arr_store k hole t (int (f i)) (g i)) t is = stores (map (\<lambda>i. (f i, g i)) is) t"
  by (induction "is" arbitrary: t) (simp_all add: js_store)

definition block_writes :: "nat \<Rightarrow> nat \<times> 'a list \<Rightarrow> (nat \<times> 'a) list" where
  "block_writes off e = map (\<lambda>i. (fst e + i - off, snd e ! i)) [0..<length (snd e)]"

definition zero_writes :: "nat \<Rightarrow> nat \<times> nat \<Rightarrow> (nat \<times> 'a::zero) list" where
  "zero_writes off e = map (\<lambda>i. (i - off, 0)) [fst e..<fst e + snd e]"

definition fits :: "nat \<Rightarrow> nat \<Rightarrow> nat \<times> nat \<Rightarrow> bool" where
  "fits off n e \<longleftrightarrow> off \<le> fst e \<and> fst e + snd e \<le> off + n"

lemma block_foldl_stores:
  assumes "fits off (length t) (fst e, length (snd e))"
  shows "foldl (\<lambda>t i. arr_store k hole t (int (fst e) + int i - int off) (snd e ! i)) t [0..<length (snd e)]
    = stores (block_writes off e) t"
proof -
  have "foldl (\<lambda>t i. arr_store k hole t (int (fst e) + int i - int off) (snd e ! i)) t [0..<length (snd e)]
      = foldl (\<lambda>t i. arr_store k hole t (int (fst e + i - off)) (snd e ! i)) t [0..<length (snd e)]"
    using assms by (intro foldl_cong) (auto simp: fits_def of_nat_diff)
  also have "\<dots> = stores (block_writes off e) t"
    unfolding block_writes_def using assms by (intro foldl_arr_store) (auto simp: fits_def)
  finally show ?thesis .
qed

lemma zeros_foldl_stores:
  assumes "fits off (length t) e"
  shows "foldl (\<lambda>t i. arr_store k hole t (int i - int off) 0) t [fst e..<fst e + snd e]
    = stores (zero_writes off e) t"
proof -
  have "foldl (\<lambda>t i. arr_store k hole t (int i - int off) 0) t [fst e..<fst e + snd e]
      = foldl (\<lambda>t i. arr_store k hole t (int (i - off)) 0) t [fst e..<fst e + snd e]"
    using assms by (intro foldl_cong) (auto simp: fits_def of_nat_diff)
  also have "\<dots> = stores (zero_writes off e) t"
    unfolding zero_writes_def using assms by (intro foldl_arr_store) (auto simp: fits_def)
  finally show ?thesis .
qed

lemma foldl_writes:
  assumes "\<And>e t'. e \<in> set es \<Longrightarrow> length t' = length t \<Longrightarrow> f t' e = stores (w e) t'"
  shows "foldl f t es = stores (concat (map w es)) t"
  using assms by (induction es arbitrary: t) simp_all

definition chunk_writes :: "akind \<Rightarrow> nat \<Rightarrow> ('a::zero, 'b) sparr_scheme \<Rightarrow> (nat \<times> 'a) list" where
  "chunk_writes k off sp =
     concat (map (block_writes off) (dense sp)) @
     (case zeros sp of
        Some z \<Rightarrow> if k = PlainArr then concat (map (zero_writes off) z) else []
      | None \<Rightarrow> [])"

lemma inflateChunk_stores:
  assumes "\<And>e. e \<in> set (dense sp) \<Longrightarrow> fits off (length t) (fst e, length (snd e))"
    and "\<And>z e. zeros sp = Some z \<Longrightarrow> e \<in> set z \<Longrightarrow> fits off (length t) e"
  shows "inflateChunk k hole sp t (int off) = stores (chunk_writes k off sp) t"
proof -
  have d: "foldl (\<lambda>t (start, buff). foldl (\<lambda>t i. arr_store k hole t (int start + int i - int off) (buff ! i)) t
        [0..<length buff]) t (dense sp) = stores (concat (map (block_writes off) (dense sp))) t"
    by (intro foldl_writes) (simp add: block_foldl_stores assms(1) case_prod_beta)
  have z: "foldl (\<lambda>t (start, l). foldl (\<lambda>t i. arr_store k' hole t (int i - int off) 0) t [start..<start + l])
        t' z = stores (concat (map (zero_writes off) z)) t'"
    if "zeros sp = Some z" and "length t' = length t" for z t' k'
    by (intro foldl_writes) (simp add: zeros_foldl_stores assms(2) that case_prod_beta)
  show ?thesis
    unfolding inflateChunk_def d Let_def chunk_writes_def
    by (auto simp: z split: option.split)
qed

lemma block_writes_agree:
  assumes "(p, v) \<in> set (block_writes off e)" and "block_of arr (fst e) (snd e)" and "off \<le> fst e"
  shows "v = arr ! (off + p)"
  using assms by (auto simp: block_writes_def block_of_def)

lemma zero_writes_agree:
  assumes "(p, v) \<in> set (zero_writes off e)" and "zeros_of arr (fst e) (snd e)" and "off \<le> fst e"
  shows "v = arr ! (off + p)"
  using assms by (auto simp: zero_writes_def zeros_of_def)

lemma fst_image_writes:
  assumes "off \<le> (s :: nat)"
  shows "p \<in> (\<lambda>i. s + i - off) ` {0..<n} \<longleftrightarrow> s \<le> off + p \<and> off + p < s + n"
proof
  assume p: "s \<le> off + p \<and> off + p < s + n"
  then have "p = s + (off + p - s) - off" "off + p - s \<in> {0..<n}" by auto
  then show "p \<in> (\<lambda>i. s + i - off) ` {0..<n}" by (rule image_eqI)
qed (use assms in auto)

lemma block_writes_fst: "off \<le> fst e \<Longrightarrow>
    p \<in> fst ` set (block_writes off e) \<longleftrightarrow> fst e \<le> off + p \<and> off + p < fst e + length (snd e)"
  using fst_image_writes [of off "fst e" p "length (snd e)"]
  by (simp add: block_writes_def image_image)

lemma zero_writes_fst:
  assumes "off \<le> fst e"
  shows "p \<in> fst ` set (zero_writes off e) \<longleftrightarrow> fst e \<le> off + p \<and> off + p < fst e + snd e"
proof
  assume p: "fst e \<le> off + p \<and> off + p < fst e + snd e"
  then have "p = off + p - off" "off + p \<in> set [fst e..<fst e + snd e]" by auto
  then have "p \<in> (\<lambda>i. i - off) ` set [fst e..<fst e + snd e]" by (rule image_eqI)
  then show "p \<in> fst ` set (zero_writes off e)"
    by (simp only: zero_writes_def set_map image_image fst_conv)
qed (use assms in \<open>auto simp: zero_writes_def\<close>)

text \<open>Values written by the blocks and the zero runs of an encoding are those of the array.\<close>

lemma set_chunk_writes:
  "set (chunk_writes k off sp) =
     (\<Union>e \<in> set (dense sp). set (block_writes off e)) \<union>
     (case zeros sp of Some z \<Rightarrow> if k = PlainArr then (\<Union>e \<in> set z. set (zero_writes off e)) else {}
      | None \<Rightarrow> {})"
  by (cases "zeros sp"; cases k) (auto simp: chunk_writes_def)

lemma fst_chunk_writes:
  fixes sp :: "('a::zero, 'b) sparr_scheme"
  shows "p \<in> fst ` set (chunk_writes k off sp) \<longleftrightarrow>
     (\<exists>e \<in> set (dense sp). p \<in> fst ` set (block_writes off e)) \<or>
     (k = PlainArr \<and> (\<exists>z. zeros sp = Some z \<and> (\<exists>e \<in> set z. p \<in> fst ` set (zero_writes off e :: (nat \<times> 'a) list))))"
  by (cases "zeros sp"; cases k)
     (simp_all add: set_chunk_writes image_Un image_UN del: split_paired_Ex)

lemma chunk_writes_agree:
  assumes "(p, v) \<in> set (chunk_writes k off sp)"
    and "\<And>e. e \<in> set (dense sp) \<Longrightarrow> block_of arr (fst e) (snd e) \<and> off \<le> fst e"
    and "\<And>z e. zeros sp = Some z \<Longrightarrow> e \<in> set z \<Longrightarrow> zeros_of arr (fst e) (snd e) \<and> off \<le> fst e"
  shows "v = arr ! (off + p)"
proof -
  from assms(1) consider e where "e \<in> set (dense sp)" "(p, v) \<in> set (block_writes off e)"
    | z e where "zeros sp = Some z" "e \<in> set z" "(p, v) \<in> set (zero_writes off e)"
    by (cases "zeros sp") (auto simp: set_chunk_writes simp del: split_paired_All split: if_splits)
  then show ?thesis
    using assms(2,3) block_writes_agree zero_writes_agree by metis
qed

lemma covers_blocks: "covers (extents d) p \<longleftrightarrow> (\<exists>e \<in> set d. fst e \<le> p \<and> p < fst e + length (snd e))"
  by (simp add: covers_def)

lemma inflateChunk_encoded:
  assumes "encodes_upto m arr (length arr) sp" and "length t = length arr"
    and "k = TypedArr \<Longrightarrow> t = replicate (length arr) 0"
  shows "inflateChunk k hole sp t 0 = arr"
  using assms(1)
proof (rule encodes_uptoE)
  fix z
  assume d: "dense_ok m arr (length arr) (dense sp)" and z: "zeros sp = Some z" "zeros_ok m arr (length arr) z"
    and cov: "\<And>p. p < length arr \<Longrightarrow> covers (extents (dense sp)) p \<or> covers z p"
  have dok: "block_of arr (fst e) (snd e)" "fst e + length (snd e) \<le> length arr" if "e \<in> set (dense sp)" for e
    using d that by (auto simp: dense_ok_def block_ok_def)
  have zok: "zeros_of arr (fst e) (snd e)" "fst e + snd e \<le> length arr" if "e \<in> set z" for e
    using z that by (auto simp: zeros_ok_def zeros_run_ok_def)
  have st: "inflateChunk k hole sp t 0 = stores (chunk_writes k 0 sp) t"
    using inflateChunk_stores [of sp 0 t k hole] dok zok assms(2) z(1) by (simp add: fits_def)
  show ?thesis
  proof (rule nth_equalityI)
    show "length (inflateChunk k hole sp t 0) = length arr"
      by (simp add: st assms(2))
    fix p
    assume "p < length (inflateChunk k hole sp t 0)"
    then have p: "p < length arr" by (simp add: st assms(2))
    have val: "stores (chunk_writes k 0 sp) t ! p =
        (if p \<in> fst ` set (chunk_writes k 0 sp) then arr ! p else t ! p)"
      using chunk_writes_agree [of _ _ k 0 sp arr] dok zok z(1) assms(2) p
      by (intro nth_stores) auto
    have "arr ! p = t ! p" if nw: "p \<notin> fst ` set (chunk_writes k 0 sp)"
    proof -
      from nw have "\<not> covers (extents (dense sp)) p"
        by (auto simp: covers_blocks fst_chunk_writes block_writes_fst)
      with cov p have c: "covers z p" by blast
      with nw z(1) have "k = TypedArr"
        by (cases k) (auto simp: covers_def fst_chunk_writes zero_writes_fst)
      moreover from c z(1) zok have "arr ! p = 0"
        by (auto simp: covers_def zeros_of_def)
      ultimately show ?thesis using assms(3) p by simp
    qed
    then show "inflateChunk k hole sp t 0 ! p = arr ! p"
      by (simp add: st val)
  qed
qed

lemma inflate_of_deflate:
  "inflate hole (deflate arr ty minBlockSize) native =
     (if \<exists>t. ty = Some t \<and> t \<in> set native then TypedArr else PlainArr, arr)"
proof -
  let ?sp = "deflate arr ty minBlockSize"
  obtain k t where kt: "allocArray hole ?sp native = (k, t)" by (cases "allocArray hole ?sp native")
  then have t: "length t = length arr" "k = TypedArr \<Longrightarrow> t = replicate (length arr) 0"
    and k: "k = (if \<exists>t. ty = Some t \<and> t \<in> set native then TypedArr else PlainArr)"
    by (auto simp: allocArray_def split: option.splits if_splits)
  have "inflateChunk k hole ?sp t 0 = arr"
    using t by (rule inflateChunk_encoded [OF deflate_encodes])
  then show ?thesis by (simp add: inflate_def kt k)
qed

section \<open>Properties of one encoded buffer\<close>

text \<open>
  C4.  Inflating what \<open>deflate\<close> produced gives the array back, whatever the block size, the
  constructor name and the table of native constructors; the result is a typed array exactly when
  the table has the recorded constructor.  (Comment of the source: \<open>inflate(deflate(arr)) == arr\<close>.)
\<close>

theorem inflate_deflate:
  "inflate hole (deflate arr ty minBlockSize) native =
     (if \<exists>t. ty = Some t \<and> t \<in> set native then TypedArr else PlainArr, arr)"
  by (rule inflate_of_deflate)

text \<open>
  The encoding respects the block size: every recorded run of zeros has at least
  \<open>minBlockSize\<close> elements (64 when none is given) and every dense block has that many, or fewer
  at the end of the array.
\<close>

lemma deflate_block_sizes:
  assumes "m = js_default 64 minBlockSize" and "sp = deflate arr ty minBlockSize"
  shows "(\<forall>(s, b) \<in> set (dense sp).
        length b = m \<or> (0 < length b \<and> length b < m \<and> s + length b = length arr)) \<and>
      (\<exists>z. zeros sp = Some z \<and> (\<forall>(s, l) \<in> set z. m \<le> l \<and> s + l \<le> length arr))"
proof -
  have "encodes_upto m arr (length arr) sp"
    unfolding assms by (rule deflate_encodes)
  then show ?thesis
    by (rule encodes_uptoE) (fastforce simp: dense_ok_def block_ok_def zeros_ok_def zeros_run_ok_def)
qed

lemma deflate_example:
  "deflate [0, 0, 7, 0, 5 :: int] None (Some 2) =
     \<lparr>dense = [(2, [7, 0]), (4, [5])], zeros = Some [(0, 2)], len = Some 5, optTypeName = None\<rparr>"
  by code_simp

text \<open>In a five-element array with blocks of two.\<close>

lemma deflate_block_sizes_example:
  "\<exists>sp. sp = deflate [0, 0, 7, 0, 5 :: int] None (Some 2) \<and>
     (4, [5]) \<in> set (dense sp) \<and> (2, [7, 0]) \<in> set (dense sp) \<and>
     (\<forall>(s, b) \<in> set (dense sp). length b = 2 \<or> (0 < length b \<and> length b < 2 \<and> s + length b = 5))"
  using deflate_block_sizes [of 2 "Some 2" _ "[0, 0, 7, 0, 5 :: int]" None, OF _ refl]
  by (simp add: deflate_example)

end
