(* ===== verification/SparseFiles.thy ===== *)
theory SparseFiles
  imports SparseCodec
begin

text \<open>
  \<open>deflateMT\<close> (\<open>src/CLRunner.js\<close>): the dense blocks of one encoded buffer are cut into
  chunks of at most \<open>minFileSize\<close> values, each written to a file of its own.  The lemmas show
  that every chunk but the last is full, that no value is lost or moved, and what the summary
  fields \<open>min\<close> and \<open>max\<close> of a chunk really hold.
\<close>

section \<open>Chunks\<close>

text \<open>
  \<open>for (j in chunk.dense)\<close> yields keys as strings; \<open>Math.min\<close> and \<open>Math.max\<close> turn
  them into numbers.  The summary fields therefore hold either.
\<close>

datatype jkey = KeyStr nat | KeyNum nat

fun key_num :: "jkey \<Rightarrow> nat" where
  "key_num (KeyStr n) = n"
| "key_num (KeyNum n) = n"

record 'a chunk = "'a sparr" +
  cmin :: "jkey option"
  cmax :: "jkey option"

definition makeChunk :: "string option \<Rightarrow> 'a sparr" where
  "makeChunk ty = \<lparr>dense = [], zeros = None, len = None, optTypeName = ty\<rparr>"

text \<open>
  The loop over the queue \<open>q\<close> of dictionaries still to be placed; \<open>prev @ [chunk]\<close> is the
  source's \<open>res\<close> and \<open>counter\<close> the values already in \<open>chunk\<close>.  The test
  \<open>counter < minFileSize\<close> of the last branch always holds
  (\<open>mt_loop_placed\<close> below starts from it and every step keeps it).
\<close>

function mt_loop :: "nat \<Rightarrow> string option \<Rightarrow> nat \<Rightarrow> 'a sparr list \<Rightarrow> 'a sparr \<Rightarrow>
    'a list dict list \<Rightarrow> 'a sparr list" where
  "mt_loop minFileSize ty counter prev chunk [] = prev @ [chunk]"
| "mt_loop minFileSize ty counter prev chunk ([] # q) = mt_loop minFileSize ty counter prev chunk q"
| "mt_loop minFileSize ty counter prev chunk (((startIdx, denseArray) # others) # q) =
     (let enqueue = map (\<lambda>e. [e]) others in
      if counter + length denseArray < minFileSize
      then mt_loop minFileSize ty (counter + length denseArray) prev
             (chunk\<lparr>dense := obj_put startIdx denseArray (dense chunk)\<rparr>) (enqueue @ q)
      else if counter < minFileSize
      then
        let cutoff = minFileSize - counter;
            pre = take cutoff denseArray;
            post = drop cutoff denseArray
        in mt_loop minFileSize ty 0 (prev @ [chunk\<lparr>dense := obj_put startIdx pre (dense chunk)\<rparr>])
             (makeChunk ty) ([(startIdx + cutoff, post)] # enqueue @ q)
      else prev @ [chunk])"
  by pat_completeness auto
termination
  by (relation "measure (\<lambda>(m, ty, c, prev, ch, q).
        sum_list (map (\<lambda>it. case it of [] \<Rightarrow> 1 | _ \<Rightarrow> sum_list (map (\<lambda>e. 2 * length (snd e) + 1) it)) q))")
     (auto simp: o_def)

text \<open>The closing pass over a chunk's keys, in enumeration order.\<close>

definition minmax_step :: "jkey option \<times> jkey option \<Rightarrow> nat \<times> 'a list \<Rightarrow> jkey option \<times> jkey option" where
  "minmax_step mm e =
     (Some (case fst mm of None \<Rightarrow> KeyStr (fst e) | Some m \<Rightarrow> KeyNum (min (key_num m) (fst e))),
      Some (case snd mm of None \<Rightarrow> KeyStr (fst e)
            | Some m \<Rightarrow> KeyNum (max (key_num m) (fst e + length (snd e)))))"

definition finish_chunk :: "'a sparr \<Rightarrow> 'a chunk" where
  "finish_chunk c =
     (let mm = foldl minmax_step (None, None) (dense c)
      in \<lparr>dense = dense c, zeros = zeros c, len = len c, optTypeName = optTypeName c,
          cmin = fst mm, cmax = snd mm\<rparr>)"

definition deflateMT :: "'a::zero list \<Rightarrow> string option \<Rightarrow> nat option \<Rightarrow> nat option \<Rightarrow> 'a chunk list" where
  "deflateMT arr ty minBlockSize minFileSize =
     (let deflated = deflate arr ty minBlockSize;
          firstChunk = deflated\<lparr>dense := []\<rparr>
      in map finish_chunk
           (mt_loop (js_default 1000 minFileSize) ty 0 [] firstChunk [dense deflated]))"

section \<open>What placing a block does to a chunk\<close>

abbreviation total_len :: "'a list dict \<Rightarrow> nat" where
  "total_len d \<equiv> sum_list (map (\<lambda>e. length (snd e)) d)"

lemma obj_put_end_cases:
  assumes "obj_keys_sorted d" and "\<And>e. e \<in> set d \<Longrightarrow> fst e + length (snd e) \<le> s"
  shows "obj_put s b d = d @ [(s, b)] \<or> (\<exists>d'. d = d' @ [(s, [])] \<and> obj_put s b d = d' @ [(s, b)])"
  using assms
proof (induction d)
  case (Cons e d)
  obtain l w where e: "e = (l, w)" by (cases e)
  have srt: "obj_keys_sorted d" and l: "\<And>f. f \<in> set d \<Longrightarrow> l < fst f"
    using Cons.prems(1) by (auto simp: e obj_keys_sorted_def)
  have lw: "l + length w \<le> s" using Cons.prems(2) [of e] by (simp add: e)
  have "d = []" if "l = s"
  proof (rule ccontr)
    assume "d \<noteq> []"
    then obtain f where f: "f \<in> set d" by (cases d) auto
    have "fst f + length (snd f) \<le> s" using Cons.prems(2) [of f] f by simp
    with l [OF f] that show False by simp
  qed
  moreover have "obj_put s b d = d @ [(s, b)] \<or> (\<exists>d'. d = d' @ [(s, [])] \<and> obj_put s b d = d' @ [(s, b)])"
    using Cons.prems(2) by (intro Cons.IH srt) simp
  ultimately show ?case
    using lw by (cases "l = s") (auto simp: e)
qed simp

lemma obj_put_end:
  assumes "obj_keys_sorted d" and "\<And>e. e \<in> set d \<Longrightarrow> fst e + length (snd e) \<le> s"
  shows "total_len (obj_put s b d) = total_len d + length b"
    and "covers (extents (obj_put s b d)) p \<longleftrightarrow> covers (extents d) p \<or> (s \<le> p \<and> p < s + length b)"
    and "set (obj_put s b d) \<subseteq> insert (s, b) (set d)"
  using obj_put_end_cases [OF assms, of b] by auto

text \<open>
  What holds between two rounds: the queue's blocks follow the chunk's in order, the counter
  counts the chunk, and every block anywhere is a slice of the array.
\<close>

definition placing :: "'a list \<Rightarrow> nat \<Rightarrow> nat \<Rightarrow> 'a sparr \<Rightarrow> 'a list dict list \<Rightarrow> bool" where
  "placing arr mfs counter chunk q \<longleftrightarrow>
     counter < mfs \<and> counter = total_len (dense chunk) \<and> obj_keys_sorted (dense chunk) \<and>
     in_order (dense chunk @ concat q) \<and>
     (\<forall>e \<in> set (dense chunk @ concat q). block_of arr (fst e) (snd e))"

definition placed :: "'a list \<Rightarrow> nat \<Rightarrow> (nat \<Rightarrow> bool) \<Rightarrow> 'a sparr list \<Rightarrow> bool" where
  "placed arr mfs P cs \<longleftrightarrow>
     (\<forall>c \<in> set cs. \<forall>e \<in> set (dense c). block_of arr (fst e) (snd e)) \<and>
     (\<forall>p. P p \<longleftrightarrow> (\<exists>c \<in> set cs. covers (extents (dense c)) p)) \<and>
     in_order (concat (map dense cs)) \<and>
     (\<forall>c \<in> set (butlast cs). total_len (dense c) = mfs) \<and> total_len (dense (last cs)) < mfs \<and> cs \<noteq> []"

lemma in_order_append: "in_order (d @ f # r) \<Longrightarrow> e \<in> set d \<Longrightarrow> fst e + length (snd e) \<le> fst f"
  by (auto simp: in_order_def sorted_wrt_append)

lemma concat_singletons [simp]: "concat (map (\<lambda>e. [e]) xs) = xs"
  by (induction xs) auto

lemma placing_skip: "placing arr mfs c ch ([] # q) \<longleftrightarrow> placing arr mfs c ch q"
  by (simp add: placing_def)

lemma in_order_put:
  assumes "obj_keys_sorted d" and "in_order (pre @ d @ (s, b) # r)" and "length b' \<le> length b"
  shows "in_order (pre @ obj_put s b' d @ r)"
proof -
  have "fst e + length (snd e) \<le> s" if "e \<in> set d" for e
    using in_order_append [of "pre @ d" "(s, b)" r e] assms(2) that by simp
  from obj_put_end_cases [OF assms(1) this, of b'] show ?thesis
    using assms(2,3) by (fastforce simp: in_order_def sorted_wrt_append)
qed

lemma in_order_put_split:
  assumes "obj_keys_sorted d" and "in_order (pre @ d @ (s, b) # r)" and "n \<le> length b"
  shows "in_order (pre @ obj_put s (take n b) d @ (s + n, drop n b) # r)"
proof -
  have "fst e + length (snd e) \<le> s" if "e \<in> set d" for e
    using in_order_append [of "pre @ d" "(s, b)" r e] assms(2) that by simp
  from obj_put_end_cases [OF assms(1) this, of "take n b"] show ?thesis
    using assms(2,3) by (fastforce simp: in_order_def sorted_wrt_append)
qed

lemma placing_fit:
  assumes "placing arr mfs c ch (((s, b) # others) # q)" and "c + length b < mfs"
  shows "placing arr mfs (c + length b) (ch\<lparr>dense := obj_put s b (dense ch)\<rparr>)
    (map (\<lambda>e. [e]) others @ q)"
    and "covers (extents (obj_put s b (dense ch))) p \<longleftrightarrow>
      covers (extents (dense ch)) p \<or> (s \<le> p \<and> p < s + length b)"
proof -
  from assms(1) have srt: "obj_keys_sorted (dense ch)"
    and ord: "in_order (dense ch @ (s, b) # others @ concat q)"
    and blk: "\<forall>e \<in> set (dense ch @ (s, b) # others @ concat q). block_of arr (fst e) (snd e)"
    by (auto simp: placing_def)
  have le: "fst e + length (snd e) \<le> s" if "e \<in> set (dense ch)" for e
    using in_order_append [OF ord that] by simp
  note put = obj_put_end [OF srt le, where b = b]
  show "covers (extents (obj_put s b (dense ch))) p \<longleftrightarrow>
      covers (extents (dense ch)) p \<or> (s \<le> p \<and> p < s + length b)"
    by (rule put(2))
  show "placing arr mfs (c + length b) (ch\<lparr>dense := obj_put s b (dense ch)\<rparr>)
      (map (\<lambda>e. [e]) others @ q)"
    using assms put(1,3) blk in_order_put [OF srt, of "[]", simplified, OF ord, of b] obj_put_sorted [OF srt, of s b]
    unfolding placing_def by auto
qed

lemma block_of_take: "block_of arr s b \<Longrightarrow> block_of arr s (take n b)"
  by (auto simp: block_of_def)

lemma block_of_drop: "block_of arr s b \<Longrightarrow> n \<le> length b \<Longrightarrow> block_of arr (s + n) (drop n b)"
  by (auto simp: block_of_def add.assoc)

lemma placing_split:
  assumes "placing arr mfs c ch (((s, b) # others) # q)" and "\<not> c + length b < mfs"
    and n: "n = mfs - c"
  shows "placing arr mfs 0 (makeChunk ty) ([(s + n, drop n b)] # map (\<lambda>e. [e]) others @ q)"
    and "covers (extents (obj_put s (take n b) (dense ch))) p \<or> (s + n \<le> p \<and> p < s + length b) \<longleftrightarrow>
      covers (extents (dense ch)) p \<or> (s \<le> p \<and> p < s + length b)"
    and "total_len (obj_put s (take n b) (dense ch)) = mfs"
    and "e \<in> set (obj_put s (take n b) (dense ch)) \<Longrightarrow> block_of arr (fst e) (snd e)"
proof -
  from assms(1) have c: "c < mfs" "c = total_len (dense ch)" and srt: "obj_keys_sorted (dense ch)"
    and ord: "in_order (dense ch @ (s, b) # others @ concat q)"
    and blk: "\<forall>e \<in> set (dense ch @ (s, b) # others @ concat q). block_of arr (fst e) (snd e)"
    by (auto simp: placing_def)
  have le: "fst e + length (snd e) \<le> s" if "e \<in> set (dense ch)" for e
    using in_order_append [OF ord that] by simp
  have n_le: "0 < n" "n \<le> length b" using assms(2) c by (auto simp: n)
  note put = obj_put_end [OF srt le, where b = "take n b"]
  show "covers (extents (obj_put s (take n b) (dense ch))) p \<or> (s + n \<le> p \<and> p < s + length b) \<longleftrightarrow>
      covers (extents (dense ch)) p \<or> (s \<le> p \<and> p < s + length b)"
    using put(2) [of p] n_le by auto
  show "total_len (obj_put s (take n b) (dense ch)) = mfs"
    using put(1) n_le c by (simp add: n)
  show "block_of arr (fst e) (snd e)" if "e \<in> set (obj_put s (take n b) (dense ch))"
    using put(3) that blk block_of_take [of arr s b n] by auto
  have "in_order ((s + n, drop n b) # others @ concat q)"
    using ord n_le by (auto simp: in_order_def sorted_wrt_append)
  then show "placing arr mfs 0 (makeChunk ty) ([(s + n, drop n b)] # map (\<lambda>e. [e]) others @ q)"
    using c blk block_of_drop [of arr s b n] n_le
    by (auto simp: placing_def makeChunk_def obj_keys_sorted_def)
qed

lemma placedI:
  assumes "placing arr mfs c ch []"
    and "\<And>d e. d \<in> set prev \<Longrightarrow> e \<in> set (dense d) \<Longrightarrow> block_of arr (fst e) (snd e)"
    and "\<And>d. d \<in> set prev \<Longrightarrow> total_len (dense d) = mfs"
    and "\<And>p. P p \<longleftrightarrow> (\<exists>d \<in> set prev. covers (extents (dense d)) p) \<or> covers (extents (dense ch)) p"
    and "in_order (concat (map dense prev) @ dense ch)"
  shows "placed arr mfs P (prev @ [ch])"
  using assms by (auto simp: placed_def placing_def)

lemma mt_loop_placed:
  assumes "placing arr mfs c ch q"
    and "\<And>d e. d \<in> set prev \<Longrightarrow> e \<in> set (dense d) \<Longrightarrow> block_of arr (fst e) (snd e)"
    and "\<And>d. d \<in> set prev \<Longrightarrow> total_len (dense d) = mfs"
    and "\<And>p. P p \<longleftrightarrow> (\<exists>d \<in> set prev. covers (extents (dense d)) p) \<or>
        covers (extents (dense ch)) p \<or> covers (extents (concat q)) p"
    and "in_order (concat (map dense prev) @ dense ch @ concat q)"
  shows "placed arr mfs P (mt_loop mfs ty c prev ch q)"
  using assms
proof (induction mfs ty c prev ch q rule: mt_loop.induct)
  case (1 mfs ty c prev ch)
  then show ?case by (auto intro!: placedI)
next
  case (2 mfs ty c prev ch q)
  then show ?case by (simp add: placing_skip)
next
  case (3 mfs ty c prev ch s b others q)
  show ?case
  proof (cases "c + length b < mfs")
    case True
    note fit = placing_fit [OF "3.prems"(1) True]
    have "placed arr mfs P (mt_loop mfs ty (c + length b) prev
        (ch\<lparr>dense := obj_put s b (dense ch)\<rparr>) (map (\<lambda>e. [e]) others @ q))"
    proof (rule "3.IH"(1) [OF refl True])
      show "in_order (concat (map dense prev) @ dense (ch\<lparr>dense := obj_put s b (dense ch)\<rparr>) @
          concat (map (\<lambda>e. [e]) others @ q))"
        using in_order_put [of "dense ch" "concat (map dense prev)" s b "others @ concat q" b] "3.prems"(1,5) by (simp add: placing_def)
    qed (use "3.prems"(2-4) fit in auto)
    with True show ?thesis
      by (subst mt_loop.simps(3)) (simp del: mt_loop.simps(3) add: Let_def)
  next
    case False
    define k where "k = mfs - c"
    note split = placing_split [OF "3.prems"(1) False k_def]
    have c: "c < mfs" using "3.prems"(1) by (simp add: placing_def)
    have k: "k \<le> length b" using False by (simp add: k_def)
    let ?full = "ch\<lparr>dense := obj_put s (take k b) (dense ch)\<rparr>"
    have "placed arr mfs P (mt_loop mfs ty 0 (prev @ [?full]) (makeChunk ty)
        ([(s + k, drop k b)] # map (\<lambda>e. [e]) others @ q))"
    proof (rule "3.IH"(2) [OF refl False c k_def refl refl])
      show "placing arr mfs 0 (makeChunk ty) ([(s + k, drop k b)] # map (\<lambda>e. [e]) others @ q)"
        by (rule split(1))
      show "block_of arr (fst e) (snd e)" if "d \<in> set (prev @ [?full])" and "e \<in> set (dense d)" for d e
        using that "3.prems"(2) split(4) by (cases "d \<in> set prev") (auto simp del: split_paired_All)
      show "total_len (dense d) = mfs" if "d \<in> set (prev @ [?full])" for d
        using that "3.prems"(3) split(3) by (cases "d \<in> set prev") auto
      show "in_order (concat (map dense (prev @ [?full])) @ dense (makeChunk ty) @
          concat ([(s + k, drop k b)] # map (\<lambda>e. [e]) others @ q))"
        using in_order_put_split [of "dense ch" "concat (map dense prev)" s b "others @ concat q" k] k "3.prems"(1,5)
        by (simp add: placing_def makeChunk_def)
      fix p
      have kb: "s + k + (length b - k) = s + length b" using k by simp
      have ex: "extents (concat ([(s + k, drop k b)] # map (\<lambda>e. [e]) others @ q)) =
          (s + k, length b - k) # extents others @ extents (concat q)"
        by simp
      have mc: "\<not> covers (extents (dense (makeChunk ty))) p" by (simp add: makeChunk_def)
      have pv: "(\<exists>d \<in> set (prev @ [?full]). covers (extents (dense d)) p) \<longleftrightarrow>
          (\<exists>d \<in> set prev. covers (extents (dense d)) p) \<or> covers (extents (obj_put s (take k b) (dense ch))) p"
        by auto
      have "P p \<longleftrightarrow> (\<exists>d \<in> set prev. covers (extents (dense d)) p) \<or>
          (covers (extents (dense ch)) p \<or> s \<le> p \<and> p < s + length b) \<or>
          covers (extents others @ extents (concat q)) p"
        unfolding "3.prems"(4) [of p] by simp
      then show "P p \<longleftrightarrow> (\<exists>d \<in> set (prev @ [?full]). covers (extents (dense d)) p) \<or>
          covers (extents (dense (makeChunk ty))) p \<or>
          covers (extents (concat ([(s + k, drop k b)] # map (\<lambda>e. [e]) others @ q))) p"
        unfolding pv ex covers_Cons kb using split(2) [of p] mc by blast
    qed
    with False c show ?thesis
      by (subst mt_loop.simps(3)) (simp del: mt_loop.simps(3) add: Let_def k_def)
  qed
qed

section \<open>The files of one buffer\<close>

lemma deflateMT_placed:
  fixes arr :: "'a::zero list"
  shows "placed arr (js_default 1000 mfs) (\<lambda>p. covers (extents (dense (deflate arr ty mb))) p)
    (mt_loop (js_default 1000 mfs) ty 0 [] (deflate arr ty mb\<lparr>dense := []\<rparr>) [dense (deflate arr ty mb)])"
proof -
  have "dense_ok (js_default 64 mb) arr (length arr) (dense (deflate arr ty mb))"
    using deflate_encodes [of mb arr ty] by (simp add: encodes_upto_def)
  then show ?thesis
    by (intro mt_loop_placed) (auto simp: placing_def dense_ok_def block_ok_def obj_keys_sorted_def)
qed

lemma finish_chunk_sel [simp]:
  "dense (finish_chunk c) = dense c" "zeros (finish_chunk c) = zeros c"
  "len (finish_chunk c) = len c" "optTypeName (finish_chunk c) = optTypeName c"
  by (simp_all add: finish_chunk_def Let_def)

definition mt_chunks :: "'a::zero list \<Rightarrow> string option \<Rightarrow> nat option \<Rightarrow> nat option \<Rightarrow> 'a sparr list" where
  "mt_chunks arr ty mb mfs =
     mt_loop (js_default 1000 mfs) ty 0 [] (deflate arr ty mb\<lparr>dense := []\<rparr>) [dense (deflate arr ty mb)]"

lemma deflateMT_eq: "deflateMT arr ty mb mfs = map finish_chunk (mt_chunks arr ty mb mfs)"
  by (simp add: deflateMT_def mt_chunks_def Let_def)

lemma map_dense_finish [simp]: "map dense (map finish_chunk cs) = map dense cs"
  by simp

text \<open>The facts about the files that the loader's lemmas use.\<close>

lemma deflateMT_block:
  "c \<in> set (deflateMT arr ty mb mfs) \<Longrightarrow> e \<in> set (dense c) \<Longrightarrow> block_of arr (fst e) (snd e)"
  using deflateMT_placed [of arr mfs ty mb]
  by (auto simp: deflateMT_eq placed_def mt_chunks_def)

lemma deflateMT_in_order: "in_order (concat (map dense (deflateMT arr ty mb mfs)))"
  using deflateMT_placed [of arr mfs ty mb]
  by (simp add: deflateMT_eq placed_def mt_chunks_def o_def)

lemma deflateMT_covers:
  assumes "p < length arr" and "arr ! p \<noteq> 0"
  shows "\<exists>c \<in> set (deflateMT arr ty mb mfs). covers (extents (dense c)) p"
proof -
  have "encodes_upto (js_default 64 mb) arr (length arr) (deflate arr ty mb)"
    by (rule deflate_encodes)
  then have "covers (extents (dense (deflate arr ty mb))) p"
  proof (rule encodes_uptoE)
    fix z
    assume z: "zeros_ok (js_default 64 mb) arr (length arr) z"
      and cov: "\<And>p. p < length arr \<Longrightarrow> covers (extents (dense (deflate arr ty mb))) p \<or> covers z p"
    have "\<not> covers z p"
      using z assms(2) by (auto simp: covers_def zeros_ok_def zeros_run_ok_def zeros_of_def)
    with cov assms(1) show ?thesis by blast
  qed
  then show ?thesis
    using deflateMT_placed [of arr mfs ty mb] by (auto simp: deflateMT_eq placed_def mt_chunks_def)
qed

lemma inflate_files_stores:
  assumes "\<And>c e. c \<in> set cs \<Longrightarrow> e \<in> set (dense c) \<Longrightarrow> block_of arr (fst e) (snd e)" and "length t = length arr"
  shows "foldl (\<lambda>t c. inflateChunk TypedArr hole c t 0) t cs = stores (concat (map (chunk_writes TypedArr 0) cs)) t"
proof (rule foldl_writes)
  fix c and t' :: "'a list"
  assume c: "c \<in> set cs" and t': "length t' = length t"
  have fits: "fits 0 (length arr) (fst e, length (snd e))" if "e \<in> set (dense c)" for e
    using assms(1) [OF c that] by (simp add: fits_def block_of_def)
  have "foldl (\<lambda>t (start, buff). foldl (\<lambda>t i. arr_store TypedArr hole t (int start + int i - 0) (buff ! i)) t
      [0..<length buff]) t' (dense c) = stores (concat (map (block_writes 0) (dense c))) t'"
    using t' assms(2) fits
    by (intro foldl_writes) (simp add: block_foldl_stores [where off = 0, simplified] case_prod_beta)
  then show "inflateChunk TypedArr hole c t' 0 = stores (chunk_writes TypedArr 0 c) t'"
    by (simp add: inflateChunk_def chunk_writes_def Let_def split: option.split)
qed

lemma nth_files_stores:
  fixes cs :: "('a::zero, 'b) sparr_scheme list"
  assumes "\<And>c e. c \<in> set cs \<Longrightarrow> e \<in> set (dense c) \<Longrightarrow> block_of arr (fst e) (snd e)" and "p < length arr"
  shows "stores (concat (map (chunk_writes TypedArr 0) cs)) (replicate (length arr) 0) ! p =
    (if \<exists>c \<in> set cs. covers (extents (dense c)) p then arr ! p else 0)"
proof -
  let ?ws = "concat (map (chunk_writes TypedArr 0) cs)"
  have "v = arr ! q" if "(q, v) \<in> set ?ws" for q v
    using that assms(1) block_writes_agree [of q v 0 _ arr]
    by (auto simp: set_chunk_writes split: option.splits)
  then have "stores ?ws (replicate (length arr) 0) ! p = (if p \<in> fst ` set ?ws then arr ! p else 0)"
    using assms(2) nth_stores [of ?ws "\<lambda>q. arr ! q"] by simp
  moreover have "p \<in> fst ` set ?ws \<longleftrightarrow> (\<exists>c \<in> set cs. p \<in> fst ` set (chunk_writes TypedArr 0 c))"
    by auto
  moreover have "p \<in> fst ` set (chunk_writes TypedArr 0 c) \<longleftrightarrow> covers (extents (dense c)) p" for c :: "('a, 'b) sparr_scheme"
    by (auto simp: fst_chunk_writes covers_blocks block_writes_fst simp del: split_paired_Ex)
  ultimately show ?thesis by simp
qed

text \<open>
  Splitting loses nothing: inflating the files of \<open>deflateMT\<close> into a zeroed typed array of
  the recorded length, in any order and any number of times each, gives the array back.
\<close>

lemma inflate_deflateMT:
  assumes "set cs = set (deflateMT arr ty minBlockSize minFileSize)"
  shows "foldl (\<lambda>t c. inflateChunk TypedArr hole c t 0) (replicate (length arr) 0) cs = arr"
proof (rule nth_equalityI)
  have blk: "\<And>c e. c \<in> set cs \<Longrightarrow> e \<in> set (dense c) \<Longrightarrow> block_of arr (fst e) (snd e)"
    unfolding assms by (rule deflateMT_block)
  have st: "foldl (\<lambda>t c. inflateChunk TypedArr hole c t 0) (replicate (length arr) 0) cs =
      stores (concat (map (chunk_writes TypedArr 0) cs)) (replicate (length arr) 0)"
    by (rule inflate_files_stores [where arr = arr]) (simp_all add: blk)
  show "length (foldl (\<lambda>t c. inflateChunk TypedArr hole c t 0) (replicate (length arr) 0) cs) = length arr"
    by (simp add: st)
  fix p
  assume "p < length (foldl (\<lambda>t c. inflateChunk TypedArr hole c t 0) (replicate (length arr) 0) cs)"
  then have p: "p < length arr" by (simp add: st)
  show "foldl (\<lambda>t c. inflateChunk TypedArr hole c t 0) (replicate (length arr) 0) cs ! p = arr ! p"
    using nth_files_stores [of cs arr p, OF blk p] deflateMT_covers [OF p, of ty minBlockSize minFileSize]
    by (auto simp: st assms)
qed

lemma deflateMT_example:
  "deflateMT [0, 0, 7, 0, 5 :: int] None (Some 2) (Some 2) =
     [\<lparr>dense = [(2, [7, 0])], zeros = Some [(0, 2)], len = Some 5, optTypeName = None,
        cmin = Some (KeyStr 2), cmax = Some (KeyStr 2)\<rparr>,
      \<lparr>dense = [(4, [5])], zeros = None, len = None, optTypeName = None,
        cmin = Some (KeyStr 4), cmax = Some (KeyStr 4)\<rparr>]"
  by code_simp

text \<open>Witness: two files of a five-element array, inflated in the other order.\<close>

lemma inflate_deflateMT_witness:
  "\<exists>cs. cs = rev (deflateMT [0, 0, 7, 0, 5 :: int] None (Some 2) (Some 2)) \<and> length cs = 2 \<and>
     foldl (\<lambda>t c. inflateChunk TypedArr 0 c t 0) (replicate (length [0, 0, 7, 0, 5 :: int]) 0) cs =
       [0, 0, 7, 0, 5]"
  by (intro exI conjI, rule refl, simp add: deflateMT_example, rule inflate_deflateMT [OF set_rev])

text \<open>
  Every file but the last holds exactly \<open>minFileSize\<close> values (1000 when none is given), the
  last one fewer, and there is at least one file.
\<close>

lemma deflateMT_file_sizes:
  assumes "cs = deflateMT arr ty minBlockSize minFileSize" and "m = js_default 1000 minFileSize"
  shows "cs \<noteq> [] \<and> (\<forall>c \<in> set (butlast cs). total_len (dense c) = m) \<and> total_len (dense (last cs)) < m"
  using deflateMT_placed [of arr minFileSize ty minBlockSize]
  by (auto simp: assms deflateMT_eq placed_def mt_chunks_def last_map simp flip: map_butlast)

text \<open>Witness: the two files of the example above.\<close>

lemma deflateMT_file_sizes_witness:
  "\<exists>cs. cs = deflateMT [0, 0, 7, 0, 5 :: int] None (Some 2) (Some 2) \<and>
     map (\<lambda>c. total_len (dense c)) cs = [2, 1] \<and>
     (\<forall>c \<in> set (butlast cs). total_len (dense c) = 2) \<and> total_len (dense (last cs)) < 2"
  using deflateMT_file_sizes [of _ "[0, 0, 7, 0, 5 :: int]" None "Some 2" "Some 2" 2, OF refl]
  by (simp add: deflateMT_example)

section \<open>The summary fields\<close>

lemma minmax_fold:
  assumes "in_order ((j, b) # es)" and "es \<noteq> []"
  shows "foldl minmax_step (Some (KeyStr j), Some (KeyStr j)) es =
    (Some (KeyNum j), Some (KeyNum (fst (last es) + length (snd (last es)))))"
  using assms
proof (induction es rule: rev_induct)
  case (snoc e es)
  have j: "j \<le> fst e" and le: "\<And>f. f \<in> set es \<Longrightarrow> fst f + length (snd f) \<le> fst e"
    using snoc.prems(1) by (auto simp: in_order_def sorted_wrt_append)
  show ?case
  proof (cases "es = []")
    case True
    with j show ?thesis by (simp add: minmax_step_def min_def max_def)
  next
    case False
    have "in_order ((j, b) # es)"
      using snoc.prems(1) by (auto simp: in_order_def sorted_wrt_append)
    with snoc.IH False have IH: "foldl minmax_step (Some (KeyStr j), Some (KeyStr j)) es =
        (Some (KeyNum j), Some (KeyNum (fst (last es) + length (snd (last es)))))"
      by simp
    have "fst (last es) + length (snd (last es)) \<le> fst e"
      using False by (intro le) simp
    with j have "minmax_step (Some (KeyNum j), Some (KeyNum (fst (last es) + length (snd (last es))))) e =
        (Some (KeyNum j), Some (KeyNum (fst e + length (snd e))))"
      by (simp add: minmax_step_def min_def max_def)
    then show ?thesis
      by (simp only: foldl_append IH foldl_Cons foldl_Nil last_snoc)
  qed
qed simp

lemma in_order_concat_elem: "in_order (concat ds) \<Longrightarrow> d \<in> set ds \<Longrightarrow> in_order d"
  by (induction ds) (auto simp: in_order_def sorted_wrt_append)

text \<open>
  What the summary of a file holds.  \<open>min\<close> is the start of its first block.  \<open>max\<close> is the
  end of its last block only when the file has two blocks or more: the first key of the loop sets
  \<open>max\<close> to the block's start, so a file of a single block records its start as its end, and both
  fields of such a file are strings.
\<close>

lemma deflateMT_summary:
  assumes "c \<in> set (deflateMT arr ty minBlockSize minFileSize)"
  shows "(cmin c, cmax c) =
    (case dense c of
       [] \<Rightarrow> (None, None)
     | [(j, b)] \<Rightarrow> (Some (KeyStr j), Some (KeyStr j))
     | (j, b) # es \<Rightarrow> (Some (KeyNum j), Some (KeyNum (fst (last es) + length (snd (last es))))))"
proof -
  have ord: "in_order (dense c)"
    using in_order_concat_elem [OF deflateMT_in_order] assms by (metis imageI set_map)
  from assms obtain c' where c: "c = finish_chunk c'" by (auto simp: deflateMT_eq)
  then have mm: "(cmin c, cmax c) = foldl minmax_step (None, None) (dense c)"
    by (simp add: finish_chunk_def Let_def)
  show ?thesis
  proof (cases "dense c")
    case Nil
    then show ?thesis by (simp add: mm)
  next
    case (Cons e es)
    obtain j b where e: "e = (j, b)" by (cases e)
    show ?thesis
    proof (cases es)
      case Nil
      then show ?thesis by (simp add: mm Cons e minmax_step_def)
    next
      case (Cons f fs)
      note es = this
      have "foldl minmax_step (Some (KeyStr j), Some (KeyStr j)) es =
          (Some (KeyNum j), Some (KeyNum (fst (last es) + length (snd (last es)))))"
        using ord es by (intro minmax_fold [where b = b]) (simp_all add: \<open>dense c = e # es\<close> e)
      moreover have "foldl minmax_step (None, None) (dense c) =
          foldl minmax_step (Some (KeyStr j), Some (KeyStr j)) es"
        by (simp add: \<open>dense c = e # es\<close> e minmax_step_def)
      ultimately show ?thesis
        using es by (simp add: mm \<open>dense c = e # es\<close> e)
    qed
  qed
qed

text \<open>
  Witness: the first file of the example holds one block, at 2 and of length 2, and records the end
  2 instead of 4.
\<close>

lemma deflateMT_summary_witness:
  "\<exists>c. c \<in> set (deflateMT [0, 0, 7, 0, 5 :: int] None (Some 2) (Some 2)) \<and>
     dense c = [(2, [7, 0])] \<and> (cmin c, cmax c) = (Some (KeyStr 2), Some (KeyStr 2))"
proof (intro exI conjI)
  let ?c = "hd (deflateMT [0, 0, 7, 0, 5 :: int] None (Some 2) (Some 2))"
  show c: "?c \<in> set (deflateMT [0, 0, 7, 0, 5 :: int] None (Some 2) (Some 2))"
    and d: "dense ?c = [(2, [7, 0])]"
    by (simp_all add: deflateMT_example)
  show "(cmin ?c, cmax ?c) = (Some (KeyStr 2), Some (KeyStr 2))"
    using deflateMT_summary [OF c] by (simp only: d list.case prod.case)
qed

end
