(* ===== verification/ParallelLoad.thy ===== *)
theory ParallelLoad
  imports SparseFiles "HOL-Library.Multiset"
begin

text \<open>
  \<open>inflateMt\<close> (\<open>src/CLRunner.js\<close>): a pool of web workers fetches the files that
  \<open>deflateMT\<close> wrote, each worker inflates one file at a time into an array of its own and posts it
  back, and the main thread copies it into the runner's buffers.  The order in which the workers
  answer is not determined; it is the nondeterminism of the step relation below.  The lemmas show
  that every interleaving ends with the buffers complete and one call of the callback, and that a
  single file that cannot be loaded leaves the callback uncalled for ever.

  The network and the parser of the standard library are the argument \<open>fetch\<close>.
\<close>

section \<open>The worker\<close>

record 'a nfile = "'a chunk" +
  nfo :: string

text \<open>What the request for a file ends in; \<open>Failed\<close> is any status but 200.\<close>

datatype 'f response = Failed | Unparsable | Parsed 'f

datatype 'a wmsg =
    Inflated string nat nat "'a list"
  | WErr

definition wmin_step :: "nat option \<times> nat \<Rightarrow> nat \<times> 'a list \<Rightarrow> nat option \<times> nat" where
  "wmin_step mm e =
     (Some (case fst mm of None \<Rightarrow> fst e | Some m \<Rightarrow> min m (fst e)), max (snd mm) (fst e + length (snd e)))"

text \<open>\<open>min\<close> starts at \<open>Number.MAX_VALUE\<close>, here \<open>None\<close>, and becomes 0 when no block lowered it.\<close>

definition worker_bounds :: "'a list dict \<Rightarrow> nat \<times> nat" where
  "worker_bounds d =
     (let mm = foldl wmin_step (None, 0) d
      in (case fst mm of None \<Rightarrow> 0 | Some m \<Rightarrow> m, snd mm))"

definition worker_types :: "string list" where
  "worker_types = [''Int32Array'', ''Float32Array'']"

definition worker_onmessage :: "'a::zero nfile response \<Rightarrow> 'a wmsg option" where
  "worker_onmessage r =
     (case r of
        Failed \<Rightarrow> None
      | Unparsable \<Rightarrow> Some WErr
      | Parsed spArr \<Rightarrow>
          let (mn, mx) = worker_bounds (dense spArr); l = mx - mn
          in case optTypeName spArr of
               None \<Rightarrow> Some WErr
             | Some ty \<Rightarrow>
                 if ty \<in> set worker_types
                 then Some (Inflated (nfo spArr) mn mx (inflateChunk TypedArr 0 spArr (replicate l 0) (int mn)))
                 else Some WErr)"

section \<open>The main thread\<close>

text \<open>
  \<open>Stalled\<close>: the handler threw, so the worker got neither a next file nor \<open>terminate\<close>.
  \<open>gpuq\<close> logs the writes enqueued for the GPU: buffer, byte offset, byte length, data.
\<close>

datatype wstate = Busy string | Terminated | Stalled

record 'a pool =
  urls :: "string list"
  workers :: "wstate list"
  arrays :: "string \<rightharpoonup> akind \<times> 'a list"
  gpuq :: "(string \<times> nat \<times> nat \<times> 'a list) list"
  ready :: nat
  called :: nat

text \<open>\<open>dest.set(src, off)\<close>; a plain array has no such method, and a write past the end throws.\<close>

definition typed_set :: "akind \<times> 'a list \<Rightarrow> 'a list \<Rightarrow> nat \<Rightarrow> 'a list option" where
  "typed_set dest src off =
     (if fst dest = TypedArr \<and> off + length src \<le> length (snd dest)
      then Some (take off (snd dest) @ src @ drop (off + length src) (snd dest))
      else None)"

definition count_ready :: "nat \<Rightarrow> 'a pool \<Rightarrow> 'a pool" where
  "count_ready nfiles st =
     st\<lparr>ready := ready st + 1, called := called st + (if ready st + 1 = nfiles then 1 else 0)\<rparr>"

text \<open>
  The callback of the pool; \<open>None\<close> in the second component is a thrown exception.  An error
  message has no \<open>nfo\<close>, so it throws as soon as it is read; the elements of both array types
  have four bytes.
\<close>

definition reduce_chunk :: "bool \<Rightarrow> bool \<Rightarrow> nat \<Rightarrow> 'a wmsg \<Rightarrow> 'a pool \<Rightarrow> 'a pool \<times> unit option" where
  "reduce_chunk intoGPU intoCPU nfiles m st =
     (case m of
        WErr \<Rightarrow> if intoGPU \<or> intoCPU then (st, None) else (count_ready nfiles st, Some ())
      | Inflated lbl start e d \<Rightarrow>
          let st1 = (if intoGPU
                     then st\<lparr>gpuq := gpuq st @ [(''cl_'' @ lbl, start * 4, length d * 4, d)]\<rparr>
                     else st)
          in if \<not> intoCPU then (count_ready nfiles st1, Some ())
             else case arrays st1 lbl of
                    None \<Rightarrow> (st1, None)
                  | Some a \<Rightarrow>
                      (case typed_set a d start of
                         None \<Rightarrow> (st1, None)
                       | Some b \<Rightarrow>
                           (count_ready nfiles (st1\<lparr>arrays := (arrays st1)(lbl \<mapsto> (TypedArr, b))\<rparr>), Some ())))"

definition toUrl :: "string \<Rightarrow> string \<Rightarrow> string" where
  "toUrl rootFile uniqueID = split_first ''.json'' rootFile @ uniqueID @ ''.json''"

definition on_message ::
    "string \<Rightarrow> bool \<Rightarrow> bool \<Rightarrow> nat \<Rightarrow> nat \<Rightarrow> 'a wmsg \<Rightarrow> 'a pool \<Rightarrow> 'a pool" where
  "on_message rootFile intoGPU intoCPU nfiles w m st =
     (let (st', ok) = reduce_chunk intoGPU intoCPU nfiles m st
      in case ok of
           None \<Rightarrow> st'\<lparr>workers := (workers st')[w := Stalled]\<rparr>
         | Some _ \<Rightarrow>
             (case urls st' of
                [] \<Rightarrow> st'\<lparr>workers := (workers st')[w := Terminated]\<rparr>
              | u # us \<Rightarrow> st'\<lparr>workers := (workers st')[w := Busy (toUrl rootFile u)], urls := us\<rparr>))"

text \<open>What \<open>data\<close>, the digest file, says: the labels, the allocation of each, the files.\<close>

record 'a digest =
  bufferLabels :: "string list"
  buffersInfo :: "string \<rightharpoonup> 'a sparr"
  summary :: "string list"

text \<open>
  The state \<open>inflateMt\<close> leaves when it returns, before any message is delivered; \<open>None\<close> is
  the exception of a label without information.
\<close>

definition alloc_buffer :: "'a::zero digest \<Rightarrow> string list \<Rightarrow> (string \<rightharpoonup> akind \<times> 'a list) option
    \<Rightarrow> string \<Rightarrow> (string \<rightharpoonup> akind \<times> 'a list) option" where
  "alloc_buffer data nativeConstructors this lbl =
     (case (this, buffersInfo data lbl) of
        (Some t, Some nf) \<Rightarrow> Some (t(lbl \<mapsto> allocArray 0 nf nativeConstructors))
      | _ \<Rightarrow> None)"

definition inflateMt :: "string \<Rightarrow> 'a::zero digest \<Rightarrow> string list \<Rightarrow> nat option
    \<Rightarrow> (string \<rightharpoonup> akind \<times> 'a list) \<Rightarrow> 'a pool option" where
  "inflateMt file data nativeConstructors maxNumWorkers this =
     (let numLaunch = min (js_default 4 maxNumWorkers) (length (summary data))
      in map_option (\<lambda>t.
           \<lparr>urls = drop numLaunch (summary data),
            workers = map (\<lambda>u. Busy (toUrl file u)) (take numLaunch (summary data)),
            arrays = t, gpuq = [], ready = 0, called = 0\<rparr>)
         (foldl (alloc_buffer data nativeConstructors) (Some this) (bufferLabels data)))"

text \<open>One message of one busy worker is delivered.  A worker whose request failed posts none.\<close>

inductive pool_step :: "(string \<Rightarrow> 'a::zero nfile response) \<Rightarrow> string \<Rightarrow> bool \<Rightarrow> bool \<Rightarrow> nat
    \<Rightarrow> 'a pool \<Rightarrow> 'a pool \<Rightarrow> bool"
  for fetch rootFile intoGPU intoCPU nfiles where
  deliver: "w < length (workers st) \<Longrightarrow> workers st ! w = Busy u \<Longrightarrow>
    worker_onmessage (fetch u) = Some m \<Longrightarrow>
    pool_step fetch rootFile intoGPU intoCPU nfiles st (on_message rootFile intoGPU intoCPU nfiles w m st)"

inductive_simps pool_step_iff: "pool_step fetch rootFile intoGPU intoCPU nfiles st st'"

section \<open>What a worker posts\<close>

lemma wmin_fold:
  "foldl wmin_step (Some a, b) d =
     (Some (foldl (\<lambda>m e. min m (fst e)) a d), foldl (\<lambda>m e. max m (fst e + length (snd e))) b d)"
  by (induction d arbitrary: a b) (auto simp: wmin_step_def)

lemma foldl_min_le: "foldl (\<lambda>m e. min m (f e)) (a :: nat) d \<le> a \<and>
    (\<forall>e \<in> set d. foldl (\<lambda>m e. min m (f e)) a d \<le> f e)"
proof (induction d arbitrary: a)
  case (Cons x d)
  show ?case using Cons [of "min a (f x)"] by auto
qed simp

lemma foldl_min_in: "foldl (\<lambda>m e. min m (f e)) (a :: nat) d \<in> insert a (f ` set d)"
proof (induction d arbitrary: a)
  case (Cons x d)
  show ?case using Cons [of "min a (f x)"] by (auto simp: min_def split: if_splits)
qed simp

lemma foldl_max_ge: "a \<le> foldl (\<lambda>m e. max m (f e)) (a :: nat) d \<and>
    (\<forall>e \<in> set d. f e \<le> foldl (\<lambda>m e. max m (f e)) a d)"
proof (induction d arbitrary: a)
  case (Cons x d)
  show ?case using Cons [of "max a (f x)"] by auto
qed simp

lemma foldl_max_in: "foldl (\<lambda>m e. max m (f e)) (a :: nat) d \<in> insert a (f ` set d)"
proof (induction d arbitrary: a)
  case (Cons x d)
  show ?case using Cons [of "max a (f x)"] by (auto simp: max_def split: if_splits)
qed simp

lemma worker_bounds_Cons:
  "worker_bounds (e # d) =
     (foldl (\<lambda>m e. min m (fst e)) (fst e) d,
      foldl (\<lambda>m e. max m (fst e + length (snd e))) (fst e + length (snd e)) d)"
  by (simp add: worker_bounds_def wmin_step_def wmin_fold)

lemma worker_bounds_block:
  assumes "e \<in> set d"
  shows "fst (worker_bounds d) \<le> fst e" and "fst e + length (snd e) \<le> snd (worker_bounds d)"
  using assms foldl_min_le [of fst] foldl_max_ge [where f = "\<lambda>e. fst e + length (snd e)"]
  by (cases d; fastforce simp: worker_bounds_Cons)+

lemma image_insertD: "m \<in> insert (f x) (f ` A) \<Longrightarrow> \<exists>e \<in> insert x A. f e = m"
  by auto

lemma worker_bounds_reached:
  assumes "d \<noteq> []"
  shows "\<exists>e \<in> set d. fst e = fst (worker_bounds d)"
    and "\<exists>e \<in> set d. fst e + length (snd e) = snd (worker_bounds d)"
proof -
  obtain x xs where d: "d = x # xs" using assms by (cases d) auto
  show "\<exists>e \<in> set d. fst e = fst (worker_bounds d)"
    unfolding d worker_bounds_Cons fst_conv list.set by (rule image_insertD [OF foldl_min_in])
  show "\<exists>e \<in> set d. fst e + length (snd e) = snd (worker_bounds d)"
    unfolding d worker_bounds_Cons snd_conv list.set
    by (rule image_insertD [of _ "\<lambda>e. fst e + length (snd e)", OF foldl_max_in])
qed

lemma worker_bounds_le: "fst (worker_bounds d) \<le> snd (worker_bounds d)"
proof (cases d)
  case (Cons x xs)
  then show ?thesis using worker_bounds_block [of x d] by simp
qed (simp add: worker_bounds_def)

lemma in_order_concat_sep:
  assumes "in_order (concat ds)" and "d \<in> set ds" and "d2 \<in> set ds" and "e2 \<in> set d2"
  shows "d2 = d \<or> (\<forall>e \<in> set d. fst e2 + length (snd e2) \<le> fst e) \<or>
    (\<forall>e \<in> set d. fst e + length (snd e) \<le> fst e2)"
  using assms
proof (induction ds)
  case (Cons x ds)
  have sep: "\<And>e f. e \<in> set x \<Longrightarrow> f \<in> set (concat ds) \<Longrightarrow> fst e + length (snd e) \<le> fst f"
    and ord: "in_order (concat ds)"
    using Cons.prems(1) by (auto simp: in_order_def sorted_wrt_append)
  show ?case
  proof (cases "d \<in> set ds \<and> d2 \<in> set ds")
    case True
    with ord Cons.IH Cons.prems(4) show ?thesis by blast
  next
    case False
    with Cons.prems(2,3,4) sep show ?thesis by (fastforce simp del: split_paired_All)
  qed
qed simp

lemma inflateChunk_typed_zeros:
  "inflateChunk TypedArr hole sp t off = inflateChunk TypedArr hole (sp\<lparr>zeros := None\<rparr>) t off"
  by (simp add: inflateChunk_def Let_def split: option.split)

text \<open>Between two blocks of one file the array is zero: the blocks of other files lie outside.\<close>

lemma deflateMT_gap_zero:
  assumes "c \<in> set (deflateMT arr ty mb mf)" and "p < length arr"
    and "fst (worker_bounds (dense c)) \<le> p" and "p < snd (worker_bounds (dense c))"
    and "\<not> covers (extents (dense c)) p"
  shows "arr ! p = 0"
proof (rule ccontr)
  let ?ds = "map dense (deflateMT arr ty mb mf)"
  assume "arr ! p \<noteq> 0"
  then obtain c2 where c2: "c2 \<in> set (deflateMT arr ty mb mf)" "covers (extents (dense c2)) p"
    using deflateMT_covers [OF assms(2)] by metis
  then obtain e2 where e2: "e2 \<in> set (dense c2)" "fst e2 \<le> p" "p < fst e2 + length (snd e2)"
    by (auto simp: covers_blocks simp del: split_paired_Ex)
  have "dense c \<noteq> []" using assms(4) by (auto simp: worker_bounds_def)
  then obtain l h where l: "l \<in> set (dense c)" "fst l = fst (worker_bounds (dense c))"
    and h: "h \<in> set (dense c)" "fst h + length (snd h) = snd (worker_bounds (dense c))"
    using worker_bounds_reached by metis
  from in_order_concat_sep [OF deflateMT_in_order _ _ e2(1), of "dense c" arr ty mb mf] assms(1) c2(1)
  consider "dense c2 = dense c" | "fst e2 + length (snd e2) \<le> fst l" | "fst h + length (snd h) \<le> fst e2"
    using l(1) h(1) by (auto simp del: split_paired_All)
  then show False
    using assms(3-5) c2(2) l(2) h(2) e2 by cases auto
qed

lemma worker_slice_values:
  assumes "c \<in> set (deflateMT arr ty mb mf)" and "dense sp = dense c"
    and "worker_bounds (dense c) = (mn, mx)"
  shows "mx \<le> length arr \<and>
    inflateChunk TypedArr 0 sp (replicate (mx - mn) 0) (int mn) = take (mx - mn) (drop mn arr)"
proof -
  let ?sp = "sp\<lparr>zeros := None\<rparr>"
  let ?ws = "chunk_writes TypedArr mn ?sp"
  have blk: "block_of arr (fst e) (snd e)" "mn \<le> fst e" "fst e + length (snd e) \<le> mx"
    if "e \<in> set (dense c)" for e
    using deflateMT_block [OF assms(1) that] worker_bounds_block [OF that] assms(3) by auto
  have mx: "mx \<le> length arr"
  proof (cases "dense c = []")
    case True
    with assms(3) show ?thesis by (simp add: worker_bounds_def)
  next
    case False
    then obtain e where "e \<in> set (dense c)" "fst e + length (snd e) = mx"
      using worker_bounds_reached(2) assms(3) by (metis snd_conv)
    with blk(1) show ?thesis by (auto simp: block_of_def)
  qed
  have eq: "inflateChunk TypedArr 0 sp (replicate (mx - mn) 0) (int mn) = stores ?ws (replicate (mx - mn) 0)"
    unfolding inflateChunk_typed_zeros [of 0 sp]
  proof (rule inflateChunk_stores)
    fix e assume "e \<in> set (dense ?sp)"
    then show "fits mn (length (replicate (mx - mn) (0::'a))) (fst e, length (snd e))"
      using blk(2,3) [of e] by (simp add: assms(2) fits_def)
  qed simp
  have "stores ?ws (replicate (mx - mn) 0) ! p = arr ! (mn + p)" if p: "p < mx - mn" for p
  proof -
    have agree: "v = arr ! (mn + q)" if "(q, v) \<in> set ?ws" for q v
      using that blk(1,2) by (intro chunk_writes_agree [where arr = arr and sp = ?sp]) (auto simp: assms(2))
    have "stores ?ws (replicate (mx - mn) 0) ! p = (if p \<in> fst ` set ?ws then arr ! (mn + p) else 0)"
      using p nth_stores [of ?ws "\<lambda>q. arr ! (mn + q)" p "replicate (mx - mn) 0"] agree by simp
    moreover have "arr ! (mn + p) = 0" if "p \<notin> fst ` set ?ws"
    proof (rule deflateMT_gap_zero [OF assms(1)])
      show "\<not> covers (extents (dense c)) (mn + p)"
        using that blk(2) by (auto simp: fst_chunk_writes covers_blocks assms(2) block_writes_fst)
    qed (use p mx assms(3) in auto)
    ultimately show ?thesis by auto
  qed
  then show ?thesis
    using mx by (intro conjI mx) (simp only: eq, rule nth_equalityI, auto)
qed

lemma mt_loop_type:
  "(\<forall>c \<in> set prev. optTypeName c = ty) \<Longrightarrow> optTypeName chunk = ty \<Longrightarrow>
   \<forall>c \<in> set (mt_loop mfs ty counter prev chunk q). optTypeName c = ty"
proof (induction mfs ty counter prev chunk q rule: mt_loop.induct)
  case (3 mfs ty counter prev chunk startIdx denseArray others q)
  then show ?case by (subst mt_loop.simps(3)) (auto simp: Let_def makeChunk_def simp del: mt_loop.simps)
qed auto

lemma deflateMT_type: "c \<in> set (deflateMT arr ty mb mf) \<Longrightarrow> optTypeName c = ty"
proof -
  assume "c \<in> set (deflateMT arr ty mb mf)"
  then obtain c' where c': "c = finish_chunk c'"
      "c' \<in> set (mt_loop (js_default 1000 mf) ty 0 [] (deflate arr ty mb\<lparr>dense := []\<rparr>) [dense (deflate arr ty mb)])"
    by (auto simp: deflateMT_def Let_def)
  have "optTypeName c' = ty"
    using mt_loop_type [of "[]" ty "deflate arr ty mb\<lparr>dense := []\<rparr>"] c'(2)
    by (auto simp: deflate_def deflate_loop_type)
  then show ?thesis by (simp add: c'(1) finish_chunk_def Let_def)
qed

lemma truncate_sel [simp]:
  "dense (chunk.truncate c) = dense c" "optTypeName (chunk.truncate c) = optTypeName c"
  by (simp_all add: chunk.defs)

text \<open>
  For a file that \<open>deflateMT\<close> wrote, the worker posts the slice of the original buffer from
  the start of the file's first block to the end of its last one, the zeros between its blocks
  included, although it reads neither the \<open>zeros\<close> nor the \<open>min\<close> and \<open>max\<close> of the file.
\<close>

lemma worker_posts_slice:
  assumes "chunk.truncate c \<in> set (deflateMT arr (Some ty) mb mf)" and "ty \<in> set worker_types"
  shows "\<exists>s e. worker_onmessage (Parsed c) = Some (Inflated (nfo c) s e (take (e - s) (drop s arr))) \<and>
    s \<le> e \<and> e \<le> length arr \<and> (\<forall>p. covers (extents (dense c)) p \<longrightarrow> s \<le> p \<and> p < e)"
proof -
  obtain mn mx where b: "worker_bounds (dense c) = (mn, mx)" by (cases "worker_bounds (dense c)")
  have "mx \<le> length arr \<and>
      inflateChunk TypedArr 0 c (replicate (mx - mn) 0) (int mn) = take (mx - mn) (drop mn arr)"
    by (rule worker_slice_values [OF assms(1)]) (simp_all add: b)
  moreover have "optTypeName c = Some ty" using deflateMT_type [OF assms(1)] by simp
  moreover have "mn \<le> p \<and> p < mx" if "covers (extents (dense c)) p" for p
  proof -
    from that obtain e where "e \<in> set (dense c)" "fst e \<le> p" "p < fst e + length (snd e)"
      by (auto simp: covers_blocks simp del: split_paired_Ex)
    with worker_bounds_block [of e "dense c"] b show ?thesis by simp
  qed
  ultimately show ?thesis
    using assms(2) worker_bounds_le [of "dense c"] by (auto simp: worker_onmessage_def b Let_def)
qed

text \<open>Witness: the two blocks of a five-element array with a zero between them, in one file.\<close>

lemma worker_posts_slice_witness:
  "\<exists>c. chunk.truncate c \<in> set (deflateMT [0, 7, 0, 0, 5 :: int] (Some ''Int32Array'') (Some 1) (Some 9)) \<and>
     worker_onmessage (Parsed c) = Some (Inflated ''b'' 1 5 [7, 0, 0, 5])"
proof -
  let ?c = "\<lparr>dense = [(1, [7]), (4, [5])], zeros = Some [(0, 1), (2, 2)], len = Some 5,
    optTypeName = Some ''Int32Array'', cmin = Some (KeyNum 1), cmax = Some (KeyNum 5), nfo = ''b''\<rparr> :: int nfile"
  have m: "chunk.truncate ?c \<in> set (deflateMT [0, 7, 0, 0, 5 :: int] (Some ''Int32Array'') (Some 1) (Some 9))"
    by code_simp
  have b: "worker_bounds (dense ?c) = (1, 5)" by code_simp
  have "\<exists>s e. worker_onmessage (Parsed ?c) = Some (Inflated ''b'' s e (take (e - s) (drop s [0, 7, 0, 0, 5]))) \<and>
      s \<le> e \<and> e \<le> 5"
    using worker_posts_slice [OF m] by (auto simp: worker_types_def)
  then have "worker_onmessage (Parsed ?c) = Some (Inflated ''b'' 1 5 [7, 0, 0, 5])"
    using b by (auto simp: worker_onmessage_def worker_types_def)
  with m show ?thesis by blast
qed

section \<open>Counting the files\<close>

definition busy :: "wstate list \<Rightarrow> string list" where
  "busy ws = concat (map (\<lambda>w. case w of Busy u \<Rightarrow> [u] | _ \<Rightarrow> []) ws)"

lemma busy_simps [simp]:
  "busy [] = []" "busy (Busy u # ws) = u # busy ws" "busy (Terminated # ws) = busy ws"
  "busy (Stalled # ws) = busy ws" "busy (xs @ ys) = busy xs @ busy ys"
  by (simp_all add: busy_def)

lemma busy_launch [simp]: "busy (map (\<lambda>u. Busy (f u)) us) = map f us"
  by (induction us) simp_all

lemma busy_update:
  assumes "w < length ws" and "ws ! w = Busy u"
  shows "add_mset u (mset (busy (ws[w := x]))) = mset (busy [x]) + mset (busy ws)"
proof -
  have ws: "ws = take w ws @ Busy u # drop (Suc w) ws"
    using id_take_nth_drop [OF assms(1)] assms(2) by simp
  have l: "length (take w ws) = w" using assms(1) by simp
  have "ws[w := x] = take w ws @ x # drop (Suc w) ws"
    using upd_conv_take_nth_drop [OF assms(1)] by simp
  then have "mset (busy (ws[w := x])) = mset (busy (take w ws)) + (mset (busy [x]) + mset (busy (drop (Suc w) ws)))"
    by (cases x) simp_all
  moreover have "mset (busy ws) = mset (busy (take w ws)) + add_mset u (mset (busy (drop (Suc w) ws)))"
    by (subst ws) simp
  ultimately show ?thesis by simp
qed

lemma busy_nth: "u \<in> set (busy ws) \<longleftrightarrow> (\<exists>w < length ws. ws ! w = Busy u)"
  by (fastforce simp: busy_def in_set_conv_nth split: wstate.splits)

lemma reduce_chunk_cases:
  assumes "reduce_chunk intoGPU intoCPU n m st = (st', ok)"
  shows "urls st' = urls st \<and> workers st' = workers st \<and>
    (ok = None \<and> ready st' = ready st \<and> called st' = called st \<or>
     ok = Some () \<and> (intoGPU \<or> intoCPU \<longrightarrow> m \<noteq> WErr) \<and> ready st' = ready st + 1 \<and>
       called st' = called st + (if ready st + 1 = n then 1 else 0))"
  using assms
  by (auto simp: reduce_chunk_def Let_def count_ready_def split: wmsg.splits if_splits option.splits)

text \<open>What one delivered message does to the files still to come and to the counters.\<close>

lemma on_message_counts:
  assumes "w < length (workers st)" and "workers st ! w = Busy u"
    and st': "st' = on_message file intoGPU intoCPU n w m st"
  obtains (stalled) "mset (busy (workers st')) \<subseteq># mset (busy (workers st))" "urls st' = urls st"
      "ready st' = ready st" "called st' = called st"
  | (counted) "add_mset u (mset (busy (workers st')) + mset (map (toUrl file) (urls st'))) =
        mset (busy (workers st)) + mset (map (toUrl file) (urls st))"
      "urls st' \<noteq> [] \<Longrightarrow> busy (workers st') \<noteq> []"
      "ready st' = ready st + 1" "called st' = called st + (if ready st + 1 = n then 1 else 0)"
      "intoGPU \<or> intoCPU \<Longrightarrow> m \<noteq> WErr"
proof -
  obtain s ok where r: "reduce_chunk intoGPU intoCPU n m st = (s, ok)"
    by (cases "reduce_chunk intoGPU intoCPU n m st")
  note rc = reduce_chunk_cases [OF r]
  note upd = busy_update [OF assms(1,2)]
  show thesis
  proof (cases ok)
    case None
    have "mset (busy ((workers st)[w := Stalled])) \<subseteq># mset (busy (workers st))"
      using upd [of Stalled] by (metis add_mset_add_single busy_simps(1,4) empty_neutral(1) mset.simps(1)
          mset_subset_eq_add_left)
    then show thesis
      using rc None by (intro stalled) (simp_all add: st' on_message_def r)
  next
    case (Some x)
    show thesis
    proof (cases "urls st")
      case Nil
      show thesis
        using rc Some Nil upd [of Terminated] by (intro counted) (simp_all add: st' on_message_def r)
    next
      case (Cons v vs)
      have "busy ((workers st)[w := Busy (toUrl file v)]) \<noteq> []"
        using busy_nth [of "toUrl file v" "(workers st)[w := Busy (toUrl file v)]"] assms(1) by force
      then show thesis
        using rc Some Cons upd [of "Busy (toUrl file v)"]
        by (intro counted) (simp_all add: st' on_message_def r)
    qed
  qed
qed

lemma inflateMt_start:
  assumes "inflateMt file data ctors mw this = Some st"
  shows "mset (busy (workers st)) + mset (map (toUrl file) (urls st)) = mset (map (toUrl file) (summary data))"
    and "ready st = 0" and "called st = 0"
    and "urls st \<noteq> [] \<Longrightarrow> busy (workers st) \<noteq> []"
    and "foldl (alloc_buffer data ctors) (Some this) (bufferLabels data) = Some (arrays st)"
    and "gpuq st = []"
proof -
  let ?k = "min (js_default 4 mw) (length (summary data))"
  have "map (toUrl file) (take ?k (summary data)) @ map (toUrl file) (drop ?k (summary data)) =
      map (toUrl file) (summary data)"
    by (simp flip: map_append)
  then have "mset (map (toUrl file) (take ?k (summary data))) + mset (map (toUrl file) (drop ?k (summary data))) =
      mset (map (toUrl file) (summary data))"
    by (metis mset_append)
  then show "mset (busy (workers st)) + mset (map (toUrl file) (urls st)) = mset (map (toUrl file) (summary data))"
    using assms by (auto simp: inflateMt_def Let_def)
  show "ready st = 0" "called st = 0" "gpuq st = []"
    and "foldl (alloc_buffer data ctors) (Some this) (bufferLabels data) = Some (arrays st)"
    using assms by (auto simp: inflateMt_def Let_def)
  show "busy (workers st) \<noteq> []" if "urls st \<noteq> []"
    using assms that by (auto simp: inflateMt_def Let_def)
qed

text \<open>At any moment the files counted as ready were loaded without an error.\<close>

definition counted_files :: "(string \<Rightarrow> 'a::zero nfile response) \<Rightarrow> string \<Rightarrow> string list \<Rightarrow> string list
    \<Rightarrow> 'a pool \<Rightarrow> bool" where
  "counted_files fetch file ids hs st \<longleftrightarrow>
     mset hs + (mset (busy (workers st)) + mset (map (toUrl file) (urls st))) \<subseteq># mset (map (toUrl file) ids) \<and>
     ready st = length hs \<and> (\<forall>u \<in> set hs. worker_onmessage (fetch u) \<notin> {None, Some WErr}) \<and>
     called st = (if length ids \<le> length hs \<and> ids \<noteq> [] then 1 else 0)"

lemma counted_files_step:
  assumes "counted_files fetch file ids hs st" and "intoGPU \<or> intoCPU"
    and "pool_step fetch file intoGPU intoCPU (length ids) st st'"
  shows "\<exists>hs'. counted_files fetch file ids hs' st'"
  using assms(3)
proof cases
  case (deliver w u m)
  show ?thesis
  proof (rule on_message_counts [OF deliver(2,3,1)], goal_cases)
    case 1
    note stalled = 1
    have "mset hs + (mset (busy (workers st')) + mset (map (toUrl file) (urls st'))) \<subseteq>#
        mset hs + (mset (busy (workers st)) + mset (map (toUrl file) (urls st)))"
      using stalled(1,2) by simp
    also have "\<dots> \<subseteq># mset (map (toUrl file) ids)"
      using assms(1) by (simp add: counted_files_def)
    finally have "counted_files fetch file ids hs st'"
      using assms(1) stalled by (simp add: counted_files_def)
    then show ?thesis ..
  next
    case 2
    note counted = 2
    have "u \<in> set (busy (workers st))" using deliver(2,3) busy_nth by blast
    then have "0 < length (busy (workers st))" by (rule length_pos_if_in_set)
    moreover have "length hs + (length (busy (workers st)) + length (urls st)) \<le> length ids"
      using assms(1) size_mset_mono unfolding counted_files_def by fastforce
    ultimately have lt: "length hs < length ids" by linarith
    have "mset (hs @ [u]) + (mset (busy (workers st')) + mset (map (toUrl file) (urls st'))) =
        mset hs + (mset (busy (workers st)) + mset (map (toUrl file) (urls st)))"
      using counted(1) by simp
    also have "\<dots> \<subseteq># mset (map (toUrl file) ids)"
      using assms(1) by (simp add: counted_files_def)
    finally have sub: "mset (hs @ [u]) + (mset (busy (workers st')) + mset (map (toUrl file) (urls st'))) \<subseteq>#
        mset (map (toUrl file) ids)" .
    have "counted_files fetch file ids (hs @ [u]) st'"
      unfolding counted_files_def
      using assms(1) counted(3,4) counted(5) [OF assms(2)] deliver(4) lt
      by (intro conjI sub) (auto simp: counted_files_def)
    then show ?thesis ..
  qed
qed

text \<open>
  C14.  One file that cannot be loaded, because the request fails, because its text does not parse
  or because its type is neither \<open>Int32Array\<close> nor \<open>Float32Array\<close>, and the callback of
  \<open>inflateMt\<close> is never called, whatever the other workers do.
\<close>

theorem lost_file_no_callback:
  assumes "inflateMt file data ctors mw this = Some st0" and "intoGPU \<or> intoCPU"
    and "ident \<in> set (summary data)" and "worker_onmessage (fetch (toUrl file ident)) \<in> {None, Some WErr}"
    and "(pool_step fetch file intoGPU intoCPU (length (summary data)))\<^sup>*\<^sup>* st0 st"
  shows "called st = 0"
proof -
  let ?ids = "summary data"
  have "\<exists>hs. counted_files fetch file ?ids hs st"
    using assms(5)
  proof (induction rule: rtranclp_induct)
    case base
    have "counted_files fetch file ?ids [] st0"
      using inflateMt_start [OF assms(1)] by (auto simp: counted_files_def)
    then show ?case ..
  next
    case (step st st')
    then show ?case using counted_files_step assms(2) by blast
  qed
  then obtain hs where hs: "counted_files fetch file ?ids hs st" ..
  then have sub: "mset hs \<subseteq># mset (map (toUrl file) ?ids)"
    unfolding counted_files_def by (meson mset_subset_eq_add_left subset_mset.order_trans)
  have "toUrl file ident \<notin> set hs" using hs assms(4) by (auto simp: counted_files_def)
  moreover have "toUrl file ident \<in># mset (map (toUrl file) ?ids)" using assms(3) by simp
  ultimately have "mset hs \<noteq> mset (map (toUrl file) ?ids)" by (metis set_mset_mset)
  with sub have "size (mset hs) < size (mset (map (toUrl file) ?ids))"
    by (intro mset_subset_size) (simp add: subset_mset.less_le)
  with hs show ?thesis by (simp add: counted_files_def)
qed

text \<open>Witness: two files, the second of which is missing; one worker loads the first.\<close>

definition demo_digest :: "int digest" where
  "demo_digest =
     \<lparr>bufferLabels = [''b''],
      buffersInfo = [''b'' \<mapsto> \<lparr>dense = [], zeros = None, len = Some 3, optTypeName = Some ''Int32Array''\<rparr>],
      summary = [''0'', ''1'']\<rparr>"

definition demo_file :: "int nfile" where
  "demo_file =
     \<lparr>dense = [(0, [7, 8])], zeros = Some [], len = Some 3, optTypeName = Some ''Int32Array'',
      cmin = Some (KeyStr 0), cmax = Some (KeyStr 0), nfo = ''b''\<rparr>"

definition demo_file' :: "int nfile" where
  "demo_file' =
     \<lparr>dense = [(2, [9])], zeros = None, len = None, optTypeName = Some ''Int32Array'',
      cmin = Some (KeyStr 2), cmax = Some (KeyStr 2), nfo = ''b''\<rparr>"

lemma demo_start:
  "inflateMt ''d.json'' demo_digest [''Int32Array''] (Some 1) Map.empty =
     Some \<lparr>urls = [''1''], workers = [Busy ''d0.json''], arrays = [''b'' \<mapsto> (TypedArr, [0, 0, 0])],
       gpuq = [], ready = 0, called = 0\<rparr>"
  by (simp add: inflateMt_def demo_digest_def alloc_buffer_def allocArray_def toUrl_def split_first_def Let_def numeral_3_eq_3)

lemma demo_reply: "worker_onmessage (Parsed demo_file) = Some (Inflated ''b'' 0 2 [7, 8])"
  by code_simp

theorem lost_file_no_callback_witness:
  "\<exists>fetch st. (pool_step fetch ''d.json'' False True 2)\<^sup>*\<^sup>*
       \<lparr>urls = [''1''], workers = [Busy ''d0.json''], arrays = [''b'' \<mapsto> (TypedArr, [0, 0, 0 :: int])],
        gpuq = [], ready = 0, called = 0\<rparr> st \<and>
     ready st = 1 \<and> workers st = [Busy ''d1.json''] \<and> called st = 0"
proof -
  let ?f = "\<lambda>u. if u = ''d0.json'' then Parsed demo_file else Failed"
  let ?init = "\<lparr>urls = [''1''], workers = [Busy ''d0.json''], arrays = [''b'' \<mapsto> (TypedArr, [0, 0, 0])],
    gpuq = [], ready = 0, called = 0\<rparr> :: int pool"
  let ?next = "on_message ''d.json'' False True 2 0 (Inflated ''b'' 0 2 [7, 8]) ?init"
  have step: "pool_step ?f ''d.json'' False True 2 ?init ?next"
    by (rule pool_step.deliver [where fetch = ?f and st = ?init and w = 0 and u = "''d0.json''"])
      (simp_all add: demo_reply)
  have st: "ready ?next = 1" "workers ?next = [Busy ''d1.json'']"
    by (simp_all add: on_message_def reduce_chunk_def typed_set_def count_ready_def toUrl_def split_first_def)
  have "called ?next = 0"
  proof (rule lost_file_no_callback [OF demo_start])
    show "(pool_step ?f ''d.json'' False True (length (summary demo_digest)))\<^sup>*\<^sup>* ?init ?next"
      using step by (simp add: demo_digest_def numeral_2_eq_2)
    show "''1'' \<in> set (summary demo_digest)" by (simp add: demo_digest_def)
    show "worker_onmessage (?f (toUrl ''d.json'' ''1'')) \<in> {None, Some WErr}"
      by (simp add: toUrl_def split_first_def worker_onmessage_def)
  qed simp
  with step st show ?thesis by (intro exI conjI) auto
qed

section \<open>Every interleaving completes\<close>

text \<open>
  The contract of the file server and the digest: the files of the summary are the files
  \<open>deflateMT\<close> makes of the buffers \<open>arrs\<close>, and the digest has the length and the type of each.
\<close>

definition served :: "(string \<Rightarrow> 'a::zero nfile response) \<Rightarrow> string \<Rightarrow> 'a digest \<Rightarrow> string list
    \<Rightarrow> (string \<Rightarrow> 'a list) \<Rightarrow> (string \<Rightarrow> string) \<Rightarrow> nat option \<Rightarrow> nat option \<Rightarrow> bool" where
  "served fetch file data ctors arrs ty mb mf \<longleftrightarrow>
     (\<forall>lbl \<in> set (bufferLabels data).
        ty lbl \<in> set worker_types \<and> ty lbl \<in> set ctors \<and>
        (\<exists>nf. buffersInfo data lbl = Some nf \<and> len nf = Some (length (arrs lbl)) \<and>
           optTypeName nf = Some (ty lbl)) \<and>
        (\<forall>c \<in> set (deflateMT (arrs lbl) (Some (ty lbl)) mb mf).
           \<exists>ident \<in> set (summary data). \<exists>f. fetch (toUrl file ident) = Parsed f \<and> chunk.truncate f = c \<and> nfo f = lbl)) \<and>
     (\<forall>ident \<in> set (summary data). \<exists>f. fetch (toUrl file ident) = Parsed f \<and>
        nfo f \<in> set (bufferLabels data) \<and>
        chunk.truncate f \<in> set (deflateMT (arrs (nfo f)) (Some (ty (nfo f))) mb mf))"

text \<open>Where the buffer \<open>a\<close> differs from the original \<open>arr\<close> it is still zero, and no file in
  \<open>hs\<close> has a value there.\<close>

definition holds :: "(string \<Rightarrow> 'a::zero nfile response) \<Rightarrow> string list \<Rightarrow> string \<Rightarrow> 'a list \<Rightarrow> 'a list \<Rightarrow> bool" where
  "holds fetch hs lbl arr a \<longleftrightarrow> length a = length arr \<and>
     (\<forall>p < length arr. a ! p \<noteq> arr ! p \<longrightarrow> a ! p = 0 \<and>
        (\<forall>u \<in> set hs. \<forall>f. fetch u = Parsed f \<and> nfo f = lbl \<longrightarrow> \<not> covers (extents (dense f)) p))"

definition pool_inv :: "(string \<Rightarrow> 'a::zero nfile response) \<Rightarrow> string \<Rightarrow> 'a digest
    \<Rightarrow> (string \<Rightarrow> 'a list) \<Rightarrow> string list \<Rightarrow> 'a pool \<Rightarrow> bool" where
  "pool_inv fetch file data arrs hs st \<longleftrightarrow>
     mset hs + (mset (busy (workers st)) + mset (map (toUrl file) (urls st))) =
       mset (map (toUrl file) (summary data)) \<and>
     ready st = length hs \<and>
     called st = (if length (summary data) \<le> length hs then 1 else 0) \<and>
     (urls st \<noteq> [] \<longrightarrow> busy (workers st) \<noteq> []) \<and>
     (\<forall>lbl \<in> set (bufferLabels data). \<exists>a. arrays st lbl = Some (TypedArr, a) \<and> holds fetch hs lbl (arrs lbl) a)"

lemma typed_set_slice:
  assumes "holds fetch hs lbl arr a" and "s \<le> e" and "e \<le> length arr"
    and "fetch u = Parsed f" and "\<And>p. covers (extents (dense f)) p \<Longrightarrow> s \<le> p \<and> p < e"
  shows "\<exists>b. typed_set (TypedArr, a) (take (e - s) (drop s arr)) s = Some b \<and> holds fetch (hs @ [u]) lbl arr b"
proof -
  let ?b = "take s a @ take (e - s) (drop s arr) @ drop e a"
  have len: "length a = length arr" using assms(1) by (simp add: holds_def)
  have "typed_set (TypedArr, a) (take (e - s) (drop s arr)) s = Some ?b"
    using assms(2,3) len by (simp add: typed_set_def min_absorb2)
  moreover have nth: "?b ! p = (if s \<le> p \<and> p < e then arr ! p else a ! p)" if "p < length arr" for p
    using that assms(2,3) len by (auto simp: nth_append min_def)
  have "holds fetch (hs @ [u]) lbl arr ?b"
    using assms(1,2,3,5) len by (auto simp: holds_def nth assms(4))
  ultimately show ?thesis by blast
qed

lemma holds_other: "holds fetch hs lbl arr a \<Longrightarrow> fetch u = Parsed f \<Longrightarrow> nfo f \<noteq> lbl \<Longrightarrow>
    holds fetch (hs @ [u]) lbl arr a"
  by (auto simp: holds_def)

lemma pool_inv_step:
  assumes srv: "served fetch file data ctors arrs ty mb mf" and inv: "pool_inv fetch file data arrs hs st"
    and step: "pool_step fetch file intoGPU True (length (summary data)) st st'"
  shows "\<exists>u. pool_inv fetch file data arrs (hs @ [u]) st'"
  using step
proof cases
  case (deliver w u m)
  have "u \<in> set (busy (workers st))" using deliver(2,3) busy_nth by blast
  then have "u \<in># mset hs + (mset (busy (workers st)) + mset (map (toUrl file) (urls st)))" by simp
  moreover have "mset hs + (mset (busy (workers st)) + mset (map (toUrl file) (urls st))) =
      mset (map (toUrl file) (summary data))"
    using inv by (simp add: pool_inv_def)
  ultimately have "u \<in># mset (map (toUrl file) (summary data))" by metis
  then obtain f where f: "fetch u = Parsed f" "nfo f \<in> set (bufferLabels data)"
      "chunk.truncate f \<in> set (deflateMT (arrs (nfo f)) (Some (ty (nfo f))) mb mf)"
    using srv by (fastforce simp: served_def)
  have "ty (nfo f) \<in> set worker_types" using srv f(2) by (auto simp: served_def)
  from worker_posts_slice [OF f(3) this]
  obtain s e where m: "m = Inflated (nfo f) s e (take (e - s) (drop s (arrs (nfo f))))"
    and se: "s \<le> e" "e \<le> length (arrs (nfo f))"
    and cov: "\<And>p. covers (extents (dense f)) p \<Longrightarrow> s \<le> p \<and> p < e"
    using deliver(4) f(1) by auto
  obtain a where a: "arrays st (nfo f) = Some (TypedArr, a)" "holds fetch hs (nfo f) (arrs (nfo f)) a"
    using inv f(2) by (auto simp: pool_inv_def)
  from typed_set_slice [where u = u, OF a(2) se f(1) cov]
  obtain b where b: "typed_set (TypedArr, a) (take (e - s) (drop s (arrs (nfo f)))) s = Some b"
      "holds fetch (hs @ [u]) (nfo f) (arrs (nfo f)) b"
    by blast
  have arr: "arrays st' = (arrays st)(nfo f \<mapsto> (TypedArr, b))"
    and ready: "ready st' = ready st + 1"
    by (simp_all add: deliver(1) on_message_def reduce_chunk_def m a(1) b(1) Let_def count_ready_def split: list.split)
  have bufs: "\<forall>lbl \<in> set (bufferLabels data). \<exists>a. arrays st' lbl = Some (TypedArr, a) \<and>
      holds fetch (hs @ [u]) lbl (arrs lbl) a"
    using inv b(2) holds_other [where fetch = fetch and u = u and f = f and hs = hs] f(1) by (auto simp: arr pool_inv_def)
  show ?thesis
  proof (rule on_message_counts [OF deliver(2,3,1)], goal_cases)
    case 1
    with ready show ?case by simp
  next
    case 2
    have eq: "mset (hs @ [u]) + (mset (busy (workers st')) + mset (map (toUrl file) (urls st'))) =
        mset (map (toUrl file) (summary data))"
    proof -
      have "mset (hs @ [u]) + (mset (busy (workers st')) + mset (map (toUrl file) (urls st'))) =
          mset hs + (mset (busy (workers st)) + mset (map (toUrl file) (urls st)))"
        using 2(1) by simp
      also have "\<dots> = mset (map (toUrl file) (summary data))"
        using inv by (simp add: pool_inv_def)
      finally show ?thesis .
    qed
    have "length hs < length (summary data)"
      using arg_cong [OF eq, of size] by simp
    with 2 inv bufs eq have "pool_inv fetch file data arrs (hs @ [u]) st'"
      unfolding pool_inv_def by (intro conjI eq bufs) auto
    then show ?case ..
  qed
qed

lemma alloc_foldl_None: "foldl (alloc_buffer data ctors) None lbls = None"
  by (induction lbls) (simp_all add: alloc_buffer_def)

lemma alloc_foldl:
  assumes "\<And>lbl. lbl \<in> set lbls \<Longrightarrow> \<exists>nf. buffersInfo data lbl = Some nf \<and>
      len nf = Some (n lbl) \<and> optTypeName nf = Some (ty lbl) \<and> ty lbl \<in> set ctors"
  shows "\<exists>t. foldl (alloc_buffer data ctors) (Some this) lbls = Some t \<and>
    (\<forall>lbl. t lbl = (if lbl \<in> set lbls then Some (TypedArr, replicate (n lbl) 0) else this lbl))"
  using assms
proof (induction lbls arbitrary: this)
  case (Cons l lbls)
  from Cons.prems [of l] obtain nf where nf: "buffersInfo data l = Some nf" "len nf = Some (n l)"
      "optTypeName nf = Some (ty l)" "ty l \<in> set ctors"
    by auto
  let ?upd = "this(l \<mapsto> (TypedArr, replicate (n l) 0))"
  have step: "alloc_buffer data ctors (Some this) l = Some ?upd"
    using nf by (simp add: alloc_buffer_def allocArray_def)
  have "\<exists>t. foldl (alloc_buffer data ctors) (Some ?upd) lbls = Some t \<and>
      (\<forall>lbl. t lbl = (if lbl \<in> set lbls then Some (TypedArr, replicate (n lbl) 0) else ?upd lbl))"
    using Cons.prems by (intro Cons.IH) simp
  then obtain t where t: "foldl (alloc_buffer data ctors) (Some ?upd) lbls = Some t"
    "\<And>lbl. t lbl = (if lbl \<in> set lbls then Some (TypedArr, replicate (n lbl) 0) else ?upd lbl)"
    by blast
  show ?case
    by (intro exI [where x = t]) (simp add: step t(1), simp add: t(2))
qed simp

lemma inflateMt_inv:
  assumes "served fetch file data ctors arrs ty mb mf" and "summary data \<noteq> []"
  shows "\<exists>st0. inflateMt file data ctors mw this = Some st0 \<and> pool_inv fetch file data arrs [] st0"
proof -
  have "\<exists>nf. buffersInfo data lbl = Some nf \<and> len nf = Some (length (arrs lbl)) \<and>
      optTypeName nf = Some (ty lbl) \<and> ty lbl \<in> set ctors" if "lbl \<in> set (bufferLabels data)" for lbl
    using assms(1) that by (auto simp: served_def)
  from alloc_foldl [OF this]
  obtain t where t: "foldl (alloc_buffer data ctors) (Some this) (bufferLabels data) = Some t"
    "\<And>lbl. lbl \<in> set (bufferLabels data) \<Longrightarrow> t lbl = Some (TypedArr, replicate (length (arrs lbl)) 0)"
    by metis
  then obtain st0 where st0: "inflateMt file data ctors mw this = Some st0"
    by (auto simp: inflateMt_def Let_def)
  note s = inflateMt_start [OF st0]
  have "arrays st0 = t" using s(5) t(1) by simp
  moreover have "holds fetch [] lbl arr (replicate (length arr) 0)" for lbl and arr :: "'a list"
    by (auto simp: holds_def)
  ultimately have "pool_inv fetch file data arrs [] st0"
    using s t(2) assms(2) by (auto simp: pool_inv_def)
  with st0 show ?thesis by blast
qed

lemma holds_all:
  assumes "served fetch file data ctors arrs ty mb mf" and "lbl \<in> set (bufferLabels data)"
    and "mset hs = mset (map (toUrl file) (summary data))" and "holds fetch hs lbl (arrs lbl) a"
  shows "a = arrs lbl"
proof (rule nth_equalityI)
  fix p assume p: "p < length a"
  show "a ! p = arrs lbl ! p"
  proof (rule ccontr)
    assume ne: "a ! p \<noteq> arrs lbl ! p"
    with assms(4) p have z: "a ! p = 0"
      and unc: "\<And>u f. u \<in> set hs \<Longrightarrow> fetch u = Parsed f \<Longrightarrow> nfo f = lbl \<Longrightarrow> \<not> covers (extents (dense f)) p"
      by (auto simp: holds_def)
    have "p < length (arrs lbl)" "arrs lbl ! p \<noteq> 0"
      using assms(4) p ne z by (auto simp: holds_def)
    then obtain c where c: "c \<in> set (deflateMT (arrs lbl) (Some (ty lbl)) mb mf)" "covers (extents (dense c)) p"
      using deflateMT_covers by blast
    then obtain ident f where f: "ident \<in> set (summary data)" "fetch (toUrl file ident) = Parsed f"
        "chunk.truncate f = c" "nfo f = lbl"
      using assms(1,2) by (fastforce simp: served_def)
    have "toUrl file ident \<in> set hs"
      using f(1) arg_cong [OF assms(3), of set_mset] by simp
    from unc [OF this f(2,4)] c(2) f(3) show False by auto
  qed
qed (use assms(4) in \<open>simp add: holds_def\<close>)

lemma pool_progress:
  assumes "served fetch file data ctors arrs ty mb mf" and "pool_inv fetch file data arrs hs st"
    and "length hs < length (summary data)"
  shows "\<exists>st'. pool_step fetch file intoGPU intoCPU n st st'"
proof -
  have sz: "length hs + (length (busy (workers st)) + length (urls st)) = length (summary data)"
    using assms(2) unfolding pool_inv_def by (metis size_mset size_union length_map)
  then have "busy (workers st) \<noteq> []" using assms(2,3) by (auto simp: pool_inv_def)
  then obtain u us where u: "busy (workers st) = u # us" by (cases "busy (workers st)") auto
  then have "u \<in># mset hs + (mset (busy (workers st)) + mset (map (toUrl file) (urls st)))" by simp
  moreover have "mset hs + (mset (busy (workers st)) + mset (map (toUrl file) (urls st))) =
      mset (map (toUrl file) (summary data))"
    using assms(2) by (simp add: pool_inv_def)
  ultimately have "u \<in># mset (map (toUrl file) (summary data))" by metis
  then obtain f where f: "fetch u = Parsed f" "nfo f \<in> set (bufferLabels data)"
      "chunk.truncate f \<in> set (deflateMT (arrs (nfo f)) (Some (ty (nfo f))) mb mf)"
    using assms(1) by (fastforce simp: served_def)
  have "ty (nfo f) \<in> set worker_types" using assms(1) f(2) by (auto simp: served_def)
  from worker_posts_slice [OF f(3) this] obtain m where "worker_onmessage (fetch u) = Some m"
    using f(1) by auto
  moreover obtain w where "w < length (workers st)" "workers st ! w = Busy u"
    using busy_nth [of u "workers st"] u by auto
  ultimately show ?thesis by (blast intro: pool_step.deliver)
qed

lemma pool_run_inv:
  assumes "served fetch file data ctors arrs ty mb mf" and "pool_inv fetch file data arrs [] st0"
    and "(pool_step fetch file intoGPU True (length (summary data)) ^^ k) st0 st"
  shows "\<exists>hs. length hs = k \<and> pool_inv fetch file data arrs hs st"
  using assms(3)
proof (induction k arbitrary: st)
  case (Suc k)
  then obtain s where "(pool_step fetch file intoGPU True (length (summary data)) ^^ k) st0 s"
    and step: "pool_step fetch file intoGPU True (length (summary data)) s st"
    by auto
  with Suc.IH obtain hs where "length hs = k" "pool_inv fetch file data arrs hs s" by blast
  with pool_inv_step [OF assms(1) _ step] show ?case
    by (metis length_append_singleton)
qed (use assms(2) in auto)

lemma pool_inv_counts:
  assumes "pool_inv fetch file data arrs hs st"
  shows "length hs \<le> length (summary data)"
    and "called st = (if length hs = length (summary data) then 1 else 0)"
    and "length hs = length (summary data) \<Longrightarrow> mset hs = mset (map (toUrl file) (summary data))"
proof -
  have sz: "length hs + (length (busy (workers st)) + length (urls st)) = length (summary data)"
    using assms unfolding pool_inv_def by (metis size_mset size_union length_map)
  then show le: "length hs \<le> length (summary data)" by simp
  then show "called st = (if length hs = length (summary data) then 1 else 0)"
    using assms by (simp add: pool_inv_def)
  show "mset hs = mset (map (toUrl file) (summary data))" if "length hs = length (summary data)"
    using sz that assms by (simp add: pool_inv_def)
qed

lemma pool_inv_done:
  assumes "served fetch file data ctors arrs ty mb mf" and "pool_inv fetch file data arrs hs st"
    and "length hs = length (summary data)" and "lbl \<in> set (bufferLabels data)"
  shows "arrays st lbl = Some (TypedArr, arrs lbl)"
proof -
  obtain a where "arrays st lbl = Some (TypedArr, a)" "holds fetch hs lbl (arrs lbl) a"
    using assms(2,4) by (auto simp: pool_inv_def)
  with holds_all [OF assms(1,4) pool_inv_counts(3) [OF assms(2,3)]] show ?thesis by simp
qed

lemma pool_result:
  assumes "served fetch file data ctors arrs ty mb mf" and "summary data \<noteq> []"
  shows "\<exists>st0. inflateMt file data ctors mw this = Some st0 \<and>
    (\<forall>k st. (pool_step fetch file intoGPU True (length (summary data)) ^^ k) st0 st \<longrightarrow>
       k \<le> length (summary data) \<and>
       (k < length (summary data) \<longrightarrow> called st = 0 \<and>
          (\<exists>st'. pool_step fetch file intoGPU True (length (summary data)) st st')) \<and>
       (k = length (summary data) \<longrightarrow> called st = 1 \<and>
          (\<forall>lbl \<in> set (bufferLabels data). arrays st lbl = Some (TypedArr, arrs lbl))))"
proof -
  obtain st0 where st0: "inflateMt file data ctors mw this = Some st0"
    and inv0: "pool_inv fetch file data arrs [] st0"
    using inflateMt_inv [OF assms] by blast
  have "k \<le> length (summary data) \<and>
      (k < length (summary data) \<longrightarrow> called st = 0 \<and>
         (\<exists>st'. pool_step fetch file intoGPU True (length (summary data)) st st')) \<and>
      (k = length (summary data) \<longrightarrow> called st = 1 \<and>
         (\<forall>lbl \<in> set (bufferLabels data). arrays st lbl = Some (TypedArr, arrs lbl)))"
    if run: "(pool_step fetch file intoGPU True (length (summary data)) ^^ k) st0 st" for k st
  proof -
    obtain hs where hs: "length hs = k" and i: "pool_inv fetch file data arrs hs st"
      using pool_run_inv [OF assms(1) inv0 run] by blast
    show ?thesis
      using pool_inv_counts(1,2) [OF i] pool_inv_done [OF assms(1) i] pool_progress [OF assms(1) i] hs
      by auto
  qed
  with st0 show ?thesis by blast
qed

text \<open>
  C1.  When the server has the files \<open>deflateMT\<close> made and there is at least one, the pool
  terminates in every interleaving of the workers: after fewer messages than files some worker can
  always deliver another one and the callback has not been called, there are never more messages
  than files, and after as many messages as files the callback has been called exactly once and
  every buffer of the runner is the original array.
\<close>

theorem pool_completes:
  assumes "served fetch file data ctors arrs ty mb mf" and "summary data \<noteq> []"
  shows "\<exists>st0. inflateMt file data ctors mw this = Some st0 \<and>
    (\<forall>k st. (pool_step fetch file intoGPU True (length (summary data)) ^^ k) st0 st \<longrightarrow>
       k \<le> length (summary data) \<and>
       (k < length (summary data) \<longrightarrow> called st = 0 \<and>
          (\<exists>st'. pool_step fetch file intoGPU True (length (summary data)) st st')) \<and>
       (k = length (summary data) \<longrightarrow> called st = 1 \<and>
          (\<forall>lbl \<in> set (bufferLabels data). arrays st lbl = Some (TypedArr, arrs lbl))))"
  by (rule pool_result [OF assms])

text \<open>Witness: three values in two files, fetched by one worker.\<close>

lemma demo_files:
  "deflateMT [7, 8, 9 :: int] (Some ''Int32Array'') None (Some 2) =
     [chunk.truncate demo_file, chunk.truncate demo_file']"
  by code_simp

theorem pool_completes_witness:
  "\<exists>fetch. fetch ''d0.json'' = Parsed demo_file \<and> fetch ''d1.json'' = Parsed demo_file' \<and>
     (\<exists>st0. inflateMt ''d.json'' demo_digest [''Int32Array''] (Some 1) Map.empty = Some st0 \<and>
        (\<forall>st. (pool_step fetch ''d.json'' False True 2 ^^ 2) st0 st \<longrightarrow>
           called st = 1 \<and> arrays st ''b'' = Some (TypedArr, [7, 8, 9])))"
proof -
  define F where "F = (\<lambda>u. if u = ''d0.json'' then Parsed demo_file
    else if u = ''d1.json'' then Parsed demo_file' else Failed)"
  have F: "F ''d0.json'' = Parsed demo_file" "F ''d1.json'' = Parsed demo_file'"
    by (simp_all add: F_def)
  have srv: "served F ''d.json'' demo_digest [''Int32Array''] (\<lambda>_. [7, 8, 9]) (\<lambda>_. ''Int32Array'') None (Some 2)"
    unfolding served_def demo_files
    by (simp add: F demo_digest_def toUrl_def split_first_def worker_types_def)
      (simp add: demo_file_def demo_file'_def)
  have d: "length (summary demo_digest) = 2" "bufferLabels demo_digest = [''b'']" "summary demo_digest \<noteq> []"
    by (simp_all add: demo_digest_def)
  from pool_completes [OF srv d(3), of "Some 1" Map.empty False, unfolded d]
  obtain st0 where "inflateMt ''d.json'' demo_digest [''Int32Array''] (Some 1) Map.empty = Some st0"
    and "\<And>k st. (pool_step F ''d.json'' False True 2 ^^ k) st0 st \<Longrightarrow> k = 2 \<Longrightarrow>
      called st = 1 \<and> (\<forall>lbl \<in> set [''b'']. arrays st lbl = Some (TypedArr, [7, 8, 9]))"
    by blast
  then have "\<exists>st0. inflateMt ''d.json'' demo_digest [''Int32Array''] (Some 1) Map.empty = Some st0 \<and>
      (\<forall>st. (pool_step F ''d.json'' False True 2 ^^ 2) st0 st \<longrightarrow>
         called st = 1 \<and> arrays st ''b'' = Some (TypedArr, [7, 8, 9]))"
    by (metis list.set_intros(1))
  then show ?thesis by (intro exI [where x = F]) (simp add: F)
qed

end
