(* ===== verification/FlatLoad.thy ===== *)
theory FlatLoad
  imports ParallelLoad
begin

text \<open>
  \<open>loadDataFlat\<close> and \<open>loadDataFlatMt\<close> (\<open>src/CLRunner.js\<close>): loading a tree that was
  flattened before, as encoded buffers with the tree size, the levels and the token table.  The
  methods the layout compiler generates (\<open>_gen_\<close>\dots) are recorded as calls.
\<close>

datatype gen_call =
    AllocateHostBuffers nat
  | AllocateHostProxies nat
  | AllocateClBuffers
  | AllocateProxyObjects
  | TransferTree

record level =
  start_idx :: nat
  llength :: nat

record 'a runner =
  ignoreCL :: bool
  tree_size :: nat
  levels :: "level list"
  tokens :: "string list"
  hostbufs :: "string \<rightharpoonup> akind \<times> 'a list"
  calls :: "gen_call list"

text \<open>
  The parsed data: the buffers are the entries of \<open>entries\<close> whose label has \<open>_buffer_1\<close>;
  \<open>None\<close> is a missing field, and a tree size of 0 counts as missing too.
\<close>

record 'a flat_data =
  entries :: "(string \<times> 'a sparr) list"
  d_tree_size :: "nat option"
  d_levels :: "level list option"
  d_tokens :: "string list option"

definition getArrayConstructors :: "string list \<Rightarrow> string list" where
  "getArrayConstructors window =
     filter (\<lambda>c. c \<in> set window)
       [''Int8Array'', ''Int16Array'', ''Int32Array'', ''Uint8Array'', ''Uint16Array'', ''Uint32Array'',
        ''Float32Array'', ''Float64Array'']"

definition getBufferNames :: "(string \<times> 'v) list \<Rightarrow> string list" where
  "getBufferNames obj = filter (\<lambda>i. str_index ''_buffer_1'' i \<noteq> None) (map fst obj)"

definition loadDataFlatFinish :: "bool \<Rightarrow> 'a runner \<Rightarrow> 'a runner" where
  "loadDataFlatFinish doTransfer r =
     r\<lparr>calls := calls r @ [AllocateHostProxies (tree_size r)] @
        (if doTransfer then [AllocateClBuffers] else []) @ [AllocateProxyObjects] @
        (if doTransfer then [TransferTree] else [])\<rparr>"

definition flat_check :: "bool \<Rightarrow> 'b list \<Rightarrow> nat option \<Rightarrow> 'c option \<Rightarrow> 'd option \<Rightarrow> string option" where
  "flat_check cl names sz lv tk =
     (if cl then Some ''Function only for CL-enabled use''
      else if names = [] then Some ''received no buffers''
      else if sz = None \<or> sz = Some 0 then Some ''no tree size''
      else if lv = None then Some ''no tree level info''
      else if tk = None then Some ''no tree token info''
      else None)"

definition inflate_entry :: "'a::zero \<Rightarrow> string list \<Rightarrow> 'a runner \<Rightarrow> string \<times> 'a sparr \<Rightarrow> 'a runner" where
  "inflate_entry hole constructors r e =
     (if str_index ''_buffer_1'' (fst e) = None then r
      else r\<lparr>hostbufs := (hostbufs r)(fst e \<mapsto> inflate hole (snd e) constructors)\<rparr>)"

definition loadDataFlat :: "'a::zero \<Rightarrow> string list \<Rightarrow> 'a flat_data \<Rightarrow> 'a runner \<Rightarrow> string + 'a runner" where
  "loadDataFlat hole window data r =
     (case flat_check (ignoreCL r) (getBufferNames (entries data)) (d_tree_size data) (d_levels data) (d_tokens data) of
        Some msg \<Rightarrow> Inl msg
      | None \<Rightarrow>
          let r1 = r\<lparr>tree_size := the (d_tree_size data), levels := the (d_levels data), tokens := the (d_tokens data)\<rparr>;
              r2 = foldl (inflate_entry hole (getArrayConstructors window)) r1 (entries data)
          in Inr (loadDataFlatFinish True r2))"

text \<open>The digest of a split load; \<open>None\<close> is a missing field.\<close>

record 'a digest_data = "'a digest" +
  dg_tree_size :: "nat option"
  dg_levels :: "level list option"
  dg_tokens :: "string list option"
  has_summary :: bool

text \<open>
  The part of \<open>loadDataFlatMt\<close> that runs before the workers answer; the pool starts from the
  runner's fields, and the callback it registers is \<open>loadDataFlatMt_done\<close>.
\<close>

definition loadDataFlatMt :: "string \<Rightarrow> string list \<Rightarrow> ('a::zero) digest_data \<Rightarrow> nat option \<Rightarrow> bool
    \<Rightarrow> 'a runner \<Rightarrow> string + 'a runner \<times> 'a pool" where
  "loadDataFlatMt digestFile window data optNumMaxWorkers intoGPU r =
     (case flat_check False (bufferLabels data) (dg_tree_size data) (dg_levels data) (dg_tokens data) of
        Some msg \<Rightarrow> Inl msg
      | None \<Rightarrow>
          if \<not> has_summary data then Inl ''no tree summary info''
          else
            let r1 = r\<lparr>tree_size := the (dg_tree_size data), levels := the (dg_levels data), tokens := the (dg_tokens data)\<rparr>
            in case inflateMt digestFile (digest.truncate data) (getArrayConstructors window) optNumMaxWorkers (hostbufs r1) of
                 None \<Rightarrow> Inl ''TypeError''
               | Some p \<Rightarrow>
                   Inr (r1\<lparr>hostbufs := arrays p, calls := calls r1 @ (if intoGPU then [AllocateClBuffers] else [])\<rparr>, p))"

definition loadDataFlatMt_done :: "'a pool \<Rightarrow> 'a runner \<Rightarrow> 'a runner" where
  "loadDataFlatMt_done p r = loadDataFlatFinish False (r\<lparr>hostbufs := arrays p\<rparr>)"

section \<open>Properties\<close>

lemma flat_check_None:
  "flat_check cl names sz lv tk = None \<longleftrightarrow>
     \<not> cl \<and> names \<noteq> [] \<and> (\<exists>n > 0. sz = Some n) \<and> lv \<noteq> None \<and> tk \<noteq> None"
  by (auto simp: flat_check_def)

lemma inflate_entry_frame [simp]:
  "ignoreCL (inflate_entry hole cs r e) = ignoreCL r" "tree_size (inflate_entry hole cs r e) = tree_size r"
  "levels (inflate_entry hole cs r e) = levels r" "tokens (inflate_entry hole cs r e) = tokens r"
  "calls (inflate_entry hole cs r e) = calls r"
  by (simp_all add: inflate_entry_def)

lemma inflate_entries_frame [simp]:
  "ignoreCL (foldl (inflate_entry hole cs) r es) = ignoreCL r"
  "tree_size (foldl (inflate_entry hole cs) r es) = tree_size r"
  "levels (foldl (inflate_entry hole cs) r es) = levels r"
  "tokens (foldl (inflate_entry hole cs) r es) = tokens r"
  "calls (foldl (inflate_entry hole cs) r es) = calls r"
  by (induction es arbitrary: r) simp_all

lemma inflate_entries_fields:
  assumes "distinct (map fst es)"
  shows "hostbufs (foldl (inflate_entry hole cs) r es) lbl =
    (case map_of es lbl of
       Some sp \<Rightarrow> if str_index ''_buffer_1'' lbl = None then hostbufs r lbl else Some (inflate hole sp cs)
     | None \<Rightarrow> hostbufs r lbl)"
  using assms
proof (induction es arbitrary: r)
  case (Cons e es)
  obtain l sp where e: "e = (l, sp)" by (cases e)
  from Cons.prems have "map_of es l = None" and d: "distinct (map fst es)"
    by (auto simp: e map_of_eq_None_iff)
  have "hostbufs (foldl (inflate_entry hole cs) r (e # es)) lbl =
      (case map_of es lbl of
         Some sp \<Rightarrow> if str_index ''_buffer_1'' lbl = None then hostbufs (inflate_entry hole cs r e) lbl
           else Some (inflate hole sp cs)
       | None \<Rightarrow> hostbufs (inflate_entry hole cs r e) lbl)"
    by (simp only: foldl_Cons Cons.IH [OF d])
  moreover have "hostbufs (inflate_entry hole cs r e) =
      (if str_index ''_buffer_1'' l = None then hostbufs r else (hostbufs r)(l \<mapsto> inflate hole sp cs))"
    by (simp add: e inflate_entry_def)
  ultimately show ?case
    using \<open>map_of es l = None\<close> by (auto simp: e split: option.split)
qed simp

text \<open>
  Loading flat data undoes its encoding: when the data has at least one buffer, a positive
  tree size, levels and tokens, the runner gets these, every buffer is the array that was encoded,
  typed exactly when the browser has the recorded constructor, no other field changes, and the
  generated methods run in the order proxies, CL buffers, proxy objects, transfer.
\<close>

lemma loadDataFlat_restores:
  assumes "entries data = map (\<lambda>(lbl, arr, ty). (lbl, deflate arr ty mb)) bufs"
    and "distinct (map fst bufs)" and "(lbl, arr, ty) \<in> set bufs" and "str_index ''_buffer_1'' lbl \<noteq> None"
    and "d_tree_size data = Some (Suc n)" and "d_levels data = Some lv" and "d_tokens data = Some tk"
    and "\<not> ignoreCL r"
  shows "\<exists>r'. loadDataFlat hole window data r = Inr r' \<and>
    tree_size r' = Suc n \<and> levels r' = lv \<and> tokens r' = tk \<and>
    hostbufs r' lbl = Some (if \<exists>t. ty = Some t \<and> t \<in> set (getArrayConstructors window) then TypedArr else PlainArr, arr) \<and>
    (\<forall>l. str_index ''_buffer_1'' l = None \<longrightarrow> hostbufs r' l = hostbufs r l) \<and>
    calls r' = calls r @ [AllocateHostProxies (Suc n), AllocateClBuffers, AllocateProxyObjects, TransferTree]"
proof -
  have fst_entries: "map fst (entries data) = map fst bufs"
    by (simp add: assms(1) case_prod_beta o_def)
  have "getBufferNames (entries data) \<noteq> []"
    using assms(3,4) by (force simp: getBufferNames_def fst_entries filter_empty_conv)
  then have ck: "flat_check (ignoreCL r) (getBufferNames (entries data)) (d_tree_size data) (d_levels data) (d_tokens data) = None"
    using assms(5-8) by (simp add: flat_check_None)
  have dist: "distinct (map fst (entries data))" using assms(2) by (simp add: fst_entries)
  have "(lbl, deflate arr ty mb) \<in> set (entries data)" using assms(3) by (force simp: assms(1))
  then have mo: "map_of (entries data) lbl = Some (deflate arr ty mb)" using dist by simp
  show ?thesis
    using assms(4-7) ck
    by (auto simp: loadDataFlat_def Let_def loadDataFlatFinish_def inflate_entries_fields [OF dist] mo
        inflate_of_deflate split: option.split)
qed

text \<open>Witness: one buffer of three values.\<close>

lemma loadDataFlat_restores_witness:
  "\<exists>r'. loadDataFlat 0 [''Int32Array'']
       \<lparr>entries = [(''x_buffer_1'', deflate [0, 4, 5 :: int] (Some ''Int32Array'') None)],
        d_tree_size = Some 3, d_levels = Some [\<lparr>start_idx = 0, llength = 3\<rparr>], d_tokens = Some []\<rparr>
       \<lparr>ignoreCL = False, tree_size = 0, levels = [], tokens = [], hostbufs = Map.empty, calls = []\<rparr> = Inr r' \<and>
     tree_size r' = 3 \<and> hostbufs r' ''x_buffer_1'' = Some (TypedArr, [0, 4, 5])"
  using loadDataFlat_restores [where bufs = "[(''x_buffer_1'', [0, 4, 5 :: int], Some ''Int32Array'')]" and mb = None
      and data = "\<lparr>entries = [(''x_buffer_1'', deflate [0, 4, 5 :: int] (Some ''Int32Array'') None)],
        d_tree_size = Some 3, d_levels = Some [\<lparr>start_idx = 0, llength = 3\<rparr>], d_tokens = Some []\<rparr>"
      and r = "\<lparr>ignoreCL = False, tree_size = 0, levels = [], tokens = [], hostbufs = Map.empty, calls = []\<rparr>"
      and lbl = "''x_buffer_1''" and arr = "[0, 4, 5]" and ty = "Some ''Int32Array''" and n = 2
      and lv = "[\<lparr>start_idx = 0, llength = 3\<rparr>]" and tk = "[]" and window = "[''Int32Array'']" and hole = 0]
  by (auto simp: getArrayConstructors_def)

text \<open>Exactly which data the loader rejects.\<close>

lemma flat_load_errors:
  "(\<exists>msg. loadDataFlat hole window data r = Inl msg) \<longleftrightarrow>
     ignoreCL r \<or> getBufferNames (entries data) = [] \<or> d_tree_size data \<in> {None, Some 0} \<or>
     d_levels data = None \<or> d_tokens data = None"
  by (auto simp: loadDataFlat_def flat_check_def Let_def)

end
