(* ===== verification/FlatTree.thy ===== *)
theory FlatTree
  imports FlatLoad
begin

text \<open>
  \<open>treeSize\<close>, \<open>flattenEdges\<close>, \<open>tokenize\<close>, \<open>flattenNode\<close>, \<open>flatten\<close> and
  \<open>loadData\<close> (\<open>src/CLRunner.js\<close>): the JSON tree becomes arrays indexed by breadth-first
  position.  The lemmas show that the loops visit the nodes in breadth-first order, and give the
  arrays \<open>parent\<close>, \<open>left_siblings\<close> and \<open>right_siblings\<close> as functions of the tree.
\<close>

section \<open>The input tree\<close>

datatype jval = JStr string | JNum int | JBool bool | JNull

text \<open>\<open>"" + v\<close>.\<close>

fun jval_string :: "jval \<Rightarrow> string" where
  "jval_string (JStr s) = s"
| "jval_string (JNum n) = int_string n"
| "jval_string (JBool b) = (if b then ''true'' else ''false'')"
| "jval_string JNull = ''null''"

text \<open>
  The properties of a node in enumeration order, without \<open>children\<close>; every label of
  \<open>children\<close> has an array of nodes or a single node.
\<close>

datatype jnode = JNode (props: "(string \<times> jval) list") (children: "(string \<times> kid) list option")
  and kid = Many "jnode list" | One jnode

fun kid_nodes :: "kid \<Rightarrow> jnode list" where
  "kid_nodes (Many c) = c"
| "kid_nodes (One c) = [c]"

definition groups :: "jnode \<Rightarrow> (string \<times> kid) list" where
  "groups node = (case children node of None \<Rightarrow> [] | Some cs \<Rightarrow> cs)"

definition kids :: "jnode \<Rightarrow> jnode list" where
  "kids node = concat (map (\<lambda>(lbl, c). kid_nodes c) (groups node))"

fun treeSize :: "jnode \<Rightarrow> nat" and kidSize :: "kid \<Rightarrow> nat" where
  "treeSize (JNode ps cs) =
     (case cs of None \<Rightarrow> 1 | Some ks \<Rightarrow> 1 + sum_list (map (\<lambda>(lbl, c). kidSize c) ks))"
| "kidSize (Many c) = sum_list (map treeSize c)"
| "kidSize (One c) = treeSize c"

section \<open>The runner's fields\<close>

text \<open>
  What the layout compiler generates for a grammar.  \<open>coerce\<close> is the conversion of a value
  stored in the typed array of a field; \<open>classToToken\<close> throws on an unknown class, and
  \<open>classToIFace\<close> returns \<open>undefined\<close> for one without an interface.
\<close>

record 'v schema =
  classToToken :: "string \<Rightarrow> int option"
  classToIFace :: "string \<Rightarrow> string option"
  coerce :: "string \<Rightarrow> jval \<Rightarrow> 'v"

record 'v flat =
  flds :: "string \<rightharpoonup> 'v list"
  right_siblings :: "int list"
  left_siblings :: "int list"
  parent :: "int list"
  ids :: "int list"
  grammartokens :: "int list"
  toks :: "string list"
  warned :: "string list"
  ignored :: "string list"

datatype flat_error = MissingClass | MissingField string | UnknownClass string

definition node_class :: "jnode \<Rightarrow> string option" where
  "node_class node =
     (case map_of (props node) ''class'' of Some (JStr s) \<Rightarrow> Some s | _ \<Rightarrow> None)"

definition child_field :: "string \<Rightarrow> string \<Rightarrow> string" where
  "child_field cls lbl = ''fld_'' @ lower_case cls @ ''_child_'' @ lower_case lbl @ ''_leftmost_child''"

section \<open>flattenEdges\<close>

text \<open>The stores for one array of children that starts at position \<open>base\<close>.\<close>

definition link_many :: "nat \<Rightarrow> nat \<Rightarrow> nat \<Rightarrow> nat \<Rightarrow> 'v flat \<Rightarrow> 'v flat" where
  "link_many absIdx base rollCount n st =
     (let st1 = foldl (\<lambda>s ci. s\<lparr>right_siblings := (right_siblings s)[base + ci := 1]\<rparr>) st [0..<n - 1];
          st2 = (if n > 0 then st1\<lparr>right_siblings := (right_siblings st1)[base + n - 1 := 0]\<rparr> else st1);
          st3 = foldl (\<lambda>s ci. s\<lparr>parent := (parent s)[base + ci := int absIdx]\<rparr>) st2 [0..<n];
          st4 = (if n > 0 then st3\<lparr>left_siblings := (left_siblings st3)[base := if rollCount \<noteq> 0 then 1 else 0]\<rparr>
                 else st3)
      in foldl (\<lambda>s ci. s\<lparr>left_siblings := (left_siblings s)[base + ci := 1]\<rparr>) st4 [1..<n])"

definition link_one :: "nat \<Rightarrow> nat \<Rightarrow> nat \<Rightarrow> 'v flat \<Rightarrow> 'v flat" where
  "link_one absIdx childIdx rollCount st =
     st\<lparr>right_siblings := (right_siblings st)[childIdx := 0],
        parent := (parent st)[childIdx := int absIdx],
        left_siblings := (left_siblings st)[childIdx := if rollCount \<noteq> 0 then 1 else 0]\<rparr>"

fun edges_loop :: "'v schema \<Rightarrow> string option \<Rightarrow> nat \<Rightarrow> nat \<Rightarrow> (string \<times> kid) list \<Rightarrow> nat \<Rightarrow> 'v flat
    \<Rightarrow> flat_error + 'v flat" where
  "edges_loop sch cls absIdx leftmostChildIdx [] rollCount st = Inr st"
| "edges_loop sch cls absIdx leftmostChildIdx ((lbl, c) # cs) rollCount st =
     (case cls of
        None \<Rightarrow> Inl MissingClass
      | Some k \<Rightarrow>
          let fld = child_field k lbl in
          case flds st fld of
            None \<Rightarrow> Inl (MissingField fld)
          | Some a \<Rightarrow>
              let rel = int (leftmostChildIdx + rollCount) - int absIdx;
                  st1 = st\<lparr>flds := (flds st)(fld \<mapsto> a[absIdx := coerce sch fld (JNum rel)])\<rparr>;
                  base = leftmostChildIdx + rollCount
              in case c of
                   Many ns \<Rightarrow>
                     edges_loop sch cls absIdx leftmostChildIdx cs (rollCount + length ns)
                       (link_many absIdx base rollCount (length ns) st1)
                 | One n \<Rightarrow>
                     edges_loop sch cls absIdx leftmostChildIdx cs (rollCount + 1)
                       (link_one absIdx base rollCount st1))"

definition flattenEdges :: "'v schema \<Rightarrow> jnode \<Rightarrow> nat \<Rightarrow> nat \<Rightarrow> 'v flat \<Rightarrow> flat_error + 'v flat" where
  "flattenEdges sch node absIdx leftmostChildIdx st =
     edges_loop sch (node_class node) absIdx leftmostChildIdx (groups node) 0 st"

section \<open>flattenNode\<close>

definition tokenize :: "string \<Rightarrow> string list \<Rightarrow> nat \<times> string list" where
  "tokenize str ts =
     (case index_of str ts of Some idx \<Rightarrow> (idx, ts) | None \<Rightarrow> (length ts, ts @ [str]))"

definition note_once :: "string \<Rightarrow> string list \<Rightarrow> string list" where
  "note_once s seen = (if s \<in> set seen then seen else seen @ [s])"

text \<open>A property that is neither \<open>class\<close> nor \<open>id\<close>: the field of the class, else of the interface.\<close>

definition store_prop :: "'v schema \<Rightarrow> string \<Rightarrow> nat \<Rightarrow> string \<Rightarrow> jval \<Rightarrow> 'v flat \<Rightarrow> 'v flat" where
  "store_prop sch cls absIdx i v st =
     (let (j, st1) =
            (if CHR ''_'' \<in> set i
             then (remove_first CHR ''_'' (lower_case i), st\<lparr>warned := note_once i (warned st)\<rparr>)
             else (lower_case i, st));
          fld = ''fld_'' @ lower_case cls @ ''_'' @ j;
          ifld = ''fld_'' @ (case classToIFace sch cls of Some f \<Rightarrow> f | None \<Rightarrow> ''undefined'') @ ''_'' @ j
      in case flds st1 fld of
           Some a \<Rightarrow> st1\<lparr>flds := (flds st1)(fld \<mapsto> a[absIdx := coerce sch fld v])\<rparr>
         | None \<Rightarrow>
             (case flds st1 ifld of
                Some a \<Rightarrow> st1\<lparr>flds := (flds st1)(ifld \<mapsto> a[absIdx := coerce sch ifld v])\<rparr>
              | None \<Rightarrow> st1\<lparr>ignored := note_once j (ignored st1)\<rparr>))"

fun props_loop :: "'v schema \<Rightarrow> string option \<Rightarrow> nat \<Rightarrow> (string \<times> jval) list \<Rightarrow> 'v flat \<Rightarrow> flat_error + 'v flat" where
  "props_loop sch cls absIdx [] st = Inr st"
| "props_loop sch cls absIdx ((i, v) # ps) st =
     (if i = ''class'' then
        case cls of
          None \<Rightarrow> Inl MissingClass
        | Some k \<Rightarrow>
            (case classToToken sch k of
               None \<Rightarrow> Inl (UnknownClass k)
             | Some t \<Rightarrow>
                 props_loop sch cls absIdx ps (st\<lparr>grammartokens := (grammartokens st)[absIdx := t]\<rparr>))
      else if i = ''id'' then
        let (idx, ts) = tokenize (lower_case (jval_string v)) (toks st)
        in props_loop sch cls absIdx ps (st\<lparr>toks := ts, ids := (ids st)[absIdx := int idx]\<rparr>)
      else
        case cls of
          None \<Rightarrow> Inl MissingClass
        | Some k \<Rightarrow> props_loop sch cls absIdx ps (store_prop sch k absIdx i v st))"

definition flattenNode :: "'v schema \<Rightarrow> jnode \<Rightarrow> nat \<Rightarrow> nat \<Rightarrow> 'v flat \<Rightarrow> flat_error + 'v flat" where
  "flattenNode sch node absIdx leftmostChildIdx st =
     (case flattenEdges sch node absIdx leftmostChildIdx st of
        Inl e \<Rightarrow> Inl e
      | Inr st1 \<Rightarrow> props_loop sch (node_class node) absIdx (props node) st1)"

section \<open>flatten\<close>

text \<open>One pass over a level; \<open>nextLevel\<close> collects the children.\<close>

fun flatten_level :: "'v schema \<Rightarrow> jnode list \<Rightarrow> nat \<Rightarrow> nat \<Rightarrow> jnode list \<Rightarrow> 'v flat
    \<Rightarrow> flat_error + nat \<times> jnode list \<times> 'v flat" where
  "flatten_level sch [] absIdx leftmostChildIdx nextLevel st = Inr (absIdx, nextLevel, st)"
| "flatten_level sch (node # level) absIdx leftmostChildIdx nextLevel st =
     (case flattenNode sch node absIdx leftmostChildIdx st of
        Inl e \<Rightarrow> Inl e
      | Inr st1 \<Rightarrow>
          flatten_level sch level (absIdx + 1) (leftmostChildIdx + length (kids node)) (nextLevel @ kids node) st1)"

lemma flatten_level_next:
  "flatten_level sch level absIdx lm nxt st = Inr (a, nxt', st') \<Longrightarrow>
     a = absIdx + length level \<and> nxt' = nxt @ concat (map kids level)"
proof (induction level arbitrary: absIdx lm nxt st)
  case (Cons node level)
  then obtain st1 where
    "flatten_level sch level (absIdx + 1) (lm + length (kids node)) (nxt @ kids node) st1 = Inr (a, nxt', st')"
    by (auto split: sum.splits)
  from Cons.IH [OF this] show ?case by simp
qed simp

lemma treeSize_kids: "treeSize node = Suc (sum_list (map treeSize (kids node)))"
proof -
  have "kidSize c = sum_list (map treeSize (kid_nodes c))" for c
    by (cases c) simp_all
  then have "sum_list (map (\<lambda>(lbl, c). kidSize c) ks) =
      sum_list (map treeSize (concat (map (\<lambda>(lbl, c). kid_nodes c) ks)))" for ks :: "(string \<times> kid) list"
    by (induction ks) (auto simp: case_prod_beta)
  then show ?thesis
    by (cases node) (simp add: kids_def groups_def split: option.split)
qed

lemma treeSize_level:
  "sum_list (map treeSize (concat (map kids level))) + length level = sum_list (map treeSize level)"
proof (induction level)
  case (Cons n level)
  then show ?case using treeSize_kids [of n] by simp
qed simp

function flatten_loop :: "'v schema \<Rightarrow> jnode list \<Rightarrow> nat \<Rightarrow> level list \<Rightarrow> 'v flat
    \<Rightarrow> flat_error + level list \<times> 'v flat" where
  "flatten_loop sch lvl absIdx lvls st =
     (if lvl = [] then Inr (lvls, st)
      else case flatten_level sch lvl absIdx (absIdx + length lvl) [] st of
             Inl e \<Rightarrow> Inl e
           | Inr (absIdx', nextLevel, st1) \<Rightarrow>
               flatten_loop sch nextLevel absIdx' (lvls @ [\<lparr>start_idx = absIdx, llength = length lvl\<rparr>]) st1)"
  by pat_completeness auto
termination
proof (relation "measure (\<lambda>(sch, lvl, absIdx, lvls, st). sum_list (map treeSize lvl))")
  fix sch :: "'v schema" and lvl absIdx lvls st b x y nextLevel st1
  assume "lvl \<noteq> []" and "flatten_level sch lvl absIdx (absIdx + length lvl) [] st = Inr b"
    and "(x, y) = b" and "(nextLevel, st1) = y"
  then show "((sch, nextLevel, x, lvls @ [\<lparr>start_idx = absIdx, llength = length lvl\<rparr>], st1), sch, lvl, absIdx, lvls, st)
      \<in> measure (\<lambda>(sch, lvl, absIdx, lvls, st). sum_list (map treeSize lvl))"
    using flatten_level_next [of sch lvl absIdx "absIdx + length lvl" "[]" st x nextLevel st1]
      treeSize_level [of lvl]
    by (cases lvl) auto
qed simp

declare flatten_loop.simps [simp del]

text \<open>The levels and the final fields; the size argument of the source is only copied.\<close>

definition flatten :: "'v schema \<Rightarrow> jnode \<Rightarrow> 'v flat \<Rightarrow> flat_error + level list \<times> 'v flat" where
  "flatten sch data st = flatten_loop sch [data] 0 [] st"

section \<open>Breadth-first order\<close>

text \<open>The levels of the tree, and the flattening as one pass over their concatenation.\<close>

function levels_of :: "jnode list \<Rightarrow> jnode list list" where
  "levels_of lvl = (if lvl = [] then [] else lvl # levels_of (concat (map kids lvl)))"
  by pat_completeness auto
termination
proof (relation "measure (\<lambda>lvl. sum_list (map treeSize lvl))")
  fix lvl :: "jnode list"
  assume "lvl \<noteq> []"
  then show "(concat (map kids lvl), lvl) \<in> measure (\<lambda>lvl. sum_list (map treeSize lvl))"
    using treeSize_level [of lvl] by (cases lvl) auto
qed simp

declare levels_of.simps [simp del]

lemma levels_of_Nil [simp]: "levels_of [] = []"
  by (simp add: levels_of.simps)

definition bfs :: "jnode \<Rightarrow> jnode list" where
  "bfs data = concat (levels_of [data])"

fun level_table :: "nat \<Rightarrow> jnode list list \<Rightarrow> level list" where
  "level_table a [] = []"
| "level_table a (l # ls) = \<lparr>start_idx = a, llength = length l\<rparr> # level_table (a + length l) ls"

fun flatten_nodes :: "'v schema \<Rightarrow> jnode list \<Rightarrow> nat \<Rightarrow> nat \<Rightarrow> 'v flat \<Rightarrow> flat_error + 'v flat" where
  "flatten_nodes sch [] absIdx lm st = Inr st"
| "flatten_nodes sch (n # ns) absIdx lm st =
     (case flattenNode sch n absIdx lm st of
        Inl e \<Rightarrow> Inl e
      | Inr st1 \<Rightarrow> flatten_nodes sch ns (absIdx + 1) (lm + length (kids n)) st1)"

lemma flatten_level_nodes:
  "flatten_level sch lvl a lm nxt st =
     (case flatten_nodes sch lvl a lm st of
        Inl e \<Rightarrow> Inl e
      | Inr st1 \<Rightarrow> Inr (a + length lvl, nxt @ concat (map kids lvl), st1))"
  by (induction lvl arbitrary: a lm nxt st) (simp_all split: sum.split)

lemma flatten_nodes_append:
  "flatten_nodes sch (xs @ ys) a lm st =
     (case flatten_nodes sch xs a lm st of
        Inl e \<Rightarrow> Inl e
      | Inr st1 \<Rightarrow> flatten_nodes sch ys (a + length xs) (lm + length (concat (map kids xs))) st1)"
  by (induction xs arbitrary: a lm st) (simp_all add: add.assoc split: sum.split)

lemma flatten_loop_nodes:
  "flatten_loop sch lvl a lvls st =
     (case flatten_nodes sch (concat (levels_of lvl)) a (a + length lvl) st of
        Inl e \<Rightarrow> Inl e
      | Inr st1 \<Rightarrow> Inr (lvls @ level_table a (levels_of lvl), st1))"
proof (induction lvl arbitrary: a lvls st rule: levels_of.induct)
  case (1 lvl)
  show ?case
  proof (cases "lvl = []")
    case True
    then show ?thesis by (simp add: flatten_loop.simps levels_of.simps)
  next
    case False
    have lv: "levels_of lvl = lvl # levels_of (concat (map kids lvl))"
      using False by (subst levels_of.simps) simp
    show ?thesis
      using False 1 [OF False]
      by (subst flatten_loop.simps) (simp add: lv flatten_level_nodes flatten_nodes_append split: sum.split)
  qed
qed

lemma flatten_bfs:
  "flatten sch data st =
     (case flatten_nodes sch (bfs data) 0 1 st of
        Inl e \<Rightarrow> Inl e
      | Inr st1 \<Rightarrow> Inr (level_table 0 (levels_of [data]), st1))"
  by (simp add: flatten_def flatten_loop_nodes bfs_def split: sum.split)

lemma levels_of_size: "length (concat (levels_of lvl)) = sum_list (map treeSize lvl)"
proof (induction lvl rule: levels_of.induct)
  case (1 lvl)
  show ?case
  proof (cases "lvl = []")
    case False
    then show ?thesis
      using 1 [OF False] treeSize_level [of lvl] by (subst levels_of.simps) simp
  qed (simp add: levels_of.simps)
qed

lemma length_bfs [simp]: "length (bfs data) = treeSize data"
  by (simp add: bfs_def levels_of_size)

text \<open>Every node of the tree but the root is a child: the children of all nodes are the tail.\<close>

lemma levels_of_head: "concat (levels_of l) = l @ drop (length l) (concat (levels_of l))"
  by (cases "l = []") (simp_all add: levels_of.simps [of l])

lemma levels_of_kids: "concat (map kids (concat (levels_of lvl))) = drop (length lvl) (concat (levels_of lvl))"
proof (induction lvl rule: levels_of.induct)
  case (1 lvl)
  show ?case
  proof (cases "lvl = []")
    case False
    let ?k = "concat (map kids lvl)"
    have hd: "concat (levels_of ?k) = ?k @ drop (length ?k) (concat (levels_of ?k))"
      by (rule levels_of_head)
    have lv: "levels_of lvl = lvl # levels_of ?k"
      using False by (subst levels_of.simps) simp
    have "concat (map kids (concat (levels_of lvl))) = ?k @ concat (map kids (concat (levels_of ?k)))"
      unfolding lv by (simp only: concat.simps map_append concat_append)
    also have "\<dots> = concat (levels_of ?k)"
      unfolding 1 [OF False] by (rule hd [symmetric])
    finally show ?thesis unfolding lv by simp
  qed (simp add: levels_of.simps)
qed

lemma bfs_kids: "concat (map kids (bfs data)) = tl (bfs data)"
  using levels_of_kids [of "[data]"] by (simp add: bfs_def drop_Suc)

section \<open>Stores of a run of values\<close>

definition write_at :: "nat \<Rightarrow> 'a list \<Rightarrow> 'a list \<Rightarrow> 'a list" where
  "write_at p ys xs = take p xs @ ys @ drop (p + length ys) xs"

lemma write_at_Nil [simp]: "write_at p [] xs = xs"
  by (simp add: write_at_def)

lemma length_write_at [simp]: "p + length ys \<le> length xs \<Longrightarrow> length (write_at p ys xs) = length xs"
  by (simp add: write_at_def)

lemma write_at_append:
  "p + length ys + length zs \<le> length xs \<Longrightarrow>
   write_at (p + length ys) zs (write_at p ys xs) = write_at p (ys @ zs) xs"
  by (simp add: write_at_def ac_simps min_def)

lemma write_at_one: "p < length xs \<Longrightarrow> xs[p := v] = write_at p [v] xs"
  by (simp add: write_at_def upd_conv_take_nth_drop)

lemma write_at_all: "length xs = Suc (length ys) \<Longrightarrow> write_at 1 ys xs = xs ! 0 # ys"
  by (cases xs) (simp_all add: write_at_def)

lemma foldl_update_write:
  "b + n \<le> length xs \<Longrightarrow> foldl (\<lambda>xs i. xs[b + i := f i]) xs [0..<n] = write_at b (map f [0..<n]) xs"
proof (induction n)
  case (Suc n)
  then show ?case
    using write_at_append [of b "map f [0..<n]" "[f n]" xs]
    by (simp add: write_at_one)
qed simp

lemma foldl_update_write1:
  assumes "b + n \<le> length xs" and "0 < n"
  shows "foldl (\<lambda>xs i. xs[b + i := v]) (xs[b := u]) [1..<n] = write_at b (u # replicate (n - 1) v) xs"
proof -
  have "[1..<n] = map Suc [0..<n - 1]"
    using assms(2) by (simp add: map_Suc_upt)
  then have "foldl (\<lambda>xs i. xs[b + i := v]) (xs[b := u]) [1..<n] =
      foldl (\<lambda>xs i. xs[(b + 1) + i := v]) (xs[b := u]) [0..<n - 1]"
    by (simp add: foldl_map)
  also have "\<dots> = write_at (b + 1) (replicate (n - 1) v) (xs[b := u])"
    using assms by (subst foldl_update_write) (simp_all add: map_replicate_const)
  also have "\<dots> = write_at b ([u] @ replicate (n - 1) v) xs"
    using assms write_at_append [of b "[u]" "replicate (n - 1) v" xs]
    by (simp add: write_at_one)
  finally show ?thesis by simp
qed

section \<open>What the links of one node are\<close>

fun kid_rights :: "kid \<Rightarrow> int list" where
  "kid_rights (Many ns) = (if ns = [] then [] else replicate (length ns - 1) 1 @ [0])"
| "kid_rights (One n) = [0]"

definition node_rights :: "jnode \<Rightarrow> int list" where
  "node_rights node = concat (map (\<lambda>(lbl, c). kid_rights c) (groups node))"

definition lefts_from :: "nat \<Rightarrow> nat \<Rightarrow> int list" where
  "lefts_from r n = map (\<lambda>j. if r + j = 0 then 0 else 1) [0..<n]"

lemma lefts_from_add: "lefts_from r (m + n) = lefts_from r m @ lefts_from (r + m) n"
proof -
  have "[0..<m + n] = [0..<m] @ map (\<lambda>i. i + m) [0..<n]"
    unfolding map_add_upt using upt_add_eq_append [of 0 m n] by (simp add: add.commute)
  then show ?thesis by (simp add: lefts_from_def o_def ac_simps)
qed

lemma lefts_from_simps [simp]: "lefts_from r 0 = []" "length (lefts_from r n) = n"
  "lefts_from r (Suc 0) = [if r = 0 then 0 else 1]"
  by (simp_all add: lefts_from_def)

lemma lefts_from_Suc: "lefts_from r (Suc n) = (if r \<noteq> 0 then 1 else 0) # replicate n 1"
proof -
  have "lefts_from (r + 1) n = replicate n 1"
    by (simp add: lefts_from_def map_replicate_const)
  then show ?thesis using lefts_from_add [of r 1 n] by simp
qed

lemma lefts_from_pos: "0 < n \<Longrightarrow> lefts_from r n = (if r \<noteq> 0 then 1 else 0) # replicate (n - 1) 1"
  by (cases n) (simp_all add: lefts_from_Suc)

lemma length_kid_rights [simp]: "length (kid_rights c) = length (kid_nodes c)"
  by (cases c) simp_all

lemma length_concat_rights:
  "length (concat (map (\<lambda>(lbl, c). kid_rights c) cs)) = length (concat (map (\<lambda>(lbl, c). kid_nodes c) cs))"
  by (induction cs) auto

lemma foldl_rights:
  "foldl (\<lambda>s ci. s\<lparr>right_siblings := (right_siblings s)[b + ci := f ci]\<rparr>) st is =
     st\<lparr>right_siblings := foldl (\<lambda>xs ci. xs[b + ci := f ci]) (right_siblings st) is\<rparr>"
  by (induction "is" arbitrary: st) simp_all

lemma foldl_parents:
  "foldl (\<lambda>s ci. s\<lparr>parent := (parent s)[b + ci := f ci]\<rparr>) st is =
     st\<lparr>parent := foldl (\<lambda>xs ci. xs[b + ci := f ci]) (parent st) is\<rparr>"
  by (induction "is" arbitrary: st) simp_all

lemma foldl_lefts:
  "foldl (\<lambda>s ci. s\<lparr>left_siblings := (left_siblings s)[b + ci := f ci]\<rparr>) st is =
     st\<lparr>left_siblings := foldl (\<lambda>xs ci. xs[b + ci := f ci]) (left_siblings st) is\<rparr>"
  by (induction "is" arbitrary: st) simp_all

text \<open>The three link arrays all have the length of the tree.\<close>

definition links_len :: "nat \<Rightarrow> 'v flat \<Rightarrow> bool" where
  "links_len N st \<longleftrightarrow> length (right_siblings st) = N \<and> length (left_siblings st) = N \<and> length (parent st) = N"

text \<open>The fields that linking does not touch.\<close>

definition same_rest :: "'v flat \<Rightarrow> 'v flat \<Rightarrow> bool" where
  "same_rest st st' \<longleftrightarrow> ids st' = ids st \<and> grammartokens st' = grammartokens st \<and> toks st' = toks st \<and>
     warned st' = warned st \<and> ignored st' = ignored st"

text \<open>\<open>linked a b rs r n st st'\<close>: \<open>st'\<close> has the links of \<open>n\<close> children from position \<open>b\<close> on.\<close>

definition linked :: "nat \<Rightarrow> nat \<Rightarrow> int list \<Rightarrow> nat \<Rightarrow> nat \<Rightarrow> 'v flat \<Rightarrow> 'v flat \<Rightarrow> bool" where
  "linked a b rs r n st st' \<longleftrightarrow>
     right_siblings st' = write_at b rs (right_siblings st) \<and>
     parent st' = write_at b (replicate n (int a)) (parent st) \<and>
     left_siblings st' = write_at b (lefts_from r n) (left_siblings st)"

lemma link_many_linked:
  assumes "links_len N st" and "b + length ns \<le> N"
  shows "linked a b (kid_rights (Many ns)) r (length ns) st (link_many a b r (length ns) st) \<and>
    flds (link_many a b r (length ns) st) = flds st \<and> same_rest st (link_many a b r (length ns) st)"
proof (cases "ns = []")
  case True
  then show ?thesis by (simp add: link_many_def linked_def same_rest_def)
next
  case False
  let ?n = "length ns"
  have n: "0 < ?n" using False by simp
  have "foldl (\<lambda>xs ci. xs[b + ci := 1]) (right_siblings st) [0..<?n - 1] =
      write_at b (replicate (?n - 1) 1) (right_siblings st)"
    using assms foldl_update_write [of b "?n - 1" "right_siblings st" "\<lambda>_. 1"]
    by (simp add: links_len_def map_replicate_const)
  moreover have "(write_at b (replicate (?n - 1) 1) (right_siblings st))[b + ?n - 1 := 0] =
      write_at b (replicate (?n - 1) 1 @ [0]) (right_siblings st)"
  proof -
    obtain m where m: "?n = Suc m" using n by (cases ?n) auto
    show ?thesis
      using assms write_at_append [of b "replicate m (1 :: int)" "[0]" "right_siblings st"]
      by (simp add: m links_len_def write_at_one)
  qed
  moreover have "foldl (\<lambda>xs ci. xs[b + ci := int a]) (parent st) [0..<?n] = write_at b (replicate ?n (int a)) (parent st)"
    using assms foldl_update_write [of b ?n "parent st" "\<lambda>_. int a"]
    by (simp add: links_len_def map_replicate_const)
  moreover have "foldl (\<lambda>xs ci. xs[b + ci := 1]) ((left_siblings st)[b := if r \<noteq> 0 then 1 else 0]) [1..<?n] =
      write_at b (lefts_from r ?n) (left_siblings st)"
    using assms n foldl_update_write1 [of b ?n "left_siblings st" 1 "if r \<noteq> 0 then 1 else 0"]
    by (simp only: links_len_def lefts_from_pos)
  ultimately show ?thesis
    using n False
    by (simp add: link_many_def Let_def foldl_rights foldl_parents foldl_lefts linked_def same_rest_def)
qed

lemma link_one_linked:
  assumes "links_len N st" and "b < N"
  shows "linked a b (kid_rights (One n)) r 1 st (link_one a b r st) \<and>
    flds (link_one a b r st) = flds st \<and> same_rest st (link_one a b r st)"
  using assms by (simp add: link_one_def linked_def links_len_def same_rest_def write_at_one lefts_from_def)

lemma linked_len: "linked a b rs r n st st' \<Longrightarrow> length rs = n \<Longrightarrow> links_len N st \<Longrightarrow> b + n \<le> N \<Longrightarrow> links_len N st'"
  by (simp add: linked_def links_len_def)

lemma linked_append:
  assumes "linked a b rs r n st st1" and "linked a (b + n) rs2 (r + n) m st1 st2"
    and "length rs = n" and "length rs2 = m" and "links_len N st" and "b + n + m \<le> N"
  shows "linked a b (rs @ rs2) r (n + m) st st2"
  using assms
  by (auto simp: linked_def links_len_def write_at_append lefts_from_add replicate_add
      write_at_append [of b "replicate n (int a)" "replicate m (int a)", simplified]
      write_at_append [of b "lefts_from r n" "lefts_from (r + n) m", simplified])

lemma linked_flds [simp]:
  "linked a b rs r n (st\<lparr>flds := f\<rparr>) st' = linked a b rs r n st st'"
  "same_rest (st\<lparr>flds := f\<rparr>) st' = same_rest st st'"
  "links_len N (st\<lparr>flds := f\<rparr>) = links_len N st"
  by (simp_all add: linked_def same_rest_def links_len_def)

section \<open>What flattenNode does\<close>

abbreviation group_kids :: "(string \<times> kid) list \<Rightarrow> jnode list" where
  "group_kids cs \<equiv> concat (map (\<lambda>(lbl, c). kid_nodes c) cs)"

abbreviation group_rights :: "(string \<times> kid) list \<Rightarrow> int list" where
  "group_rights cs \<equiv> concat (map (\<lambda>(lbl, c). kid_rights c) cs)"

lemma edges_loop_links:
  assumes "edges_loop sch cls a lm cs r st = Inr st'" and "links_len N st"
    and "lm + r + length (group_kids cs) \<le> N"
  shows "linked a (lm + r) (group_rights cs) r (length (group_kids cs)) st st' \<and> same_rest st st' \<and>
    dom (flds st') = dom (flds st)"
  using assms
proof (induction cs arbitrary: r st)
  case Nil
  then show ?case by (simp add: linked_def same_rest_def)
next
  case (Cons lc cs)
  obtain lbl c where lc: "lc = (lbl, c)" by (cases lc)
  let ?n = "length (kid_nodes c)"
  from Cons.prems(1) obtain k arr where k: "cls = Some k" and f: "flds st (child_field k lbl) = Some arr"
    by (auto simp: lc Let_def split: option.splits)
  define st1 where "st1 = st\<lparr>flds := (flds st)(child_field k lbl \<mapsto>
    arr[a := coerce sch (child_field k lbl) (JNum (int (lm + r) - int a))])\<rparr>"
  define st2 where "st2 = (case c of Many ns \<Rightarrow> link_many a (lm + r) r (length ns) st1 | One n \<Rightarrow> link_one a (lm + r) r st1)"
  have N: "lm + r + ?n + length (group_kids cs) \<le> N"
    using Cons.prems(3) by (simp add: lc add.assoc)
  have l1: "links_len N st1" using Cons.prems(2) by (simp add: st1_def)
  have step: "linked a (lm + r) (kid_rights c) r ?n st1 st2 \<and> flds st2 = flds st1 \<and> same_rest st1 st2"
  proof (cases c)
    case (Many ns)
    then show ?thesis using link_many_linked [OF l1, of "lm + r" ns a r] N by (simp add: st2_def)
  next
    case (One n)
    then show ?thesis using link_one_linked [OF l1, of "lm + r" a n r] N by (simp add: st2_def)
  qed
  have rest: "edges_loop sch cls a lm cs (r + ?n) st2 = Inr st'"
    using Cons.prems(1) by (cases c) (simp_all add: lc k f st2_def st1_def Let_def)
  have l2: "links_len N st2"
    using step l1 N by (intro linked_len [of a "lm + r" "kid_rights c" r ?n st1 st2]) auto
  have IH: "linked a (lm + (r + ?n)) (group_rights cs) (r + ?n) (length (group_kids cs)) st2 st' \<and>
      same_rest st2 st' \<and> dom (flds st') = dom (flds st2)"
    using N by (intro Cons.IH rest l2) simp
  have "linked a (lm + r) (kid_rights c @ group_rights cs) r (?n + length (group_kids cs)) st1 st'"
    using step IH l1 N
    by (intro linked_append [where ?st1.0 = st2]) (auto simp: length_concat_rights ac_simps)
  moreover have "same_rest st1 st'" using step IH by (simp add: same_rest_def)
  moreover have "dom (flds st') = dom (flds st)"
    using step IH f by (auto simp: st1_def)
  ultimately show ?case by (simp add: lc st1_def)
qed

lemma edges_loop_ok:
  "(\<exists>st'. edges_loop sch cls a lm cs r st = Inr st') \<longleftrightarrow>
     (cs \<noteq> [] \<longrightarrow> cls \<noteq> None) \<and> (\<forall>lbl \<in> fst ` set cs. child_field (the cls) lbl \<in> dom (flds st))"
proof (induction cs arbitrary: r st)
  case (Cons lc cs)
  obtain lbl c where lc: "lc = (lbl, c)" by (cases lc)
  show ?case
  proof (cases cls)
    case (Some k)
    note k = Some
    have dm: "dom (flds (link_many a b r n s)) = dom (flds s)" "dom (flds (link_one a b r s)) = dom (flds s)"
      for b n and s :: "'a flat"
      by (simp_all add: link_many_def link_one_def Let_def foldl_rights foldl_parents foldl_lefts)
    show ?thesis
    proof (cases "flds st (child_field k lbl)")
      case (Some arr)
      have "insert (child_field k lbl) (dom (flds st)) = dom (flds st)" using Some by auto
      then show ?thesis
        using Some by (cases c) (auto simp: lc k Let_def Cons.IH [unfolded k] dm)
    qed (simp add: lc k domIff)
  qed (simp add: lc)
qed simp

lemma store_prop_frame:
  "right_siblings (store_prop sch k a i v st) = right_siblings st"
  "left_siblings (store_prop sch k a i v st) = left_siblings st"
  "parent (store_prop sch k a i v st) = parent st"
  "ids (store_prop sch k a i v st) = ids st"
  "toks (store_prop sch k a i v st) = toks st"
  "grammartokens (store_prop sch k a i v st) = grammartokens st"
  "dom (flds (store_prop sch k a i v st)) = dom (flds st)"
  by (auto simp: store_prop_def Let_def domIff split: option.split)

definition same_links :: "'v flat \<Rightarrow> 'v flat \<Rightarrow> bool" where
  "same_links st st' \<longleftrightarrow> right_siblings st' = right_siblings st \<and> left_siblings st' = left_siblings st \<and>
     parent st' = parent st \<and> dom (flds st') = dom (flds st)"

lemma props_loop_links: "props_loop sch cls a ps st = Inr st' \<Longrightarrow> same_links st st'"
proof (induction ps arbitrary: st)
  case (Cons p ps)
  obtain i v where p: "p = (i, v)" by (cases p)
  obtain st1 where "props_loop sch cls a ps st1 = Inr st'" and "same_links st st1"
    using Cons.prems
    by (auto simp: p same_links_def store_prop_frame split: if_splits option.splits prod.splits)
  with Cons.IH show ?case by (simp add: same_links_def)
qed (simp add: same_links_def)

definition prop_ok :: "'v schema \<Rightarrow> string option \<Rightarrow> string \<Rightarrow> bool" where
  "prop_ok sch cls i \<longleftrightarrow>
     (if i = ''class'' then cls \<noteq> None \<and> classToToken sch (the cls) \<noteq> None
      else i = ''id'' \<or> cls \<noteq> None)"

definition props_ok :: "'v schema \<Rightarrow> string option \<Rightarrow> (string \<times> jval) list \<Rightarrow> bool" where
  "props_ok sch cls ps \<longleftrightarrow> (\<forall>i \<in> fst ` set ps. prop_ok sch cls i)"

lemma props_ok_Cons: "props_ok sch cls ((i, v) # ps) \<longleftrightarrow> prop_ok sch cls i \<and> props_ok sch cls ps"
  by (simp add: props_ok_def)

lemma props_loop_ok: "(\<exists>st'. props_loop sch cls a ps st = Inr st') \<longleftrightarrow> props_ok sch cls ps"
proof (induction ps arbitrary: st)
  case (Cons p ps)
  obtain i v where p: "p = (i, v)" by (cases p)
  show ?case
  proof (cases cls)
    case None
    show ?thesis by (simp add: p None props_ok_Cons prop_ok_def Cons.IH [unfolded None] case_prod_beta)
  next
    case (Some k)
    show ?thesis
      by (cases "classToToken sch k")
        (simp_all add: p Some props_ok_Cons prop_ok_def Cons.IH [unfolded Some] case_prod_beta)
  qed
qed (simp add: props_ok_def)

text \<open>Exactly which nodes the flattener accepts, given the fields the schema declares.\<close>

definition node_ok :: "'v schema \<Rightarrow> string set \<Rightarrow> jnode \<Rightarrow> bool" where
  "node_ok sch F node \<longleftrightarrow>
     (groups node \<noteq> [] \<longrightarrow> node_class node \<noteq> None) \<and>
     (\<forall>lbl \<in> fst ` set (groups node). child_field (the (node_class node)) lbl \<in> F) \<and>
     props_ok sch (node_class node) (props node)"

lemma edges_dom: "edges_loop sch cls a lm cs r st = Inr st' \<Longrightarrow> dom (flds st') = dom (flds st)"
proof (induction cs arbitrary: r st)
  case (Cons lc cs)
  obtain lbl c where lc: "lc = (lbl, c)" by (cases lc)
  have dm: "dom (flds (link_many a b r n s)) = dom (flds s)" "dom (flds (link_one a b r s)) = dom (flds s)"
    for b n and s :: "'a flat"
    by (simp_all add: link_many_def link_one_def Let_def foldl_rights foldl_parents foldl_lefts)
  from Cons.prems obtain k arr where k: "cls = Some k" and f: "flds st (child_field k lbl) = Some arr"
    by (auto simp: lc Let_def split: option.splits)
  then have ins: "insert (child_field k lbl) (dom (flds st)) = dom (flds st)" by auto
  have "\<exists>r2 st2. edges_loop sch cls a lm cs r2 st2 = Inr st' \<and> dom (flds st2) = dom (flds st)"
  proof (cases c)
    case (Many ns)
    show ?thesis
      by (rule exI, rule exI, rule conjI)
        (rule Cons.prems [unfolded lc Many k, simplified f Let_def edges_loop.simps option.case kid.case, folded k],
          simp add: dm ins)
  next
    case (One n)
    show ?thesis
      by (rule exI, rule exI, rule conjI)
        (rule Cons.prems [unfolded lc One k, simplified f Let_def edges_loop.simps option.case kid.case, folded k],
          simp add: dm ins)
  qed
  then obtain r2 st2 where "edges_loop sch cls a lm cs r2 st2 = Inr st'" and d: "dom (flds st2) = dom (flds st)"
    by blast
  from Cons.IH [OF this(1)] d show ?case by simp
qed simp

lemma flattenNode_ok: "(\<exists>st'. flattenNode sch node a lm st = Inr st') \<longleftrightarrow> node_ok sch (dom (flds st)) node"
proof -
  have "(\<exists>st1. flattenEdges sch node a lm st = Inr st1) \<longleftrightarrow>
      (groups node \<noteq> [] \<longrightarrow> node_class node \<noteq> None) \<and>
      (\<forall>lbl \<in> fst ` set (groups node). child_field (the (node_class node)) lbl \<in> dom (flds st))"
    unfolding flattenEdges_def by (rule edges_loop_ok)
  then show ?thesis
    using props_loop_ok [of sch "node_class node" a "props node"]
    by (auto simp: flattenNode_def node_ok_def split: sum.splits)
qed

lemma flattenNode_links:
  assumes "flattenNode sch node a lm st = Inr st'" and "links_len N st" and "lm + length (kids node) \<le> N"
  shows "linked a lm (node_rights node) 0 (length (kids node)) st st' \<and> dom (flds st') = dom (flds st)"
proof -
  from assms(1) obtain st1 where e: "edges_loop sch (node_class node) a lm (groups node) 0 st = Inr st1"
    and p: "props_loop sch (node_class node) a (props node) st1 = Inr st'"
    by (auto simp: flattenNode_def flattenEdges_def split: sum.splits)
  have "linked a lm (node_rights node) 0 (length (kids node)) st st1 \<and> dom (flds st1) = dom (flds st)"
    using edges_loop_links [OF e assms(2)] assms(3) by (simp add: node_rights_def kids_def)
  with props_loop_links [OF p] show ?thesis by (simp add: linked_def same_links_def)
qed

section \<open>A small tree\<close>

text \<open>A box with two leaves under one label and a single leaf under another, for the witnesses.\<close>

definition demo_schema :: "int schema" where
  "demo_schema = \<lparr>classToToken = map_of [(''HBox'', 7), (''Leaf'', 9)], classToIFace = (\<lambda>_. Some ''node''),
     coerce = (\<lambda>_ v. case v of JNum n \<Rightarrow> n | _ \<Rightarrow> 0)\<rparr>"

definition demo_tree :: jnode where
  "demo_tree = JNode [(''class'', JStr ''HBox''), (''id'', JStr ''A'')]
     (Some [(''childs'', Many [JNode [(''class'', JStr ''Leaf''), (''w'', JNum 3)] None,
                               JNode [(''class'', JStr ''Leaf''), (''id'', JStr ''B'')] None]),
            (''extra'', One (JNode [(''class'', JStr ''Leaf''), (''id'', JStr ''a'')] None))])"

definition demo_flat :: "int flat" where
  "demo_flat = \<lparr>flds = [''fld_hbox_child_childs_leftmost_child'' \<mapsto> [0, 0, 0, 0],
       ''fld_hbox_child_extra_leftmost_child'' \<mapsto> [0, 0, 0, 0], ''fld_node_w'' \<mapsto> [0, 0, 0, 0]],
     right_siblings = [0, 0, 0, 0], left_siblings = [0, 0, 0, 0], parent = [0, 0, 0, 0], ids = [0, 0, 0, 0],
     grammartokens = [0, 0, 0, 0], toks = [], warned = [], ignored = []\<rparr>"

lemma demo_flatten:
  "map_sum (\<lambda>_. ()) (\<lambda>(lv, s). (lv, right_siblings s, left_siblings s, parent s, ids s, grammartokens s, toks s))
     (flatten demo_schema demo_tree demo_flat) =
   Inr ([\<lparr>start_idx = 0, llength = 1\<rparr>, \<lparr>start_idx = 1, llength = 3\<rparr>],
     [0, 1, 0, 0], [0, 0, 1, 1], [0, 0, 0, 0], [0, 0, 1, 0], [7, 9, 9, 9], [''a'', ''b''])"
  by code_simp

lemma demo_result:
  obtains lv st' where "flatten demo_schema demo_tree demo_flat = Inr (lv, st')"
    and "lv = [\<lparr>start_idx = 0, llength = 1\<rparr>, \<lparr>start_idx = 1, llength = 3\<rparr>]"
    and "right_siblings st' = [0, 1, 0, 0]" and "left_siblings st' = [0, 0, 1, 1]" and "parent st' = [0, 0, 0, 0]"
    and "ids st' = [0, 0, 1, 0]" and "toks st' = [''a'', ''b'']"
  using demo_flatten by (cases "flatten demo_schema demo_tree demo_flat") auto

lemma demo_treeSize: "treeSize demo_tree = 4"
  by code_simp

lemma demo_links_len: "links_len (treeSize demo_tree) demo_flat"
  unfolding demo_treeSize by (simp add: links_len_def demo_flat_def)

section \<open>The whole tree\<close>

fun parents_from :: "nat \<Rightarrow> jnode list \<Rightarrow> int list" where
  "parents_from a [] = []"
| "parents_from a (n # ns) = replicate (length (kids n)) (int a) @ parents_from (a + 1) ns"

definition lefts_of :: "jnode list \<Rightarrow> int list" where
  "lefts_of ns = concat (map (\<lambda>n. lefts_from 0 (length (kids n))) ns)"

definition rights_of :: "jnode list \<Rightarrow> int list" where
  "rights_of ns = concat (map node_rights ns)"

lemma length_links [simp]:
  "length (parents_from a ns) = length (concat (map kids ns))"
  "length (lefts_of ns) = length (concat (map kids ns))"
  "length (rights_of ns) = length (concat (map kids ns))"
proof -
  show "length (parents_from a ns) = length (concat (map kids ns))"
    by (induction ns arbitrary: a) simp_all
  show "length (lefts_of ns) = length (concat (map kids ns))"
    by (induction ns) (simp_all add: lefts_of_def)
  show "length (rights_of ns) = length (concat (map kids ns))"
    by (induction ns) (simp_all add: rights_of_def node_rights_def kids_def length_concat_rights)
qed

lemma write_at_append': "p + n + length zs \<le> length xs \<Longrightarrow> n = length ys \<Longrightarrow>
    write_at (p + n) zs (write_at p ys xs) = write_at p (ys @ zs) xs"
  using write_at_append by metis

lemma flatten_nodes_links:
  assumes "flatten_nodes sch ns a lm st = Inr st'" and "links_len N st"
    and "lm + length (concat (map kids ns)) \<le> N"
  shows "right_siblings st' = write_at lm (rights_of ns) (right_siblings st) \<and>
    parent st' = write_at lm (parents_from a ns) (parent st) \<and>
    left_siblings st' = write_at lm (lefts_of ns) (left_siblings st)"
  using assms
proof (induction ns arbitrary: a lm st)
  case Nil
  then show ?case by (simp add: rights_of_def lefts_of_def)
next
  case (Cons n ns)
  let ?k = "length (kids n)"
  from Cons.prems(1) obtain st1 where n: "flattenNode sch n a lm st = Inr st1"
    and rest: "flatten_nodes sch ns (a + 1) (lm + ?k) st1 = Inr st'"
    by (auto split: sum.splits)
  have N: "lm + ?k + length (concat (map kids ns)) \<le> N" using Cons.prems(3) by simp
  have l: "linked a lm (node_rights n) 0 ?k st st1"
    using flattenNode_links [OF n Cons.prems(2)] N by simp
  have k: "length (node_rights n) = ?k"
    by (simp add: node_rights_def kids_def length_concat_rights)
  have l1: "links_len N st1"
    by (rule linked_len [OF l k Cons.prems(2)]) (use N in linarith)
  have IH: "right_siblings st' = write_at (lm + ?k) (rights_of ns) (right_siblings st1) \<and>
      parent st' = write_at (lm + ?k) (parents_from (a + 1) ns) (parent st1) \<and>
      left_siblings st' = write_at (lm + ?k) (lefts_of ns) (left_siblings st1)"
    by (rule Cons.IH [OF rest l1 N])
  have sh: "rights_of (n # ns) = node_rights n @ rights_of ns"
    "lefts_of (n # ns) = lefts_from 0 ?k @ lefts_of ns"
    by (simp_all add: rights_of_def lefts_of_def)
  have len: "length (right_siblings st) = N" "length (left_siblings st) = N" "length (parent st) = N"
    using Cons.prems(2) by (simp_all add: links_len_def)
  have "write_at (lm + ?k) (rights_of ns) (write_at lm (node_rights n) (right_siblings st)) =
      write_at lm (rights_of (n # ns)) (right_siblings st)"
    unfolding sh by (rule write_at_append') (use N len k in \<open>simp_all del: length_concat\<close>)
  moreover have "write_at (lm + ?k) (parents_from (a + 1) ns) (write_at lm (replicate ?k (int a)) (parent st)) =
      write_at lm (parents_from a (n # ns)) (parent st)"
    unfolding parents_from.simps by (rule write_at_append') (use N len in \<open>simp_all del: length_concat\<close>)
  moreover have "write_at (lm + ?k) (lefts_of ns) (write_at lm (lefts_from 0 ?k) (left_siblings st)) =
      write_at lm (lefts_of (n # ns)) (left_siblings st)"
    unfolding sh by (rule write_at_append') (use N len in \<open>simp_all del: length_concat\<close>)
  ultimately show ?case using IH l by (simp only: linked_def)
qed

lemma flatten_nodes_dom: "flatten_nodes sch ns a lm st = Inr st' \<Longrightarrow> dom (flds st') = dom (flds st)"
proof (induction ns arbitrary: a lm st)
  case (Cons n ns)
  from Cons.prems obtain st1 where n: "flattenNode sch n a lm st = Inr st1"
    and rest: "flatten_nodes sch ns (a + 1) (lm + length (kids n)) st1 = Inr st'"
    by (auto split: sum.splits)
  from n obtain st2 where "edges_loop sch (node_class n) a lm (groups n) 0 st = Inr st2"
    and "props_loop sch (node_class n) a (props n) st2 = Inr st1"
    by (auto simp: flattenNode_def flattenEdges_def split: sum.splits)
  then have "dom (flds st1) = dom (flds st)"
    using edges_dom props_loop_links by (fastforce simp: same_links_def)
  with Cons.IH [OF rest] show ?case by simp
qed simp

lemma flattenNode_dom: "flattenNode sch n a lm st = Inr st1 \<Longrightarrow> dom (flds st1) = dom (flds st)"
  using flatten_nodes_dom [of sch "[n]" a lm st st1] by simp

lemma flatten_nodes_ok:
  "(\<exists>st'. flatten_nodes sch ns a lm st = Inr st') \<longleftrightarrow> (\<forall>n \<in> set ns. node_ok sch (dom (flds st)) n)"
proof (induction ns arbitrary: a lm st)
  case (Cons n ns)
  show ?case
  proof (cases "flattenNode sch n a lm st")
    case (Inl e)
    then show ?thesis using flattenNode_ok [of sch n a lm st] by auto
  next
    case (Inr st1)
    have "node_ok sch (dom (flds st)) n" using Inr flattenNode_ok [of sch n a lm st] by blast
    then show ?thesis using Inr Cons.IH [of "a + 1" "lm + length (kids n)" st1] flattenNode_dom [OF Inr] by simp
  qed
qed simp

text \<open>
  C34.  The flattener accepts a tree exactly when every node of it is well formed for the schema:
  a node with children or properties has a class, the grammar has a token for the class, and every
  label of its children is a declared field of the class.
\<close>

theorem flatten_accepts:
  "(\<exists>r. flatten sch data st = Inr r) \<longleftrightarrow> (\<forall>n \<in> set (bfs data). node_ok sch (dom (flds st)) n)"
  using flatten_nodes_ok [of sch "bfs data" 0 1 st]
  by (auto simp: flatten_bfs split: sum.splits)

text \<open>Witness: the small tree, and its root under a class the grammar does not have.\<close>

lemma demo_bfs: "\<forall>n \<in> set (bfs demo_tree). node_ok demo_schema (dom (flds demo_flat)) n"
proof -
  have b: "bfs demo_tree = [demo_tree, JNode [(''class'', JStr ''Leaf''), (''w'', JNum 3)] None,
      JNode [(''class'', JStr ''Leaf''), (''id'', JStr ''B'')] None,
      JNode [(''class'', JStr ''Leaf''), (''id'', JStr ''a'')] None]"
    by code_simp
  have c: "child_field ''HBox'' ''childs'' = ''fld_hbox_child_childs_leftmost_child''"
    "child_field ''HBox'' ''extra'' = ''fld_hbox_child_extra_leftmost_child''"
    by code_simp+
  show ?thesis
    unfolding b
    by (auto simp: node_ok_def groups_def node_class_def props_ok_def prop_ok_def demo_schema_def demo_tree_def
        demo_flat_def c)
qed

theorem flatten_accepts_witness:
  "(\<exists>r. flatten demo_schema demo_tree demo_flat = Inr r) \<and>
   \<not> (\<exists>r. flatten demo_schema (JNode [(''class'', JStr ''Star'')] None) demo_flat = Inr r)"
proof -
  have "\<exists>n \<in> set (bfs (JNode [(''class'', JStr ''Star'')] None)). \<not> node_ok demo_schema (dom (flds demo_flat)) n"
    by (simp add: bfs_def levels_of.simps node_ok_def groups_def kids_def node_class_def props_ok_def prop_ok_def
        demo_schema_def)
  then show ?thesis
    using flatten_accepts [of demo_schema demo_tree demo_flat] demo_bfs
      flatten_accepts [of demo_schema "JNode [(''class'', JStr ''Star'')] None" demo_flat]
    by blast
qed

lemma level_table_lens: "map llength (level_table a ls) = map length ls"
  by (induction ls arbitrary: a) simp_all

lemma level_table_starts:
  "i < length ls \<Longrightarrow> start_idx (level_table a ls ! i) = a + sum_list (map length (take i ls))"
proof (induction ls arbitrary: a i)
  case (Cons l ls)
  then show ?case by (cases i) simp_all
qed simp

lemma levels_of_nonempty: "l \<in> set (levels_of lvl) \<Longrightarrow> l \<noteq> []"
proof (induction lvl rule: levels_of.induct)
  case (1 lvl)
  then show ?case
    by (cases "lvl = []") (auto simp: levels_of.simps [of lvl])
qed

lemma levels_partition:
  assumes "flatten sch data st = Inr (lv, st')"
  shows "lv \<noteq> [] \<and> llength (hd lv) = 1 \<and> sum_list (map llength lv) = treeSize data \<and>
    (\<forall>i < length lv. start_idx (lv ! i) = sum_list (map llength (take i lv)) \<and> 0 < llength (lv ! i))"
proof -
  let ?ls = "levels_of [data]"
  have lv: "lv = level_table 0 ?ls"
    using assms by (auto simp: flatten_bfs split: sum.splits)
  have hd: "?ls = [data] # levels_of (kids data)"
    by (subst levels_of.simps) simp
  have len: "length lv = length ?ls" using arg_cong [OF level_table_lens, of length 0 ?ls] by (simp add: lv)
  have "sum_list (map llength lv) = treeSize data"
    using levels_of_size [of "[data]"] by (simp add: lv level_table_lens length_concat)
  moreover have "lv \<noteq> [] \<and> llength (hd lv) = 1" by (simp add: lv hd)
  moreover have "start_idx (lv ! i) = sum_list (map llength (take i lv)) \<and> 0 < llength (lv ! i)"
    if i: "i < length lv" for i
  proof -
    have "llength (lv ! i) = length (?ls ! i)"
      using i len nth_map [of i lv llength] nth_map [of i ?ls length] by (simp add: lv level_table_lens)
    moreover have "?ls ! i \<noteq> []" using i len by (intro levels_of_nonempty [of _ "[data]"]) simp
    moreover have "map llength (take i lv) = map length (take i ?ls)"
      by (simp add: lv level_table_lens flip: take_map)
    ultimately show ?thesis using i len by (simp add: lv level_table_starts)
  qed
  ultimately show ?thesis by blast
qed

text \<open>
  C33.  The levels that the traversals iterate over partition the positions of the tree: the first
  level is the root alone, every level starts where the previous one ended, none is empty, and their
  lengths add up to the size of the tree.
\<close>

theorem flatten_levels_partition:
  assumes "flatten sch data st = Inr (lv, st')"
  shows "lv \<noteq> [] \<and> llength (hd lv) = 1 \<and> sum_list (map llength lv) = treeSize data \<and>
    (\<forall>i < length lv. start_idx (lv ! i) = sum_list (map llength (take i lv)) \<and> 0 < llength (lv ! i))"
  using assms by (rule levels_partition)

text \<open>Witness: the small tree has two levels.\<close>

theorem flatten_levels_partition_witness:
  "\<exists>lv st'. flatten demo_schema demo_tree demo_flat = Inr (lv, st') \<and> length lv = 2 \<and>
     sum_list (map llength lv) = treeSize demo_tree"
  using demo_result flatten_levels_partition [of demo_schema demo_tree demo_flat] by (metis length_Cons list.size(3) numeral_2_eq_2)

lemma tree_links:
  assumes "flatten sch data st = Inr (lv, st')" and "links_len (treeSize data) st"
  shows "parent st' = parent st ! 0 # parents_from 0 (bfs data) \<and>
    left_siblings st' = left_siblings st ! 0 # lefts_of (bfs data) \<and>
    right_siblings st' = right_siblings st ! 0 # rights_of (bfs data)"
proof -
  have fl: "flatten_nodes sch (bfs data) 0 1 st = Inr st'"
    using assms(1) by (auto simp: flatten_bfs split: sum.splits)
  have "length (bfs data) \<noteq> 0" by (simp only: length_bfs treeSize_kids)
  then have n: "Suc (length (concat (map kids (bfs data)))) = treeSize data"
    by (simp add: bfs_kids del: length_concat length_tl) (simp flip: length_bfs)
  show ?thesis
    using flatten_nodes_links [OF fl assms(2)] n assms(2)
    by (simp add: write_at_all [unfolded One_nat_def] links_len_def del: length_concat)
qed

text \<open>
  C3.  The link arrays after flattening, as functions of the tree in breadth-first order: the
  children of each node in turn, \<open>parent\<close> the position of the node, \<open>left_siblings\<close> 0 for its first
  child and 1 for the others, \<open>right_siblings\<close> 1 up to the last child of each label.  The root's
  entries are not written.
\<close>

theorem flatten_links:
  assumes "flatten sch data st = Inr (lv, st')" and "links_len (treeSize data) st"
  shows "parent st' = parent st ! 0 # parents_from 0 (bfs data) \<and>
    left_siblings st' = left_siblings st ! 0 # lefts_of (bfs data) \<and>
    right_siblings st' = right_siblings st ! 0 # rights_of (bfs data)"
  using assms by (rule tree_links)

text \<open>Witness: the links of the small tree.\<close>

theorem flatten_links_witness:
  "\<exists>lv st'. flatten demo_schema demo_tree demo_flat = Inr (lv, st') \<and>
     rights_of (bfs demo_tree) = [1, 0, 0] \<and> parents_from 0 (bfs demo_tree) = [0, 0, 0] \<and>
     right_siblings st' = [0, 1, 0, 0]"
proof -
  obtain lv st' where r: "flatten demo_schema demo_tree demo_flat = Inr (lv, st')"
    and v: "right_siblings st' = [0, 1, 0, 0]" "parent st' = [0, 0, 0, 0]"
    using demo_result by metis
  from flatten_links [OF r demo_links_len] v have "rights_of (bfs demo_tree) = [1, 0, 0]"
    "parents_from 0 (bfs demo_tree) = [0, 0, 0]"
    by (simp_all add: demo_flat_def)
  with r v show ?thesis by blast
qed

definition in_level :: "level list \<Rightarrow> nat \<Rightarrow> nat \<Rightarrow> bool" where
  "in_level lv k p \<longleftrightarrow> k < length lv \<and> start_idx (lv ! k) \<le> p \<and> p < start_idx (lv ! k) + llength (lv ! k)"

lemma in_level_Cons_Suc [simp]: "in_level (l # lv) (Suc k) p = in_level lv k p"
  by (simp add: in_level_def)

lemma in_level_Cons_0 [simp]: "in_level (l # lv) 0 p \<longleftrightarrow> start_idx l \<le> p \<and> p < start_idx l + llength l"
  by (simp add: in_level_def)

lemma parents_from_append: "parents_from a (xs @ ys) = parents_from a xs @ parents_from (a + length xs) ys"
  by (induction xs arbitrary: a) simp_all

lemma parents_from_nth: "q < length (parents_from a ns) \<Longrightarrow>
    \<exists>p. parents_from a ns ! q = int p \<and> a \<le> p \<and> p < a + length ns"
proof (induction ns arbitrary: a q)
  case (Cons n ns)
  show ?case
  proof (cases "q < length (kids n)")
    case True
    then show ?thesis by (intro exI [of _ a]) (simp add: nth_append)
  next
    case False
    have "q - length (kids n) < length (parents_from (a + 1) ns)"
      using Cons.prems False by simp
    from Cons.IH [OF this] False show ?thesis by (force simp: nth_append)
  qed
qed simp

lemma parents_levels:
  "q < length (parents_from a (concat (levels_of lvl))) \<Longrightarrow>
   \<exists>k p. parents_from a (concat (levels_of lvl)) ! q = int p \<and> in_level (level_table a (levels_of lvl)) k p \<and>
     in_level (level_table a (levels_of lvl)) (Suc k) (a + length lvl + q)"
proof (induction lvl arbitrary: a q rule: levels_of.induct)
  case (1 lvl)
  let ?K = "concat (map kids lvl)"
  have ne: "lvl \<noteq> []" using 1(2) by auto
  have lv: "levels_of lvl = lvl # levels_of ?K" using ne by (subst levels_of.simps) simp
  have ps: "parents_from a (concat (levels_of lvl)) =
      parents_from a lvl @ parents_from (a + length lvl) (concat (levels_of ?K))"
    by (simp add: lv parents_from_append)
  show ?case
  proof (cases "q < length ?K")
    case True
    then have "q < length (parents_from a lvl)" by simp
    from parents_from_nth [OF this] obtain p where p: "parents_from a lvl ! q = int p" "a \<le> p" "p < a + length lvl"
      by blast
    have "?K \<noteq> []" using True by (metis length_greater_0_conv less_nat_zero_code list.size(3))
    then have K: "levels_of ?K = ?K # levels_of (concat (map kids ?K))" by (subst levels_of.simps) simp
    have "in_level (level_table (a + length lvl) (levels_of ?K)) 0 (a + length lvl + q)"
      unfolding K using True by (simp del: length_concat)
    then show ?thesis
      using p True unfolding ps by (intro exI [of _ 0] exI [of _ p]) (simp add: lv nth_append del: length_concat)
  next
    case False
    let ?q = "q - length ?K"
    have "?q < length (parents_from (a + length lvl) (concat (levels_of ?K)))"
      using 1(2) False unfolding ps by (simp del: length_concat)
    from 1(1) [OF ne this] obtain k p where
      "parents_from (a + length lvl) (concat (levels_of ?K)) ! ?q = int p"
      "in_level (level_table (a + length lvl) (levels_of ?K)) k p"
      "in_level (level_table (a + length lvl) (levels_of ?K)) (Suc k) (a + length lvl + length ?K + ?q)"
      by blast
    moreover have "a + length lvl + length ?K + ?q = a + length lvl + q" using False by linarith
    ultimately show ?thesis
      using False unfolding ps by (intro exI [of _ "Suc k"] exI [of _ p]) (simp add: lv nth_append del: length_concat)
  qed
qed

lemma parent_level:
  assumes "flatten sch data st = Inr (lv, st')" and "links_len (treeSize data) st"
    and "0 < i" and "i < treeSize data"
  shows "\<exists>k p. parent st' ! i = int p \<and> in_level lv k p \<and> in_level lv (Suc k) i"
proof -
  have fl: "flatten_nodes sch (bfs data) 0 1 st = Inr st'" and lv: "lv = level_table 0 (levels_of [data])"
    using assms(1) by (auto simp: flatten_bfs split: sum.splits)
  have "length (bfs data) \<noteq> 0" by (simp only: length_bfs treeSize_kids)
  then have n: "Suc (length (concat (map kids (bfs data)))) = treeSize data"
    by (simp add: bfs_kids del: length_concat length_tl) (simp flip: length_bfs)
  have "parent st' = write_at 1 (parents_from 0 (bfs data)) (parent st)"
    using flatten_nodes_links [OF fl assms(2)] n by (simp del: length_concat)
  also have "\<dots> = parent st ! 0 # parents_from 0 (bfs data)"
    using n assms(2) by (intro write_at_all) (simp add: links_len_def del: length_concat)
  finally have par: "parent st' ! i = parents_from 0 (concat (levels_of [data])) ! (i - 1)"
    using assms(3) by (simp add: nth_Cons' bfs_def)
  have "i - 1 < length (parents_from 0 (concat (levels_of [data])))"
    using n assms(3,4) by (simp add: bfs_def del: length_concat)
  from parents_levels [OF this] assms(3) show ?thesis
    unfolding par lv by simp
qed

text \<open>
  C12.  Every node but the root lies exactly one level below its parent.  A pass that runs the
  levels in order therefore has finished a node's parent before it reaches the node, and a pass in
  reverse order has finished all its children.
\<close>

theorem flatten_parent_level:
  assumes "flatten sch data st = Inr (lv, st')" and "links_len (treeSize data) st"
    and "0 < i" and "i < treeSize data"
  shows "\<exists>k p. parent st' ! i = int p \<and> in_level lv k p \<and> in_level lv (Suc k) i"
  using assms by (rule parent_level)

text \<open>Witness: the last node of the small tree.\<close>

theorem flatten_parent_level_witness:
  "\<exists>lv st'. flatten demo_schema demo_tree demo_flat = Inr (lv, st') \<and>
     (\<exists>k p. parent st' ! 3 = int p \<and> in_level lv k p \<and> in_level lv (Suc k) 3) \<and> parent st' ! 3 = 0"
proof -
  obtain lv st' where r: "flatten demo_schema demo_tree demo_flat = Inr (lv, st')" and v: "parent st' = [0, 0, 0, 0]"
    using demo_result by metis
  have "parent st' ! 3 = 0" by (simp add: v)
  moreover have "3 < treeSize demo_tree" by (simp add: demo_treeSize)
  ultimately show ?thesis using r flatten_parent_level [OF r demo_links_len, of 3] by auto
qed

section \<open>Identifiers\<close>

lemma edges_rest: "edges_loop sch cls a lm cs r st = Inr st' \<Longrightarrow> ids st' = ids st \<and> toks st' = toks st"
proof (induction cs arbitrary: r st)
  case (Cons lc cs)
  obtain lbl c where lc: "lc = (lbl, c)" by (cases lc)
  have fr: "ids (link_many a b r n s) = ids s" "toks (link_many a b r n s) = toks s"
    "ids (link_one a b r s) = ids s" "toks (link_one a b r s) = toks s" for b n and s :: "'a flat"
    by (simp_all add: link_many_def link_one_def Let_def foldl_rights foldl_parents foldl_lefts)
  from Cons.prems obtain k arr where k: "cls = Some k" and f: "flds st (child_field k lbl) = Some arr"
    by (auto simp: lc Let_def split: option.splits)
  show ?case
    using Cons.prems
    by (cases c) (auto simp: lc k f Let_def fr dest: Cons.IH [unfolded k])
qed simp

lemma tokenize_spec:
  assumes "tokenize s ts = (i, ts')"
  shows "i < length ts' \<and> ts' ! i = s \<and> prefix ts ts' \<and> (distinct ts \<longrightarrow> distinct ts')"
  using assms index_of_Some [of s ts i] index_of_None [of s ts]
  by (auto simp: tokenize_def split: option.splits)

definition ids_named :: "nat \<Rightarrow> (string \<times> jval) list \<Rightarrow> 'v flat \<Rightarrow> 'v flat \<Rightarrow> bool" where
  "ids_named a ps st st' \<longleftrightarrow>
     prefix (toks st) (toks st') \<and> (distinct (toks st) \<longrightarrow> distinct (toks st')) \<and>
     length (ids st') = length (ids st) \<and> (\<forall>j. j \<noteq> a \<longrightarrow> ids st' ! j = ids st ! j) \<and>
     (case map_of (rev ps) ''id'' of
        None \<Rightarrow> ids st' ! a = ids st ! a
      | Some v \<Rightarrow> a < length (ids st) \<longrightarrow>
          (\<exists>k < length (toks st'). ids st' ! a = int k \<and> toks st' ! k = lower_case (jval_string v)))"

lemma prefix_nthD: "prefix xs ys \<Longrightarrow> k < length xs \<Longrightarrow> ys ! k = xs ! k \<and> k < length ys"
  by (auto simp: prefix_def nth_append)

lemma props_loop_ids: "props_loop sch cls a ps st = Inr st' \<Longrightarrow> ids_named a ps st st'"
proof (induction ps arbitrary: st)
  case (Cons p ps)
  obtain i v where p: "p = (i, v)" by (cases p)
  show ?case
  proof (cases "i = ''id''")
    case False
    obtain st1 where "props_loop sch cls a ps st1 = Inr st'" and st1: "ids st1 = ids st" "toks st1 = toks st"
      using Cons.prems False
      by (auto simp: p store_prop_frame split: if_splits option.splits)
    from Cons.IH [OF this(1)] st1 False show ?thesis
      by (auto simp: ids_named_def p map_add_def split: option.splits)
  next
    case True
    obtain idx ts where t: "tokenize (lower_case (jval_string v)) (toks st) = (idx, ts)"
      by (cases "tokenize (lower_case (jval_string v)) (toks st)")
    define st1 where "st1 = st\<lparr>toks := ts, ids := (ids st)[a := int idx]\<rparr>"
    have "props_loop sch cls a ps st1 = Inr st'"
      using Cons.prems True by (simp add: p t st1_def)
    from Cons.IH [OF this] have IH: "ids_named a ps st1 st'" .
    note tok = tokenize_spec [OF t]
    have pre: "prefix (toks st) (toks st') \<and> (distinct (toks st) \<longrightarrow> distinct (toks st'))"
      using IH tok prefix_order.trans by (auto simp: ids_named_def st1_def)
    have old: "length (ids st') = length (ids st) \<and> (\<forall>j. j \<noteq> a \<longrightarrow> ids st' ! j = ids st ! j)"
      using IH by (auto simp: ids_named_def st1_def)
    show ?thesis
    proof (cases "map_of (rev ps) ''id''")
      case (Some w)
      then show ?thesis
        using IH pre old by (auto simp: ids_named_def st1_def p map_add_def)
    next
      case None
      have "ids st' ! a = int idx" if "a < length (ids st)"
        using IH None that by (simp add: ids_named_def st1_def)
      moreover have "idx < length (toks st') \<and> toks st' ! idx = lower_case (jval_string v)"
        using IH tok prefix_nthD [of ts "toks st'" idx] by (simp add: ids_named_def st1_def)
      ultimately show ?thesis
        using None True pre old by (auto simp: ids_named_def p map_add_def)
    qed
  qed
qed (simp add: ids_named_def)

lemma flattenNode_ids:
  assumes "flattenNode sch n a lm st = Inr st'"
  shows "ids_named a (props n) st st'"
proof -
  from assms obtain st1 where "edges_loop sch (node_class n) a lm (groups n) 0 st = Inr st1"
    and p: "props_loop sch (node_class n) a (props n) st1 = Inr st'"
    by (auto simp: flattenNode_def flattenEdges_def split: sum.splits)
  then have "ids st1 = ids st" "toks st1 = toks st" using edges_rest by blast+
  with props_loop_ids [OF p] show ?thesis by (auto simp: ids_named_def split: option.splits)
qed

lemma flatten_nodes_ids:
  assumes "flatten_nodes sch ns a lm st = Inr st'" and "a + length ns \<le> length (ids st)"
  shows "prefix (toks st) (toks st') \<and> (distinct (toks st) \<longrightarrow> distinct (toks st')) \<and>
    length (ids st') = length (ids st) \<and> (\<forall>j < a. ids st' ! j = ids st ! j) \<and>
    (\<forall>j < length ns. \<forall>v. map_of (rev (props (ns ! j))) ''id'' = Some v \<longrightarrow>
       (\<exists>k < length (toks st'). ids st' ! (a + j) = int k \<and> toks st' ! k = lower_case (jval_string v)))"
  using assms
proof (induction ns arbitrary: a lm st)
  case (Cons n ns)
  from Cons.prems(1) obtain st1 where n: "flattenNode sch n a lm st = Inr st1"
    and rest: "flatten_nodes sch ns (a + 1) (lm + length (kids n)) st1 = Inr st'"
    by (auto split: sum.splits)
  have nm: "ids_named a (props n) st st1" by (rule flattenNode_ids [OF n])
  have len: "a + 1 + length ns \<le> length (ids st1)" using Cons.prems(2) nm by (simp add: ids_named_def)
  note IH = Cons.IH [OF rest len]
  have pre: "prefix (toks st1) (toks st')" using IH by blast
  have "\<exists>k < length (toks st'). ids st' ! (a + j) = int k \<and> toks st' ! k = lower_case (jval_string v)"
    if j: "j < length (n # ns)" and v: "map_of (rev (props ((n # ns) ! j))) ''id'' = Some v" for j v
  proof (cases j)
    case 0
    then obtain k where "k < length (toks st1)" "ids st1 ! a = int k" "toks st1 ! k = lower_case (jval_string v)"
      using nm v Cons.prems(2) by (auto simp: ids_named_def)
    moreover have "ids st' ! a = ids st1 ! a" using IH by simp
    ultimately show ?thesis using 0 prefix_nthD [OF pre] by auto
  next
    case (Suc i)
    then show ?thesis using IH j v by auto
  qed
  moreover have "prefix (toks st) (toks st') \<and> (distinct (toks st) \<longrightarrow> distinct (toks st'))"
    using nm IH prefix_order.trans by (auto simp: ids_named_def)
  moreover have "length (ids st') = length (ids st) \<and> (\<forall>j < a. ids st' ! j = ids st ! j)"
    using nm IH by (simp add: ids_named_def)
  ultimately show ?case by blast
qed simp

text \<open>
  After flattening, the token table has no duplicates if it had none before, keeps its old
  entries at their places, and the entry of every node with an \<open>id\<close> is the place of its lower-case
  text in the table: two nodes have equal tokens exactly when their ids are equal up to case.
\<close>

lemma flatten_ids:
  assumes "flatten sch data st = Inr (lv, st')" and "length (ids st) = treeSize data" and "distinct (toks st)"
    and "j < treeSize data" and "map_of (rev (props (bfs data ! j))) ''id'' = Some v"
  shows "distinct (toks st') \<and> prefix (toks st) (toks st') \<and>
    index_of (lower_case (jval_string v)) (toks st') = Some (nat (ids st' ! j)) \<and> 0 \<le> ids st' ! j"
proof -
  have fl: "flatten_nodes sch (bfs data) 0 1 st = Inr st'"
    using assms(1) by (auto simp: flatten_bfs split: sum.splits)
  have "0 + length (bfs data) \<le> length (ids st)" by (simp add: assms(2))
  note all = flatten_nodes_ids [OF fl this]
  have pre: "prefix (toks st) (toks st')" and d: "distinct (toks st')"
    using all assms(3) by blast+
  have "\<exists>k < length (toks st'). ids st' ! (0 + j) = int k \<and> toks st' ! k = lower_case (jval_string v)"
    using all assms(4,5) unfolding length_bfs by blast
  then obtain k where k: "k < length (toks st')" "ids st' ! j = int k" "toks st' ! k = lower_case (jval_string v)"
    by auto
  have "toks st' ! k \<in> set (toks st')" using k(1) by simp
  then obtain i where i: "index_of (toks st' ! k) (toks st') = Some i" using index_of_mem by metis
  then have "i < length (toks st')" "toks st' ! i = toks st' ! k" using index_of_Some by metis+
  then have "i = k" using d k(1) nth_eq_iff_index_eq by metis
  with i have "index_of (lower_case (jval_string v)) (toks st') = Some (nat (ids st' ! j))"
    unfolding k by simp
  moreover have "0 \<le> ids st' ! j" unfolding k(2) by simp
  ultimately show ?thesis using pre d by blast
qed

text \<open>Witness: the root and the last leaf of the small tree, whose ids differ in case only.\<close>

lemma flatten_ids_witness:
  "\<exists>lv st'. flatten demo_schema demo_tree demo_flat = Inr (lv, st') \<and> distinct (toks st') \<and>
     index_of ''a'' (toks st') = Some 0 \<and> ids st' ! 0 = ids st' ! 3"
proof -
  obtain lv st' where r: "flatten demo_schema demo_tree demo_flat = Inr (lv, st')" and v: "ids st' = [0, 0, 1, 0]"
    using demo_result by metis
  have t: "length (ids demo_flat) = treeSize demo_tree" "distinct (toks demo_flat)" "3 < treeSize demo_tree"
    by (simp_all add: demo_treeSize demo_flat_def)
  have "map_of (rev (props (bfs demo_tree ! 3))) ''id'' = Some (JStr ''a'')" by code_simp
  from flatten_ids [OF r t this] have "distinct (toks st')" "index_of (lower_case ''a'') (toks st') = Some 0"
    by (simp_all add: v)
  moreover have "lower_case ''a'' = ''a''" by code_simp
  ultimately show ?thesis using r v by auto
qed

section \<open>loadData\<close>

text \<open>
  \<open>alloc\<close> is what the generated \<open>_gen_allocateHostBuffers\<close> and
  \<open>_gen_allocateHostProxies\<close> do to the arrays.
\<close>

definition loadData :: "'v schema \<Rightarrow> (nat \<Rightarrow> 'v flat \<Rightarrow> 'v flat) \<Rightarrow> bool \<Rightarrow> bool \<Rightarrow> jnode \<Rightarrow> 'v flat
    \<Rightarrow> flat_error + nat \<times> level list \<times> 'v flat \<times> gen_call list" where
  "loadData sch alloc noCL skipProxies data st =
     (let n = treeSize data
      in case flatten sch data (alloc n st) of
           Inl e \<Rightarrow> Inl e
         | Inr (lv, st') \<Rightarrow>
             Inr (n, lv, st',
               [AllocateHostBuffers n, AllocateHostProxies n] @
               (if \<not> noCL then [AllocateClBuffers, AllocateProxyObjects, TransferTree]
                else if skipProxies then [] else [AllocateProxyObjects])))"

text \<open>
  The contract of the generated allocation: every array gets one entry per node, the grammar's
  fields are declared and the token table is kept.  Under it the theorems on \<open>flatten\<close> apply to
  what \<open>loadData\<close> does.
\<close>

locale host_alloc =
  fixes alloc :: "nat \<Rightarrow> 'v flat \<Rightarrow> 'v flat"
    and fields :: "string set"
  assumes alloc_links: "links_len n (alloc n st)"
    and alloc_ids: "length (ids (alloc n st)) = n"
    and alloc_toks: "toks (alloc n st) = toks st"
    and alloc_fields: "dom (flds (alloc n st)) = fields"
begin

lemma loadData_accepts:
  "(\<exists>r. loadData sch alloc noCL skip data st = Inr r) \<longleftrightarrow> (\<forall>n \<in> set (bfs data). node_ok sch fields n)"
  using flatten_nodes_ok [of sch "bfs data" 0 1 "alloc (treeSize data) st"]
  by (auto simp: loadData_def flatten_bfs alloc_fields Let_def split: sum.splits)

lemma loadData_runs:
  assumes "loadData sch alloc noCL skip data st = Inr (n, lv, st', cs)"
  shows "n = treeSize data" and "flatten_nodes sch (bfs data) 0 1 (alloc n st) = Inr st'"
    and "lv = level_table 0 (levels_of [data])"
  using assms by (auto simp: loadData_def flatten_bfs Let_def split: sum.splits)

lemma loadData_ids:
  assumes "loadData sch alloc noCL skip data st = Inr (n, lv, st', cs)" and "distinct (toks st)"
  shows "distinct (toks st') \<and> prefix (toks st) (toks st')"
proof -
  note run = loadData_runs [OF assms(1)]
  have "0 + length (bfs data) \<le> length (ids (alloc n st))" by (simp add: alloc_ids run(1))
  from flatten_nodes_ids [OF run(2) this] assms(2) show ?thesis
    unfolding alloc_toks by blast
qed

lemma loadData_links:
  assumes "loadData sch alloc noCL skip data st = Inr (n, lv, st', cs)"
  shows "parent st' = write_at 1 (parents_from 0 (bfs data)) (parent (alloc n st))"
proof -
  note run = loadData_runs [OF assms]
  have "length (bfs data) \<noteq> 0" by (simp only: length_bfs treeSize_kids)
  then have n: "Suc (length (concat (map kids (bfs data)))) = treeSize data"
    by (simp add: bfs_kids del: length_concat length_tl) (simp flip: length_bfs)
  have "1 + length (concat (map kids (bfs data))) \<le> n" unfolding run(1) n [symmetric] by (simp del: length_concat)
  from flatten_nodes_links [OF run(2) alloc_links this] show ?thesis by blast
qed

end

end
