(* ===== verification/Proxy.thy ===== *)
theory Proxy
  imports Prelude
begin

text \<open>
  \<open>CLDataWrapper\<close> (\<open>src/CLDataWrapper.js\<close>): the accessor of one field of the tree, a window
  of a host array together with the device buffer that mirrors the array.  Without the device it
  reads and writes the window; with it, it reads and writes four bytes of the device buffer.

  The device itself is the locale \<open>cl_device\<close>: what the WebCL documentation says of creating,
  writing and reading a buffer.
\<close>

datatype hbuf = FloatBuf | IntBuf | TokenBuf | NodeBuf

text \<open>A window \<open>subarray(begin, end)\<close>: the array, its first element and its length, clamped.\<close>

record window =
  wbuf :: hbuf
  woff :: nat
  wlen :: nat

definition subarray :: "hbuf \<Rightarrow> nat \<Rightarrow> nat \<Rightarrow> nat \<Rightarrow> window" where
  "subarray b len bgn ed = \<lparr>wbuf = b, woff = min bgn len, wlen = min ed len - min bgn len\<rparr>"

text \<open>All four arrays have elements of four bytes.\<close>

definition BYTES_PER_ELEMENT :: nat where
  "BYTES_PER_ELEMENT = 4"

definition byteOffset :: "window \<Rightarrow> nat" where
  "byteOffset w = BYTES_PER_ELEMENT * woff w"

locale cl_device =
  fixes sz :: "'g \<Rightarrow> hbuf \<Rightarrow> nat"
    and rd :: "'g \<Rightarrow> hbuf \<Rightarrow> nat \<Rightarrow> nat \<Rightarrow> 'v list"
    and wr :: "'g \<Rightarrow> hbuf \<Rightarrow> nat \<Rightarrow> 'v list \<Rightarrow> 'g"
    and mk :: "'g \<Rightarrow> hbuf \<Rightarrow> nat \<Rightarrow> 'g"
  assumes sz_mk: "sz (mk g b (4 * n)) c = (if c = b then 4 * n else sz g c)"
    and sz_wr: "sz (wr g b p xs) c = sz g c"
    and rd_mk: "c \<noteq> b \<Longrightarrow> rd (mk g b n) c p k = rd g c p k"
    and rd_wr: "4 * (s + length xs) \<le> sz g b \<Longrightarrow> 4 * (q + 1) \<le> sz g c \<Longrightarrow>
      rd (wr g b (4 * s) xs) c (4 * q) 4 =
        (if c = b \<and> s \<le> q \<and> q < s + length xs then [xs ! (q - s)] else rd g c (4 * q) 4)"
    and rd_concat: "4 * (s + n) \<le> sz g b \<Longrightarrow>
      rd g b (4 * s) (4 * n) = concat (map (\<lambda>i. rd g b (4 * (s + i)) 4) [0..<n])"
begin

text \<open>What the device holds at one element.\<close>

lemma rd_wr_all:
  assumes "4 * length xs = sz g b" and "i < length xs"
  shows "rd (wr g b 0 xs) b (4 * i) 4 = [xs ! i]"
  using rd_wr [of 0 xs g b i b] assms by simp

lemma rd_wr_back:
  assumes "4 * length xs = sz g b"
  shows "rd (wr g b 0 xs) b 0 (4 * length xs) = xs"
proof -
  have "rd (wr g b 0 xs) b 0 (4 * length xs) =
      concat (map (\<lambda>i. rd (wr g b 0 xs) b (4 * i) 4) [0..<length xs])"
    using rd_concat [of 0 "length xs" "wr g b 0 xs" b] assms by (simp add: sz_wr)
  also have "\<dots> = concat (map (\<lambda>i. [xs ! i]) [0..<length xs])"
    using rd_wr_all [OF assms] by (intro arg_cong [of _ _ concat] map_cong) auto
  also have "\<dots> = xs"
    by (simp add: map_nth)
  finally show ?thesis .
qed

end

text \<open>A device whose buffers are lists of elements.\<close>

definition list_size :: "(hbuf \<Rightarrow> 'v list) \<Rightarrow> hbuf \<Rightarrow> nat" where
  "list_size g b = 4 * length (g b)"

definition list_rd :: "(hbuf \<Rightarrow> 'v list) \<Rightarrow> hbuf \<Rightarrow> nat \<Rightarrow> nat \<Rightarrow> 'v list" where
  "list_rd g b p n = take (n div 4) (drop (p div 4) (g b))"

definition list_wr :: "(hbuf \<Rightarrow> 'v list) \<Rightarrow> hbuf \<Rightarrow> nat \<Rightarrow> 'v list \<Rightarrow> hbuf \<Rightarrow> 'v list" where
  "list_wr g b p xs =
     g(b := map (\<lambda>i. if p div 4 \<le> i \<and> i < p div 4 + length xs then xs ! (i - p div 4) else g b ! i)
              [0..<length (g b)])"

definition list_mk :: "(hbuf \<Rightarrow> ('v::zero) list) \<Rightarrow> hbuf \<Rightarrow> nat \<Rightarrow> hbuf \<Rightarrow> 'v list" where
  "list_mk g b n = g(b := replicate (n div 4) 0)"

interpretation list_device: cl_device list_size list_rd list_wr list_mk
proof unfold_locales
  fix g :: "hbuf \<Rightarrow> ('v::zero) list" and b c s q p k n and xs :: "'v list"
  show "list_size (list_mk g b (4 * n)) c = (if c = b then 4 * n else list_size g c)"
    by (simp add: list_size_def list_mk_def)
  show "list_size (list_wr g b p xs) c = list_size g c"
    by (simp add: list_size_def list_wr_def)
  show "c \<noteq> b \<Longrightarrow> list_rd (list_mk g b n) c p k = list_rd g c p k"
    by (simp add: list_rd_def list_mk_def)
  have one: "take (Suc 0) (drop i ys) = [ys ! i]" if "i < length ys" for i and ys :: "'v list"
    using that by (simp add: take_Suc hd_drop_conv_nth)
  show "list_rd (list_wr g b (4 * s) xs) c (4 * q) 4 =
      (if c = b \<and> s \<le> q \<and> q < s + length xs then [xs ! (q - s)] else list_rd g c (4 * q) 4)"
    if "4 * (s + length xs) \<le> list_size g b" "4 * (q + 1) \<le> list_size g c"
    using that by (auto simp: list_rd_def list_wr_def list_size_def one)
  show "list_rd g b (4 * s) (4 * n) = concat (map (\<lambda>i. list_rd g b (4 * (s + i)) 4) [0..<n])"
    if "4 * (s + n) \<le> list_size g b"
  proof (rule nth_equalityI)
    have "concat (map (\<lambda>i. list_rd g b (4 * (s + i)) 4) [0..<n]) = concat (map (\<lambda>i. [g b ! (s + i)]) [0..<n])"
      using that by (intro arg_cong [of _ _ concat] map_cong) (auto simp: list_rd_def list_size_def one)
    then have c: "concat (map (\<lambda>i. list_rd g b (4 * (s + i)) 4) [0..<n]) = map (\<lambda>i. g b ! (s + i)) [0..<n]"
      by simp
    show "length (list_rd g b (4 * s) (4 * n)) = length (concat (map (\<lambda>i. list_rd g b (4 * (s + i)) 4) [0..<n]))"
      using that unfolding c by (simp add: list_rd_def list_size_def)
    show "list_rd g b (4 * s) (4 * n) ! i = concat (map (\<lambda>i. list_rd g b (4 * (s + i)) 4) [0..<n]) ! i"
      if "i < length (list_rd g b (4 * s) (4 * n))" for i
      using that \<open>4 * (s + n) \<le> list_size g b\<close> unfolding c by (simp add: list_rd_def list_size_def)
  qed
qed

section \<open>The wrapper\<close>

record ('v, 'g) memory =
  host :: "hbuf \<Rightarrow> 'v list"
  dev :: 'g

record wrapper =
  hostBuffer :: window
  clBuffer :: hbuf

definition window_get :: "(hbuf \<Rightarrow> 'v list) \<Rightarrow> window \<Rightarrow> nat \<Rightarrow> 'v option" where
  "window_get h w i = (if i < wlen w then Some (h (wbuf w) ! (woff w + i)) else None)"

definition window_set :: "(hbuf \<Rightarrow> 'v list) \<Rightarrow> window \<Rightarrow> nat \<Rightarrow> 'v \<Rightarrow> hbuf \<Rightarrow> 'v list" where
  "window_set h w i v = (if i < wlen w then h(wbuf w := (h (wbuf w))[woff w + i := v]) else h)"

text \<open>\<open>get\<close>; \<open>None\<close> is \<open>undefined\<close>, or the exception of a read outside the device buffer.\<close>

definition wrapper_get :: "('g \<Rightarrow> hbuf \<Rightarrow> nat \<Rightarrow> nat \<Rightarrow> 'v list) \<Rightarrow> bool \<Rightarrow> ('v, 'g) memory \<Rightarrow> wrapper \<Rightarrow> nat
    \<Rightarrow> 'v option" where
  "wrapper_get rd ignoreCL m w index =
     (if ignoreCL then window_get (host m) (hostBuffer w) index
      else
        let itemOffset = byteOffset (hostBuffer w) + BYTES_PER_ELEMENT * index
        in case rd (dev m) (clBuffer w) itemOffset BYTES_PER_ELEMENT of v # _ \<Rightarrow> Some v | [] \<Rightarrow> None)"

text \<open>\<open>set\<close>, with a value that the typed array holds exactly; it returns the value.\<close>

definition wrapper_set :: "('g \<Rightarrow> hbuf \<Rightarrow> nat \<Rightarrow> 'v list \<Rightarrow> 'g) \<Rightarrow> bool \<Rightarrow> ('v, 'g) memory \<Rightarrow> wrapper \<Rightarrow> nat \<Rightarrow> 'v
    \<Rightarrow> 'v \<times> ('v, 'g) memory" where
  "wrapper_set wr ignoreCL m w index value =
     (if ignoreCL then (value, m\<lparr>host := window_set (host m) (hostBuffer w) index value\<rparr>)
      else
        let itemOffset = byteOffset (hostBuffer w) + BYTES_PER_ELEMENT * index
        in (value, m\<lparr>dev := wr (dev m) (clBuffer w) itemOffset [value]\<rparr>))"

definition wrapper_length :: "wrapper \<Rightarrow> nat" where
  "wrapper_length w = wlen (hostBuffer w)"

lemma element_offset: "byteOffset w + BYTES_PER_ELEMENT * i = 4 * (woff w + i)"
  by (simp add: byteOffset_def BYTES_PER_ELEMENT_def)

lemma get_dev: "wrapper_get rd False m w i =
    (case rd (dev m) (clBuffer w) (4 * (woff (hostBuffer w) + i)) 4 of v # _ \<Rightarrow> Some v | [] \<Rightarrow> None)"
  by (simp add: wrapper_get_def element_offset BYTES_PER_ELEMENT_def byteOffset_def add_mult_distrib2)

lemma set_dev: "wrapper_set wr False m w i v =
    (v, m\<lparr>dev := wr (dev m) (clBuffer w) (4 * (woff (hostBuffer w) + i)) [v]\<rparr>)"
  by (simp add: wrapper_set_def element_offset BYTES_PER_ELEMENT_def byteOffset_def add_mult_distrib2)

text \<open>An element of the device that an in-range wrapper reaches.\<close>

definition reaches :: "('g \<Rightarrow> hbuf \<Rightarrow> nat) \<Rightarrow> ('v, 'g) memory \<Rightarrow> wrapper \<Rightarrow> nat \<Rightarrow> bool" where
  "reaches sz m w i \<longleftrightarrow> 4 * (woff (hostBuffer w) + i + 1) \<le> sz (dev m) (clBuffer w)"

context cl_device
begin

lemma get_set:
  assumes "reaches sz m w i" and "reaches sz m w' j"
  shows "wrapper_get rd False (snd (wrapper_set wr False m w i v)) w' j =
    (if clBuffer w' = clBuffer w \<and> woff (hostBuffer w') + j = woff (hostBuffer w) + i then Some v
     else wrapper_get rd False m w' j)"
proof -
  let ?o = "woff (hostBuffer w) + i" and ?q = "woff (hostBuffer w') + j"
  have "rd (wr (dev m) (clBuffer w) (4 * ?o) [v]) (clBuffer w') (4 * ?q) 4 =
      (if clBuffer w' = clBuffer w \<and> ?o \<le> ?q \<and> ?q < ?o + length [v] then [[v] ! (?q - ?o)]
       else rd (dev m) (clBuffer w') (4 * ?q) 4)"
    by (rule rd_wr) (use assms in \<open>simp_all add: reaches_def\<close>)
  moreover have "?o \<le> ?q \<and> ?q < ?o + length [v] \<longleftrightarrow> ?q = ?o" by auto
  ultimately show ?thesis unfolding get_dev set_dev by simp
qed

end

end
