(* ===== verification/Bindings.thy ===== *)
theory Bindings
  imports Proxy
begin

text \<open>
  What the layout compiler emits for one grammar (\<open>examples/\<close>\dots\<open>/kbindings.js\<close>), as a record
  of tables, and the operations that the emitted statements perform, in the order of the tables.
  The four theories \<open>Boxes\<close>, \<open>Sunburst\<close>, \<open>Linegraph\<close> and \<open>Treemap\<close> hold the
  tables of the four example programs.
\<close>

datatype karg = StartIdx | TreeSizeArg | GlobalBuf hbuf | RenderVBO

datatype direction = TopDown | BottomUp

text \<open>
  \<open>kernels\<close>: visit number and kernel name number; \<open>clAlloc\<close>: device buffer and the host buffer
  that gives its size; \<open>writes\<close> and \<open>reads\<close>: device and host buffer of each transfer;
  \<open>kargs\<close>: the argument positions; \<open>visits\<close>: kernel, direction and whether it gets the render
  buffer; \<open>copies\<close>: the buffers copied from flat data; \<open>bviews\<close>: field, buffer and slot;
  \<open>objects\<close>: proxy name, field and device buffer.
\<close>

record bindings =
  kernels :: "(nat \<times> nat) list"
  clAlloc :: "(hbuf \<times> hbuf) list"
  writes :: "(hbuf \<times> hbuf) list"
  reads :: "(hbuf \<times> hbuf) list"
  kargs :: "(nat \<times> karg) list"
  traversals :: "nat list"
  visits :: "(nat \<times> direction \<times> bool) list"
  sizes :: "(hbuf \<times> nat) list"
  bviews :: "(string \<times> hbuf \<times> nat) list"
  copies :: "hbuf list"
  objects :: "(string \<times> string \<times> hbuf) list"
  renderSize :: string
  classTokens :: "(string \<times> int) list"
  classIFaces :: "(string \<times> string) list"
  inputs :: "string list"

section \<open>Buffers and views\<close>

text \<open>The runner with its arrays, its windows on them and its proxies.\<close>

record ('v, 'g) bound =
  mem :: "('v, 'g) memory"
  windows :: "string \<rightharpoonup> window"
  proxies :: "string \<rightharpoonup> wrapper"

definition allocateHostBuffers :: "bindings \<Rightarrow> nat \<Rightarrow> ('v::zero, 'g) bound \<Rightarrow> ('v, 'g) bound" where
  "allocateHostBuffers b n st =
     foldl (\<lambda>st (bf, k). st\<lparr>mem := (mem st)\<lparr>host := (host (mem st))(bf := replicate (k * n) 0)\<rparr>\<rparr>)
       st (sizes b)"

definition allocateHostProxies :: "bindings \<Rightarrow> nat \<Rightarrow> ('v, 'g) bound \<Rightarrow> ('v, 'g) bound" where
  "allocateHostProxies b n st =
     foldl (\<lambda>st (f, bf, s). st\<lparr>windows := (windows st)(f \<mapsto>
         subarray bf (length (host (mem st) bf)) (n * s) (n * s + n))\<rparr>)
       st (bviews b)"

definition allocateClBuffers :: "('g \<Rightarrow> hbuf \<Rightarrow> nat \<Rightarrow> 'g) \<Rightarrow> bindings \<Rightarrow> ('v, 'g) bound \<Rightarrow> ('v, 'g) bound" where
  "allocateClBuffers mk b st =
     foldl (\<lambda>st (d, h). st\<lparr>mem := (mem st)\<lparr>dev :=
         mk (dev (mem st)) d (BYTES_PER_ELEMENT * length (host (mem st) h))\<rparr>\<rparr>) st (clAlloc b)"

definition transferTree :: "('g \<Rightarrow> hbuf \<Rightarrow> nat \<Rightarrow> 'v list \<Rightarrow> 'g) \<Rightarrow> bindings \<Rightarrow> ('v, 'g) bound \<Rightarrow> ('v, 'g) bound" where
  "transferTree wr b st =
     foldl (\<lambda>st (d, h). st\<lparr>mem := (mem st)\<lparr>dev := wr (dev (mem st)) d 0 (host (mem st) h)\<rparr>\<rparr>) st (writes b)"

definition retrieveTree :: "('g \<Rightarrow> hbuf \<Rightarrow> nat \<Rightarrow> nat \<Rightarrow> 'v list) \<Rightarrow> bindings \<Rightarrow> ('v, 'g) bound \<Rightarrow> ('v, 'g) bound" where
  "retrieveTree rd b st =
     foldl (\<lambda>st (d, h). st\<lparr>mem := (mem st)\<lparr>host := (host (mem st))(h :=
         rd (dev (mem st)) d 0 (BYTES_PER_ELEMENT * length (host (mem st) h)))\<rparr>\<rparr>) st (reads b)"

text \<open>The loops copy element by element into typed arrays, which drop what lies past their end.\<close>

definition copyHostBuffers :: "bindings \<Rightarrow> (hbuf \<Rightarrow> 'v list) \<Rightarrow> ('v, 'g) bound \<Rightarrow> ('v, 'g) bound" where
  "copyHostBuffers b data st =
     foldl (\<lambda>st bf. st\<lparr>mem := (mem st)\<lparr>host := (host (mem st))(bf :=
         foldl (\<lambda>xs i. xs[i := data bf ! i]) (host (mem st) bf) [0..<length (data bf)])\<rparr>\<rparr>) st (copies b)"

text \<open>A field without a window would make a wrapper of \<open>undefined\<close>, which is left out here.\<close>

definition allocateProxyObjects :: "bindings \<Rightarrow> ('v, 'g) bound \<Rightarrow> ('v, 'g) bound" where
  "allocateProxyObjects b st =
     foldl (\<lambda>st (nm, f, d). case windows st f of
         None \<Rightarrow> st
       | Some w \<Rightarrow> st\<lparr>proxies := (proxies st)(nm \<mapsto> \<lparr>hostBuffer = w, clBuffer = d\<rparr>)\<rparr>) st (objects b)"

definition proxy_get :: "('g \<Rightarrow> hbuf \<Rightarrow> nat \<Rightarrow> nat \<Rightarrow> 'v list) \<Rightarrow> bool \<Rightarrow> string \<Rightarrow> nat \<Rightarrow> ('v, 'g) bound \<Rightarrow> 'v option" where
  "proxy_get rd ignoreCL f i st = Option.bind (proxies st f) (\<lambda>w. wrapper_get rd ignoreCL (mem st) w i)"

definition proxy_set :: "('g \<Rightarrow> hbuf \<Rightarrow> nat \<Rightarrow> 'v list \<Rightarrow> 'g) \<Rightarrow> bool \<Rightarrow> string \<Rightarrow> nat \<Rightarrow> 'v \<Rightarrow> ('v, 'g) bound
    \<Rightarrow> ('v, 'g) bound" where
  "proxy_set wr ignoreCL f i v st =
     (case proxies st f of None \<Rightarrow> st | Some w \<Rightarrow> st\<lparr>mem := snd (wrapper_set wr ignoreCL (mem st) w i v)\<rparr>)"

definition getRenderBufferSize :: "('g \<Rightarrow> hbuf \<Rightarrow> nat \<Rightarrow> nat \<Rightarrow> 'v list) \<Rightarrow> bool \<Rightarrow> bindings \<Rightarrow> ('v, 'g) bound
    \<Rightarrow> 'v option" where
  "getRenderBufferSize rd ignoreCL b st = proxy_get rd ignoreCL (renderSize b) 0 st"

section \<open>Classes\<close>

text \<open>The switches of \<open>classToToken\<close>, which throws by default, and \<open>classToIFace\<close>.\<close>

definition class_token :: "bindings \<Rightarrow> string \<Rightarrow> int option" where
  "class_token b cls = map_of (classTokens b) (upper_case cls)"

definition class_iface :: "bindings \<Rightarrow> string \<Rightarrow> string option" where
  "class_iface b cls = map_of (classIFaces b) (upper_case cls)"

section \<open>Running the visits\<close>

datatype action =
    SetArg nat nat karg
  | Traverse direction nat

definition set_arguments :: "bindings \<Rightarrow> nat \<Rightarrow> action list" where
  "set_arguments b k = map (\<lambda>(p, a). SetArg k p a) (kargs b)"

definition run_visit :: "bindings \<Rightarrow> nat \<Rightarrow> action list" where
  "run_visit b i =
     (case visits b ! i of (k, d, vbo) \<Rightarrow>
        set_arguments b k @ (if vbo then [SetArg k 6 RenderVBO] else []) @ [Traverse d k])"

definition run_traversals :: "bindings \<Rightarrow> action list" where
  "run_traversals b = concat (map (run_visit b) (traversals b))"

text \<open>
  \<open>runRenderTraversal\<close> of the runner: the last visit that exists, counting up from 0.
\<close>

function render_from :: "bindings \<Rightarrow> nat \<Rightarrow> nat \<Rightarrow> nat" where
  "render_from b i cur = (if i < length (visits b) then render_from b (i + 1) i else cur)"
  by pat_completeness auto
termination by (relation "measure (\<lambda>(b, i, cur). length (visits b) - i)") auto

definition render_visit :: "bindings \<Rightarrow> nat" where
  "render_visit b = render_from b 1 0"

declare render_from.simps [simp del]

section \<open>Well-formed tables\<close>

text \<open>
  The schedule: visit \<open>i\<close> runs the kernel \<open>i\<close>, which exists; the traversals are all
  visits but the last, in order; the last one is what \<open>runRenderTraversal\<close> finds, and it alone
  gets the render buffer, at the first free argument position.
\<close>

definition schedule_ok :: "bindings \<Rightarrow> bool" where
  "schedule_ok b \<longleftrightarrow>
     map fst (visits b) = [0..<length (visits b)] \<and>
     kernels b = map (\<lambda>i. (i, i)) [0..<length (visits b)] \<and>
     render_visit b + 1 = length (visits b) \<and>
     traversals b = [0..<render_visit b] \<and>
     map (\<lambda>v. snd (snd v)) (visits b) = replicate (render_visit b) False @ [True] \<and>
     map fst (kargs b) = [0..<6] \<and> map snd (kargs b) = [StartIdx, TreeSizeArg] @ map (\<lambda>s. GlobalBuf (fst s)) (sizes b)"

text \<open>The window a field gets: the last entry of the table wins, as the last assignment does.\<close>

definition slot_of :: "bindings \<Rightarrow> string \<Rightarrow> (hbuf \<times> nat) option" where
  "slot_of b f = map_of (rev (bviews b)) f"

definition slot_window :: "nat \<Rightarrow> hbuf \<times> nat \<Rightarrow> window" where
  "slot_window n p = \<lparr>wbuf = fst p, woff = n * snd p, wlen = n\<rparr>"

definition slot_wrapper :: "nat \<Rightarrow> hbuf \<times> nat \<Rightarrow> wrapper" where
  "slot_wrapper n p = \<lparr>hostBuffer = slot_window n p, clBuffer = fst p\<rparr>"

definition layout_ok :: "bindings \<Rightarrow> bool" where
  "layout_ok b \<longleftrightarrow>
     distinct (map fst (sizes b)) \<and>
     clAlloc b = map (\<lambda>(bf, k). (bf, bf)) (sizes b) \<and> writes b = clAlloc b \<and> reads b = clAlloc b \<and>
     copies b = map fst (sizes b) \<and>
     (\<forall>v \<in> set (bviews b). \<exists>k. (fst (snd v), k) \<in> set (sizes b) \<and> snd (snd v) < k) \<and>
     distinct (map snd (bviews b)) \<and>
     objects b = map (\<lambda>(f, bf, s). (f, f, bf)) (bviews b)"

text \<open>
  The same by evaluation, and stronger: there are as many views as slots, so every slot has a view.
\<close>

definition slot_fits :: "(hbuf \<times> nat) list \<Rightarrow> hbuf \<times> nat \<Rightarrow> bool" where
  "slot_fits ss p = (case map_of ss (fst p) of Some k \<Rightarrow> snd p < k | None \<Rightarrow> False)"

definition layout_check :: "bindings \<Rightarrow> bool" where
  "layout_check b \<longleftrightarrow>
     distinct (map fst (sizes b)) \<and>
     clAlloc b = map (\<lambda>(bf, k). (bf, bf)) (sizes b) \<and> writes b = clAlloc b \<and> reads b = clAlloc b \<and>
     copies b = map fst (sizes b) \<and>
     list_all (slot_fits (sizes b)) (map snd (bviews b)) \<and>
     distinct (map snd (bviews b)) \<and>
     length (map snd (bviews b)) = sum_list (map snd (sizes b)) \<and>
     objects b = map (\<lambda>(f, bf, s). (f, f, bf)) (bviews b)"

lemma layout_check_ok: "layout_check b \<Longrightarrow> layout_ok b"
  by (force simp: layout_check_def layout_ok_def list_all_iff slot_fits_def split: option.splits dest: map_of_SomeD)

text \<open>Every slot of every buffer is the window of exactly one view.\<close>

lemma layout_check_cover:
  assumes "layout_check b"
  shows "set (map snd (bviews b)) = {(bf, s). \<exists>k. (bf, k) \<in> set (sizes b) \<and> s < k}"
proof -
  let ?all = "\<lambda>ss. {(bf, s). \<exists>k. (bf, k) \<in> set ss \<and> s < k} :: (hbuf \<times> nat) set"
  have card: "finite (?all ss) \<and> card (?all ss) = sum_list (map snd ss)" if "distinct (map fst ss)" for ss
    using that
  proof (induction ss)
    case (Cons e ss)
    obtain bf k where e: "e = (bf, k)" by (cases e)
    have "?all (e # ss) = (Pair bf) ` {..<k} \<union> ?all ss" by (auto simp: e)
    moreover have "(Pair bf) ` {..<k} \<inter> ?all ss = {}" using Cons.prems by (force simp: e)
    moreover have "card ((Pair bf) ` {..<k}) = k" by (simp add: card_image inj_on_def)
    ultimately show ?case using Cons by (simp add: e card_Un_disjoint)
  qed simp
  have sub: "set (map snd (bviews b)) \<subseteq> ?all (sizes b)"
    using assms by (force simp: layout_check_def list_all_iff slot_fits_def split: option.splits dest: map_of_SomeD)
  have "card (set (map snd (bviews b))) = card (?all (sizes b))"
    using assms card [of "sizes b"] distinct_card [of "map snd (bviews b)"] by (simp add: layout_check_def)
  with sub card [of "sizes b"] assms show ?thesis
    by (intro card_subset_eq) (simp_all add: layout_check_def)
qed

lemma slot_of_in: "slot_of b f = Some p \<Longrightarrow> (f, p) \<in> set (bviews b)"
  using map_of_SomeD [of "rev (bviews b)" f p] by (simp add: slot_of_def)

lemma slot_of_bound:
  assumes "layout_ok b" and "slot_of b f = Some (bf, s)"
  shows "\<exists>k. (bf, k) \<in> set (sizes b) \<and> s < k"
  using assms slot_of_in [OF assms(2)] by (force simp: layout_ok_def)

lemma slot_of_inj:
  assumes "layout_ok b" and "slot_of b f = Some p" and "slot_of b g = Some p"
  shows "f = g"
proof -
  have "inj_on snd (set (bviews b))"
    using assms(1) by (simp add: layout_ok_def distinct_map)
  from inj_onD [OF this, of "(f, p)" "(g, p)"] slot_of_in assms(2,3) show ?thesis by fastforce
qed

section \<open>The state after the allocations\<close>

text \<open>
  The invariant of a runner for a tree of \<open>n\<close> nodes: every buffer has its slots on the host and
  on the device, every field has its window and every proxy its wrapper.
\<close>

definition bound_ok :: "('g \<Rightarrow> hbuf \<Rightarrow> nat) \<Rightarrow> bindings \<Rightarrow> nat \<Rightarrow> ('v, 'g) bound \<Rightarrow> bool" where
  "bound_ok sz b n st \<longleftrightarrow>
     (\<forall>(bf, k) \<in> set (sizes b). length (host (mem st) bf) = k * n \<and> sz (dev (mem st)) bf = 4 * (k * n)) \<and>
     windows st = (\<lambda>f. map_option (slot_window n) (slot_of b f)) \<and>
     proxies st = (\<lambda>f. map_option (slot_wrapper n) (slot_of b f))"

lemma foldl_host_alloc:
  "distinct (map fst ss) \<Longrightarrow>
   foldl (\<lambda>st (bf, k). st\<lparr>mem := (mem st)\<lparr>host := (host (mem st))(bf := replicate (k * n) 0)\<rparr>\<rparr>) st ss =
     st\<lparr>mem := (mem st)\<lparr>host := \<lambda>c. case map_of ss c of Some k \<Rightarrow> replicate (k * n) 0 | None \<Rightarrow> host (mem st) c\<rparr>\<rparr>"
proof (induction ss arbitrary: st)
  case (Cons e ss)
  obtain bf k where e: "e = (bf, k)" by (cases e)
  have d: "distinct (map fst ss)" and nin: "map_of ss bf = None"
    using Cons.prems by (auto simp: e map_of_eq_None_iff)
  show ?case
    unfolding e foldl_Cons prod.case Cons.IH [OF d]
    using nin by (auto simp: fun_eq_iff split: option.split)
qed (simp add: fun_eq_iff)

lemma subarray_slot: "s < k \<Longrightarrow> subarray bf (k * n) (n * s) (n * s + n) = \<lparr>wbuf = bf, woff = n * s, wlen = n\<rparr>"
proof -
  assume "s < k"
  then have "n * Suc s \<le> n * k" by (intro mult_le_mono2) simp
  then have "n * s + n \<le> k * n" by (simp add: ac_simps)
  moreover have "n * s \<le> k * n" using \<open>s < k\<close> by (simp add: ac_simps)
  ultimately show ?thesis by (simp add: subarray_def min_absorb1)
qed

lemma foldl_windows:
  "foldl (\<lambda>st (f, bf, s). st\<lparr>windows := (windows st)(f \<mapsto> W (mem st) bf s)\<rparr>) st vs =
     st\<lparr>windows := windows st ++ (\<lambda>f. map_option (\<lambda>p. W (mem st) (fst p) (snd p)) (map_of (rev vs) f))\<rparr>"
proof (induction vs rule: rev_induct)
  case (snoc v vs)
  obtain f bf s where v: "v = (f, bf, s)" by (cases v)
  show ?case
    unfolding foldl_append snoc
    by (auto simp: v fun_eq_iff map_add_def split: option.split)
qed (simp add: map_add_def)

lemma foldl_objects:
  "foldl (\<lambda>st (nm, f, d). case windows st f of
         None \<Rightarrow> st
       | Some w \<Rightarrow> st\<lparr>proxies := (proxies st)(nm \<mapsto> \<lparr>hostBuffer = w, clBuffer = d\<rparr>)\<rparr>)
     st (map (\<lambda>(f, bf, s). (f, f, bf)) vs) =
   st\<lparr>proxies := proxies st ++ (\<lambda>f. case (map_of (rev vs) f, windows st f) of
        (Some p, Some w) \<Rightarrow> Some \<lparr>hostBuffer = w, clBuffer = fst p\<rparr> | _ \<Rightarrow> None)\<rparr>"
proof (induction vs rule: rev_induct)
  case (snoc v vs)
  obtain f bf s where v: "v = (f, bf, s)" by (cases v)
  show ?case
    unfolding map_append foldl_append snoc
    by (auto simp: v fun_eq_iff map_add_def split: option.split)
qed (simp add: map_add_def)

context cl_device
begin

lemma foldl_dev_alloc:
  "distinct (map fst ss) \<Longrightarrow> (\<And>bf k. (bf, k) \<in> set ss \<Longrightarrow> length (host (mem st) bf) = k * n) \<Longrightarrow>
   \<exists>g. foldl (\<lambda>st (d, h). st\<lparr>mem := (mem st)\<lparr>dev :=
         mk (dev (mem st)) d (BYTES_PER_ELEMENT * length (host (mem st) h))\<rparr>\<rparr>) st (map (\<lambda>(bf, k). (bf, bf)) ss) =
       st\<lparr>mem := (mem st)\<lparr>dev := g\<rparr>\<rparr> \<and>
     (\<forall>c. sz g c = (case map_of ss c of Some k \<Rightarrow> 4 * (k * n) | None \<Rightarrow> sz (dev (mem st)) c))"
proof (induction ss arbitrary: st)
  case Nil
  show ?case by (intro exI [of _ "dev (mem st)"]) simp
next
  case (Cons e ss)
  obtain bf k where e: "e = (bf, k)" by (cases e)
  define st1 where "st1 = st\<lparr>mem := (mem st)\<lparr>dev := mk (dev (mem st)) bf (4 * (k * n))\<rparr>\<rparr>"
  have step: "foldl (\<lambda>st (d, h). st\<lparr>mem := (mem st)\<lparr>dev :=
         mk (dev (mem st)) d (BYTES_PER_ELEMENT * length (host (mem st) h))\<rparr>\<rparr>) st (map (\<lambda>(bf, k). (bf, bf)) (e # ss)) =
      foldl (\<lambda>st (d, h). st\<lparr>mem := (mem st)\<lparr>dev :=
         mk (dev (mem st)) d (BYTES_PER_ELEMENT * length (host (mem st) h))\<rparr>\<rparr>) st1 (map (\<lambda>(bf, k). (bf, bf)) ss)"
    using Cons.prems(2) [of bf k] by (simp add: e st1_def BYTES_PER_ELEMENT_def)
  have d: "distinct (map fst ss)" and nin: "map_of ss bf = None"
    using Cons.prems(1) by (auto simp: e map_of_eq_None_iff)
  have "length (host (mem st1) c) = j * n" if "(c, j) \<in> set ss" for c j
    using Cons.prems(2) that by (simp add: st1_def)
  from Cons.IH [OF d this] obtain g where
    "foldl (\<lambda>st (d, h). st\<lparr>mem := (mem st)\<lparr>dev :=
         mk (dev (mem st)) d (BYTES_PER_ELEMENT * length (host (mem st) h))\<rparr>\<rparr>) st1 (map (\<lambda>(bf, k). (bf, bf)) ss) =
       st1\<lparr>mem := (mem st1)\<lparr>dev := g\<rparr>\<rparr>"
    and "\<forall>c. sz g c = (case map_of ss c of Some k \<Rightarrow> 4 * (k * n) | None \<Rightarrow> sz (dev (mem st1)) c)"
    by blast
  then show ?case
    using nin unfolding step by (intro exI [of _ g]) (auto simp: e st1_def sz_mk split: option.split)
qed

end

lemma sizes_map: "layout_ok b \<Longrightarrow> (bf, k) \<in> set (sizes b) \<Longrightarrow> map_of (sizes b) bf = Some k"
  by (simp add: layout_ok_def)

text \<open>The allocations in the order \<open>loadData\<close> makes them.\<close>

definition bind_buffers :: "('g \<Rightarrow> hbuf \<Rightarrow> nat \<Rightarrow> 'g) \<Rightarrow> bindings \<Rightarrow> nat \<Rightarrow> ('v::zero, 'g) bound \<Rightarrow> ('v, 'g) bound" where
  "bind_buffers mk b n st = allocateProxyObjects b (allocateClBuffers mk b (allocateHostProxies b n (allocateHostBuffers b n st)))"

lemma setup_host:
  assumes "layout_ok b"
  shows "allocateHostBuffers b n st =
    st\<lparr>mem := (mem st)\<lparr>host := \<lambda>c. case map_of (sizes b) c of Some k \<Rightarrow> replicate (k * n) 0 | None \<Rightarrow> host (mem st) c\<rparr>\<rparr>"
  unfolding allocateHostBuffers_def by (rule foldl_host_alloc) (use assms in \<open>simp add: layout_ok_def\<close>)

lemma setup_windows:
  assumes "layout_ok b" and "\<And>bf k. (bf, k) \<in> set (sizes b) \<Longrightarrow> length (host (mem st) bf) = k * n"
  shows "allocateHostProxies b n st =
    st\<lparr>windows := windows st ++ (\<lambda>f. map_option (slot_window n) (slot_of b f))\<rparr>"
proof -
  have "map_option (\<lambda>p. subarray (fst p) (length (host (mem st) (fst p))) (n * snd p) (n * snd p + n)) (slot_of b f) =
      map_option (slot_window n) (slot_of b f)" for f
  proof (cases "slot_of b f")
    case (Some p)
    obtain bf s where p: "p = (bf, s)" by (cases p)
    obtain k where "(bf, k) \<in> set (sizes b)" "s < k"
      using slot_of_bound [OF assms(1)] Some p by blast
    then show ?thesis using assms(2) subarray_slot [of s k bf n] by (simp add: Some p slot_window_def)
  qed simp
  then show ?thesis
    unfolding allocateHostProxies_def slot_of_def
    using foldl_windows [of "\<lambda>m bf s. subarray bf (length (host m bf)) (n * s) (n * s + n)" st "bviews b"]
    by (simp add: slot_of_def)
qed

lemma setup_objects:
  assumes "layout_ok b" and "windows st = (\<lambda>f. map_option (slot_window n) (slot_of b f))"
  shows "allocateProxyObjects b st = st\<lparr>proxies := proxies st ++ (\<lambda>f. map_option (slot_wrapper n) (slot_of b f))\<rparr>"
proof -
  have "(case (map_of (rev (bviews b)) f, windows st f) of
        (Some p, Some w) \<Rightarrow> Some \<lparr>hostBuffer = w, clBuffer = fst p\<rparr> | _ \<Rightarrow> None) =
      map_option (slot_wrapper n) (slot_of b f)" for f
    by (cases "slot_of b f") (simp_all add: assms(2) slot_of_def slot_wrapper_def)
  moreover have "objects b = map (\<lambda>(f, bf, s). (f, f, bf)) (bviews b)"
    using assms(1) by (simp add: layout_ok_def)
  ultimately show ?thesis
    unfolding allocateProxyObjects_def by (simp only: foldl_objects)
qed

context cl_device
begin

lemma setup_bound:
  assumes "layout_ok b" and "windows st = Map.empty" and "proxies st = Map.empty"
  shows "bound_ok sz b n (bind_buffers mk b n st) \<and>
    (\<forall>(bf, k) \<in> set (sizes b). host (mem (bind_buffers mk b n st)) bf = replicate (k * n) 0)"
proof -
  define st1 where "st1 = allocateHostBuffers b n st"
  have st1: "windows st1 = Map.empty" "proxies st1 = Map.empty"
    "\<And>bf k. (bf, k) \<in> set (sizes b) \<Longrightarrow> host (mem st1) bf = replicate (k * n) 0"
    using assms(2,3) sizes_map [OF assms(1)] by (simp_all add: st1_def setup_host [OF assms(1)])
  define st2 where "st2 = allocateHostProxies b n st1"
  have st2: "st2 = st1\<lparr>windows := (\<lambda>f. map_option (slot_window n) (slot_of b f))\<rparr>"
    using setup_windows [OF assms(1), of st1 n] st1 by (simp add: st2_def)
  have d: "distinct (map fst (sizes b))" "clAlloc b = map (\<lambda>(bf, k). (bf, bf)) (sizes b)"
    using assms(1) by (simp_all add: layout_ok_def)
  have "length (host (mem st2) bf) = k * n" if "(bf, k) \<in> set (sizes b)" for bf k
    using st1(3) [OF that] by (simp add: st2)
  from foldl_dev_alloc [OF d(1) this] obtain g where
    g: "allocateClBuffers mk b st2 = st2\<lparr>mem := (mem st2)\<lparr>dev := g\<rparr>\<rparr>"
    and sz: "\<And>c. sz g c = (case map_of (sizes b) c of Some k \<Rightarrow> 4 * (k * n) | None \<Rightarrow> sz (dev (mem st2)) c)"
    unfolding allocateClBuffers_def d(2) by blast
  have "bind_buffers mk b n st = allocateProxyObjects b (st2\<lparr>mem := (mem st2)\<lparr>dev := g\<rparr>\<rparr>)"
    unfolding bind_buffers_def st1_def [symmetric] st2_def [symmetric] g by (rule refl)
  also have "\<dots> = (st2\<lparr>mem := (mem st2)\<lparr>dev := g\<rparr>\<rparr>)\<lparr>proxies := (\<lambda>f. map_option (slot_wrapper n) (slot_of b f))\<rparr>"
    using setup_objects [OF assms(1), of "st2\<lparr>mem := (mem st2)\<lparr>dev := g\<rparr>\<rparr>" n] st1(2) by (simp add: st2)
  finally have "bind_buffers mk b n st =
      (st2\<lparr>mem := (mem st2)\<lparr>dev := g\<rparr>\<rparr>)\<lparr>proxies := (\<lambda>f. map_option (slot_wrapper n) (slot_of b f))\<rparr>" .
  then show ?thesis
    using st1(3) sz sizes_map [OF assms(1)] by (auto simp: bound_ok_def st2)
qed

end

section \<open>Transfers and proxies\<close>

text \<open>The device holds what the host does, element by element.\<close>

definition mirrors :: "('g \<Rightarrow> hbuf \<Rightarrow> nat \<Rightarrow> nat \<Rightarrow> 'v list) \<Rightarrow> bindings \<Rightarrow> ('v, 'g) bound \<Rightarrow> bool" where
  "mirrors rd b st \<longleftrightarrow> (\<forall>(bf, k) \<in> set (sizes b). \<forall>i < length (host (mem st) bf).
     rd (dev (mem st)) bf (4 * i) 4 = [host (mem st) bf ! i])"

lemma foldl_read:
  "distinct bs \<Longrightarrow>
   foldl (\<lambda>st (d, h). st\<lparr>mem := (mem st)\<lparr>host := (host (mem st))(h :=
         rd (dev (mem st)) d 0 (BYTES_PER_ELEMENT * length (host (mem st) h)))\<rparr>\<rparr>) st (map (\<lambda>b. (b, b)) bs) =
   st\<lparr>mem := (mem st)\<lparr>host := \<lambda>c. if c \<in> set bs then rd (dev (mem st)) c 0 (4 * length (host (mem st) c))
        else host (mem st) c\<rparr>\<rparr>"
proof (induction bs arbitrary: st)
  case (Cons b bs)
  have d: "distinct bs" using Cons.prems by simp
  show ?case
    unfolding list.map foldl_Cons prod.case Cons.IH [OF d]
    using Cons.prems by (auto simp: fun_eq_iff BYTES_PER_ELEMENT_def)
qed (simp add: fun_eq_iff)

lemma slot_disjoint:
  assumes "(i :: nat) < n" and "j < n" and "n * s + i = n * s' + j"
  shows "s = s' \<and> i = j"
proof -
  have "(n * s + i) div n = s" "(n * s' + j) div n = s'" using assms(1,2) by simp_all
  with assms(3) show ?thesis by simp
qed

context cl_device
begin

lemma foldl_write:
  "distinct bs \<Longrightarrow> (\<And>c. c \<in> set bs \<Longrightarrow> 4 * length (host (mem st) c) = sz (dev (mem st)) c) \<Longrightarrow>
   \<exists>g. foldl (\<lambda>st (d, h). st\<lparr>mem := (mem st)\<lparr>dev := wr (dev (mem st)) d 0 (host (mem st) h)\<rparr>\<rparr>) st
         (map (\<lambda>b. (b, b)) bs) = st\<lparr>mem := (mem st)\<lparr>dev := g\<rparr>\<rparr> \<and>
     (\<forall>c. sz g c = sz (dev (mem st)) c) \<and>
     (\<forall>c i. 4 * (i + 1) \<le> sz (dev (mem st)) c \<longrightarrow>
        rd g c (4 * i) 4 = (if c \<in> set bs then [host (mem st) c ! i] else rd (dev (mem st)) c (4 * i) 4))"
proof (induction bs arbitrary: st)
  case Nil
  show ?case by (intro exI [of _ "dev (mem st)"]) simp
next
  case (Cons b bs)
  define st1 where "st1 = st\<lparr>mem := (mem st)\<lparr>dev := wr (dev (mem st)) b 0 (host (mem st) b)\<rparr>\<rparr>"
  have d: "distinct bs" "b \<notin> set bs" using Cons.prems(1) by auto
  have "4 * length (host (mem st1) c) = sz (dev (mem st1)) c" if "c \<in> set bs" for c
    using Cons.prems(2) [of c] that by (simp add: st1_def sz_wr)
  from Cons.IH [OF d(1) this] obtain g where
    g: "foldl (\<lambda>st (d, h). st\<lparr>mem := (mem st)\<lparr>dev := wr (dev (mem st)) d 0 (host (mem st) h)\<rparr>\<rparr>) st1
         (map (\<lambda>b. (b, b)) bs) = st1\<lparr>mem := (mem st1)\<lparr>dev := g\<rparr>\<rparr>"
    and sz: "\<And>c. sz g c = sz (dev (mem st1)) c"
    and rd: "\<And>c i. 4 * (i + 1) \<le> sz (dev (mem st1)) c \<Longrightarrow>
        rd g c (4 * i) 4 = (if c \<in> set bs then [host (mem st1) c ! i] else rd (dev (mem st1)) c (4 * i) 4)"
    by blast
  have "rd g c (4 * i) 4 = (if c \<in> set (b # bs) then [host (mem st) c ! i] else rd (dev (mem st)) c (4 * i) 4)"
    if i: "4 * (i + 1) \<le> sz (dev (mem st)) c" for c i
  proof -
    have "rd (wr (dev (mem st)) b 0 (host (mem st) b)) c (4 * i) 4 =
        (if c = b \<and> i < length (host (mem st) b) then [host (mem st) b ! i] else rd (dev (mem st)) c (4 * i) 4)"
      using rd_wr [of 0 "host (mem st) b" "dev (mem st)" b i c] Cons.prems(2) [of b] i by simp
    moreover have "i < length (host (mem st) b)" if "c = b"
      using Cons.prems(2) [of b] i that by simp
    ultimately show ?thesis
      using rd [of i c] i d(2) by (auto simp: st1_def sz_wr)
  qed
  moreover have "sz g c = sz (dev (mem st)) c" for c by (simp add: sz st1_def sz_wr)
  moreover have "foldl (\<lambda>st (d, h). st\<lparr>mem := (mem st)\<lparr>dev := wr (dev (mem st)) d 0 (host (mem st) h)\<rparr>\<rparr>) st
      (map (\<lambda>b. (b, b)) (b # bs)) = st\<lparr>mem := (mem st)\<lparr>dev := g\<rparr>\<rparr>"
    using g by (simp add: st1_def)
  ultimately show ?case by blast
qed

lemma transfer_spec:
  assumes "layout_ok b" and "bound_ok sz b n st"
  shows "bound_ok sz b n (transferTree wr b st) \<and> mirrors rd b (transferTree wr b st) \<and>
    host (mem (transferTree wr b st)) = host (mem st)"
proof -
  have w: "writes b = map (\<lambda>c. (c, c)) (map fst (sizes b))"
    using assms(1) by (simp add: layout_ok_def case_prod_beta o_def)
  have d: "distinct (map fst (sizes b))" using assms(1) by (simp add: layout_ok_def)
  have "4 * length (host (mem st) c) = sz (dev (mem st)) c" if "c \<in> set (map fst (sizes b))" for c
    using assms(2) that by (auto simp: bound_ok_def)
  from foldl_write [OF d this] obtain g where
    g: "transferTree wr b st = st\<lparr>mem := (mem st)\<lparr>dev := g\<rparr>\<rparr>"
    and sz: "\<And>c. sz g c = sz (dev (mem st)) c"
    and rd: "\<And>c i. 4 * (i + 1) \<le> sz (dev (mem st)) c \<Longrightarrow>
        rd g c (4 * i) 4 = (if c \<in> set (map fst (sizes b)) then [host (mem st) c ! i] else rd (dev (mem st)) c (4 * i) 4)"
    unfolding transferTree_def w by blast
  have "rd g c (4 * i) 4 = [host (mem st) c ! i]" if "(c, k) \<in> set (sizes b)" "i < length (host (mem st) c)" for c k i
  proof -
    have "4 * (i + 1) \<le> sz (dev (mem st)) c"
      using assms(2) that by (auto simp: bound_ok_def)
    from rd [OF this] that(1) show ?thesis by force
  qed
  then have "mirrors rd b (transferTree wr b st)" by (auto simp: mirrors_def g)
  moreover have "bound_ok sz b n (transferTree wr b st)" using assms(2) by (simp add: bound_ok_def g sz)
  ultimately show ?thesis by (simp add: g)
qed

lemma retrieve_mirror:
  assumes "layout_ok b" and "bound_ok sz b n st" and "mirrors rd b st"
  shows "retrieveTree rd b st = st"
proof -
  have r: "reads b = map (\<lambda>c. (c, c)) (map fst (sizes b))"
    using assms(1) by (simp add: layout_ok_def case_prod_beta o_def)
  have d: "distinct (map fst (sizes b))" using assms(1) by (simp add: layout_ok_def)
  have "rd (dev (mem st)) c 0 (4 * length (host (mem st) c)) = host (mem st) c" if c: "c \<in> set (map fst (sizes b))" for c
  proof -
    let ?xs = "host (mem st) c"
    obtain k where k: "(c, k) \<in> set (sizes b)" using c by auto
    have "rd (dev (mem st)) c 0 (4 * length ?xs) = concat (map (\<lambda>i. rd (dev (mem st)) c (4 * i) 4) [0..<length ?xs])"
      using rd_concat [of 0 "length ?xs" "dev (mem st)" c] k assms(2) by (auto simp: bound_ok_def)
    also have "\<dots> = concat (map (\<lambda>i. [?xs ! i]) [0..<length ?xs])"
      using assms(3) k by (intro arg_cong [of _ _ concat] map_cong) (auto simp: mirrors_def)
    finally show ?thesis by (simp add: map_nth)
  qed
  then have "(\<lambda>c. if c \<in> set (map fst (sizes b)) then rd (dev (mem st)) c 0 (4 * length (host (mem st) c))
        else host (mem st) c) = host (mem st)"
    by auto
  then show ?thesis unfolding retrieveTree_def r foldl_read [OF d] by simp
qed

lemma proxy_wrapper:
  assumes "layout_ok b" and "bound_ok sz b n st" and "slot_of b f = Some (bf, s)" and "i < n"
  shows "proxies st f = Some (slot_wrapper n (bf, s))" and "n * s + i < length (host (mem st) bf)"
    and "reaches sz (mem st) (slot_wrapper n (bf, s)) i"
    and "\<exists>k. (bf, k) \<in> set (sizes b)"
proof -
  obtain k where k: "(bf, k) \<in> set (sizes b)" "s < k"
    using slot_of_bound [OF assms(1,3)] by blast
  have "n * Suc s \<le> n * k" using k(2) by (intro mult_le_mono2) simp
  then have le: "n * s + i + 1 \<le> k * n" using assms(4) by (simp add: ac_simps)
  show "proxies st f = Some (slot_wrapper n (bf, s))" using assms(2,3) by (simp add: bound_ok_def)
  have h: "length (host (mem st) bf) = k * n" "sz (dev (mem st)) bf = 4 * (k * n)"
    using assms(2) k(1) by (auto simp: bound_ok_def)
  show "n * s + i < length (host (mem st) bf)" using le h by simp
  show "reaches sz (mem st) (slot_wrapper n (bf, s)) i"
    using le h by (simp add: reaches_def slot_wrapper_def slot_window_def)
  show "\<exists>k. (bf, k) \<in> set (sizes b)" using k(1) by blast
qed

lemma proxy_get_mirror:
  assumes "layout_ok b" and "bound_ok sz b n st" and "mirrors rd b st" and "slot_of b f = Some (bf, s)" and "i < n"
  shows "proxy_get rd ignoreCL f i st = Some (host (mem st) bf ! (n * s + i))"
proof -
  note w = proxy_wrapper [OF assms(1,2,4,5)]
  have "\<forall>i < length (host (mem st) bf). rd (dev (mem st)) bf (4 * i) 4 = [host (mem st) bf ! i]"
    using assms(3) w(4) by (auto simp: mirrors_def)
  then have "rd (dev (mem st)) bf (4 * (n * s + i)) 4 = [host (mem st) bf ! (n * s + i)]"
    using w(2) by blast
  then show ?thesis
    using assms(5) w(1)
    by (cases ignoreCL)
      (simp_all add: proxy_get_def get_dev slot_wrapper_def slot_window_def,
       simp add: wrapper_get_def window_get_def)
qed

lemma proxy_set_get:
  assumes "layout_ok b" and "bound_ok sz b n st" and "slot_of b f = Some p" and "slot_of b g = Some q"
    and "i < n" and "j < n"
  shows "proxy_get rd False g j (proxy_set wr False f i v st) =
    (if g = f \<and> j = i then Some v else proxy_get rd False g j st)"
proof -
  obtain bf s bg t where p: "p = (bf, s)" and q: "q = (bg, t)" by (cases p; cases q)
  note wf = proxy_wrapper [OF assms(1,2) assms(3) [unfolded p] assms(5)]
  note wg = proxy_wrapper [OF assms(1,2) assms(4) [unfolded q] assms(6)]
  have "(clBuffer (slot_wrapper n (bg, t)) = clBuffer (slot_wrapper n (bf, s)) \<and>
      woff (hostBuffer (slot_wrapper n (bg, t))) + j = woff (hostBuffer (slot_wrapper n (bf, s))) + i) \<longleftrightarrow>
      g = f \<and> j = i"
    using slot_of_inj [OF assms(1) assms(3), of g] slot_disjoint [OF assms(6,5), of t s] assms(3,4)
    by (auto simp: slot_wrapper_def slot_window_def p q)
  then show ?thesis
    using get_set [OF wf(3) wg(3), of v] wf(1) wg(1) by (simp add: proxy_get_def proxy_set_def)
qed

lemma proxy_set_bound: "bound_ok sz b n st \<Longrightarrow> bound_ok sz b n (proxy_set wr ignoreCL f i v st)"
  by (auto simp: bound_ok_def proxy_set_def wrapper_set_def window_set_def Let_def sz_wr split: option.split)

end

end
