(* ===== verification/Boxes.thy ===== *)
theory Boxes
  imports Bindings
begin

text \<open>
  The tables of \<open>examples/boxes/kbindings.js\<close>: one definition per emitted function, in its order.
\<close>

definition boxes_kernels :: "(nat \<times> nat) list" where
  "boxes_kernels =
    [(0, 0), (1, 1), (2, 2), (3, 3), (4, 4)]"

definition boxes_clAlloc :: "(hbuf \<times> hbuf) list" where
  "boxes_clAlloc =
    [(FloatBuf, FloatBuf), (IntBuf, IntBuf), (TokenBuf, TokenBuf), (NodeBuf, NodeBuf)]"

definition boxes_writes :: "(hbuf \<times> hbuf) list" where
  "boxes_writes =
    [(FloatBuf, FloatBuf), (IntBuf, IntBuf), (TokenBuf, TokenBuf), (NodeBuf, NodeBuf)]"

definition boxes_reads :: "(hbuf \<times> hbuf) list" where
  "boxes_reads =
    [(FloatBuf, FloatBuf), (IntBuf, IntBuf), (TokenBuf, TokenBuf), (NodeBuf, NodeBuf)]"

definition boxes_kargs :: "(nat \<times> karg) list" where
  "boxes_kargs =
    [(0, StartIdx), (1, TreeSizeArg), (2, GlobalBuf FloatBuf), (3, GlobalBuf IntBuf),
     (4, GlobalBuf TokenBuf), (5, GlobalBuf NodeBuf)]"

definition boxes_traversals :: "nat list" where
  "boxes_traversals =
    [0, 1, 2, 3]"

definition boxes_visits :: "(nat \<times> direction \<times> bool) list" where
  "boxes_visits =
    [(0, TopDown, False), (1, BottomUp, False), (2, TopDown, False), (3, BottomUp, False),
     (4, TopDown, True)]"

definition boxes_sizes :: "(hbuf \<times> nat) list" where
  "boxes_sizes =
    [(FloatBuf, 17), (IntBuf, 31), (TokenBuf, 2), (NodeBuf, 6)]"

definition boxes_views :: "(string \<times> hbuf \<times> nat) list" where
  "boxes_views =
    [(''displayname'', TokenBuf, 0), (''fld_hbox_child_childs_count'', IntBuf, 18),
     (''fld_hbox_child_childs_leftmost_child'', NodeBuf, 1),
     (''fld_hbox_childs_depth_init'', IntBuf, 23), (''fld_hbox_childs_depth_last'', IntBuf, 24),
     (''fld_hbox_childs_rx_init'', FloatBuf, 11), (''fld_hbox_childs_rx_last'', FloatBuf, 12),
     (''fld_hbox_childs___dorenderinglast___init'', IntBuf, 19),
     (''fld_hbox_childs___dorenderinglast___last'', IntBuf, 20),
     (''fld_hbox_childs___renderrightoffset___init'', IntBuf, 25),
     (''fld_hbox_childs___renderrightoffset___last'', IntBuf, 26),
     (''fld_hbox_childs_x_init'', FloatBuf, 9), (''fld_hbox_childs_x_last'', FloatBuf, 10),
     (''fld_hbox_childs_y_init'', FloatBuf, 13), (''fld_hbox_childs_y_last'', FloatBuf, 14),
     (''fld_hbox_h_init'', FloatBuf, 15), (''fld_hbox_h_last'', FloatBuf, 16),
     (''fld_hbox___childsrendersize__'', IntBuf, 13),
     (''fld_hbox___childsrendersize___init'', IntBuf, 21),
     (''fld_hbox___childsrendersize___last'', IntBuf, 22), (''fld_hbox___draw__'', IntBuf, 16),
     (''fld_hbox___draw__0'', IntBuf, 15), (''fld_hbox___selfrendersize__'', IntBuf, 17),
     (''fld_hbox___selfrendersize__0'', IntBuf, 14), (''fld_hbox_w_init'', FloatBuf, 7),
     (''fld_hbox_w_last'', FloatBuf, 8), (''fld_iroot_h'', FloatBuf, 1),
     (''fld_iroot___dorenderinglast__'', IntBuf, 3), (''fld_iroot___renderoffset__'', IntBuf, 1),
     (''fld_iroot___renderrightoffset__'', IntBuf, 0), (''fld_iroot___rendersize__'', IntBuf, 2),
     (''fld_iroot_w'', FloatBuf, 0), (''fld_leaf___draw__'', IntBuf, 29),
     (''fld_leaf___draw__0'', IntBuf, 28), (''fld_leaf___selfrendersize__'', IntBuf, 30),
     (''fld_leaf___selfrendersize__0'', IntBuf, 27), (''fld_node_depth'', IntBuf, 8),
     (''fld_node_h'', FloatBuf, 5), (''fld_node_rx'', FloatBuf, 4),
     (''fld_node___dorenderinglast__'', IntBuf, 7), (''fld_node___renderoffset__'', IntBuf, 5),
     (''fld_node___renderrightoffset__'', IntBuf, 4), (''fld_node___rendersize__'', IntBuf, 6),
     (''fld_node_w'', FloatBuf, 2), (''fld_node_x'', FloatBuf, 6), (''fld_node_y'', FloatBuf, 3),
     (''fld_root_child_child_count'', IntBuf, 12),
     (''fld_root_child_child_leftmost_child'', NodeBuf, 0),
     (''fld_root___childrendersize__'', IntBuf, 11), (''fld_root___draw__'', IntBuf, 9),
     (''fld_root___selfrendersize__'', IntBuf, 10), (''id'', NodeBuf, 5),
     (''left_siblings'', NodeBuf, 3), (''parent'', NodeBuf, 4), (''refname'', TokenBuf, 1),
     (''right_siblings'', NodeBuf, 2)]"

definition boxes_copies :: "hbuf list" where
  "boxes_copies =
    [FloatBuf, IntBuf, TokenBuf, NodeBuf]"

definition boxes_objects :: "(string \<times> string \<times> hbuf) list" where
  "boxes_objects =
    [(''displayname'', ''displayname'', TokenBuf),
     (''fld_hbox_child_childs_count'', ''fld_hbox_child_childs_count'', IntBuf),
     (''fld_hbox_child_childs_leftmost_child'', ''fld_hbox_child_childs_leftmost_child'', NodeBuf),
     (''fld_hbox_childs_depth_init'', ''fld_hbox_childs_depth_init'', IntBuf),
     (''fld_hbox_childs_depth_last'', ''fld_hbox_childs_depth_last'', IntBuf),
     (''fld_hbox_childs_rx_init'', ''fld_hbox_childs_rx_init'', FloatBuf),
     (''fld_hbox_childs_rx_last'', ''fld_hbox_childs_rx_last'', FloatBuf),
     (''fld_hbox_childs___dorenderinglast___init'', ''fld_hbox_childs___dorenderinglast___init'', IntBuf),
     (''fld_hbox_childs___dorenderinglast___last'', ''fld_hbox_childs___dorenderinglast___last'', IntBuf),
     (''fld_hbox_childs___renderrightoffset___init'', ''fld_hbox_childs___renderrightoffset___init'', IntBuf),
     (''fld_hbox_childs___renderrightoffset___last'', ''fld_hbox_childs___renderrightoffset___last'', IntBuf),
     (''fld_hbox_childs_x_init'', ''fld_hbox_childs_x_init'', FloatBuf),
     (''fld_hbox_childs_x_last'', ''fld_hbox_childs_x_last'', FloatBuf),
     (''fld_hbox_childs_y_init'', ''fld_hbox_childs_y_init'', FloatBuf),
     (''fld_hbox_childs_y_last'', ''fld_hbox_childs_y_last'', FloatBuf),
     (''fld_hbox_h_init'', ''fld_hbox_h_init'', FloatBuf),
     (''fld_hbox_h_last'', ''fld_hbox_h_last'', FloatBuf),
     (''fld_hbox___childsrendersize__'', ''fld_hbox___childsrendersize__'', IntBuf),
     (''fld_hbox___childsrendersize___init'', ''fld_hbox___childsrendersize___init'', IntBuf),
     (''fld_hbox___childsrendersize___last'', ''fld_hbox___childsrendersize___last'', IntBuf),
     (''fld_hbox___draw__'', ''fld_hbox___draw__'', IntBuf),
     (''fld_hbox___draw__0'', ''fld_hbox___draw__0'', IntBuf),
     (''fld_hbox___selfrendersize__'', ''fld_hbox___selfrendersize__'', IntBuf),
     (''fld_hbox___selfrendersize__0'', ''fld_hbox___selfrendersize__0'', IntBuf),
     (''fld_hbox_w_init'', ''fld_hbox_w_init'', FloatBuf),
     (''fld_hbox_w_last'', ''fld_hbox_w_last'', FloatBuf),
     (''fld_iroot_h'', ''fld_iroot_h'', FloatBuf),
     (''fld_iroot___dorenderinglast__'', ''fld_iroot___dorenderinglast__'', IntBuf),
     (''fld_iroot___renderoffset__'', ''fld_iroot___renderoffset__'', IntBuf),
     (''fld_iroot___renderrightoffset__'', ''fld_iroot___renderrightoffset__'', IntBuf),
     (''fld_iroot___rendersize__'', ''fld_iroot___rendersize__'', IntBuf),
     (''fld_iroot_w'', ''fld_iroot_w'', FloatBuf),
     (''fld_leaf___draw__'', ''fld_leaf___draw__'', IntBuf),
     (''fld_leaf___draw__0'', ''fld_leaf___draw__0'', IntBuf),
     (''fld_leaf___selfrendersize__'', ''fld_leaf___selfrendersize__'', IntBuf),
     (''fld_leaf___selfrendersize__0'', ''fld_leaf___selfrendersize__0'', IntBuf),
     (''fld_node_depth'', ''fld_node_depth'', IntBuf), (''fld_node_h'', ''fld_node_h'', FloatBuf),
     (''fld_node_rx'', ''fld_node_rx'', FloatBuf),
     (''fld_node___dorenderinglast__'', ''fld_node___dorenderinglast__'', IntBuf),
     (''fld_node___renderoffset__'', ''fld_node___renderoffset__'', IntBuf),
     (''fld_node___renderrightoffset__'', ''fld_node___renderrightoffset__'', IntBuf),
     (''fld_node___rendersize__'', ''fld_node___rendersize__'', IntBuf),
     (''fld_node_w'', ''fld_node_w'', FloatBuf), (''fld_node_x'', ''fld_node_x'', FloatBuf),
     (''fld_node_y'', ''fld_node_y'', FloatBuf),
     (''fld_root_child_child_count'', ''fld_root_child_child_count'', IntBuf),
     (''fld_root_child_child_leftmost_child'', ''fld_root_child_child_leftmost_child'', NodeBuf),
     (''fld_root___childrendersize__'', ''fld_root___childrendersize__'', IntBuf),
     (''fld_root___draw__'', ''fld_root___draw__'', IntBuf),
     (''fld_root___selfrendersize__'', ''fld_root___selfrendersize__'', IntBuf),
     (''id'', ''id'', NodeBuf), (''left_siblings'', ''left_siblings'', NodeBuf),
     (''parent'', ''parent'', NodeBuf), (''refname'', ''refname'', TokenBuf),
     (''right_siblings'', ''right_siblings'', NodeBuf)]"

definition boxes_tokens :: "(string \<times> int) list" where
  "boxes_tokens =
    [(''CHILD'', 5), (''CHILDS'', 6), (''UNDEFINED'', 12), (''ROOT'', 10), (''HBOX'', 7),
     (''LEAF'', 9), (''IGNORE'', 8), (''TEXTBOX'', 11)]"

definition boxes_ifaces :: "(string \<times> string) list" where
  "boxes_ifaces =
    [(''ROOT'', ''iroot''), (''HBOX'', ''node''), (''LEAF'', ''node'')]"

definition boxes_inputs :: "string list" where
  "boxes_inputs =
    [''glBufferMacro'', ''refname'', ''display'']"

definition boxes :: bindings where
  "boxes =
     \<lparr>kernels = boxes_kernels, clAlloc = boxes_clAlloc, writes = boxes_writes, reads = boxes_reads,
      kargs = boxes_kargs, traversals = boxes_traversals, visits = boxes_visits, sizes = boxes_sizes,
      bviews = boxes_views, copies = boxes_copies, objects = boxes_objects,
      renderSize = ''fld_iroot___rendersize__'', classTokens = boxes_tokens, classIFaces = boxes_ifaces,
      inputs = boxes_inputs\<rparr>"

text \<open>The layout of the buffers, and the schedule of the visits, by evaluation.\<close>

lemma boxes_slots: "map snd (bviews boxes) =
    [(TokenBuf, 0), (IntBuf, 18), (NodeBuf, 1), (IntBuf, 23), (IntBuf, 24), (FloatBuf, 11),
     (FloatBuf, 12), (IntBuf, 19), (IntBuf, 20), (IntBuf, 25), (IntBuf, 26), (FloatBuf, 9),
     (FloatBuf, 10), (FloatBuf, 13), (FloatBuf, 14), (FloatBuf, 15), (FloatBuf, 16), (IntBuf, 13),
     (IntBuf, 21), (IntBuf, 22), (IntBuf, 16), (IntBuf, 15), (IntBuf, 17), (IntBuf, 14),
     (FloatBuf, 7), (FloatBuf, 8), (FloatBuf, 1), (IntBuf, 3), (IntBuf, 1), (IntBuf, 0),
     (IntBuf, 2), (FloatBuf, 0), (IntBuf, 29), (IntBuf, 28), (IntBuf, 30), (IntBuf, 27),
     (IntBuf, 8), (FloatBuf, 5), (FloatBuf, 4), (IntBuf, 7), (IntBuf, 5), (IntBuf, 4), (IntBuf, 6),
     (FloatBuf, 2), (FloatBuf, 6), (FloatBuf, 3), (IntBuf, 12), (NodeBuf, 0), (IntBuf, 11),
     (IntBuf, 9), (IntBuf, 10), (NodeBuf, 5), (NodeBuf, 3), (NodeBuf, 4), (TokenBuf, 1),
     (NodeBuf, 2)]"
  by (simp add: boxes_def boxes_views_def)

lemma boxes_objects_views: "objects boxes = map (\<lambda>(f, bf, s). (f, f, bf)) (bviews boxes)"
  by (simp add: boxes_def boxes_views_def boxes_objects_def)

lemma boxes_check: "layout_check boxes"
  unfolding layout_check_def boxes_slots boxes_objects_views
  by (simp add: boxes_def boxes_sizes_def boxes_clAlloc_def boxes_writes_def boxes_reads_def boxes_copies_def slot_fits_def)

lemma boxes_schedule: "schedule_ok boxes"
  by (simp add: schedule_ok_def render_visit_def render_from.simps upt_rec numeral_eq_Suc boxes_def
      boxes_kernels_def boxes_kargs_def boxes_traversals_def boxes_visits_def boxes_sizes_def)

end
