(* ===== verification/Sunburst.thy ===== *)
theory Sunburst
  imports Bindings
begin

text \<open>
  The tables of \<open>examples/sunburst/kbindings.js\<close>: one definition per emitted function, in its order.
\<close>

definition sunburst_kernels :: "(nat \<times> nat) list" where
  "sunburst_kernels =
    [(0, 0), (1, 1), (2, 2)]"

definition sunburst_clAlloc :: "(hbuf \<times> hbuf) list" where
  "sunburst_clAlloc =
    [(FloatBuf, FloatBuf), (IntBuf, IntBuf), (TokenBuf, TokenBuf), (NodeBuf, NodeBuf)]"

definition sunburst_writes :: "(hbuf \<times> hbuf) list" where
  "sunburst_writes =
    [(FloatBuf, FloatBuf), (IntBuf, IntBuf), (TokenBuf, TokenBuf), (NodeBuf, NodeBuf)]"

definition sunburst_reads :: "(hbuf \<times> hbuf) list" where
  "sunburst_reads =
    [(FloatBuf, FloatBuf), (IntBuf, IntBuf), (TokenBuf, TokenBuf), (NodeBuf, NodeBuf)]"

definition sunburst_kargs :: "(nat \<times> karg) list" where
  "sunburst_kargs =
    [(0, StartIdx), (1, TreeSizeArg), (2, GlobalBuf FloatBuf), (3, GlobalBuf IntBuf),
     (4, GlobalBuf TokenBuf), (5, GlobalBuf NodeBuf)]"

definition sunburst_traversals :: "nat list" where
  "sunburst_traversals =
    [0, 1]"

definition sunburst_visits :: "(nat \<times> direction \<times> bool) list" where
  "sunburst_visits =
    [(0, TopDown, False), (1, BottomUp, False), (2, TopDown, True)]"

definition sunburst_sizes :: "(hbuf \<times> nat) list" where
  "sunburst_sizes =
    [(FloatBuf, 28), (IntBuf, 28), (TokenBuf, 2), (NodeBuf, 6)]"

definition sunburst_views :: "(string \<times> hbuf \<times> nat) list" where
  "sunburst_views =
    [(''displayname'', TokenBuf, 0), (''fld_iroot___dorenderinglast__'', IntBuf, 8),
     (''fld_iroot___renderoffset__'', IntBuf, 6), (''fld_iroot___renderrightoffset__'', IntBuf, 5),
     (''fld_iroot___rendersize__'', IntBuf, 7), (''fld_node_alpha'', FloatBuf, 2),
     (''fld_node_bgcolor'', IntBuf, 4), (''fld_node_maxr'', FloatBuf, 0),
     (''fld_node_open'', FloatBuf, 8), (''fld_node_parenttotr'', FloatBuf, 3),
     (''fld_node_r'', FloatBuf, 1), (''fld_node_rootcenterx'', FloatBuf, 6),
     (''fld_node_rootcentery'', FloatBuf, 7), (''fld_node_sectorang'', FloatBuf, 4),
     (''fld_node_show'', FloatBuf, 5), (''fld_node___dorenderinglast__'', IntBuf, 3),
     (''fld_node___renderoffset__'', IntBuf, 1), (''fld_node___renderrightoffset__'', IntBuf, 0),
     (''fld_node___rendersize__'', IntBuf, 2), (''fld_radial_child_alpha_init'', FloatBuf, 9),
     (''fld_radial_child_alpha_last'', FloatBuf, 10),
     (''fld_radial_child_child_count'', IntBuf, 15),
     (''fld_radial_child_child_leftmost_child'', NodeBuf, 0),
     (''fld_radial_child_maxr_init'', FloatBuf, 19),
     (''fld_radial_child_maxr_last'', FloatBuf, 20),
     (''fld_radial_child_parenttotr_init'', FloatBuf, 11),
     (''fld_radial_child_parenttotr_last'', FloatBuf, 12),
     (''fld_radial_child_rootcenterx_init'', FloatBuf, 15),
     (''fld_radial_child_rootcenterx_last'', FloatBuf, 16),
     (''fld_radial_child_rootcentery_init'', FloatBuf, 17),
     (''fld_radial_child_rootcentery_last'', FloatBuf, 18),
     (''fld_radial_child_sectorang_init'', FloatBuf, 21),
     (''fld_radial_child_sectorang_last'', FloatBuf, 22),
     (''fld_radial_child_show_init'', FloatBuf, 13),
     (''fld_radial_child_show_last'', FloatBuf, 14),
     (''fld_radial_child___dorenderinglast___init'', IntBuf, 16),
     (''fld_radial_child___dorenderinglast___last'', IntBuf, 17),
     (''fld_radial_child___renderrightoffset___init'', IntBuf, 18),
     (''fld_radial_child___renderrightoffset___last'', IntBuf, 19),
     (''fld_radial_numopenchildren'', IntBuf, 14),
     (''fld_radial_numopenchildren_init'', IntBuf, 22),
     (''fld_radial_numopenchildren_last'', IntBuf, 23),
     (''fld_radial___childrendersize__'', IntBuf, 13),
     (''fld_radial___childrendersize___init'', IntBuf, 20),
     (''fld_radial___childrendersize___last'', IntBuf, 21), (''fld_radial___draw__'', IntBuf, 11),
     (''fld_radial___draw__0'', IntBuf, 10), (''fld_radial___selfrendersize__'', IntBuf, 12),
     (''fld_radial___selfrendersize__0'', IntBuf, 9), (''fld_root_centeralpha'', FloatBuf, 24),
     (''fld_root_centerradius'', FloatBuf, 25), (''fld_root_child_child_count'', IntBuf, 27),
     (''fld_root_child_child_leftmost_child'', NodeBuf, 1), (''fld_root_h'', FloatBuf, 27),
     (''fld_root_radius'', FloatBuf, 26), (''fld_root___childrendersize__'', IntBuf, 26),
     (''fld_root___draw__'', IntBuf, 24), (''fld_root___selfrendersize__'', IntBuf, 25),
     (''fld_root_w'', FloatBuf, 23), (''id'', NodeBuf, 5), (''left_siblings'', NodeBuf, 3),
     (''parent'', NodeBuf, 4), (''refname'', TokenBuf, 1), (''right_siblings'', NodeBuf, 2)]"

definition sunburst_copies :: "hbuf list" where
  "sunburst_copies =
    [FloatBuf, IntBuf, TokenBuf, NodeBuf]"

definition sunburst_objects :: "(string \<times> string \<times> hbuf) list" where
  "sunburst_objects =
    [(''displayname'', ''displayname'', TokenBuf),
     (''fld_iroot___dorenderinglast__'', ''fld_iroot___dorenderinglast__'', IntBuf),
     (''fld_iroot___renderoffset__'', ''fld_iroot___renderoffset__'', IntBuf),
     (''fld_iroot___renderrightoffset__'', ''fld_iroot___renderrightoffset__'', IntBuf),
     (''fld_iroot___rendersize__'', ''fld_iroot___rendersize__'', IntBuf),
     (''fld_node_alpha'', ''fld_node_alpha'', FloatBuf),
     (''fld_node_bgcolor'', ''fld_node_bgcolor'', IntBuf),
     (''fld_node_maxr'', ''fld_node_maxr'', FloatBuf),
     (''fld_node_open'', ''fld_node_open'', FloatBuf),
     (''fld_node_parenttotr'', ''fld_node_parenttotr'', FloatBuf),
     (''fld_node_r'', ''fld_node_r'', FloatBuf),
     (''fld_node_rootcenterx'', ''fld_node_rootcenterx'', FloatBuf),
     (''fld_node_rootcentery'', ''fld_node_rootcentery'', FloatBuf),
     (''fld_node_sectorang'', ''fld_node_sectorang'', FloatBuf),
     (''fld_node_show'', ''fld_node_show'', FloatBuf),
     (''fld_node___dorenderinglast__'', ''fld_node___dorenderinglast__'', IntBuf),
     (''fld_node___renderoffset__'', ''fld_node___renderoffset__'', IntBuf),
     (''fld_node___renderrightoffset__'', ''fld_node___renderrightoffset__'', IntBuf),
     (''fld_node___rendersize__'', ''fld_node___rendersize__'', IntBuf),
     (''fld_radial_child_alpha_init'', ''fld_radial_child_alpha_init'', FloatBuf),
     (''fld_radial_child_alpha_last'', ''fld_radial_child_alpha_last'', FloatBuf),
     (''fld_radial_child_child_count'', ''fld_radial_child_child_count'', IntBuf),
     (''fld_radial_child_child_leftmost_child'', ''fld_radial_child_child_leftmost_child'', NodeBuf),
     (''fld_radial_child_maxr_init'', ''fld_radial_child_maxr_init'', FloatBuf),
     (''fld_radial_child_maxr_last'', ''fld_radial_child_maxr_last'', FloatBuf),
     (''fld_radial_child_parenttotr_init'', ''fld_radial_child_parenttotr_init'', FloatBuf),
     (''fld_radial_child_parenttotr_last'', ''fld_radial_child_parenttotr_last'', FloatBuf),
     (''fld_radial_child_rootcenterx_init'', ''fld_radial_child_rootcenterx_init'', FloatBuf),
     (''fld_radial_child_rootcenterx_last'', ''fld_radial_child_rootcenterx_last'', FloatBuf),
     (''fld_radial_child_rootcentery_init'', ''fld_radial_child_rootcentery_init'', FloatBuf),
     (''fld_radial_child_rootcentery_last'', ''fld_radial_child_rootcentery_last'', FloatBuf),
     (''fld_radial_child_sectorang_init'', ''fld_radial_child_sectorang_init'', FloatBuf),
     (''fld_radial_child_sectorang_last'', ''fld_radial_child_sectorang_last'', FloatBuf),
     (''fld_radial_child_show_init'', ''fld_radial_child_show_init'', FloatBuf),
     (''fld_radial_child_show_last'', ''fld_radial_child_show_last'', FloatBuf),
     (''fld_radial_child___dorenderinglast___init'', ''fld_radial_child___dorenderinglast___init'', IntBuf),
     (''fld_radial_child___dorenderinglast___last'', ''fld_radial_child___dorenderinglast___last'', IntBuf),
     (''fld_radial_child___renderrightoffset___init'', ''fld_radial_child___renderrightoffset___init'', IntBuf),
     (''fld_radial_child___renderrightoffset___last'', ''fld_radial_child___renderrightoffset___last'', IntBuf),
     (''fld_radial_numopenchildren'', ''fld_radial_numopenchildren'', IntBuf),
     (''fld_radial_numopenchildren_init'', ''fld_radial_numopenchildren_init'', IntBuf),
     (''fld_radial_numopenchildren_last'', ''fld_radial_numopenchildren_last'', IntBuf),
     (''fld_radial___childrendersize__'', ''fld_radial___childrendersize__'', IntBuf),
     (''fld_radial___childrendersize___init'', ''fld_radial___childrendersize___init'', IntBuf),
     (''fld_radial___childrendersize___last'', ''fld_radial___childrendersize___last'', IntBuf),
     (''fld_radial___draw__'', ''fld_radial___draw__'', IntBuf),
     (''fld_radial___draw__0'', ''fld_radial___draw__0'', IntBuf),
     (''fld_radial___selfrendersize__'', ''fld_radial___selfrendersize__'', IntBuf),
     (''fld_radial___selfrendersize__0'', ''fld_radial___selfrendersize__0'', IntBuf),
     (''fld_root_centeralpha'', ''fld_root_centeralpha'', FloatBuf),
     (''fld_root_centerradius'', ''fld_root_centerradius'', FloatBuf),
     (''fld_root_child_child_count'', ''fld_root_child_child_count'', IntBuf),
     (''fld_root_child_child_leftmost_child'', ''fld_root_child_child_leftmost_child'', NodeBuf),
     (''fld_root_h'', ''fld_root_h'', FloatBuf),
     (''fld_root_radius'', ''fld_root_radius'', FloatBuf),
     (''fld_root___childrendersize__'', ''fld_root___childrendersize__'', IntBuf),
     (''fld_root___draw__'', ''fld_root___draw__'', IntBuf),
     (''fld_root___selfrendersize__'', ''fld_root___selfrendersize__'', IntBuf),
     (''fld_root_w'', ''fld_root_w'', FloatBuf), (''id'', ''id'', NodeBuf),
     (''left_siblings'', ''left_siblings'', NodeBuf), (''parent'', ''parent'', NodeBuf),
     (''refname'', ''refname'', TokenBuf), (''right_siblings'', ''right_siblings'', NodeBuf)]"

definition sunburst_tokens :: "(string \<times> int) list" where
  "sunburst_tokens =
    [(''CHILD'', 5), (''UNDEFINED'', 10), (''RADIAL'', 7), (''ROOT'', 8), (''IGNORE'', 6),
     (''TEXTBOX'', 9)]"

definition sunburst_ifaces :: "(string \<times> string) list" where
  "sunburst_ifaces =
    [(''RADIAL'', ''node''), (''ROOT'', ''iroot'')]"

definition sunburst_inputs :: "string list" where
  "sunburst_inputs =
    [''w'', ''open'', ''centerAlpha'', ''glBufferMacro'', ''refname'', ''display'', ''radius'',
     ''centerRadius'', ''bgcolor'', ''h'']"

definition sunburst :: bindings where
  "sunburst =
     \<lparr>kernels = sunburst_kernels, clAlloc = sunburst_clAlloc, writes = sunburst_writes, reads = sunburst_reads,
      kargs = sunburst_kargs, traversals = sunburst_traversals, visits = sunburst_visits, sizes = sunburst_sizes,
      bviews = sunburst_views, copies = sunburst_copies, objects = sunburst_objects,
      renderSize = ''fld_iroot___rendersize__'', classTokens = sunburst_tokens, classIFaces = sunburst_ifaces,
      inputs = sunburst_inputs\<rparr>"

text \<open>The layout of the buffers, and the schedule of the visits, by evaluation.\<close>

lemma sunburst_slots: "map snd (bviews sunburst) =
    [(TokenBuf, 0), (IntBuf, 8), (IntBuf, 6), (IntBuf, 5), (IntBuf, 7), (FloatBuf, 2), (IntBuf, 4),
     (FloatBuf, 0), (FloatBuf, 8), (FloatBuf, 3), (FloatBuf, 1), (FloatBuf, 6), (FloatBuf, 7),
     (FloatBuf, 4), (FloatBuf, 5), (IntBuf, 3), (IntBuf, 1), (IntBuf, 0), (IntBuf, 2),
     (FloatBuf, 9), (FloatBuf, 10), (IntBuf, 15), (NodeBuf, 0), (FloatBuf, 19), (FloatBuf, 20),
     (FloatBuf, 11), (FloatBuf, 12), (FloatBuf, 15), (FloatBuf, 16), (FloatBuf, 17),
     (FloatBuf, 18), (FloatBuf, 21), (FloatBuf, 22), (FloatBuf, 13), (FloatBuf, 14), (IntBuf, 16),
     (IntBuf, 17), (IntBuf, 18), (IntBuf, 19), (IntBuf, 14), (IntBuf, 22), (IntBuf, 23),
     (IntBuf, 13), (IntBuf, 20), (IntBuf, 21), (IntBuf, 11), (IntBuf, 10), (IntBuf, 12),
     (IntBuf, 9), (FloatBuf, 24), (FloatBuf, 25), (IntBuf, 27), (NodeBuf, 1), (FloatBuf, 27),
     (FloatBuf, 26), (IntBuf, 26), (IntBuf, 24), (IntBuf, 25), (FloatBuf, 23), (NodeBuf, 5),
     (NodeBuf, 3), (NodeBuf, 4), (TokenBuf, 1), (NodeBuf, 2)]"
  by (simp add: sunburst_def sunburst_views_def)

lemma sunburst_objects_views: "objects sunburst = map (\<lambda>(f, bf, s). (f, f, bf)) (bviews sunburst)"
  by (simp add: sunburst_def sunburst_views_def sunburst_objects_def)

lemma sunburst_check: "layout_check sunburst"
  unfolding layout_check_def sunburst_slots sunburst_objects_views
  by (simp add: sunburst_def sunburst_sizes_def sunburst_clAlloc_def sunburst_writes_def sunburst_reads_def sunburst_copies_def slot_fits_def)

lemma sunburst_schedule: "schedule_ok sunburst"
  by (simp add: schedule_ok_def render_visit_def render_from.simps upt_rec numeral_eq_Suc sunburst_def
      sunburst_kernels_def sunburst_kargs_def sunburst_traversals_def sunburst_visits_def sunburst_sizes_def)

end
