(* ===== verification/Linegraph.thy ===== *)
theory Linegraph
  imports Bindings
begin

text \<open>
  The tables of \<open>examples/linegraph-3d/kbindings.js\<close>: one definition per emitted function, in its order.
\<close>

definition linegraph_kernels :: "(nat \<times> nat) list" where
  "linegraph_kernels =
    [(0, 0), (1, 1), (2, 2)]"

definition linegraph_clAlloc :: "(hbuf \<times> hbuf) list" where
  "linegraph_clAlloc =
    [(IntBuf, IntBuf), (FloatBuf, FloatBuf), (TokenBuf, TokenBuf), (NodeBuf, NodeBuf)]"

definition linegraph_writes :: "(hbuf \<times> hbuf) list" where
  "linegraph_writes =
    [(IntBuf, IntBuf), (FloatBuf, FloatBuf), (TokenBuf, TokenBuf), (NodeBuf, NodeBuf)]"

definition linegraph_reads :: "(hbuf \<times> hbuf) list" where
  "linegraph_reads =
    [(IntBuf, IntBuf), (FloatBuf, FloatBuf), (TokenBuf, TokenBuf), (NodeBuf, NodeBuf)]"

definition linegraph_kargs :: "(nat \<times> karg) list" where
  "linegraph_kargs =
    [(0, StartIdx), (1, TreeSizeArg), (2, GlobalBuf IntBuf), (3, GlobalBuf FloatBuf),
     (4, GlobalBuf TokenBuf), (5, GlobalBuf NodeBuf)]"

definition linegraph_traversals :: "nat list" where
  "linegraph_traversals =
    [0, 1]"

definition linegraph_visits :: "(nat \<times> direction \<times> bool) list" where
  "linegraph_visits =
    [(0, TopDown, False), (1, BottomUp, False), (2, TopDown, True)]"

definition linegraph_sizes :: "(hbuf \<times> nat) list" where
  "linegraph_sizes =
    [(IntBuf, 105), (FloatBuf, 67), (TokenBuf, 2), (NodeBuf, 7)]"

definition linegraph_views_1 :: "(string \<times> hbuf \<times> nat) list" where
  "linegraph_views_1 =
    [(''displayname'', TokenBuf, 0), (''fld_generator_angle'', FloatBuf, 46),
     (''fld_generator_child_childs_count'', IntBuf, 72),
     (''fld_generator_child_childs_leftmost_child'', NodeBuf, 2),
     (''fld_generator_childs_angle_init'', FloatBuf, 59),
     (''fld_generator_childs_angle_last'', FloatBuf, 60),
     (''fld_generator_childs_depth_init'', IntBuf, 89),
     (''fld_generator_childs_depth_last'', IntBuf, 90),
     (''fld_generator_childs_height_init'', FloatBuf, 57),
     (''fld_generator_childs_height_last'', FloatBuf, 58),
     (''fld_generator_childs_idx_init'', IntBuf, 81),
     (''fld_generator_childs_idx_last'', IntBuf, 82),
     (''fld_generator_childs_increment_init'', FloatBuf, 51),
     (''fld_generator_childs_increment_last'', FloatBuf, 52),
     (''fld_generator_childs_isfirst_init'', IntBuf, 73),
     (''fld_generator_childs_isfirst_last'', IntBuf, 74),
     (''fld_generator_childs_islast_init'', IntBuf, 87),
     (''fld_generator_childs_islast_last'', IntBuf, 88),
     (''fld_generator_childs_minradius_init'', FloatBuf, 55),
     (''fld_generator_childs_minradius_last'', FloatBuf, 56),
     (''fld_generator_childs_radius_init'', FloatBuf, 61),
     (''fld_generator_childs_radius_last'', FloatBuf, 62),
     (''fld_generator_childs_rotation_init'', IntBuf, 79),
     (''fld_generator_childs_rotation_last'', IntBuf, 80),
     (''fld_generator_childs_tween_init'', FloatBuf, 65),
     (''fld_generator_childs_tween_last'', FloatBuf, 66),
     (''fld_generator_childs_tweenmax_init'', FloatBuf, 47),
     (''fld_generator_childs_tweenmax_last'', FloatBuf, 48),
     (''fld_generator_childs_tweenmin_init'', FloatBuf, 53),
     (''fld_generator_childs_tweenmin_last'', FloatBuf, 54),
     (''fld_generator_childs___dorenderinglast___init'', IntBuf, 83),
     (''fld_generator_childs___dorenderinglast___last'', IntBuf, 84),
     (''fld_generator_childs___renderrightoffset___init'', IntBuf, 91),
     (''fld_generator_childs___renderrightoffset___last'', IntBuf, 92),
     (''fld_generator_childs_valcopy_init'', FloatBuf, 63),
     (''fld_generator_childs_valcopy_last'', FloatBuf, 64),
     (''fld_generator_childs_valprev_init'', FloatBuf, 49),
     (''fld_generator_childs_valprev_last'', FloatBuf, 50),
     (''fld_generator_childs_xoffset_init'', IntBuf, 75),
     (''fld_generator_childs_xoffset_last'', IntBuf, 76),
     (''fld_generator_childs_yoffset_init'', IntBuf, 77),
     (''fld_generator_childs_yoffset_last'', IntBuf, 78),
     (''fld_generator_increment'', FloatBuf, 45), (''fld_generator_numspikes'', IntBuf, 68),
     (''fld_generator___childsrendersize__'', IntBuf, 69),
     (''fld_generator___childsrendersize___init'', IntBuf, 85),
     (''fld_generator___childsrendersize___last'', IntBuf, 86),
     (''fld_generator___draw__'', IntBuf, 70), (''fld_generator___selfrendersize__'', IntBuf, 71),
     (''fld_iroot_depth'', IntBuf, 4), (''fld_iroot_height'', FloatBuf, 1),
     (''fld_iroot_minradius'', FloatBuf, 2), (''fld_iroot_radius'', FloatBuf, 3),
     (''fld_iroot_rotation'', IntBuf, 7), (''fld_iroot_tweenmax'', FloatBuf, 0),
     (''fld_iroot_tweenmin'', FloatBuf, 4), (''fld_iroot___dorenderinglast__'', IntBuf, 3),
     (''fld_iroot___renderoffset__'', IntBuf, 1), (''fld_iroot___renderrightoffset__'', IntBuf, 0),
     (''fld_iroot___rendersize__'', IntBuf, 2), (''fld_iroot_xoffset'', IntBuf, 6),
     (''fld_iroot_yoffset'', IntBuf, 5), (''fld_leaf_angle'', FloatBuf, 22),
     (''fld_leaf_depth'', IntBuf, 32), (''fld_leaf_height'', FloatBuf, 25),
     (''fld_leaf_idx'', IntBuf, 28), (''fld_leaf_increment'', FloatBuf, 20),
     (''fld_leaf_isfirst'', IntBuf, 30), (''fld_leaf_islast'', IntBuf, 26),
     (''fld_leaf_minradius'', FloatBuf, 26), (''fld_leaf_radius'', FloatBuf, 28),
     (''fld_leaf_rotation'', IntBuf, 34), (''fld_leaf_tween'', FloatBuf, 21),
     (''fld_leaf_tweenmax'', FloatBuf, 24), (''fld_leaf_tweenmin'', FloatBuf, 29),
     (''fld_leaf___dorenderinglast__'', IntBuf, 31), (''fld_leaf___renderoffset__'', IntBuf, 35),
     (''fld_leaf___renderrightoffset__'', IntBuf, 29), (''fld_leaf___rendersize__'', IntBuf, 36),
     (''fld_leaf_val'', FloatBuf, 30), (''fld_leaf_valcopy'', FloatBuf, 23),
     (''fld_leaf_valprev'', FloatBuf, 27), (''fld_leaf_xoffset'', IntBuf, 33),
     (''fld_leaf_yoffset'', IntBuf, 27), (''fld_node_depth'', IntBuf, 20),
     (''fld_node_height'', FloatBuf, 14), (''fld_node_idx'', IntBuf, 17),
     (''fld_node_levellength'', IntBuf, 25), (''fld_node_minradius'', FloatBuf, 15),
     (''fld_node_radius'', FloatBuf, 16), (''fld_node_rotation'', IntBuf, 22),
     (''fld_node_rx'', FloatBuf, 18), (''fld_node_tweenmax'', FloatBuf, 13),
     (''fld_node_tweenmin'', FloatBuf, 17), (''fld_node___dorenderinglast__'', IntBuf, 19),
     (''fld_node___renderoffset__'', IntBuf, 23), (''fld_node___renderrightoffset__'', IntBuf, 18),
     (''fld_node___rendersize__'', IntBuf, 24), (''fld_node_x'', FloatBuf, 19),
     (''fld_node_xoffset'', IntBuf, 21), (''fld_node_yoffset'', IntBuf, 16),
     (''fld_root_child_child_count'', IntBuf, 40),
     (''fld_root_child_child_leftmost_child'', NodeBuf, 0),
     (''fld_root___childrendersize__'', IntBuf, 39), (''fld_root___draw__'', IntBuf, 37),
     (''fld_root___selfrendersize__'', IntBuf, 38),
     (''fld_second_child_childs_count'', IntBuf, 47),
     (''fld_second_child_childs_leftmost_child'', NodeBuf, 1),
     (''fld_second_childs_depth_init'', IntBuf, 64),
     (''fld_second_childs_depth_last'', IntBuf, 65),
     (''fld_second_childs_height_init'', FloatBuf, 41),
     (''fld_second_childs_height_last'', FloatBuf, 42),
     (''fld_second_childs_idx_init'', IntBuf, 56), (''fld_second_childs_idx_last'', IntBuf, 57),
     (''fld_second_childs_levellength_init'', IntBuf, 62),
     (''fld_second_childs_levellength_last'', IntBuf, 63),
     (''fld_second_childs_minradius_init'', FloatBuf, 37),
     (''fld_second_childs_minradius_last'', FloatBuf, 38),
     (''fld_second_childs_radius_init'', FloatBuf, 43),
     (''fld_second_childs_radius_last'', FloatBuf, 44)]"

definition linegraph_views_2 :: "(string \<times> hbuf \<times> nat) list" where
  "linegraph_views_2 =
    [(''fld_second_childs_rotation_init'', IntBuf, 54),
     (''fld_second_childs_rotation_last'', IntBuf, 55),
     (''fld_second_childs_rx_init'', FloatBuf, 35), (''fld_second_childs_rx_last'', FloatBuf, 36),
     (''fld_second_childs_tweenmax_init'', FloatBuf, 31),
     (''fld_second_childs_tweenmax_last'', FloatBuf, 32),
     (''fld_second_childs_tweenmin_init'', FloatBuf, 33),
     (''fld_second_childs_tweenmin_last'', FloatBuf, 34),
     (''fld_second_childs___dorenderinglast___init'', IntBuf, 58),
     (''fld_second_childs___dorenderinglast___last'', IntBuf, 59),
     (''fld_second_childs___renderrightoffset___init'', IntBuf, 66),
     (''fld_second_childs___renderrightoffset___last'', IntBuf, 67),
     (''fld_second_childs_x_init'', FloatBuf, 39), (''fld_second_childs_x_last'', FloatBuf, 40),
     (''fld_second_childs_xoffset_init'', IntBuf, 50),
     (''fld_second_childs_xoffset_last'', IntBuf, 51),
     (''fld_second_childs_yoffset_init'', IntBuf, 52),
     (''fld_second_childs_yoffset_last'', IntBuf, 53), (''fld_second_len'', IntBuf, 46),
     (''fld_second_len_init'', IntBuf, 48), (''fld_second_len_last'', IntBuf, 49),
     (''fld_second___childsrendersize__'', IntBuf, 41),
     (''fld_second___childsrendersize___init'', IntBuf, 60),
     (''fld_second___childsrendersize___last'', IntBuf, 61), (''fld_second___draw__'', IntBuf, 44),
     (''fld_second___draw__0'', IntBuf, 43), (''fld_second___selfrendersize__'', IntBuf, 45),
     (''fld_second___selfrendersize__0'', IntBuf, 42), (''fld_secondi_depth'', IntBuf, 11),
     (''fld_secondi_height'', FloatBuf, 7), (''fld_secondi_minradius'', FloatBuf, 8),
     (''fld_secondi_radius'', FloatBuf, 9), (''fld_secondi_rotation'', IntBuf, 13),
     (''fld_secondi_rx'', FloatBuf, 11), (''fld_secondi_tweenmax'', FloatBuf, 6),
     (''fld_secondi_tweenmin'', FloatBuf, 10), (''fld_secondi___dorenderinglast__'', IntBuf, 10),
     (''fld_secondi___renderoffset__'', IntBuf, 14),
     (''fld_secondi___renderrightoffset__'', IntBuf, 9),
     (''fld_secondi___rendersize__'', IntBuf, 15), (''fld_secondi_w'', FloatBuf, 5),
     (''fld_secondi_x'', FloatBuf, 12), (''fld_secondi_xoffset'', IntBuf, 12),
     (''fld_secondi_yoffset'', IntBuf, 8), (''fld_spike_enableshadow'', IntBuf, 103),
     (''fld_spike_ison'', IntBuf, 104), (''fld_spike___draw__'', IntBuf, 101),
     (''fld_spike___draw__0'', IntBuf, 99), (''fld_spike___draw__1'', IntBuf, 100),
     (''fld_spike___draw__2'', IntBuf, 95), (''fld_spike___draw__3'', IntBuf, 96),
     (''fld_spike___selfrendersize__'', IntBuf, 102),
     (''fld_spike___selfrendersize__0'', IntBuf, 98),
     (''fld_spike___selfrendersize__1'', IntBuf, 97),
     (''fld_spike___selfrendersize__2'', IntBuf, 94),
     (''fld_spike___selfrendersize__3'', IntBuf, 93), (''id'', NodeBuf, 6),
     (''left_siblings'', NodeBuf, 4), (''parent'', NodeBuf, 5), (''refname'', TokenBuf, 1),
     (''right_siblings'', NodeBuf, 3)]"

definition linegraph_copies :: "hbuf list" where
  "linegraph_copies =
    [IntBuf, FloatBuf, TokenBuf, NodeBuf]"

definition linegraph_objects_1 :: "(string \<times> string \<times> hbuf) list" where
  "linegraph_objects_1 =
    [(''displayname'', ''displayname'', TokenBuf),
     (''fld_generator_angle'', ''fld_generator_angle'', FloatBuf),
     (''fld_generator_child_childs_count'', ''fld_generator_child_childs_count'', IntBuf),
     (''fld_generator_child_childs_leftmost_child'', ''fld_generator_child_childs_leftmost_child'', NodeBuf),
     (''fld_generator_childs_angle_init'', ''fld_generator_childs_angle_init'', FloatBuf),
     (''fld_generator_childs_angle_last'', ''fld_generator_childs_angle_last'', FloatBuf),
     (''fld_generator_childs_depth_init'', ''fld_generator_childs_depth_init'', IntBuf),
     (''fld_generator_childs_depth_last'', ''fld_generator_childs_depth_last'', IntBuf),
     (''fld_generator_childs_height_init'', ''fld_generator_childs_height_init'', FloatBuf),
     (''fld_generator_childs_height_last'', ''fld_generator_childs_height_last'', FloatBuf),
     (''fld_generator_childs_idx_init'', ''fld_generator_childs_idx_init'', IntBuf),
     (''fld_generator_childs_idx_last'', ''fld_generator_childs_idx_last'', IntBuf),
     (''fld_generator_childs_increment_init'', ''fld_generator_childs_increment_init'', FloatBuf),
     (''fld_generator_childs_increment_last'', ''fld_generator_childs_increment_last'', FloatBuf),
     (''fld_generator_childs_isfirst_init'', ''fld_generator_childs_isfirst_init'', IntBuf),
     (''fld_generator_childs_isfirst_last'', ''fld_generator_childs_isfirst_last'', IntBuf),
     (''fld_generator_childs_islast_init'', ''fld_generator_childs_islast_init'', IntBuf),
     (''fld_generator_childs_islast_last'', ''fld_generator_childs_islast_last'', IntBuf),
     (''fld_generator_childs_minradius_init'', ''fld_generator_childs_minradius_init'', FloatBuf),
     (''fld_generator_childs_minradius_last'', ''fld_generator_childs_minradius_last'', FloatBuf),
     (''fld_generator_childs_radius_init'', ''fld_generator_childs_radius_init'', FloatBuf),
     (''fld_generator_childs_radius_last'', ''fld_generator_childs_radius_last'', FloatBuf),
     (''fld_generator_childs_rotation_init'', ''fld_generator_childs_rotation_init'', IntBuf),
     (''fld_generator_childs_rotation_last'', ''fld_generator_childs_rotation_last'', IntBuf),
     (''fld_generator_childs_tween_init'', ''fld_generator_childs_tween_init'', FloatBuf),
     (''fld_generator_childs_tween_last'', ''fld_generator_childs_tween_last'', FloatBuf),
     (''fld_generator_childs_tweenmax_init'', ''fld_generator_childs_tweenmax_init'', FloatBuf),
     (''fld_generator_childs_tweenmax_last'', ''fld_generator_childs_tweenmax_last'', FloatBuf),
     (''fld_generator_childs_tweenmin_init'', ''fld_generator_childs_tweenmin_init'', FloatBuf),
     (''fld_generator_childs_tweenmin_last'', ''fld_generator_childs_tweenmin_last'', FloatBuf),
     (''fld_generator_childs___dorenderinglast___init'', ''fld_generator_childs___dorenderinglast___init'', IntBuf),
     (''fld_generator_childs___dorenderinglast___last'', ''fld_generator_childs___dorenderinglast___last'', IntBuf),
     (''fld_generator_childs___renderrightoffset___init'', ''fld_generator_childs___renderrightoffset___init'', IntBuf),
     (''fld_generator_childs___renderrightoffset___last'', ''fld_generator_childs___renderrightoffset___last'', IntBuf),
     (''fld_generator_childs_valcopy_init'', ''fld_generator_childs_valcopy_init'', FloatBuf),
     (''fld_generator_childs_valcopy_last'', ''fld_generator_childs_valcopy_last'', FloatBuf),
     (''fld_generator_childs_valprev_init'', ''fld_generator_childs_valprev_init'', FloatBuf),
     (''fld_generator_childs_valprev_last'', ''fld_generator_childs_valprev_last'', FloatBuf),
     (''fld_generator_childs_xoffset_init'', ''fld_generator_childs_xoffset_init'', IntBuf),
     (''fld_generator_childs_xoffset_last'', ''fld_generator_childs_xoffset_last'', IntBuf),
     (''fld_generator_childs_yoffset_init'', ''fld_generator_childs_yoffset_init'', IntBuf),
     (''fld_generator_childs_yoffset_last'', ''fld_generator_childs_yoffset_last'', IntBuf),
     (''fld_generator_increment'', ''fld_generator_increment'', FloatBuf),
     (''fld_generator_numspikes'', ''fld_generator_numspikes'', IntBuf),
     (''fld_generator___childsrendersize__'', ''fld_generator___childsrendersize__'', IntBuf),
     (''fld_generator___childsrendersize___init'', ''fld_generator___childsrendersize___init'', IntBuf),
     (''fld_generator___childsrendersize___last'', ''fld_generator___childsrendersize___last'', IntBuf),
     (''fld_generator___draw__'', ''fld_generator___draw__'', IntBuf),
     (''fld_generator___selfrendersize__'', ''fld_generator___selfrendersize__'', IntBuf),
     (''fld_iroot_depth'', ''fld_iroot_depth'', IntBuf),
     (''fld_iroot_height'', ''fld_iroot_height'', FloatBuf),
     (''fld_iroot_minradius'', ''fld_iroot_minradius'', FloatBuf),
     (''fld_iroot_radius'', ''fld_iroot_radius'', FloatBuf),
     (''fld_iroot_rotation'', ''fld_iroot_rotation'', IntBuf),
     (''fld_iroot_tweenmax'', ''fld_iroot_tweenmax'', FloatBuf),
     (''fld_iroot_tweenmin'', ''fld_iroot_tweenmin'', FloatBuf),
     (''fld_iroot___dorenderinglast__'', ''fld_iroot___dorenderinglast__'', IntBuf),
     (''fld_iroot___renderoffset__'', ''fld_iroot___renderoffset__'', IntBuf),
     (''fld_iroot___renderrightoffset__'', ''fld_iroot___renderrightoffset__'', IntBuf),
     (''fld_iroot___rendersize__'', ''fld_iroot___rendersize__'', IntBuf),
     (''fld_iroot_xoffset'', ''fld_iroot_xoffset'', IntBuf),
     (''fld_iroot_yoffset'', ''fld_iroot_yoffset'', IntBuf),
     (''fld_leaf_angle'', ''fld_leaf_angle'', FloatBuf),
     (''fld_leaf_depth'', ''fld_leaf_depth'', IntBuf),
     (''fld_leaf_height'', ''fld_leaf_height'', FloatBuf),
     (''fld_leaf_idx'', ''fld_leaf_idx'', IntBuf),
     (''fld_leaf_increment'', ''fld_leaf_increment'', FloatBuf),
     (''fld_leaf_isfirst'', ''fld_leaf_isfirst'', IntBuf),
     (''fld_leaf_islast'', ''fld_leaf_islast'', IntBuf),
     (''fld_leaf_minradius'', ''fld_leaf_minradius'', FloatBuf),
     (''fld_leaf_radius'', ''fld_leaf_radius'', FloatBuf),
     (''fld_leaf_rotation'', ''fld_leaf_rotation'', IntBuf),
     (''fld_leaf_tween'', ''fld_leaf_tween'', FloatBuf),
     (''fld_leaf_tweenmax'', ''fld_leaf_tweenmax'', FloatBuf),
     (''fld_leaf_tweenmin'', ''fld_leaf_tweenmin'', FloatBuf),
     (''fld_leaf___dorenderinglast__'', ''fld_leaf___dorenderinglast__'', IntBuf),
     (''fld_leaf___renderoffset__'', ''fld_leaf___renderoffset__'', IntBuf),
     (''fld_leaf___renderrightoffset__'', ''fld_leaf___renderrightoffset__'', IntBuf),
     (''fld_leaf___rendersize__'', ''fld_leaf___rendersize__'', IntBuf),
     (''fld_leaf_val'', ''fld_leaf_val'', FloatBuf),
     (''fld_leaf_valcopy'', ''fld_leaf_valcopy'', FloatBuf),
     (''fld_leaf_valprev'', ''fld_leaf_valprev'', FloatBuf),
     (''fld_leaf_xoffset'', ''fld_leaf_xoffset'', IntBuf),
     (''fld_leaf_yoffset'', ''fld_leaf_yoffset'', IntBuf),
     (''fld_node_depth'', ''fld_node_depth'', IntBuf),
     (''fld_node_height'', ''fld_node_height'', FloatBuf),
     (''fld_node_idx'', ''fld_node_idx'', IntBuf),
     (''fld_node_levellength'', ''fld_node_levellength'', IntBuf),
     (''fld_node_minradius'', ''fld_node_minradius'', FloatBuf),
     (''fld_node_radius'', ''fld_node_radius'', FloatBuf),
     (''fld_node_rotation'', ''fld_node_rotation'', IntBuf),
     (''fld_node_rx'', ''fld_node_rx'', FloatBuf),
     (''fld_node_tweenmax'', ''fld_node_tweenmax'', FloatBuf),
     (''fld_node_tweenmin'', ''fld_node_tweenmin'', FloatBuf),
     (''fld_node___dorenderinglast__'', ''fld_node___dorenderinglast__'', IntBuf),
     (''fld_node___renderoffset__'', ''fld_node___renderoffset__'', IntBuf),
     (''fld_node___renderrightoffset__'', ''fld_node___renderrightoffset__'', IntBuf),
     (''fld_node___rendersize__'', ''fld_node___rendersize__'', IntBuf),
     (''fld_node_x'', ''fld_node_x'', FloatBuf),
     (''fld_node_xoffset'', ''fld_node_xoffset'', IntBuf),
     (''fld_node_yoffset'', ''fld_node_yoffset'', IntBuf),
     (''fld_root_child_child_count'', ''fld_root_child_child_count'', IntBuf),
     (''fld_root_child_child_leftmost_child'', ''fld_root_child_child_leftmost_child'', NodeBuf),
     (''fld_root___childrendersize__'', ''fld_root___childrendersize__'', IntBuf),
     (''fld_root___draw__'', ''fld_root___draw__'', IntBuf),
     (''fld_root___selfrendersize__'', ''fld_root___selfrendersize__'', IntBuf),
     (''fld_second_child_childs_count'', ''fld_second_child_childs_count'', IntBuf),
     (''fld_second_child_childs_leftmost_child'', ''fld_second_child_childs_leftmost_child'', NodeBuf),
     (''fld_second_childs_depth_init'', ''fld_second_childs_depth_init'', IntBuf),
     (''fld_second_childs_depth_last'', ''fld_second_childs_depth_last'', IntBuf),
     (''fld_second_childs_height_init'', ''fld_second_childs_height_init'', FloatBuf),
     (''fld_second_childs_height_last'', ''fld_second_childs_height_last'', FloatBuf),
     (''fld_second_childs_idx_init'', ''fld_second_childs_idx_init'', IntBuf),
     (''fld_second_childs_idx_last'', ''fld_second_childs_idx_last'', IntBuf),
     (''fld_second_childs_levellength_init'', ''fld_second_childs_levellength_init'', IntBuf),
     (''fld_second_childs_levellength_last'', ''fld_second_childs_levellength_last'', IntBuf),
     (''fld_second_childs_minradius_init'', ''fld_second_childs_minradius_init'', FloatBuf),
     (''fld_second_childs_minradius_last'', ''fld_second_childs_minradius_last'', FloatBuf),
     (''fld_second_childs_radius_init'', ''fld_second_childs_radius_init'', FloatBuf),
     (''fld_second_childs_radius_last'', ''fld_second_childs_radius_last'', FloatBuf)]"

definition linegraph_objects_2 :: "(string \<times> string \<times> hbuf) list" where
  "linegraph_objects_2 =
    [(''fld_second_childs_rotation_init'', ''fld_second_childs_rotation_init'', IntBuf),
     (''fld_second_childs_rotation_last'', ''fld_second_childs_rotation_last'', IntBuf),
     (''fld_second_childs_rx_init'', ''fld_second_childs_rx_init'', FloatBuf),
     (''fld_second_childs_rx_last'', ''fld_second_childs_rx_last'', FloatBuf),
     (''fld_second_childs_tweenmax_init'', ''fld_second_childs_tweenmax_init'', FloatBuf),
     (''fld_second_childs_tweenmax_last'', ''fld_second_childs_tweenmax_last'', FloatBuf),
     (''fld_second_childs_tweenmin_init'', ''fld_second_childs_tweenmin_init'', FloatBuf),
     (''fld_second_childs_tweenmin_last'', ''fld_second_childs_tweenmin_last'', FloatBuf),
     (''fld_second_childs___dorenderinglast___init'', ''fld_second_childs___dorenderinglast___init'', IntBuf),
     (''fld_second_childs___dorenderinglast___last'', ''fld_second_childs___dorenderinglast___last'', IntBuf),
     (''fld_second_childs___renderrightoffset___init'', ''fld_second_childs___renderrightoffset___init'', IntBuf),
     (''fld_second_childs___renderrightoffset___last'', ''fld_second_childs___renderrightoffset___last'', IntBuf),
     (''fld_second_childs_x_init'', ''fld_second_childs_x_init'', FloatBuf),
     (''fld_second_childs_x_last'', ''fld_second_childs_x_last'', FloatBuf),
     (''fld_second_childs_xoffset_init'', ''fld_second_childs_xoffset_init'', IntBuf),
     (''fld_second_childs_xoffset_last'', ''fld_second_childs_xoffset_last'', IntBuf),
     (''fld_second_childs_yoffset_init'', ''fld_second_childs_yoffset_init'', IntBuf),
     (''fld_second_childs_yoffset_last'', ''fld_second_childs_yoffset_last'', IntBuf),
     (''fld_second_len'', ''fld_second_len'', IntBuf),
     (''fld_second_len_init'', ''fld_second_len_init'', IntBuf),
     (''fld_second_len_last'', ''fld_second_len_last'', IntBuf),
     (''fld_second___childsrendersize__'', ''fld_second___childsrendersize__'', IntBuf),
     (''fld_second___childsrendersize___init'', ''fld_second___childsrendersize___init'', IntBuf),
     (''fld_second___childsrendersize___last'', ''fld_second___childsrendersize___last'', IntBuf),
     (''fld_second___draw__'', ''fld_second___draw__'', IntBuf),
     (''fld_second___draw__0'', ''fld_second___draw__0'', IntBuf),
     (''fld_second___selfrendersize__'', ''fld_second___selfrendersize__'', IntBuf),
     (''fld_second___selfrendersize__0'', ''fld_second___selfrendersize__0'', IntBuf),
     (''fld_secondi_depth'', ''fld_secondi_depth'', IntBuf),
     (''fld_secondi_height'', ''fld_secondi_height'', FloatBuf),
     (''fld_secondi_minradius'', ''fld_secondi_minradius'', FloatBuf),
     (''fld_secondi_radius'', ''fld_secondi_radius'', FloatBuf),
     (''fld_secondi_rotation'', ''fld_secondi_rotation'', IntBuf),
     (''fld_secondi_rx'', ''fld_secondi_rx'', FloatBuf),
     (''fld_secondi_tweenmax'', ''fld_secondi_tweenmax'', FloatBuf),
     (''fld_secondi_tweenmin'', ''fld_secondi_tweenmin'', FloatBuf),
     (''fld_secondi___dorenderinglast__'', ''fld_secondi___dorenderinglast__'', IntBuf),
     (''fld_secondi___renderoffset__'', ''fld_secondi___renderoffset__'', IntBuf),
     (''fld_secondi___renderrightoffset__'', ''fld_secondi___renderrightoffset__'', IntBuf),
     (''fld_secondi___rendersize__'', ''fld_secondi___rendersize__'', IntBuf),
     (''fld_secondi_w'', ''fld_secondi_w'', FloatBuf),
     (''fld_secondi_x'', ''fld_secondi_x'', FloatBuf),
     (''fld_secondi_xoffset'', ''fld_secondi_xoffset'', IntBuf),
     (''fld_secondi_yoffset'', ''fld_secondi_yoffset'', IntBuf),
     (''fld_spike_enableshadow'', ''fld_spike_enableshadow'', IntBuf),
     (''fld_spike_ison'', ''fld_spike_ison'', IntBuf),
     (''fld_spike___draw__'', ''fld_spike___draw__'', IntBuf),
     (''fld_spike___draw__0'', ''fld_spike___draw__0'', IntBuf),
     (''fld_spike___draw__1'', ''fld_spike___draw__1'', IntBuf),
     (''fld_spike___draw__2'', ''fld_spike___draw__2'', IntBuf),
     (''fld_spike___draw__3'', ''fld_spike___draw__3'', IntBuf),
     (''fld_spike___selfrendersize__'', ''fld_spike___selfrendersize__'', IntBuf),
     (''fld_spike___selfrendersize__0'', ''fld_spike___selfrendersize__0'', IntBuf),
     (''fld_spike___selfrendersize__1'', ''fld_spike___selfrendersize__1'', IntBuf),
     (''fld_spike___selfrendersize__2'', ''fld_spike___selfrendersize__2'', IntBuf),
     (''fld_spike___selfrendersize__3'', ''fld_spike___selfrendersize__3'', IntBuf),
     (''id'', ''id'', NodeBuf), (''left_siblings'', ''left_siblings'', NodeBuf),
     (''parent'', ''parent'', NodeBuf), (''refname'', ''refname'', TokenBuf),
     (''right_siblings'', ''right_siblings'', NodeBuf)]"

definition linegraph_tokens :: "(string \<times> int) list" where
  "linegraph_tokens =
    [(''CHILD'', 5), (''CHILDS'', 6), (''UNDEFINED'', 13), (''ROOT'', 9), (''SECOND'', 10),
     (''GENERATOR'', 7), (''SPIKE'', 11), (''IGNORE'', 8), (''TEXTBOX'', 12)]"

definition linegraph_ifaces :: "(string \<times> string) list" where
  "linegraph_ifaces =
    [(''ROOT'', ''iroot''), (''SECOND'', ''secondi''), (''GENERATOR'', ''node''),
     (''SPIKE'', ''leaf'')]"

definition linegraph_inputs :: "string list" where
  "linegraph_inputs =
    [''val'', ''tweenMax'', ''yOffset'', ''height'', ''xOffset'', ''rotation'', ''minRadius'',
     ''glBufferMacro'', ''radius'', ''refname'', ''display'', ''tweenMin'']"

definition linegraph :: bindings where
  "linegraph =
     \<lparr>kernels = linegraph_kernels, clAlloc = linegraph_clAlloc, writes = linegraph_writes, reads = linegraph_reads,
      kargs = linegraph_kargs, traversals = linegraph_traversals, visits = linegraph_visits, sizes = linegraph_sizes,
      bviews = linegraph_views_1 @ linegraph_views_2, copies = linegraph_copies, objects = linegraph_objects_1 @ linegraph_objects_2,
      renderSize = ''fld_iroot___rendersize__'', classTokens = linegraph_tokens, classIFaces = linegraph_ifaces,
      inputs = linegraph_inputs\<rparr>"

text \<open>The layout of the buffers, and the schedule of the visits, by evaluation.\<close>

lemma linegraph_slots: "map snd (bviews linegraph) =
    [(TokenBuf, 0), (FloatBuf, 46), (IntBuf, 72), (NodeBuf, 2), (FloatBuf, 59), (FloatBuf, 60),
     (IntBuf, 89), (IntBuf, 90), (FloatBuf, 57), (FloatBuf, 58), (IntBuf, 81), (IntBuf, 82),
     (FloatBuf, 51), (FloatBuf, 52), (IntBuf, 73), (IntBuf, 74), (IntBuf, 87), (IntBuf, 88),
     (FloatBuf, 55), (FloatBuf, 56), (FloatBuf, 61), (FloatBuf, 62), (IntBuf, 79), (IntBuf, 80),
     (FloatBuf, 65), (FloatBuf, 66), (FloatBuf, 47), (FloatBuf, 48), (FloatBuf, 53),
     (FloatBuf, 54), (IntBuf, 83), (IntBuf, 84), (IntBuf, 91), (IntBuf, 92), (FloatBuf, 63),
     (FloatBuf, 64), (FloatBuf, 49), (FloatBuf, 50), (IntBuf, 75), (IntBuf, 76), (IntBuf, 77),
     (IntBuf, 78), (FloatBuf, 45), (IntBuf, 68), (IntBuf, 69), (IntBuf, 85), (IntBuf, 86),
     (IntBuf, 70), (IntBuf, 71), (IntBuf, 4), (FloatBuf, 1), (FloatBuf, 2), (FloatBuf, 3),
     (IntBuf, 7), (FloatBuf, 0), (FloatBuf, 4), (IntBuf, 3), (IntBuf, 1), (IntBuf, 0), (IntBuf, 2),
     (IntBuf, 6), (IntBuf, 5), (FloatBuf, 22), (IntBuf, 32), (FloatBuf, 25), (IntBuf, 28),
     (FloatBuf, 20), (IntBuf, 30), (IntBuf, 26), (FloatBuf, 26), (FloatBuf, 28), (IntBuf, 34),
     (FloatBuf, 21), (FloatBuf, 24), (FloatBuf, 29), (IntBuf, 31), (IntBuf, 35), (IntBuf, 29),
     (IntBuf, 36), (FloatBuf, 30), (FloatBuf, 23), (FloatBuf, 27), (IntBuf, 33), (IntBuf, 27),
     (IntBuf, 20), (FloatBuf, 14), (IntBuf, 17), (IntBuf, 25), (FloatBuf, 15), (FloatBuf, 16),
     (IntBuf, 22), (FloatBuf, 18), (FloatBuf, 13), (FloatBuf, 17), (IntBuf, 19), (IntBuf, 23),
     (IntBuf, 18), (IntBuf, 24), (FloatBuf, 19), (IntBuf, 21), (IntBuf, 16), (IntBuf, 40),
     (NodeBuf, 0), (IntBuf, 39), (IntBuf, 37), (IntBuf, 38), (IntBuf, 47), (NodeBuf, 1),
     (IntBuf, 64), (IntBuf, 65), (FloatBuf, 41), (FloatBuf, 42), (IntBuf, 56), (IntBuf, 57),
     (IntBuf, 62), (IntBuf, 63), (FloatBuf, 37), (FloatBuf, 38), (FloatBuf, 43), (FloatBuf, 44),
     (IntBuf, 54), (IntBuf, 55), (FloatBuf, 35), (FloatBuf, 36), (FloatBuf, 31), (FloatBuf, 32),
     (FloatBuf, 33), (FloatBuf, 34), (IntBuf, 58), (IntBuf, 59), (IntBuf, 66), (IntBuf, 67),
     (FloatBuf, 39), (FloatBuf, 40), (IntBuf, 50), (IntBuf, 51), (IntBuf, 52), (IntBuf, 53),
     (IntBuf, 46), (IntBuf, 48), (IntBuf, 49), (IntBuf, 41), (IntBuf, 60), (IntBuf, 61),
     (IntBuf, 44), (IntBuf, 43), (IntBuf, 45), (IntBuf, 42), (IntBuf, 11), (FloatBuf, 7),
     (FloatBuf, 8), (FloatBuf, 9), (IntBuf, 13), (FloatBuf, 11), (FloatBuf, 6), (FloatBuf, 10),
     (IntBuf, 10), (IntBuf, 14), (IntBuf, 9), (IntBuf, 15), (FloatBuf, 5), (FloatBuf, 12),
     (IntBuf, 12), (IntBuf, 8), (IntBuf, 103), (IntBuf, 104), (IntBuf, 101), (IntBuf, 99),
     (IntBuf, 100), (IntBuf, 95), (IntBuf, 96), (IntBuf, 102), (IntBuf, 98), (IntBuf, 97),
     (IntBuf, 94), (IntBuf, 93), (NodeBuf, 6), (NodeBuf, 4), (NodeBuf, 5), (TokenBuf, 1),
     (NodeBuf, 3)]"
  by (simp add: linegraph_def linegraph_views_1_def linegraph_views_2_def)

lemma linegraph_objects_views: "objects linegraph = map (\<lambda>(f, bf, s). (f, f, bf)) (bviews linegraph)"
  by (simp add: linegraph_def linegraph_views_1_def linegraph_views_2_def linegraph_objects_1_def linegraph_objects_2_def)

lemma linegraph_check: "layout_check linegraph"
  unfolding layout_check_def linegraph_slots linegraph_objects_views
  by (simp add: linegraph_def linegraph_sizes_def linegraph_clAlloc_def linegraph_writes_def linegraph_reads_def linegraph_copies_def slot_fits_def)

lemma linegraph_schedule: "schedule_ok linegraph"
  by (simp add: schedule_ok_def render_visit_def render_from.simps upt_rec numeral_eq_Suc linegraph_def
      linegraph_kernels_def linegraph_kargs_def linegraph_traversals_def linegraph_visits_def linegraph_sizes_def)

end
