(* ===== verification/Treemap.thy ===== *)
theory Treemap
  imports Bindings
begin

text \<open>
  The tables of \<open>examples/treemap/kbindings.js\<close>: one definition per emitted function, in its order.
\<close>

definition treemap_kernels :: "(nat \<times> nat) list" where
  "treemap_kernels =
    [(0, 0), (1, 1), (2, 2), (3, 3), (4, 4)]"

definition treemap_clAlloc :: "(hbuf \<times> hbuf) list" where
  "treemap_clAlloc =
    [(IntBuf, IntBuf), (FloatBuf, FloatBuf), (TokenBuf, TokenBuf), (NodeBuf, NodeBuf)]"

definition treemap_writes :: "(hbuf \<times> hbuf) list" where
  "treemap_writes =
    [(IntBuf, IntBuf), (FloatBuf, FloatBuf), (TokenBuf, TokenBuf), (NodeBuf, NodeBuf)]"

definition treemap_reads :: "(hbuf \<times> hbuf) list" where
  "treemap_reads =
    [(IntBuf, IntBuf), (FloatBuf, FloatBuf), (TokenBuf, TokenBuf), (NodeBuf, NodeBuf)]"

definition treemap_kargs :: "(nat \<times> karg) list" where
  "treemap_kargs =
    [(0, StartIdx), (1, TreeSizeArg), (2, GlobalBuf IntBuf), (3, GlobalBuf FloatBuf),
     (4, GlobalBuf TokenBuf), (5, GlobalBuf NodeBuf)]"

definition treemap_traversals :: "nat list" where
  "treemap_traversals =
    [0, 1, 2, 3]"

definition treemap_visits :: "(nat \<times> direction \<times> bool) list" where
  "treemap_visits =
    [(0, TopDown, False), (1, BottomUp, False), (2, TopDown, False), (3, BottomUp, False),
     (4, TopDown, True)]"

definition treemap_sizes :: "(hbuf \<times> nat) list" where
  "treemap_sizes =
    [(IntBuf, 103), (FloatBuf, 125), (TokenBuf, 2), (NodeBuf, 10)]"

definition treemap_views_1 :: "(string \<times> hbuf \<times> nat) list" where
  "treemap_views_1 =
    [(''displayname'', TokenBuf, 0), (''fld_countrycontainer_child_childs_count'', IntBuf, 20),
     (''fld_countrycontainer_child_childs_leftmost_child'', NodeBuf, 1),
     (''fld_countrycontainer_childs_by_init'', FloatBuf, 27),
     (''fld_countrycontainer_childs_by_last'', FloatBuf, 28),
     (''fld_countrycontainer_childs_fixwidth_init'', IntBuf, 21),
     (''fld_countrycontainer_childs_fixwidth_last'', IntBuf, 22),
     (''fld_countrycontainer_childs_h_init'', FloatBuf, 23),
     (''fld_countrycontainer_childs_h_last'', FloatBuf, 24),
     (''fld_countrycontainer_childs_maxturnout_init'', FloatBuf, 31),
     (''fld_countrycontainer_childs_maxturnout_last'', FloatBuf, 32),
     (''fld_countrycontainer_childs_minturnout_init'', FloatBuf, 37),
     (''fld_countrycontainer_childs_minturnout_last'', FloatBuf, 38),
     (''fld_countrycontainer_childs_rx_init'', FloatBuf, 29),
     (''fld_countrycontainer_childs_rx_last'', FloatBuf, 30),
     (''fld_countrycontainer_childs_showfraud_init'', FloatBuf, 39),
     (''fld_countrycontainer_childs_showfraud_last'', FloatBuf, 40),
     (''fld_countrycontainer_childs_showjavascript_init'', FloatBuf, 21),
     (''fld_countrycontainer_childs_showjavascript_last'', FloatBuf, 22),
     (''fld_countrycontainer_childs_showprojected_init'', FloatBuf, 35),
     (''fld_countrycontainer_childs_showprojected_last'', FloatBuf, 36),
     (''fld_countrycontainer_childs___dorenderinglast___init'', IntBuf, 23),
     (''fld_countrycontainer_childs___dorenderinglast___last'', IntBuf, 24),
     (''fld_countrycontainer_childs___renderrightoffset___init'', IntBuf, 29),
     (''fld_countrycontainer_childs___renderrightoffset___last'', IntBuf, 30),
     (''fld_countrycontainer_childs_w_init'', FloatBuf, 33),
     (''fld_countrycontainer_childs_w_last'', FloatBuf, 34),
     (''fld_countrycontainer_totalmag_init'', FloatBuf, 25),
     (''fld_countrycontainer_totalmag_last'', FloatBuf, 26),
     (''fld_countrycontainer___childsrendersize__'', IntBuf, 15),
     (''fld_countrycontainer___childsrendersize___init'', IntBuf, 25),
     (''fld_countrycontainer___childsrendersize___last'', IntBuf, 26),
     (''fld_countrycontainer___draw__'', IntBuf, 18),
     (''fld_countrycontainer___draw__0'', IntBuf, 17),
     (''fld_countrycontainer___selfrendersize__'', IntBuf, 19),
     (''fld_countrycontainer___selfrendersize__0'', IntBuf, 16),
     (''fld_countrycontainer_votesur_init'', IntBuf, 27),
     (''fld_countrycontainer_votesur_last'', IntBuf, 28),
     (''fld_district_child_childs_count'', IntBuf, 50),
     (''fld_district_child_childs_leftmost_child'', NodeBuf, 3),
     (''fld_district_childs_by_init'', FloatBuf, 67),
     (''fld_district_childs_by_last'', FloatBuf, 68),
     (''fld_district_childs_fixwidth_init'', IntBuf, 51),
     (''fld_district_childs_fixwidth_last'', IntBuf, 52),
     (''fld_district_childs_h_init'', FloatBuf, 63),
     (''fld_district_childs_h_last'', FloatBuf, 64),
     (''fld_district_childs_maxturnout_init'', FloatBuf, 71),
     (''fld_district_childs_maxturnout_last'', FloatBuf, 72),
     (''fld_district_childs_minturnout_init'', FloatBuf, 77),
     (''fld_district_childs_minturnout_last'', FloatBuf, 78),
     (''fld_district_childs_rx_init'', FloatBuf, 69),
     (''fld_district_childs_rx_last'', FloatBuf, 70),
     (''fld_district_childs_showfraud_init'', FloatBuf, 79),
     (''fld_district_childs_showfraud_last'', FloatBuf, 80),
     (''fld_district_childs_showjavascript_init'', FloatBuf, 61),
     (''fld_district_childs_showjavascript_last'', FloatBuf, 62),
     (''fld_district_childs_showprojected_init'', FloatBuf, 75),
     (''fld_district_childs_showprojected_last'', FloatBuf, 76),
     (''fld_district_childs___dorenderinglast___init'', IntBuf, 53),
     (''fld_district_childs___dorenderinglast___last'', IntBuf, 54),
     (''fld_district_childs___renderrightoffset___init'', IntBuf, 59),
     (''fld_district_childs___renderrightoffset___last'', IntBuf, 60),
     (''fld_district_childs_w_init'', FloatBuf, 73),
     (''fld_district_childs_w_last'', FloatBuf, 74),
     (''fld_district_totalmag_init'', FloatBuf, 65),
     (''fld_district_totalmag_last'', FloatBuf, 66),
     (''fld_district___childsrendersize__'', IntBuf, 45),
     (''fld_district___childsrendersize___init'', IntBuf, 55),
     (''fld_district___childsrendersize___last'', IntBuf, 56),
     (''fld_district___draw__'', IntBuf, 48), (''fld_district___draw__0'', IntBuf, 47),
     (''fld_district___selfrendersize__'', IntBuf, 49),
     (''fld_district___selfrendersize__0'', IntBuf, 46),
     (''fld_district_votesur_init'', IntBuf, 57), (''fld_district_votesur_last'', IntBuf, 58),
     (''fld_hsquare_child_childs_count'', IntBuf, 78),
     (''fld_hsquare_child_childs_leftmost_child'', NodeBuf, 5),
     (''fld_hsquare_childs_by_init'', FloatBuf, 107),
     (''fld_hsquare_childs_by_last'', FloatBuf, 108),
     (''fld_hsquare_childs_fixwidth_init'', IntBuf, 79),
     (''fld_hsquare_childs_fixwidth_last'', IntBuf, 80),
     (''fld_hsquare_childs_h_init'', FloatBuf, 103),
     (''fld_hsquare_childs_h_last'', FloatBuf, 104),
     (''fld_hsquare_childs_maxturnout_init'', FloatBuf, 113),
     (''fld_hsquare_childs_maxturnout_last'', FloatBuf, 114),
     (''fld_hsquare_childs_minturnout_init'', FloatBuf, 117),
     (''fld_hsquare_childs_minturnout_last'', FloatBuf, 118),
     (''fld_hsquare_childs_rx_init'', FloatBuf, 109),
     (''fld_hsquare_childs_rx_last'', FloatBuf, 110),
     (''fld_hsquare_childs_showfraud_init'', FloatBuf, 119),
     (''fld_hsquare_childs_showfraud_last'', FloatBuf, 120),
     (''fld_hsquare_childs_showjavascript_init'', FloatBuf, 101),
     (''fld_hsquare_childs_showjavascript_last'', FloatBuf, 102),
     (''fld_hsquare_childs_showprojected_init'', FloatBuf, 115),
     (''fld_hsquare_childs_showprojected_last'', FloatBuf, 116),
     (''fld_hsquare_childs___dorenderinglast___init'', IntBuf, 81),
     (''fld_hsquare_childs___dorenderinglast___last'', IntBuf, 82),
     (''fld_hsquare_childs___renderrightoffset___init'', IntBuf, 87),
     (''fld_hsquare_childs___renderrightoffset___last'', IntBuf, 88),
     (''fld_hsquare_childs_w_init'', FloatBuf, 111),
     (''fld_hsquare_childs_w_last'', FloatBuf, 112),
     (''fld_hsquare_totalmag_init'', FloatBuf, 105),
     (''fld_hsquare_totalmag_last'', FloatBuf, 106),
     (''fld_hsquare___childsrendersize__'', IntBuf, 75),
     (''fld_hsquare___childsrendersize___init'', IntBuf, 83),
     (''fld_hsquare___childsrendersize___last'', IntBuf, 84),
     (''fld_hsquare___draw__'', IntBuf, 76), (''fld_hsquare___selfrendersize__'', IntBuf, 77),
     (''fld_hsquare_votesur_init'', IntBuf, 85), (''fld_hsquare_votesur_last'', IntBuf, 86),
     (''fld_iroot_fixwidth'', IntBuf, 4), (''fld_iroot_height'', FloatBuf, 3),
     (''fld_iroot_maxturnout'', FloatBuf, 5), (''fld_iroot_minturnout'', FloatBuf, 2),
     (''fld_iroot_showfraud'', FloatBuf, 8), (''fld_iroot_showjavascript'', FloatBuf, 7),
     (''fld_iroot_showprojected'', FloatBuf, 4), (''fld_iroot_totalmag'', FloatBuf, 0),
     (''fld_iroot___dorenderinglast__'', IntBuf, 3), (''fld_iroot___renderoffset__'', IntBuf, 1)]"

definition treemap_views_2 :: "(string \<times> hbuf \<times> nat) list" where
  "treemap_views_2 =
    [(''fld_iroot___renderrightoffset__'', IntBuf, 0), (''fld_iroot___rendersize__'', IntBuf, 2),
     (''fld_iroot_votesur'', FloatBuf, 1), (''fld_iroot_width'', FloatBuf, 6),
     (''fld_node_by'', FloatBuf, 12), (''fld_node_fixwidth'', IntBuf, 6),
     (''fld_node_h'', FloatBuf, 13), (''fld_node_maxturnout'', FloatBuf, 10),
     (''fld_node_minturnout'', FloatBuf, 14), (''fld_node_rx'', FloatBuf, 17),
     (''fld_node_showfraud'', FloatBuf, 19), (''fld_node_showjavascript'', FloatBuf, 11),
     (''fld_node_showprojected'', FloatBuf, 16), (''fld_node_totalmag'', FloatBuf, 9),
     (''fld_node___dorenderinglast__'', IntBuf, 7), (''fld_node___renderoffset__'', IntBuf, 8),
     (''fld_node___renderrightoffset__'', IntBuf, 5), (''fld_node___rendersize__'', IntBuf, 10),
     (''fld_node_votesur'', IntBuf, 9), (''fld_node_w'', FloatBuf, 15),
     (''fld_node_x'', FloatBuf, 20), (''fld_node_y'', FloatBuf, 18),
     (''fld_pollingplace_calcfraudcolor'', IntBuf, 95),
     (''fld_pollingplace_calcprojectedcolor'', IntBuf, 102),
     (''fld_pollingplace_calcregularcolor'', IntBuf, 99),
     (''fld_pollingplace_calcvotescolor'', IntBuf, 101),
     (''fld_pollingplace_defcolor'', IntBuf, 89), (''fld_pollingplace_fraudcolor'', IntBuf, 93),
     (''fld_pollingplace_injavascript'', IntBuf, 90),
     (''fld_pollingplace_magnitude'', FloatBuf, 124),
     (''fld_pollingplace_totalvotes'', IntBuf, 92),
     (''fld_pollingplace_totalvotesur'', IntBuf, 94),
     (''fld_pollingplace_turnout'', FloatBuf, 122), (''fld_pollingplace_urcolor'', IntBuf, 91),
     (''fld_pollingplace_urvotes'', FloatBuf, 123),
     (''fld_pollingplace_urvotesprojected'', FloatBuf, 121),
     (''fld_pollingplace___draw__'', IntBuf, 98), (''fld_pollingplace___draw__0'', IntBuf, 97),
     (''fld_pollingplace___selfrendersize__'', IntBuf, 100),
     (''fld_pollingplace___selfrendersize__0'', IntBuf, 96),
     (''fld_region_child_childs_count'', IntBuf, 34),
     (''fld_region_child_childs_leftmost_child'', NodeBuf, 2),
     (''fld_region_childs_by_init'', FloatBuf, 47), (''fld_region_childs_by_last'', FloatBuf, 48),
     (''fld_region_childs_fixwidth_init'', IntBuf, 35),
     (''fld_region_childs_fixwidth_last'', IntBuf, 36),
     (''fld_region_childs_h_init'', FloatBuf, 43), (''fld_region_childs_h_last'', FloatBuf, 44),
     (''fld_region_childs_maxturnout_init'', FloatBuf, 51),
     (''fld_region_childs_maxturnout_last'', FloatBuf, 52),
     (''fld_region_childs_minturnout_init'', FloatBuf, 57),
     (''fld_region_childs_minturnout_last'', FloatBuf, 58),
     (''fld_region_childs_rx_init'', FloatBuf, 49), (''fld_region_childs_rx_last'', FloatBuf, 50),
     (''fld_region_childs_showfraud_init'', FloatBuf, 59),
     (''fld_region_childs_showfraud_last'', FloatBuf, 60),
     (''fld_region_childs_showjavascript_init'', FloatBuf, 41),
     (''fld_region_childs_showjavascript_last'', FloatBuf, 42),
     (''fld_region_childs_showprojected_init'', FloatBuf, 55),
     (''fld_region_childs_showprojected_last'', FloatBuf, 56),
     (''fld_region_childs___dorenderinglast___init'', IntBuf, 37),
     (''fld_region_childs___dorenderinglast___last'', IntBuf, 38),
     (''fld_region_childs___renderrightoffset___init'', IntBuf, 43),
     (''fld_region_childs___renderrightoffset___last'', IntBuf, 44),
     (''fld_region_childs_w_init'', FloatBuf, 53), (''fld_region_childs_w_last'', FloatBuf, 54),
     (''fld_region_totalmag_init'', FloatBuf, 45), (''fld_region_totalmag_last'', FloatBuf, 46),
     (''fld_region___childsrendersize__'', IntBuf, 31),
     (''fld_region___childsrendersize___init'', IntBuf, 39),
     (''fld_region___childsrendersize___last'', IntBuf, 40), (''fld_region___draw__'', IntBuf, 32),
     (''fld_region___selfrendersize__'', IntBuf, 33), (''fld_region_votesur_init'', IntBuf, 41),
     (''fld_region_votesur_last'', IntBuf, 42), (''fld_root_child_childs_count'', IntBuf, 14),
     (''fld_root_child_childs_leftmost_child'', NodeBuf, 0),
     (''fld_root___childsrendersize__'', IntBuf, 11), (''fld_root___draw__'', IntBuf, 12),
     (''fld_root___selfrendersize__'', IntBuf, 13),
     (''fld_vsquare_child_childs_count'', IntBuf, 64),
     (''fld_vsquare_child_childs_leftmost_child'', NodeBuf, 4),
     (''fld_vsquare_childs_by_init'', FloatBuf, 87),
     (''fld_vsquare_childs_by_last'', FloatBuf, 88),
     (''fld_vsquare_childs_fixwidth_init'', IntBuf, 65),
     (''fld_vsquare_childs_fixwidth_last'', IntBuf, 66),
     (''fld_vsquare_childs_h_init'', FloatBuf, 83), (''fld_vsquare_childs_h_last'', FloatBuf, 84),
     (''fld_vsquare_childs_maxturnout_init'', FloatBuf, 93),
     (''fld_vsquare_childs_maxturnout_last'', FloatBuf, 94),
     (''fld_vsquare_childs_minturnout_init'', FloatBuf, 97),
     (''fld_vsquare_childs_minturnout_last'', FloatBuf, 98),
     (''fld_vsquare_childs_rx_init'', FloatBuf, 89),
     (''fld_vsquare_childs_rx_last'', FloatBuf, 90),
     (''fld_vsquare_childs_showfraud_init'', FloatBuf, 99),
     (''fld_vsquare_childs_showfraud_last'', FloatBuf, 100),
     (''fld_vsquare_childs_showjavascript_init'', FloatBuf, 81),
     (''fld_vsquare_childs_showjavascript_last'', FloatBuf, 82),
     (''fld_vsquare_childs_showprojected_init'', FloatBuf, 95),
     (''fld_vsquare_childs_showprojected_last'', FloatBuf, 96),
     (''fld_vsquare_childs___dorenderinglast___init'', IntBuf, 67),
     (''fld_vsquare_childs___dorenderinglast___last'', IntBuf, 68),
     (''fld_vsquare_childs___renderrightoffset___init'', IntBuf, 73),
     (''fld_vsquare_childs___renderrightoffset___last'', IntBuf, 74),
     (''fld_vsquare_childs_w_init'', FloatBuf, 91), (''fld_vsquare_childs_w_last'', FloatBuf, 92),
     (''fld_vsquare_totalmag_init'', FloatBuf, 85), (''fld_vsquare_totalmag_last'', FloatBuf, 86),
     (''fld_vsquare___childsrendersize__'', IntBuf, 61),
     (''fld_vsquare___childsrendersize___init'', IntBuf, 69),
     (''fld_vsquare___childsrendersize___last'', IntBuf, 70),
     (''fld_vsquare___draw__'', IntBuf, 62), (''fld_vsquare___selfrendersize__'', IntBuf, 63),
     (''fld_vsquare_votesur_init'', IntBuf, 71), (''fld_vsquare_votesur_last'', IntBuf, 72),
     (''id'', NodeBuf, 9), (''left_siblings'', NodeBuf, 7), (''parent'', NodeBuf, 8),
     (''refname'', TokenBuf, 1), (''right_siblings'', NodeBuf, 6)]"

definition treemap_copies :: "hbuf list" where
  "treemap_copies =
    [IntBuf, FloatBuf, TokenBuf, NodeBuf]"

definition treemap_objects_1 :: "(string \<times> string \<times> hbuf) list" where
  "treemap_objects_1 =
    [(''displayname'', ''displayname'', TokenBuf),
     (''fld_countrycontainer_child_childs_count'', ''fld_countrycontainer_child_childs_count'', IntBuf),
     (''fld_countrycontainer_child_childs_leftmost_child'', ''fld_countrycontainer_child_childs_leftmost_child'', NodeBuf),
     (''fld_countrycontainer_childs_by_init'', ''fld_countrycontainer_childs_by_init'', FloatBuf),
     (''fld_countrycontainer_childs_by_last'', ''fld_countrycontainer_childs_by_last'', FloatBuf),
     (''fld_countrycontainer_childs_fixwidth_init'', ''fld_countrycontainer_childs_fixwidth_init'', IntBuf),
     (''fld_countrycontainer_childs_fixwidth_last'', ''fld_countrycontainer_childs_fixwidth_last'', IntBuf),
     (''fld_countrycontainer_childs_h_init'', ''fld_countrycontainer_childs_h_init'', FloatBuf),
     (''fld_countrycontainer_childs_h_last'', ''fld_countrycontainer_childs_h_last'', FloatBuf),
     (''fld_countrycontainer_childs_maxturnout_init'', ''fld_countrycontainer_childs_maxturnout_init'', FloatBuf),
     (''fld_countrycontainer_childs_maxturnout_last'', ''fld_countrycontainer_childs_maxturnout_last'', FloatBuf),
     (''fld_countrycontainer_childs_minturnout_init'', ''fld_countrycontainer_childs_minturnout_init'', FloatBuf),
     (''fld_countrycontainer_childs_minturnout_last'', ''fld_countrycontainer_childs_minturnout_last'', FloatBuf),
     (''fld_countrycontainer_childs_rx_init'', ''fld_countrycontainer_childs_rx_init'', FloatBuf),
     (''fld_countrycontainer_childs_rx_last'', ''fld_countrycontainer_childs_rx_last'', FloatBuf),
     (''fld_countrycontainer_childs_showfraud_init'', ''fld_countrycontainer_childs_showfraud_init'', FloatBuf),
     (''fld_countrycontainer_childs_showfraud_last'', ''fld_countrycontainer_childs_showfraud_last'', FloatBuf),
     (''fld_countrycontainer_childs_showjavascript_init'', ''fld_countrycontainer_childs_showjavascript_init'', FloatBuf),
     (''fld_countrycontainer_childs_showjavascript_last'', ''fld_countrycontainer_childs_showjavascript_last'', FloatBuf),
     (''fld_countrycontainer_childs_showprojected_init'', ''fld_countrycontainer_childs_showprojected_init'', FloatBuf),
     (''fld_countrycontainer_childs_showprojected_last'', ''fld_countrycontainer_childs_showprojected_last'', FloatBuf),
     (''fld_countrycontainer_childs___dorenderinglast___init'', ''fld_countrycontainer_childs___dorenderinglast___init'', IntBuf),
     (''fld_countrycontainer_childs___dorenderinglast___last'', ''fld_countrycontainer_childs___dorenderinglast___last'', IntBuf),
     (''fld_countrycontainer_childs___renderrightoffset___init'', ''fld_countrycontainer_childs___renderrightoffset___init'', IntBuf),
     (''fld_countrycontainer_childs___renderrightoffset___last'', ''fld_countrycontainer_childs___renderrightoffset___last'', IntBuf),
     (''fld_countrycontainer_childs_w_init'', ''fld_countrycontainer_childs_w_init'', FloatBuf),
     (''fld_countrycontainer_childs_w_last'', ''fld_countrycontainer_childs_w_last'', FloatBuf),
     (''fld_countrycontainer_totalmag_init'', ''fld_countrycontainer_totalmag_init'', FloatBuf),
     (''fld_countrycontainer_totalmag_last'', ''fld_countrycontainer_totalmag_last'', FloatBuf),
     (''fld_countrycontainer___childsrendersize__'', ''fld_countrycontainer___childsrendersize__'', IntBuf),
     (''fld_countrycontainer___childsrendersize___init'', ''fld_countrycontainer___childsrendersize___init'', IntBuf),
     (''fld_countrycontainer___childsrendersize___last'', ''fld_countrycontainer___childsrendersize___last'', IntBuf),
     (''fld_countrycontainer___draw__'', ''fld_countrycontainer___draw__'', IntBuf),
     (''fld_countrycontainer___draw__0'', ''fld_countrycontainer___draw__0'', IntBuf),
     (''fld_countrycontainer___selfrendersize__'', ''fld_countrycontainer___selfrendersize__'', IntBuf),
     (''fld_countrycontainer___selfrendersize__0'', ''fld_countrycontainer___selfrendersize__0'', IntBuf),
     (''fld_countrycontainer_votesur_init'', ''fld_countrycontainer_votesur_init'', IntBuf),
     (''fld_countrycontainer_votesur_last'', ''fld_countrycontainer_votesur_last'', IntBuf),
     (''fld_district_child_childs_count'', ''fld_district_child_childs_count'', IntBuf),
     (''fld_district_child_childs_leftmost_child'', ''fld_district_child_childs_leftmost_child'', NodeBuf),
     (''fld_district_childs_by_init'', ''fld_district_childs_by_init'', FloatBuf),
     (''fld_district_childs_by_last'', ''fld_district_childs_by_last'', FloatBuf),
     (''fld_district_childs_fixwidth_init'', ''fld_district_childs_fixwidth_init'', IntBuf),
     (''fld_district_childs_fixwidth_last'', ''fld_district_childs_fixwidth_last'', IntBuf),
     (''fld_district_childs_h_init'', ''fld_district_childs_h_init'', FloatBuf),
     (''fld_district_childs_h_last'', ''fld_district_childs_h_last'', FloatBuf),
     (''fld_district_childs_maxturnout_init'', ''fld_district_childs_maxturnout_init'', FloatBuf),
     (''fld_district_childs_maxturnout_last'', ''fld_district_childs_maxturnout_last'', FloatBuf),
     (''fld_district_childs_minturnout_init'', ''fld_district_childs_minturnout_init'', FloatBuf),
     (''fld_district_childs_minturnout_last'', ''fld_district_childs_minturnout_last'', FloatBuf),
     (''fld_district_childs_rx_init'', ''fld_district_childs_rx_init'', FloatBuf),
     (''fld_district_childs_rx_last'', ''fld_district_childs_rx_last'', FloatBuf),
     (''fld_district_childs_showfraud_init'', ''fld_district_childs_showfraud_init'', FloatBuf),
     (''fld_district_childs_showfraud_last'', ''fld_district_childs_showfraud_last'', FloatBuf),
     (''fld_district_childs_showjavascript_init'', ''fld_district_childs_showjavascript_init'', FloatBuf),
     (''fld_district_childs_showjavascript_last'', ''fld_district_childs_showjavascript_last'', FloatBuf),
     (''fld_district_childs_showprojected_init'', ''fld_district_childs_showprojected_init'', FloatBuf),
     (''fld_district_childs_showprojected_last'', ''fld_district_childs_showprojected_last'', FloatBuf),
     (''fld_district_childs___dorenderinglast___init'', ''fld_district_childs___dorenderinglast___init'', IntBuf),
     (''fld_district_childs___dorenderinglast___last'', ''fld_district_childs___dorenderinglast___last'', IntBuf),
     (''fld_district_childs___renderrightoffset___init'', ''fld_district_childs___renderrightoffset___init'', IntBuf),
     (''fld_district_childs___renderrightoffset___last'', ''fld_district_childs___renderrightoffset___last'', IntBuf),
     (''fld_district_childs_w_init'', ''fld_district_childs_w_init'', FloatBuf),
     (''fld_district_childs_w_last'', ''fld_district_childs_w_last'', FloatBuf),
     (''fld_district_totalmag_init'', ''fld_district_totalmag_init'', FloatBuf),
     (''fld_district_totalmag_last'', ''fld_district_totalmag_last'', FloatBuf),
     (''fld_district___childsrendersize__'', ''fld_district___childsrendersize__'', IntBuf),
     (''fld_district___childsrendersize___init'', ''fld_district___childsrendersize___init'', IntBuf),
     (''fld_district___childsrendersize___last'', ''fld_district___childsrendersize___last'', IntBuf),
     (''fld_district___draw__'', ''fld_district___draw__'', IntBuf),
     (''fld_district___draw__0'', ''fld_district___draw__0'', IntBuf),
     (''fld_district___selfrendersize__'', ''fld_district___selfrendersize__'', IntBuf),
     (''fld_district___selfrendersize__0'', ''fld_district___selfrendersize__0'', IntBuf),
     (''fld_district_votesur_init'', ''fld_district_votesur_init'', IntBuf),
     (''fld_district_votesur_last'', ''fld_district_votesur_last'', IntBuf),
     (''fld_hsquare_child_childs_count'', ''fld_hsquare_child_childs_count'', IntBuf),
     (''fld_hsquare_child_childs_leftmost_child'', ''fld_hsquare_child_childs_leftmost_child'', NodeBuf),
     (''fld_hsquare_childs_by_init'', ''fld_hsquare_childs_by_init'', FloatBuf),
     (''fld_hsquare_childs_by_last'', ''fld_hsquare_childs_by_last'', FloatBuf),
     (''fld_hsquare_childs_fixwidth_init'', ''fld_hsquare_childs_fixwidth_init'', IntBuf),
     (''fld_hsquare_childs_fixwidth_last'', ''fld_hsquare_childs_fixwidth_last'', IntBuf),
     (''fld_hsquare_childs_h_init'', ''fld_hsquare_childs_h_init'', FloatBuf),
     (''fld_hsquare_childs_h_last'', ''fld_hsquare_childs_h_last'', FloatBuf),
     (''fld_hsquare_childs_maxturnout_init'', ''fld_hsquare_childs_maxturnout_init'', FloatBuf),
     (''fld_hsquare_childs_maxturnout_last'', ''fld_hsquare_childs_maxturnout_last'', FloatBuf),
     (''fld_hsquare_childs_minturnout_init'', ''fld_hsquare_childs_minturnout_init'', FloatBuf),
     (''fld_hsquare_childs_minturnout_last'', ''fld_hsquare_childs_minturnout_last'', FloatBuf),
     (''fld_hsquare_childs_rx_init'', ''fld_hsquare_childs_rx_init'', FloatBuf),
     (''fld_hsquare_childs_rx_last'', ''fld_hsquare_childs_rx_last'', FloatBuf),
     (''fld_hsquare_childs_showfraud_init'', ''fld_hsquare_childs_showfraud_init'', FloatBuf),
     (''fld_hsquare_childs_showfraud_last'', ''fld_hsquare_childs_showfraud_last'', FloatBuf),
     (''fld_hsquare_childs_showjavascript_init'', ''fld_hsquare_childs_showjavascript_init'', FloatBuf),
     (''fld_hsquare_childs_showjavascript_last'', ''fld_hsquare_childs_showjavascript_last'', FloatBuf),
     (''fld_hsquare_childs_showprojected_init'', ''fld_hsquare_childs_showprojected_init'', FloatBuf),
     (''fld_hsquare_childs_showprojected_last'', ''fld_hsquare_childs_showprojected_last'', FloatBuf),
     (''fld_hsquare_childs___dorenderinglast___init'', ''fld_hsquare_childs___dorenderinglast___init'', IntBuf),
     (''fld_hsquare_childs___dorenderinglast___last'', ''fld_hsquare_childs___dorenderinglast___last'', IntBuf),
     (''fld_hsquare_childs___renderrightoffset___init'', ''fld_hsquare_childs___renderrightoffset___init'', IntBuf),
     (''fld_hsquare_childs___renderrightoffset___last'', ''fld_hsquare_childs___renderrightoffset___last'', IntBuf),
     (''fld_hsquare_childs_w_init'', ''fld_hsquare_childs_w_init'', FloatBuf),
     (''fld_hsquare_childs_w_last'', ''fld_hsquare_childs_w_last'', FloatBuf),
     (''fld_hsquare_totalmag_init'', ''fld_hsquare_totalmag_init'', FloatBuf),
     (''fld_hsquare_totalmag_last'', ''fld_hsquare_totalmag_last'', FloatBuf),
     (''fld_hsquare___childsrendersize__'', ''fld_hsquare___childsrendersize__'', IntBuf),
     (''fld_hsquare___childsrendersize___init'', ''fld_hsquare___childsrendersize___init'', IntBuf),
     (''fld_hsquare___childsrendersize___last'', ''fld_hsquare___childsrendersize___last'', IntBuf),
     (''fld_hsquare___draw__'', ''fld_hsquare___draw__'', IntBuf),
     (''fld_hsquare___selfrendersize__'', ''fld_hsquare___selfrendersize__'', IntBuf),
     (''fld_hsquare_votesur_init'', ''fld_hsquare_votesur_init'', IntBuf),
     (''fld_hsquare_votesur_last'', ''fld_hsquare_votesur_last'', IntBuf),
     (''fld_iroot_fixwidth'', ''fld_iroot_fixwidth'', IntBuf),
     (''fld_iroot_height'', ''fld_iroot_height'', FloatBuf),
     (''fld_iroot_maxturnout'', ''fld_iroot_maxturnout'', FloatBuf),
     (''fld_iroot_minturnout'', ''fld_iroot_minturnout'', FloatBuf),
     (''fld_iroot_showfraud'', ''fld_iroot_showfraud'', FloatBuf),
     (''fld_iroot_showjavascript'', ''fld_iroot_showjavascript'', FloatBuf),
     (''fld_iroot_showprojected'', ''fld_iroot_showprojected'', FloatBuf),
     (''fld_iroot_totalmag'', ''fld_iroot_totalmag'', FloatBuf),
     (''fld_iroot___dorenderinglast__'', ''fld_iroot___dorenderinglast__'', IntBuf),
     (''fld_iroot___renderoffset__'', ''fld_iroot___renderoffset__'', IntBuf)]"

definition treemap_objects_2 :: "(string \<times> string \<times> hbuf) list" where
  "treemap_objects_2 =
    [(''fld_iroot___renderrightoffset__'', ''fld_iroot___renderrightoffset__'', IntBuf),
     (''fld_iroot___rendersize__'', ''fld_iroot___rendersize__'', IntBuf),
     (''fld_iroot_votesur'', ''fld_iroot_votesur'', FloatBuf),
     (''fld_iroot_width'', ''fld_iroot_width'', FloatBuf),
     (''fld_node_by'', ''fld_node_by'', FloatBuf),
     (''fld_node_fixwidth'', ''fld_node_fixwidth'', IntBuf),
     (''fld_node_h'', ''fld_node_h'', FloatBuf),
     (''fld_node_maxturnout'', ''fld_node_maxturnout'', FloatBuf),
     (''fld_node_minturnout'', ''fld_node_minturnout'', FloatBuf),
     (''fld_node_rx'', ''fld_node_rx'', FloatBuf),
     (''fld_node_showfraud'', ''fld_node_showfraud'', FloatBuf),
     (''fld_node_showjavascript'', ''fld_node_showjavascript'', FloatBuf),
     (''fld_node_showprojected'', ''fld_node_showprojected'', FloatBuf),
     (''fld_node_totalmag'', ''fld_node_totalmag'', FloatBuf),
     (''fld_node___dorenderinglast__'', ''fld_node___dorenderinglast__'', IntBuf),
     (''fld_node___renderoffset__'', ''fld_node___renderoffset__'', IntBuf),
     (''fld_node___renderrightoffset__'', ''fld_node___renderrightoffset__'', IntBuf),
     (''fld_node___rendersize__'', ''fld_node___rendersize__'', IntBuf),
     (''fld_node_votesur'', ''fld_node_votesur'', IntBuf),
     (''fld_node_w'', ''fld_node_w'', FloatBuf), (''fld_node_x'', ''fld_node_x'', FloatBuf),
     (''fld_node_y'', ''fld_node_y'', FloatBuf),
     (''fld_pollingplace_calcfraudcolor'', ''fld_pollingplace_calcfraudcolor'', IntBuf),
     (''fld_pollingplace_calcprojectedcolor'', ''fld_pollingplace_calcprojectedcolor'', IntBuf),
     (''fld_pollingplace_calcregularcolor'', ''fld_pollingplace_calcregularcolor'', IntBuf),
     (''fld_pollingplace_calcvotescolor'', ''fld_pollingplace_calcvotescolor'', IntBuf),
     (''fld_pollingplace_defcolor'', ''fld_pollingplace_defcolor'', IntBuf),
     (''fld_pollingplace_fraudcolor'', ''fld_pollingplace_fraudcolor'', IntBuf),
     (''fld_pollingplace_injavascript'', ''fld_pollingplace_injavascript'', IntBuf),
     (''fld_pollingplace_magnitude'', ''fld_pollingplace_magnitude'', FloatBuf),
     (''fld_pollingplace_totalvotes'', ''fld_pollingplace_totalvotes'', IntBuf),
     (''fld_pollingplace_totalvotesur'', ''fld_pollingplace_totalvotesur'', IntBuf),
     (''fld_pollingplace_turnout'', ''fld_pollingplace_turnout'', FloatBuf),
     (''fld_pollingplace_urcolor'', ''fld_pollingplace_urcolor'', IntBuf),
     (''fld_pollingplace_urvotes'', ''fld_pollingplace_urvotes'', FloatBuf),
     (''fld_pollingplace_urvotesprojected'', ''fld_pollingplace_urvotesprojected'', FloatBuf),
     (''fld_pollingplace___draw__'', ''fld_pollingplace___draw__'', IntBuf),
     (''fld_pollingplace___draw__0'', ''fld_pollingplace___draw__0'', IntBuf),
     (''fld_pollingplace___selfrendersize__'', ''fld_pollingplace___selfrendersize__'', IntBuf),
     (''fld_pollingplace___selfrendersize__0'', ''fld_pollingplace___selfrendersize__0'', IntBuf),
     (''fld_region_child_childs_count'', ''fld_region_child_childs_count'', IntBuf),
     (''fld_region_child_childs_leftmost_child'', ''fld_region_child_childs_leftmost_child'', NodeBuf),
     (''fld_region_childs_by_init'', ''fld_region_childs_by_init'', FloatBuf),
     (''fld_region_childs_by_last'', ''fld_region_childs_by_last'', FloatBuf),
     (''fld_region_childs_fixwidth_init'', ''fld_region_childs_fixwidth_init'', IntBuf),
     (''fld_region_childs_fixwidth_last'', ''fld_region_childs_fixwidth_last'', IntBuf),
     (''fld_region_childs_h_init'', ''fld_region_childs_h_init'', FloatBuf),
     (''fld_region_childs_h_last'', ''fld_region_childs_h_last'', FloatBuf),
     (''fld_region_childs_maxturnout_init'', ''fld_region_childs_maxturnout_init'', FloatBuf),
     (''fld_region_childs_maxturnout_last'', ''fld_region_childs_maxturnout_last'', FloatBuf),
     (''fld_region_childs_minturnout_init'', ''fld_region_childs_minturnout_init'', FloatBuf),
     (''fld_region_childs_minturnout_last'', ''fld_region_childs_minturnout_last'', FloatBuf),
     (''fld_region_childs_rx_init'', ''fld_region_childs_rx_init'', FloatBuf),
     (''fld_region_childs_rx_last'', ''fld_region_childs_rx_last'', FloatBuf),
     (''fld_region_childs_showfraud_init'', ''fld_region_childs_showfraud_init'', FloatBuf),
     (''fld_region_childs_showfraud_last'', ''fld_region_childs_showfraud_last'', FloatBuf),
     (''fld_region_childs_showjavascript_init'', ''fld_region_childs_showjavascript_init'', FloatBuf),
     (''fld_region_childs_showjavascript_last'', ''fld_region_childs_showjavascript_last'', FloatBuf),
     (''fld_region_childs_showprojected_init'', ''fld_region_childs_showprojected_init'', FloatBuf),
     (''fld_region_childs_showprojected_last'', ''fld_region_childs_showprojected_last'', FloatBuf),
     (''fld_region_childs___dorenderinglast___init'', ''fld_region_childs___dorenderinglast___init'', IntBuf),
     (''fld_region_childs___dorenderinglast___last'', ''fld_region_childs___dorenderinglast___last'', IntBuf),
     (''fld_region_childs___renderrightoffset___init'', ''fld_region_childs___renderrightoffset___init'', IntBuf),
     (''fld_region_childs___renderrightoffset___last'', ''fld_region_childs___renderrightoffset___last'', IntBuf),
     (''fld_region_childs_w_init'', ''fld_region_childs_w_init'', FloatBuf),
     (''fld_region_childs_w_last'', ''fld_region_childs_w_last'', FloatBuf),
     (''fld_region_totalmag_init'', ''fld_region_totalmag_init'', FloatBuf),
     (''fld_region_totalmag_last'', ''fld_region_totalmag_last'', FloatBuf),
     (''fld_region___childsrendersize__'', ''fld_region___childsrendersize__'', IntBuf),
     (''fld_region___childsrendersize___init'', ''fld_region___childsrendersize___init'', IntBuf),
     (''fld_region___childsrendersize___last'', ''fld_region___childsrendersize___last'', IntBuf),
     (''fld_region___draw__'', ''fld_region___draw__'', IntBuf),
     (''fld_region___selfrendersize__'', ''fld_region___selfrendersize__'', IntBuf),
     (''fld_region_votesur_init'', ''fld_region_votesur_init'', IntBuf),
     (''fld_region_votesur_last'', ''fld_region_votesur_last'', IntBuf),
     (''fld_root_child_childs_count'', ''fld_root_child_childs_count'', IntBuf),
     (''fld_root_child_childs_leftmost_child'', ''fld_root_child_childs_leftmost_child'', NodeBuf),
     (''fld_root___childsrendersize__'', ''fld_root___childsrendersize__'', IntBuf),
     (''fld_root___draw__'', ''fld_root___draw__'', IntBuf),
     (''fld_root___selfrendersize__'', ''fld_root___selfrendersize__'', IntBuf),
     (''fld_vsquare_child_childs_count'', ''fld_vsquare_child_childs_count'', IntBuf),
     (''fld_vsquare_child_childs_leftmost_child'', ''fld_vsquare_child_childs_leftmost_child'', NodeBuf),
     (''fld_vsquare_childs_by_init'', ''fld_vsquare_childs_by_init'', FloatBuf),
     (''fld_vsquare_childs_by_last'', ''fld_vsquare_childs_by_last'', FloatBuf),
     (''fld_vsquare_childs_fixwidth_init'', ''fld_vsquare_childs_fixwidth_init'', IntBuf),
     (''fld_vsquare_childs_fixwidth_last'', ''fld_vsquare_childs_fixwidth_last'', IntBuf),
     (''fld_vsquare_childs_h_init'', ''fld_vsquare_childs_h_init'', FloatBuf),
     (''fld_vsquare_childs_h_last'', ''fld_vsquare_childs_h_last'', FloatBuf),
     (''fld_vsquare_childs_maxturnout_init'', ''fld_vsquare_childs_maxturnout_init'', FloatBuf),
     (''fld_vsquare_childs_maxturnout_last'', ''fld_vsquare_childs_maxturnout_last'', FloatBuf),
     (''fld_vsquare_childs_minturnout_init'', ''fld_vsquare_childs_minturnout_init'', FloatBuf),
     (''fld_vsquare_childs_minturnout_last'', ''fld_vsquare_childs_minturnout_last'', FloatBuf),
     (''fld_vsquare_childs_rx_init'', ''fld_vsquare_childs_rx_init'', FloatBuf),
     (''fld_vsquare_childs_rx_last'', ''fld_vsquare_childs_rx_last'', FloatBuf),
     (''fld_vsquare_childs_showfraud_init'', ''fld_vsquare_childs_showfraud_init'', FloatBuf),
     (''fld_vsquare_childs_showfraud_last'', ''fld_vsquare_childs_showfraud_last'', FloatBuf),
     (''fld_vsquare_childs_showjavascript_init'', ''fld_vsquare_childs_showjavascript_init'', FloatBuf),
     (''fld_vsquare_childs_showjavascript_last'', ''fld_vsquare_childs_showjavascript_last'', FloatBuf),
     (''fld_vsquare_childs_showprojected_init'', ''fld_vsquare_childs_showprojected_init'', FloatBuf),
     (''fld_vsquare_childs_showprojected_last'', ''fld_vsquare_childs_showprojected_last'', FloatBuf),
     (''fld_vsquare_childs___dorenderinglast___init'', ''fld_vsquare_childs___dorenderinglast___init'', IntBuf),
     (''fld_vsquare_childs___dorenderinglast___last'', ''fld_vsquare_childs___dorenderinglast___last'', IntBuf),
     (''fld_vsquare_childs___renderrightoffset___init'', ''fld_vsquare_childs___renderrightoffset___init'', IntBuf),
     (''fld_vsquare_childs___renderrightoffset___last'', ''fld_vsquare_childs___renderrightoffset___last'', IntBuf),
     (''fld_vsquare_childs_w_init'', ''fld_vsquare_childs_w_init'', FloatBuf),
     (''fld_vsquare_childs_w_last'', ''fld_vsquare_childs_w_last'', FloatBuf),
     (''fld_vsquare_totalmag_init'', ''fld_vsquare_totalmag_init'', FloatBuf),
     (''fld_vsquare_totalmag_last'', ''fld_vsquare_totalmag_last'', FloatBuf),
     (''fld_vsquare___childsrendersize__'', ''fld_vsquare___childsrendersize__'', IntBuf),
     (''fld_vsquare___childsrendersize___init'', ''fld_vsquare___childsrendersize___init'', IntBuf),
     (''fld_vsquare___childsrendersize___last'', ''fld_vsquare___childsrendersize___last'', IntBuf),
     (''fld_vsquare___draw__'', ''fld_vsquare___draw__'', IntBuf),
     (''fld_vsquare___selfrendersize__'', ''fld_vsquare___selfrendersize__'', IntBuf),
     (''fld_vsquare_votesur_init'', ''fld_vsquare_votesur_init'', IntBuf),
     (''fld_vsquare_votesur_last'', ''fld_vsquare_votesur_last'', IntBuf),
     (''id'', ''id'', NodeBuf), (''left_siblings'', ''left_siblings'', NodeBuf),
     (''parent'', ''parent'', NodeBuf), (''refname'', ''refname'', TokenBuf),
     (''right_siblings'', ''right_siblings'', NodeBuf)]"

definition treemap_tokens :: "(string \<times> int) list" where
  "treemap_tokens =
    [(''CHILDS'', 5), (''UNDEFINED'', 14), (''ROOT'', 12), (''COUNTRYCONTAINER'', 6),
     (''REGION'', 11), (''DISTRICT'', 7), (''VSQUARE'', 15), (''HSQUARE'', 8),
     (''POLLINGPLACE'', 10), (''IGNORE'', 9), (''TEXTBOX'', 13)]"

definition treemap_ifaces :: "(string \<times> string) list" where
  "treemap_ifaces =
    [(''ROOT'', ''iroot''), (''COUNTRYCONTAINER'', ''node''), (''REGION'', ''node''),
     (''DISTRICT'', ''node''), (''VSQUARE'', ''node''), (''HSQUARE'', ''node''),
     (''POLLINGPLACE'', ''node'')]"

definition treemap_inputs :: "string list" where
  "treemap_inputs =
    [''defColor'', ''urColor'', ''urVotesProjected'', ''width'', ''maxTurnout'', ''fixWidth'',
     ''showJavascript'', ''refname'', ''display'', ''turnout'', ''totalVotesUR'', ''minTurnout'',
     ''inJavascript'', ''height'', ''showProjected'', ''totalVotes'', ''glBufferMacro'',
     ''fraudColor'', ''urVotes'', ''showFraud'']"

definition treemap :: bindings where
  "treemap =
     \<lparr>kernels = treemap_kernels, clAlloc = treemap_clAlloc, writes = treemap_writes, reads = treemap_reads,
      kargs = treemap_kargs, traversals = treemap_traversals, visits = treemap_visits, sizes = treemap_sizes,
      bviews = treemap_views_1 @ treemap_views_2, copies = treemap_copies, objects = treemap_objects_1 @ treemap_objects_2,
      renderSize = ''fld_iroot___rendersize__'', classTokens = treemap_tokens, classIFaces = treemap_ifaces,
      inputs = treemap_inputs\<rparr>"

text \<open>The layout of the buffers, and the schedule of the visits, by evaluation.\<close>

lemma treemap_slots: "map snd (bviews treemap) =
    [(TokenBuf, 0), (IntBuf, 20), (NodeBuf, 1), (FloatBuf, 27), (FloatBuf, 28), (IntBuf, 21),
     (IntBuf, 22), (FloatBuf, 23), (FloatBuf, 24), (FloatBuf, 31), (FloatBuf, 32), (FloatBuf, 37),
     (FloatBuf, 38), (FloatBuf, 29), (FloatBuf, 30), (FloatBuf, 39), (FloatBuf, 40),
     (FloatBuf, 21), (FloatBuf, 22), (FloatBuf, 35), (FloatBuf, 36), (IntBuf, 23), (IntBuf, 24),
     (IntBuf, 29), (IntBuf, 30), (FloatBuf, 33), (FloatBuf, 34), (FloatBuf, 25), (FloatBuf, 26),
     (IntBuf, 15), (IntBuf, 25), (IntBuf, 26), (IntBuf, 18), (IntBuf, 17), (IntBuf, 19),
     (IntBuf, 16), (IntBuf, 27), (IntBuf, 28), (IntBuf, 50), (NodeBuf, 3), (FloatBuf, 67),
     (FloatBuf, 68), (IntBuf, 51), (IntBuf, 52), (FloatBuf, 63), (FloatBuf, 64), (FloatBuf, 71),
     (FloatBuf, 72), (FloatBuf, 77), (FloatBuf, 78), (FloatBuf, 69), (FloatBuf, 70),
     (FloatBuf, 79), (FloatBuf, 80), (FloatBuf, 61), (FloatBuf, 62), (FloatBuf, 75),
     (FloatBuf, 76), (IntBuf, 53), (IntBuf, 54), (IntBuf, 59), (IntBuf, 60), (FloatBuf, 73),
     (FloatBuf, 74), (FloatBuf, 65), (FloatBuf, 66), (IntBuf, 45), (IntBuf, 55), (IntBuf, 56),
     (IntBuf, 48), (IntBuf, 47), (IntBuf, 49), (IntBuf, 46), (IntBuf, 57), (IntBuf, 58),
     (IntBuf, 78), (NodeBuf, 5), (FloatBuf, 107), (FloatBuf, 108), (IntBuf, 79), (IntBuf, 80),
     (FloatBuf, 103), (FloatBuf, 104), (FloatBuf, 113), (FloatBuf, 114), (FloatBuf, 117),
     (FloatBuf, 118), (FloatBuf, 109), (FloatBuf, 110), (FloatBuf, 119), (FloatBuf, 120),
     (FloatBuf, 101), (FloatBuf, 102), (FloatBuf, 115), (FloatBuf, 116), (IntBuf, 81),
     (IntBuf, 82), (IntBuf, 87), (IntBuf, 88), (FloatBuf, 111), (FloatBuf, 112), (FloatBuf, 105),
     (FloatBuf, 106), (IntBuf, 75), (IntBuf, 83), (IntBuf, 84), (IntBuf, 76), (IntBuf, 77),
     (IntBuf, 85), (IntBuf, 86), (IntBuf, 4), (FloatBuf, 3), (FloatBuf, 5), (FloatBuf, 2),
     (FloatBuf, 8), (FloatBuf, 7), (FloatBuf, 4), (FloatBuf, 0), (IntBuf, 3), (IntBuf, 1),
     (IntBuf, 0), (IntBuf, 2), (FloatBuf, 1), (FloatBuf, 6), (FloatBuf, 12), (IntBuf, 6),
     (FloatBuf, 13), (FloatBuf, 10), (FloatBuf, 14), (FloatBuf, 17), (FloatBuf, 19),
     (FloatBuf, 11), (FloatBuf, 16), (FloatBuf, 9), (IntBuf, 7), (IntBuf, 8), (IntBuf, 5),
     (IntBuf, 10), (IntBuf, 9), (FloatBuf, 15), (FloatBuf, 20), (FloatBuf, 18), (IntBuf, 95),
     (IntBuf, 102), (IntBuf, 99), (IntBuf, 101), (IntBuf, 89), (IntBuf, 93), (IntBuf, 90),
     (FloatBuf, 124), (IntBuf, 92), (IntBuf, 94), (FloatBuf, 122), (IntBuf, 91), (FloatBuf, 123),
     (FloatBuf, 121), (IntBuf, 98), (IntBuf, 97), (IntBuf, 100), (IntBuf, 96), (IntBuf, 34),
     (NodeBuf, 2), (FloatBuf, 47), (FloatBuf, 48), (IntBuf, 35), (IntBuf, 36), (FloatBuf, 43),
     (FloatBuf, 44), (FloatBuf, 51), (FloatBuf, 52), (FloatBuf, 57), (FloatBuf, 58),
     (FloatBuf, 49), (FloatBuf, 50), (FloatBuf, 59), (FloatBuf, 60), (FloatBuf, 41),
     (FloatBuf, 42), (FloatBuf, 55), (FloatBuf, 56), (IntBuf, 37), (IntBuf, 38), (IntBuf, 43),
     (IntBuf, 44), (FloatBuf, 53), (FloatBuf, 54), (FloatBuf, 45), (FloatBuf, 46), (IntBuf, 31),
     (IntBuf, 39), (IntBuf, 40), (IntBuf, 32), (IntBuf, 33), (IntBuf, 41), (IntBuf, 42),
     (IntBuf, 14), (NodeBuf, 0), (IntBuf, 11), (IntBuf, 12), (IntBuf, 13), (IntBuf, 64),
     (NodeBuf, 4), (FloatBuf, 87), (FloatBuf, 88), (IntBuf, 65), (IntBuf, 66), (FloatBuf, 83),
     (FloatBuf, 84), (FloatBuf, 93), (FloatBuf, 94), (FloatBuf, 97), (FloatBuf, 98),
     (FloatBuf, 89), (FloatBuf, 90), (FloatBuf, 99), (FloatBuf, 100), (FloatBuf, 81),
     (FloatBuf, 82), (FloatBuf, 95), (FloatBuf, 96), (IntBuf, 67), (IntBuf, 68), (IntBuf, 73),
     (IntBuf, 74), (FloatBuf, 91), (FloatBuf, 92), (FloatBuf, 85), (FloatBuf, 86), (IntBuf, 61),
     (IntBuf, 69), (IntBuf, 70), (IntBuf, 62), (IntBuf, 63), (IntBuf, 71), (IntBuf, 72),
     (NodeBuf, 9), (NodeBuf, 7), (NodeBuf, 8), (TokenBuf, 1), (NodeBuf, 6)]"
  by (simp add: treemap_def treemap_views_1_def treemap_views_2_def)

lemma treemap_objects_views: "objects treemap = map (\<lambda>(f, bf, s). (f, f, bf)) (bviews treemap)"
  by (simp add: treemap_def treemap_views_1_def treemap_views_2_def treemap_objects_1_def treemap_objects_2_def)

lemma treemap_check: "layout_check treemap"
  unfolding layout_check_def treemap_slots treemap_objects_views
  by (simp add: treemap_def treemap_sizes_def treemap_clAlloc_def treemap_writes_def treemap_reads_def treemap_copies_def slot_fits_def)

lemma treemap_schedule: "schedule_ok treemap"
  by (simp add: schedule_ok_def render_visit_def render_from.simps upt_rec numeral_eq_Suc treemap_def
      treemap_kernels_def treemap_kargs_def treemap_traversals_def treemap_visits_def treemap_sizes_def)

end
