(* ===== verification/Grammars.thy ===== *)
theory Grammars
  imports FlatTree Boxes Sunburst Linegraph Treemap
begin

text \<open>
  The four example grammars together: their layouts and schedules are well formed, so the contracts
  of \<open>Bindings\<close> hold for them, and the arrays that the flattener writes separately are
  disjoint windows of the shared buffers.
\<close>

definition grammars :: "bindings list" where
  "grammars = [boxes, sunburst, linegraph, treemap]"

lemma grammars_check: "list_all layout_check grammars"
  by (simp add: grammars_def boxes_check sunburst_check linegraph_check treemap_check)

lemma grammar_ok: "b \<in> set grammars \<Longrightarrow> layout_ok b"
  using grammars_check by (auto simp: list_all_iff intro: layout_check_ok)

text \<open>
  C24.  In each of the four grammars the windows of the fields tile the buffers: no two fields have
  the same slot, every slot of every buffer is the window of a field, the transfers and the flat
  loader treat every buffer once, and the proxy of a field goes to the device buffer of its window.
\<close>

theorem grammar_layouts:
  "list_all (\<lambda>b. layout_ok b \<and>
     set (map snd (bviews b)) = {(bf, s). \<exists>k. (bf, k) \<in> set (sizes b) \<and> s < k}) grammars"
  using grammars_check layout_check_cover by (auto simp: list_all_iff intro: layout_check_ok)

text \<open>
  In each of the four grammars visit \<open>i\<close> runs kernel \<open>i\<close>, the traversals of a layout are all
  visits but the last in order, the render pass that the runner looks for by counting is the last
  visit, and it alone gets the render buffer, at the first argument position the others leave free.
\<close>

lemma grammar_schedules: "list_all schedule_ok grammars"
  by (simp add: grammars_def boxes_schedule sunburst_schedule linegraph_schedule treemap_schedule)

section \<open>Buffers, device and proxies\<close>

text \<open>For the witnesses: the grammar of the boxes, a tree of two nodes and the list device.\<close>

definition fresh_bound :: "(int, hbuf \<Rightarrow> int list) bound" where
  "fresh_bound = \<lparr>mem = \<lparr>host = (\<lambda>_. []), dev = (\<lambda>_. [])\<rparr>, windows = Map.empty, proxies = Map.empty\<rparr>"

definition two_boxes :: "(int, hbuf \<Rightarrow> int list) bound" where
  "two_boxes = bind_buffers list_mk boxes 2 fresh_bound"

lemma boxes_grammar: "boxes \<in> set grammars"
  by (simp add: grammars_def)

lemma two_boxes_host: "(bf, k) \<in> set (sizes boxes) \<Longrightarrow> host (mem two_boxes) bf = replicate (k * 2) 0"
  and two_boxes_ok: "bound_ok list_size boxes 2 two_boxes"
  using list_device.setup_bound [OF grammar_ok [OF boxes_grammar], of fresh_bound 2]
  by (auto simp: two_boxes_def fresh_bound_def)

lemma two_boxes_host_float: "host (mem two_boxes) FloatBuf = replicate 34 0"
  using two_boxes_host [of FloatBuf 17] by (simp add: boxes_def boxes_sizes_def)

lemma boxes_slots_wh:
  "slot_of boxes ''fld_node_w'' = Some (FloatBuf, 2)" "slot_of boxes ''fld_node_h'' = Some (FloatBuf, 5)"
  by (simp_all add: slot_of_def boxes_def boxes_views_def)

text \<open>
  C35.  The allocations of a grammar establish the invariant \<open>bound_ok\<close>: host and device buffers
  have the size of the tree times their slots, and every field has its window and its proxy; the
  invariant is kept by a transfer and by a store through any proxy.
\<close>

theorem bind_buffers_invariant:
  assumes "cl_device sz rd wr mk" and "b \<in> set grammars"
    and "windows st = Map.empty" and "proxies st = Map.empty"
  shows "bound_ok sz b n (bind_buffers mk b n st) \<and>
    (\<forall>st'. bound_ok sz b n st' \<longrightarrow>
       bound_ok sz b n (transferTree wr b st') \<and> bound_ok sz b n (proxy_set wr noCL f i v st'))"
  using cl_device.setup_bound [OF assms(1) grammar_ok [OF assms(2)] assms(3,4)]
    cl_device.transfer_spec [OF assms(1) grammar_ok [OF assms(2)]] cl_device.proxy_set_bound [OF assms(1)]
  by blast

text \<open>Witness: the boxes on a fresh list device.\<close>

theorem bind_buffers_invariant_witness:
  "bound_ok list_size boxes 2 two_boxes \<and> bound_ok list_size boxes 2 (transferTree list_wr boxes two_boxes)"
  using bind_buffers_invariant [OF list_device.cl_device_axioms boxes_grammar, of fresh_bound 2 False "''id''" 0 0]
  by (simp add: two_boxes_def) (simp add: fresh_bound_def)

text \<open>
  After a transfer the proxy of every field reads the same value from the device as it reads
  from the host when the device is not used, namely the element of the field's window.
\<close>

lemma proxy_modes_agree:
  assumes "cl_device sz rd wr mk" and "b \<in> set grammars" and "bound_ok sz b n st"
    and "slot_of b f = Some (bf, s)" and "i < n"
  shows "proxy_get rd False f i (transferTree wr b st) = proxy_get rd True f i (transferTree wr b st) \<and>
    proxy_get rd True f i (transferTree wr b st) = Some (host (mem st) bf ! (n * s + i))"
proof -
  note ok = grammar_ok [OF assms(2)]
  note tr = cl_device.transfer_spec [OF assms(1) ok assms(3)]
  show ?thesis
    using cl_device.proxy_get_mirror [OF assms(1) ok _ _ assms(4,5)] tr by simp
qed

text \<open>Witness: the width of the second box.\<close>

lemma proxy_modes_agree_witness:
  "proxy_get list_rd False ''fld_node_w'' 1 (transferTree list_wr boxes two_boxes) = Some 0"
  using proxy_modes_agree [OF list_device.cl_device_axioms boxes_grammar two_boxes_ok boxes_slots_wh(1), of 1]
  by (simp add: two_boxes_host_float)

text \<open>
  C25.  A store through a proxy on the device changes one element of one field: every other element
  of that field and every element of every other field reads as before.
\<close>

theorem proxy_store_isolated:
  assumes "cl_device sz rd wr mk" and "b \<in> set grammars" and "bound_ok sz b n st"
    and "slot_of b f = Some p" and "slot_of b g = Some q" and "i < n" and "j < n"
  shows "proxy_get rd False g j (proxy_set wr False f i v st) =
    (if g = f \<and> j = i then Some v else proxy_get rd False g j st)"
  by (rule cl_device.proxy_set_get [OF assms(1) grammar_ok [OF assms(2)] assms(3-7)])

text \<open>Witness: a store to the width of the second box, read back, and its height.\<close>

theorem proxy_store_isolated_witness:
  "proxy_get list_rd False ''fld_node_w'' 1 (proxy_set list_wr False ''fld_node_w'' 1 9 two_boxes) = Some 9 \<and>
   proxy_get list_rd False ''fld_node_h'' 1 (proxy_set list_wr False ''fld_node_w'' 1 9 two_boxes) =
     proxy_get list_rd False ''fld_node_h'' 1 two_boxes"
  using proxy_store_isolated [OF list_device.cl_device_axioms boxes_grammar two_boxes_ok boxes_slots_wh(1)
      boxes_slots_wh(1), of 1 1 9]
    proxy_store_isolated [OF list_device.cl_device_axioms boxes_grammar two_boxes_ok boxes_slots_wh(1)
      boxes_slots_wh(2), of 1 1 9]
  by simp

text \<open>
  Transferring the tree to the device and retrieving it gives the host buffers back.
\<close>

lemma retrieve_transfer:
  assumes "cl_device sz rd wr mk" and "b \<in> set grammars" and "bound_ok sz b n st"
  shows "host (mem (retrieveTree rd b (transferTree wr b st))) = host (mem st)"
  using cl_device.transfer_spec [OF assms(1) grammar_ok [OF assms(2)] assms(3)]
    cl_device.retrieve_mirror [OF assms(1) grammar_ok [OF assms(2)]] by metis

text \<open>Witness: the boxes on the list device.\<close>

lemma retrieve_transfer_witness:
  "host (mem (retrieveTree list_rd boxes (transferTree list_wr boxes two_boxes))) FloatBuf = replicate 34 0"
  using retrieve_transfer [OF list_device.cl_device_axioms boxes_grammar two_boxes_ok]
  by (simp add: two_boxes_host_float)

section \<open>The flattener's arrays\<close>

definition grammar_schema :: "bindings \<Rightarrow> (string \<Rightarrow> jval \<Rightarrow> 'v) \<Rightarrow> 'v schema" where
  "grammar_schema b co = \<lparr>classToToken = class_token b, classToIFace = class_iface b, coerce = co\<rparr>"

text \<open>The field arrays as the flattener sees them: the windows whose names start with \<open>fld_\<close>.\<close>

definition field_slice :: "(hbuf \<Rightarrow> 'v list) \<Rightarrow> window \<Rightarrow> 'v list" where
  "field_slice h w = take (wlen w) (drop (woff w) (h (wbuf w)))"

definition field_arrays :: "('v, 'g) bound \<Rightarrow> string \<Rightarrow> 'v list option" where
  "field_arrays st f = map_option (field_slice (host (mem st))) (windows st f)"

definition alloc_flat :: "bindings \<Rightarrow> nat \<Rightarrow> ('v::zero) flat \<Rightarrow> 'v flat" where
  "alloc_flat b n st =
     st\<lparr>flds := (\<lambda>f. if prefix ''fld_'' f then map_option (\<lambda>_. replicate n 0) (slot_of b f) else None),
        right_siblings := replicate n 0, left_siblings := replicate n 0, parent := replicate n 0,
        ids := replicate n 0, grammartokens := replicate n 0\<rparr>"

definition grammar_fields :: "bindings \<Rightarrow> string set" where
  "grammar_fields b = {f. prefix ''fld_'' f \<and> slot_of b f \<noteq> None}"

interpretation grammar_alloc: host_alloc "alloc_flat b" "grammar_fields b" for b
  by unfold_locales (auto simp: alloc_flat_def links_len_def grammar_fields_def split: if_splits)

text \<open>
  Loading a tree with one of the grammars succeeds exactly when each of its nodes has a class
  of the grammar and child labels the grammar declares for that class.
\<close>

lemma grammar_loadData_accepts:
  "(\<exists>r. loadData (grammar_schema b co) (alloc_flat b) noCL skip data st = Inr r) \<longleftrightarrow>
     (\<forall>node \<in> set (bfs data). node_ok (grammar_schema b co) (grammar_fields b) node)"
  by (rule grammar_alloc.loadData_accepts)

text \<open>Witness: a root without children, and a node whose class the grammar does not have.\<close>

lemma boxes_root_ok:
  "\<forall>node \<in> set (bfs (JNode [(''class'', JStr ''Root'')] None)).
     node_ok (grammar_schema boxes co) (grammar_fields boxes) node"
proof -
  have "upper_case ''Root'' = ''ROOT''" by code_simp
  then show ?thesis
    by (simp add: bfs_def levels_of.simps node_ok_def groups_def kids_def node_class_def props_ok_def prop_ok_def
        grammar_schema_def class_token_def boxes_def boxes_tokens_def)
qed

lemma grammar_loadData_accepts_witness:
  "\<exists>r. loadData (grammar_schema boxes (\<lambda>_ _. 0 :: int)) (alloc_flat boxes) True True
     (JNode [(''class'', JStr ''Root'')] None) demo_flat = Inr r"
  using grammar_loadData_accepts [of boxes "\<lambda>_ _. 0 :: int" True True "JNode [(''class'', JStr ''Root'')] None" demo_flat]
    boxes_root_ok by blast

lemma field_slice_nth:
  assumes "layout_ok b" and "bound_ok sz b n st" and "slot_of b f = Some (bf, s)"
  shows "field_arrays st f = Some (map (\<lambda>i. host (mem st) bf ! (n * s + i)) [0..<n])"
proof -
  obtain k where k: "(bf, k) \<in> set (sizes b)" "s < k"
    using slot_of_bound [OF assms(1,3)] by blast
  have "n * Suc s \<le> n * k" using k(2) by (intro mult_le_mono2) simp
  then have "n * s + n \<le> length (host (mem st) bf)"
    using assms(2) k(1) by (auto simp: bound_ok_def ac_simps)
  then have "take n (drop (n * s) (host (mem st) bf)) = map (\<lambda>i. host (mem st) bf ! (n * s + i)) [0..<n]"
    by (intro nth_equalityI) simp_all
  then show ?thesis
    using assms(2,3) by (simp add: field_arrays_def bound_ok_def field_slice_def slot_window_def)
qed

text \<open>
  C26.  A store into the window of one field of the shared buffers is, seen as separate field arrays,
  the update of that array alone.  The flattener can therefore be read as writing independent
  arrays, as the model of \<open>flattenNode\<close> does.
\<close>

theorem field_store_refines:
  assumes "b \<in> set grammars" and "bound_ok sz b n st" and "slot_of b f = Some p" and "i < n"
    and "st' = st\<lparr>mem := (mem st)\<lparr>host := window_set (host (mem st)) (slot_window n p) i v\<rparr>\<rparr>"
  shows "field_arrays st' = (field_arrays st)(f \<mapsto> (the (field_arrays st f))[i := v])"
proof
  fix g
  note ok = grammar_ok [OF assms(1)]
  obtain bf s where p: "p = (bf, s)" by (cases p)
  have b': "bound_ok sz b n st'"
    using assms(2) by (auto simp: assms(5) bound_ok_def window_set_def)
  show "field_arrays st' g = ((field_arrays st)(f \<mapsto> (the (field_arrays st f))[i := v])) g"
  proof (cases "slot_of b g")
    case None
    then have "g \<noteq> f" using assms(3) by auto
    then show ?thesis
      using None assms(2) b' by (simp add: field_arrays_def bound_ok_def)
  next
    case (Some q)
    obtain bg t where q: "q = (bg, t)" by (cases q)
    have len: "n * s + i < length (host (mem st) bf)"
    proof -
      obtain k where k: "(bf, k) \<in> set (sizes b)" "s < k"
        using slot_of_bound [OF ok assms(3) [unfolded p]] by blast
      have "n * Suc s \<le> n * k" using k(2) by (intro mult_le_mono2) simp
      then show ?thesis using assms(2,4) k(1) by (auto simp: bound_ok_def ac_simps)
    qed
    have same: "bg = bf \<and> n * t + j = n * s + i \<longleftrightarrow> g = f \<and> j = i" if "j < n" for j
      using slot_of_inj [OF ok assms(3), of g] slot_disjoint [OF that assms(4), of t s] assms(3) Some
      by (auto simp: p q)
    have h: "host (mem st') = (host (mem st))(bf := (host (mem st) bf)[n * s + i := v])"
      using assms(4) by (simp add: assms(5) window_set_def slot_window_def p)
    have elem: "host (mem st') bg ! (n * t + j) = (if g = f \<and> j = i then v else host (mem st) bg ! (n * t + j))"
      if "j < n" for j
    proof (cases "bg = bf \<and> n * t + j = n * s + i")
      case True
      then have e: "bg = bf" "n * t + j = n * s + i" by simp_all
      have "g = f \<and> j = i" using same [OF that] e by blast
      moreover have "host (mem st') bg ! (n * t + j) = v" unfolding h e using len by simp
      ultimately show ?thesis by simp
    next
      case False
      then have "\<not> (g = f \<and> j = i)" using same [OF that] by blast
      moreover have "host (mem st') bg ! (n * t + j) = host (mem st) bg ! (n * t + j)"
        using False by (cases "bg = bf") (auto simp: h)
      ultimately show ?thesis by (simp only: if_False)
    qed
    have "field_arrays st' g = Some (map (\<lambda>j. host (mem st') bg ! (n * t + j)) [0..<n])"
      using field_slice_nth [OF ok b'] Some by (simp add: q)
    also have "\<dots> = Some (map (\<lambda>j. if g = f \<and> j = i then v else host (mem st) bg ! (n * t + j)) [0..<n])"
      using elem by simp
    also have "\<dots> = ((field_arrays st)(f \<mapsto> (the (field_arrays st f))[i := v])) g"
      using field_slice_nth [OF ok assms(2), of g bg t] Some assms(4)
      by (auto simp: q nth_list_update intro: nth_equalityI)
    finally show ?thesis .
  qed
qed

text \<open>Witness: the width of the second box.\<close>

theorem field_store_refines_witness:
  "\<exists>st' :: (int, hbuf \<Rightarrow> int list) bound. field_arrays st' = (field_arrays two_boxes)(''fld_node_w'' \<mapsto> [0, 9 :: int])"
proof -
  have "field_arrays two_boxes ''fld_node_w'' = Some [0, 0]"
    using field_slice_nth [OF grammar_ok [OF boxes_grammar] two_boxes_ok boxes_slots_wh(1)]
    by (simp add: two_boxes_host_float upt_rec)
  then show ?thesis
    using field_store_refines [OF boxes_grammar two_boxes_ok boxes_slots_wh(1), of 1 _ 9, OF _ refl] by auto
qed

end
