(* ===== verification/SelMatch.thy ===== *)
theory SelMatch
  imports FlatTree Complex_Main "HOL-Library.Multiset" "HOL-Library.Word"
begin

text \<open>
  The CSS selector engine: how tokenized rules are hashed by their last predicate, how a
  selector is matched against a node of the flattened tree, and how the matching rules are
  applied by increasing specificity.  The three engines of the sources are here: the
  interpreter of \<open>selectors.js\<close>, its flat-array variant of \<open>selectorsGPU.js\<close>, and the OpenCL
  kernel that \<open>CLRunner.js\<close> emits.  The reference is CSS matching over the tree
  (\<open>css\<close>), with the ancestors of a node as an inductive relation.
\<close>

section \<open>Data\<close>

text \<open>
  A selector is an array that alternates predicate objects \<open>{tag, id}\<close> and combinator objects
  \<open>{combinator}\<close>.  Numbers are exact reals; the rounding of doubles is not modelled.
\<close>

datatype ('t, 'i, 'c) item = Pred (itag: 't) (iid: 'i) | Op (combinator: 'c)

type_synonym tok_item = "(nat, nat, nat) item"

datatype jsnum = Num real | NaN | Infinite bool

record 'item rule =
  predicates :: "'item list list"
  declarations :: "(string \<times> jsnum) list"

record hit =
  propList :: nat
  pred :: "tok_item list"
  specificity :: nat
  properties :: "(string \<times> jsnum) list"

text \<open>
  The proxies the engine reads and writes, \<open>data.<field>.get(n)\<close> and \<open>data.<field>.set(n, v)\<close>.
  A field that does not exist reads as \<open>undefined\<close>, which equals no number.
\<close>

type_synonym sel_data = "string \<rightharpoonup> (nat \<Rightarrow> jsnum)"

definition fld :: "sel_data \<Rightarrow> string \<Rightarrow> nat \<Rightarrow> jsnum" where
  "fld d f n = (case d f of Some a \<Rightarrow> a n | None \<Rightarrow> NaN)"

definition idx :: "jsnum \<Rightarrow> nat" where
  "idx x = (case x of Num r \<Rightarrow> nat \<lfloor>r\<rfloor> | _ \<Rightarrow> 0)"

abbreviation par :: "sel_data \<Rightarrow> nat \<Rightarrow> nat" where
  "par d n \<equiv> idx (fld d ''parent'' n)"

abbreviation left_of :: "sel_data \<Rightarrow> nat \<Rightarrow> nat" where
  "left_of d n \<equiv> idx (fld d ''left_siblings'' n)"

text \<open>What a piece of the engine does: it never ends, it throws, or it returns.\<close>

datatype 'a run = Forever | Threw | Done 'a

fun run_bind :: "'a run \<Rightarrow> ('a \<Rightarrow> 'b run) \<Rightarrow> 'b run" where
  "run_bind Forever f = Forever"
| "run_bind Threw f = Threw"
| "run_bind (Done x) f = f x"

fun run_fold :: "('a \<Rightarrow> 's \<Rightarrow> 's run) \<Rightarrow> 'a list \<Rightarrow> 's \<Rightarrow> 's run" where
  "run_fold f [] s = Done s"
| "run_fold f (x # xs) s = run_bind (f x s) (run_fold f xs)"

definition StarTok :: nat where
  "StarTok = 0"

section \<open>Matching one selector\<close>

text \<open>\<open>z\<close> is \<open>NoIdTok\<close>, the token of the empty id.\<close>

definition matchNodeSelectorPredicate :: "nat \<Rightarrow> sel_data \<Rightarrow> nat \<Rightarrow> tok_item \<Rightarrow> bool" where
  "matchNodeSelectorPredicate z d n p = (case p of
     Pred t i \<Rightarrow> (if i \<noteq> z \<and> fld d ''id'' n \<noteq> Num (real i) then False
                 else if t \<noteq> StarTok \<and> fld d ''displayname'' n \<noteq> Num (real t) then False
                 else True)
   | Op c \<Rightarrow> False)"

text \<open>
  The loop of the descendant combinator: \<open>Some None\<close> when the root is passed, \<open>None\<close> when the
  parent links have a cycle that meets no match.
\<close>

partial_function (option) climb :: "nat \<Rightarrow> sel_data \<Rightarrow> tok_item \<Rightarrow> nat \<Rightarrow> nat option option" where
  "climb z d p n =
     (if n = 0 then Some None
      else if matchNodeSelectorPredicate z d (par d n) p then Some (Some (par d n))
      else climb z d p (par d n))"

declare climb.simps [code]

text \<open>
  The combinator loop, from \<open>i = plen - 2\<close> down in steps of two, with \<open>nextNodeIdx\<close> and
  \<open>nextSib\<close>.  The test \<open>i >= 1\<close> fails at the code's \<open>-1\<close> as at 0.
\<close>

function comb_loop :: "nat \<Rightarrow> sel_data \<Rightarrow> tok_item list \<Rightarrow> nat \<Rightarrow> nat \<Rightarrow> nat \<Rightarrow> bool run" where
  "comb_loop z d sel i nextNodeIdx nextSib =
     (if i < 1 then Done True
      else case sel ! i of
        Pred t j \<Rightarrow> Threw
      | Op c \<Rightarrow>
          if c = 0 then
            (case climb z d (sel ! (i - 1)) nextNodeIdx of
               None \<Rightarrow> Forever
             | Some None \<Rightarrow> Done False
             | Some (Some m) \<Rightarrow> comb_loop z d sel (i - 2) m 0)
          else if c = 1 then
            (if nextNodeIdx = 0 then Done False
             else if \<not> matchNodeSelectorPredicate z d (par d nextNodeIdx) (sel ! (i - 1)) then Done False
             else comb_loop z d sel (i - 2) (par d nextNodeIdx) 0)
          else if c = 2 then
            (if left_of d (nextNodeIdx - nextSib) = 0 then Done False
             else if \<not> matchNodeSelectorPredicate z d (nextNodeIdx - (nextSib + 1)) (sel ! (i - 1))
             then Done False
             else comb_loop z d sel (i - 2) nextNodeIdx (nextSib + 1))
          else Threw)"
  by pat_completeness auto
termination by (relation "measure (\<lambda>(z, d, sel, i, n, s). i)") auto

declare comb_loop.simps [simp del]

definition matchNodeSelector :: "nat \<Rightarrow> sel_data \<Rightarrow> nat \<Rightarrow> tok_item list \<Rightarrow> bool run" where
  "matchNodeSelector z d n sel =
     (if \<not> matchNodeSelectorPredicate z d n (sel ! (length sel - 1)) then Done False
      else if 1 < length sel then
        (if n = 0 then Done False else comb_loop z d sel (length sel - 2) n 0)
      else Done True)"

section \<open>CSS matching\<close>

inductive ancestor :: "sel_data \<Rightarrow> nat \<Rightarrow> nat \<Rightarrow> bool" for d where
  parent: "n \<noteq> 0 \<Longrightarrow> ancestor d (par d n) n"
| step: "n \<noteq> 0 \<Longrightarrow> ancestor d m (par d n) \<Longrightarrow> ancestor d m n"

inductive_simps ancestor_rec: "ancestor d m n"
inductive_cases ancestor_root: "ancestor d m 0"

text \<open>The node \<open>m\<close> that the part of a selector left of a combinator must match, for a node \<open>n\<close>.\<close>

definition related :: "sel_data \<Rightarrow> nat \<Rightarrow> nat \<Rightarrow> nat \<Rightarrow> bool" where
  "related d c m n \<longleftrightarrow>
     (if c = 0 then ancestor d m n
      else if c = 1 then n \<noteq> 0 \<and> m = par d n
      else c = 2 \<and> left_of d n \<noteq> 0 \<and> m = n - 1)"

text \<open>A selector read from its last predicate, \<open>css z d n (rev sel)\<close>.\<close>

fun css :: "nat \<Rightarrow> sel_data \<Rightarrow> nat \<Rightarrow> tok_item list \<Rightarrow> bool" where
  "css z d n [p] = matchNodeSelectorPredicate z d n p"
| "css z d n (p # Op c # q # ps) =
     (matchNodeSelectorPredicate z d n p \<and> (\<exists>m. related d c m n \<and> css z d m (q # ps)))"
| "css z d n _ = False"

definition selector_ok :: "tok_item list \<Rightarrow> bool" where
  "selector_ok sel \<longleftrightarrow> odd (length sel) \<and>
     (\<forall>k < length sel. if even k then is_Pred (sel ! k) else \<not> is_Pred (sel ! k) \<and> combinator (sel ! k) < 3)"

text \<open>What the engine needs of the links of a tree with \<open>N\<close> nodes.\<close>

definition links_ok :: "nat \<Rightarrow> sel_data \<Rightarrow> bool" where
  "links_ok N d \<longleftrightarrow> left_of d 0 = 0 \<and>
     (\<forall>n. 0 < n \<and> n < N \<longrightarrow> par d n < n \<and> (left_of d n \<noteq> 0 \<longrightarrow> 1 < n \<and> par d (n - 1) = par d n))"

text \<open>The selectors the greedy search decides: left of a descendant step only descendant steps.\<close>

definition greedy_ok :: "tok_item list \<Rightarrow> bool" where
  "greedy_ok sel \<longleftrightarrow>
     (\<forall>k < length sel. \<forall>j < k. odd j \<and> odd k \<and> combinator (sel ! k) = 0 \<longrightarrow> combinator (sel ! j) = 0)"

lemma links_okD:
  assumes "links_ok N d"
  shows "left_of d 0 = 0" and "0 < n \<Longrightarrow> n < N \<Longrightarrow> par d n < n"
    and "0 < n \<Longrightarrow> n < N \<Longrightarrow> left_of d n \<noteq> 0 \<Longrightarrow> 1 < n \<and> par d (n - 1) = par d n"
  using assms by (auto simp: links_ok_def)

lemma ancestor_less:
  assumes "links_ok N d"
  shows "ancestor d m n \<Longrightarrow> n < N \<Longrightarrow> m < n"
proof (induction rule: ancestor.induct)
  case (parent n)
  then show ?case using links_okD(2) [OF assms] by simp
next
  case (step n m)
  then have "par d n < n" using links_okD(2) [OF assms] by simp
  with step show ?case by simp
qed

lemma ancestor_trans: "ancestor d l n \<Longrightarrow> ancestor d k l \<Longrightarrow> ancestor d k n"
  by (induction rule: ancestor.induct) (auto intro: ancestor.intros)

text \<open>
  The climb ends when parents have smaller indices; it returns the nearest ancestor that
  matches.
\<close>

lemma climb_ends:
  assumes "links_ok N d" and "n < N"
  shows "\<exists>r. climb z d p n = Some r"
  using assms(2)
proof (induction n rule: less_induct)
  case (less n)
  show ?case
  proof (cases "n = 0 \<or> matchNodeSelectorPredicate z d (par d n) p")
    case True
    then show ?thesis by (subst climb.simps) auto
  next
    case False
    with less.prems have "par d n < n" using links_okD(2) [OF assms(1)] by simp
    with less have "\<exists>r. climb z d p (par d n) = Some r" by simp
    with False show ?thesis by (subst climb.simps) simp
  qed
qed

lemma climb_nearest:
  assumes "climb z d p n = Some r"
  shows "\<forall>m. r = Some m \<longrightarrow> ancestor d m n \<and> matchNodeSelectorPredicate z d m p \<and>
    (\<forall>k. ancestor d k n \<and> matchNodeSelectorPredicate z d k p \<longrightarrow> k = m \<or> ancestor d k m)"
  using assms
proof (induction z d p n r rule: climb.raw_induct [rotated -1, consumes 1, case_names 1])
  case (1 climb z d p n r)
  show ?case
  proof (cases "n = 0 \<or> matchNodeSelectorPredicate z d (par d n) p")
    case True
    with 1(2) show ?thesis
      by (subst (2) ancestor_rec) (auto intro: ancestor.parent split: if_splits)
  next
    case False
    with 1(2) have "climb z d p (par d n) = Some r" by simp
    from 1(1) [OF this] False show ?thesis
      by (subst (2) ancestor_rec) (auto intro: ancestor.step)
  qed
qed

lemma climb_none:
  assumes "climb z d p n = Some r"
  shows "r = None \<longrightarrow> (\<forall>k. ancestor d k n \<longrightarrow> \<not> matchNodeSelectorPredicate z d k p)"
  using assms
proof (induction z d p n r rule: climb.raw_induct [rotated -1, consumes 1, case_names 1])
  case (1 climb z d p n r)
  show ?case
  proof (cases "n = 0 \<or> matchNodeSelectorPredicate z d (par d n) p")
    case True
    with 1(2) show ?thesis by (auto elim: ancestor_root split: if_splits)
  next
    case False
    with 1(2) have "climb z d p (par d n) = Some r" by simp
    from 1(1) [OF this] False show ?thesis
      by (subst ancestor_rec) auto
  qed
qed

lemma selector_okD:
  assumes "selector_ok sel" and "odd i" and "i < length sel"
  shows "\<exists>t j c. sel ! (i - 1) = Pred t j \<and> sel ! i = Op c \<and> c < 3"
proof -
  have "is_Pred (sel ! (i - 1))" "\<not> is_Pred (sel ! i) \<and> combinator (sel ! i) < 3"
    using assms by (auto simp: selector_ok_def)
  then show ?thesis by (cases "sel ! (i - 1)"; cases "sel ! i") auto
qed

lemma rev_take_odd:
  assumes "odd i" and "i \<le> length sel"
  shows "rev (take i sel) = sel ! (i - 1) # rev (take (i - 1) sel)"
  using assms take_Suc_conv_app_nth [of "i - 1" sel] by (cases i) auto

lemma css_take:
  assumes "selector_ok sel" and "odd i" and "i \<le> length sel"
  shows "css z d n (rev (take i sel)) \<longleftrightarrow> matchNodeSelectorPredicate z d n (sel ! (i - 1)) \<and>
    (i = 1 \<or> (\<exists>m. related d (combinator (sel ! (i - 2))) m n \<and> css z d m (rev (take (i - 2) sel))))"
proof (cases "i = 1")
  case True
  with assms(3) show ?thesis by (cases sel) auto
next
  case False
  with assms(2) have i: "odd (i - 2)" "3 \<le> i" by (auto elim!: oddE)
  have "i - 2 < length sel" using assms(3) i(2) by linarith
  from selector_okD [OF assms(1) i(1) this] obtain c where c: "sel ! (i - 2) = Op c" by blast
  have "rev (take (i - 1) sel) = sel ! (i - 2) # rev (take (i - 2) sel)"
    using i assms(3) take_Suc_conv_app_nth [of "i - 2" sel] by (simp add: Suc_diff_Suc numeral_2_eq_2)
  moreover have "rev (take i sel) = sel ! (i - 1) # rev (take (i - 1) sel)"
    using assms by (simp add: rev_take_odd)
  moreover have "rev (take (i - 2) sel) = sel ! (i - 3) # rev (take (i - 3) sel)"
    using rev_take_odd [of "i - 2" sel] i assms(3) by simp
  ultimately show ?thesis using False c by simp
qed

lemma ancestor_sibling: "par d n = par d k \<Longrightarrow> (n = 0 \<longleftrightarrow> k = 0) \<Longrightarrow> ancestor d m n = ancestor d m k"
  by (cases "n = 0") (auto simp: ancestor_rec [of d m n] ancestor_rec [of d m k] elim: ancestor_root)

text \<open>
  The state of the search: the node reached is \<open>nextNodeIdx - nextSib\<close>, a sibling of
  \<open>nextNodeIdx\<close>.
\<close>

definition search_ok :: "nat \<Rightarrow> sel_data \<Rightarrow> nat \<Rightarrow> nat \<Rightarrow> bool" where
  "search_ok N d n s \<longleftrightarrow> n < N \<and> s \<le> n \<and> par d (n - s) = par d n \<and> (n - s = 0 \<longleftrightarrow> n = 0)"

lemma search_okI: "n < N \<Longrightarrow> search_ok N d n 0"
  by (simp add: search_ok_def)

lemma search_ok_sibling:
  assumes "links_ok N d" and "search_ok N d n s" and "left_of d (n - s) \<noteq> 0"
  shows "search_ok N d n (s + 1)" and "n - (s + 1) = (n - s) - 1" and "n \<noteq> 0"
proof -
  show nz: "n \<noteq> 0" using assms links_okD(1) [OF assms(1)] by (auto simp: search_ok_def intro: gr0I)
  have "0 < n - s" "n - s < N" using assms(2) nz by (auto simp: search_ok_def)
  with links_okD(3) [OF assms(1) _ _ assms(3)] assms(2) show "search_ok N d n (s + 1)"
    by (auto simp: search_ok_def)
qed simp

lemma search_ok_parent:
  assumes "links_ok N d" and "search_ok N d n s" and "n \<noteq> 0"
  shows "search_ok N d (par d n) 0"
  using assms links_okD(2) [OF assms(1), of n] by (auto simp: search_ok_def)

lemma search_ok_ancestor:
  assumes "links_ok N d" and "search_ok N d n s" and "ancestor d m n"
  shows "search_ok N d m 0"
  using assms ancestor_less [OF assms(1,3)] by (auto simp: search_ok_def)

text \<open>
  One turn of the loop: either no node in the combinator's relation matches the predicate, and
  the answer is \<open>false\<close>, or the search moves to one that does; for a descendant step every
  other candidate is further up.
\<close>

lemma comb_step:
  fixes z :: nat
  assumes "links_ok N d" and "selector_ok sel" and "search_ok N d n s" and "odd i" and "i < length sel"
  defines "cand \<equiv> \<lambda>m. related d (combinator (sel ! i)) m (n - s) \<and> matchNodeSelectorPredicate z d m (sel ! (i - 1))"
  shows "comb_loop z d sel i n s = Done False \<and> (\<forall>m. \<not> cand m) \<or>
    (\<exists>n' s'. search_ok N d n' s' \<and> cand (n' - s') \<and>
       (\<forall>m. cand m \<longrightarrow> m = n' - s' \<or> combinator (sel ! i) = 0 \<and> ancestor d m (n' - s')) \<and>
       comb_loop z d sel i n s = comb_loop z d sel (i - 2) n' s')"
proof -
  obtain c where c: "sel ! i = Op c" "c < 3"
    using selector_okD [OF assms(2,4,5)] by auto
  have i: "\<not> i < 1" using assms(4) by (cases i) auto
  have sib: "ancestor d m (n - s) = ancestor d m n" for m
    using assms(3) by (intro ancestor_sibling) (auto simp: search_ok_def)
  consider "c = 0" | "c = 1" | "c = 2" using c(2) by linarith
  then show ?thesis
  proof cases
    case 1
    have cand: "cand m \<longleftrightarrow> ancestor d m n \<and> matchNodeSelectorPredicate z d m (sel ! (i - 1))" for m
      using 1 c by (simp add: cand_def related_def sib)
    have "n < N" using assms(3) by (simp add: search_ok_def)
    from climb_ends [OF assms(1) this] obtain r where r: "climb z d (sel ! (i - 1)) n = Some r" by blast
    show ?thesis
    proof (cases r)
      case None
      then show ?thesis using climb_none [OF r] r i c 1
        by (subst comb_loop.simps) (simp add: cand)
    next
      case (Some m)
      from climb_nearest [OF r] Some
      have m: "cand m" "\<forall>k. cand k \<longrightarrow> k = m \<or> ancestor d k m"
        by (simp_all add: cand)
      have "search_ok N d m 0"
        using search_ok_ancestor [OF assms(1,3)] m(1) by (simp add: cand)
      moreover have "comb_loop z d sel i n s = comb_loop z d sel (i - 2) m 0"
        using r i c 1 Some by (subst comb_loop.simps) simp
      ultimately show ?thesis using m 1 c by (metis diff_zero item.sel(3))
    qed
  next
    case 2
    have cand: "cand m \<longleftrightarrow> n \<noteq> 0 \<and> m = par d n \<and> matchNodeSelectorPredicate z d m (sel ! (i - 1))" for m
      using 2 c assms(3) by (auto simp: cand_def related_def search_ok_def)
    show ?thesis
    proof (cases "n \<noteq> 0 \<and> matchNodeSelectorPredicate z d (par d n) (sel ! (i - 1))")
      case True
      then have "comb_loop z d sel i n s = comb_loop z d sel (i - 2) (par d n) 0"
        using i c 2 by (subst comb_loop.simps) simp
      moreover have "search_ok N d (par d n) 0"
        using True search_ok_parent [OF assms(1,3)] by simp
      ultimately show ?thesis using True by (metis cand diff_zero)
    next
      case False
      then have "comb_loop z d sel i n s = Done False"
        using i c 2 by (subst comb_loop.simps) auto
      with False show ?thesis by (auto simp: cand)
    qed
  next
    case 3
    have cand: "cand m \<longleftrightarrow> left_of d (n - s) \<noteq> 0 \<and> m = n - (s + 1) \<and>
        matchNodeSelectorPredicate z d m (sel ! (i - 1))" for m
      using 3 c by (auto simp: cand_def related_def)
    show ?thesis
    proof (cases "left_of d (n - s) \<noteq> 0 \<and> matchNodeSelectorPredicate z d (n - (s + 1)) (sel ! (i - 1))")
      case True
      then have "comb_loop z d sel i n s = comb_loop z d sel (i - 2) n (s + 1)"
        using i c 3 by (subst comb_loop.simps) simp
      moreover have "search_ok N d n (s + 1)"
        using True search_ok_sibling(1) [OF assms(1,3)] by simp
      ultimately show ?thesis using True by (metis cand)
    next
      case False
      then have "comb_loop z d sel i n s = Done False"
        using i c 3 by (subst comb_loop.simps) auto
      with False show ?thesis by (auto simp: cand)
    qed
  qed
qed

lemma odd_minus_two: "odd i \<Longrightarrow> i \<noteq> 1 \<Longrightarrow> odd (i - 2) \<and> i - 2 < (i :: nat)"
  by (auto elim!: oddE)

text \<open>The search always ends with an answer: no endless climb and no unknown combinator.\<close>

lemma comb_loop_zero [simp]: "comb_loop z d sel 0 n s = Done True"
  by (subst comb_loop.simps) simp

lemma comb_loop_returns:
  assumes "links_ok N d" and "selector_ok sel"
  shows "search_ok N d n s \<Longrightarrow> odd i \<Longrightarrow> i < length sel \<Longrightarrow> \<exists>b. comb_loop z d sel i n s = Done b"
proof (induction i arbitrary: n s rule: less_induct)
  case (less i)
  from comb_step [OF assms less.prems, of z] consider "comb_loop z d sel i n s = Done False"
    | n' s' where "search_ok N d n' s'" "comb_loop z d sel i n s = comb_loop z d sel (i - 2) n' s'"
    by blast
  then show ?case
  proof cases
    case 2
    then show ?thesis
      using less.IH [of "i - 2" n' s'] odd_minus_two [of i] less.prems by (cases "i = 1") auto
  qed blast
qed

lemma comb_loop_sound:
  assumes "links_ok N d" and "selector_ok sel"
  shows "search_ok N d n s \<Longrightarrow> odd i \<Longrightarrow> i < length sel \<Longrightarrow> comb_loop z d sel i n s = Done True \<Longrightarrow>
    \<exists>m. related d (combinator (sel ! i)) m (n - s) \<and> css z d m (rev (take i sel))"
proof (induction i arbitrary: n s rule: less_induct)
  case (less i)
  from comb_step [OF assms less.prems(1-3), of z] less.prems(4) obtain n' s' where
    r: "search_ok N d n' s'" "related d (combinator (sel ! i)) (n' - s') (n - s)"
      "matchNodeSelectorPredicate z d (n' - s') (sel ! (i - 1))" "comb_loop z d sel (i - 2) n' s' = Done True"
    by auto
  have "i = 1 \<or> (\<exists>m. related d (combinator (sel ! (i - 2))) m (n' - s') \<and> css z d m (rev (take (i - 2) sel)))"
    using less.IH [of "i - 2" n' s'] odd_minus_two [of i] less.prems r by auto
  with r css_take [OF assms(2) less.prems(2) less_imp_le [OF less.prems(3)]] show ?case by blast
qed

lemma greedy_okD: "greedy_ok sel \<Longrightarrow> k < length sel \<Longrightarrow> odd k \<Longrightarrow> odd j \<Longrightarrow> j < k \<Longrightarrow>
    combinator (sel ! k) = 0 \<Longrightarrow> combinator (sel ! j) = 0"
  by (simp add: greedy_ok_def)

lemma comb_loop_complete:
  assumes "links_ok N d" and "selector_ok sel" and "greedy_ok sel"
  shows "search_ok N d n s \<Longrightarrow> odd i \<Longrightarrow> i < length sel \<Longrightarrow>
    related d (combinator (sel ! i)) m (n - s) \<Longrightarrow> css z d m (rev (take i sel)) \<Longrightarrow>
    comb_loop z d sel i n s = Done True"
proof (induction i arbitrary: n s m rule: less_induct)
  case (less i)
  have m: "matchNodeSelectorPredicate z d m (sel ! (i - 1))"
    using less.prems css_take [OF assms(2) less.prems(2) less_imp_le [OF less.prems(3)]] by blast
  with comb_step [OF assms(1,2) less.prems(1-3), of z] less.prems(4) obtain n' s' where
    r: "search_ok N d n' s'" "comb_loop z d sel i n s = comb_loop z d sel (i - 2) n' s'"
      "m = n' - s' \<or> combinator (sel ! i) = 0 \<and> ancestor d m (n' - s')"
    by blast
  show ?case
  proof (cases "i = 1")
    case False
    from css_take [OF assms(2) less.prems(2) less_imp_le [OF less.prems(3)]] less.prems(5) False obtain k where
      k: "related d (combinator (sel ! (i - 2))) k m" "css z d k (rev (take (i - 2) sel))" by blast
    have "related d (combinator (sel ! (i - 2))) k (n' - s')"
      using r(3)
    proof
      assume "combinator (sel ! i) = 0 \<and> ancestor d m (n' - s')"
      moreover from this have "combinator (sel ! (i - 2)) = 0"
        using greedy_okD [OF assms(3), of i "i - 2"] odd_minus_two [of i] less.prems False by simp
      ultimately show ?thesis using k(1) by (auto simp: related_def intro: ancestor_trans)
    qed (use k in simp)
    then show ?thesis
      using less.IH [of "i - 2" n' s'] odd_minus_two [of i] less.prems r k False by simp
  qed (use r in simp)
qed

lemma css_rev:
  assumes "selector_ok sel"
  shows "css z d n (rev sel) \<longleftrightarrow> matchNodeSelectorPredicate z d n (sel ! (length sel - 1)) \<and>
    (length sel = 1 \<or>
     (\<exists>m. related d (combinator (sel ! (length sel - 2))) m n \<and> css z d m (rev (take (length sel - 2) sel))))"
  using css_take [OF assms, of "length sel" z d n] assms by (simp add: selector_ok_def)

lemma related_root: "links_ok N d \<Longrightarrow> \<not> related d c m 0"
  by (auto simp: related_def links_ok_def elim: ancestor_root)

lemma selector_len:
  assumes "selector_ok sel" and "length sel \<noteq> 1"
  shows "odd (length sel - 2) \<and> length sel - 2 < length sel \<and> 1 < length sel"
  using assms by (auto simp: selector_ok_def elim!: oddE)

lemma match_selector_returns:
  assumes "links_ok N d" and "selector_ok sel" and "n < N"
  shows "\<exists>b. matchNodeSelector z d n sel = Done b"
  using comb_loop_returns [OF assms(1,2) search_okI [OF assms(3)], of "length sel - 2" z]
    selector_len [OF assms(2)]
  by (cases "length sel = 1") (auto simp: matchNodeSelector_def)

lemma match_selector_sound:
  assumes "links_ok N d" and "selector_ok sel" and "n < N" and "matchNodeSelector z d n sel = Done True"
  shows "css z d n (rev sel)"
proof (cases "length sel = 1")
  case True
  with assms(4) show ?thesis by (simp add: css_rev [OF assms(2)] matchNodeSelector_def split: if_splits)
next
  case False
  note len = selector_len [OF assms(2) False]
  with assms(4) have m: "matchNodeSelectorPredicate z d n (sel ! (length sel - 1))"
    "comb_loop z d sel (length sel - 2) n 0 = Done True"
    by (auto simp: matchNodeSelector_def split: if_splits)
  with comb_loop_sound [OF assms(1,2) search_okI [OF assms(3)] _ _ m(2)] len
  show ?thesis unfolding css_rev [OF assms(2)] by simp
qed

lemma match_selector_complete:
  assumes "links_ok N d" and "selector_ok sel" and "n < N" and "greedy_ok sel" and "css z d n (rev sel)"
  shows "matchNodeSelector z d n sel = Done True"
proof (cases "length sel = 1")
  case True
  with assms(5) show ?thesis by (simp add: css_rev [OF assms(2)] matchNodeSelector_def)
next
  case False
  with assms(5) obtain m where m: "related d (combinator (sel ! (length sel - 2))) m n"
    "css z d m (rev (take (length sel - 2) sel))" "matchNodeSelectorPredicate z d n (sel ! (length sel - 1))"
    by (auto simp: css_rev [OF assms(2)])
  then have "n \<noteq> 0" using related_root [OF assms(1)] by (cases "n = 0") auto
  with m comb_loop_complete [OF assms(1,2,4) search_okI [OF assms(3)], of "length sel - 2" m z]
    selector_len [OF assms(2) False]
  show ?thesis by (simp add: matchNodeSelector_def)
qed

section \<open>Hashing the rules\<close>

definition sel_specificity :: "nat \<Rightarrow> tok_item list \<Rightarrow> nat \<Rightarrow> nat" where
  "sel_specificity z sel line =
     (let ps = map (\<lambda>k. sel ! (2 * k)) [0..<(length sel + 1) div 2];
          a = length (filter (\<lambda>p. iid p \<noteq> z) ps);
          b = 0;
          c = length (filter (\<lambda>p. itag p \<noteq> StarTok) ps)
      in a * 2 ^ 30 + b * 2 ^ 24 + c * 2 ^ 12 + line)"

definition addSel :: "nat \<Rightarrow> hit \<Rightarrow> hit list dict \<Rightarrow> hit list dict" where
  "addSel lookup h hsh =
     (case map_of hsh lookup of
        None \<Rightarrow> obj_put lookup [h] hsh
      | Some arr \<Rightarrow> obj_put lookup (arr @ [h]) hsh)"

record hashes =
  idHash :: "hit list dict"
  tagHash :: "hit list dict"
  star :: "hit list"

definition hash_pred :: "nat \<Rightarrow> nat \<Rightarrow> tok_item rule \<Rightarrow> tok_item list \<Rightarrow> hashes \<Rightarrow> hashes" where
  "hash_pred z i sel p H =
     (let lastP = p ! (length p - 1);
          h = \<lparr>propList = i, pred = p, specificity = sel_specificity z p i, properties = declarations sel\<rparr>
      in if iid lastP \<noteq> z then H\<lparr>idHash := addSel (iid lastP) h (idHash H)\<rparr>
         else if itag lastP \<noteq> StarTok then H\<lparr>tagHash := addSel (itag lastP) h (tagHash H)\<rparr>
         else H\<lparr>star := star H @ [h]\<rparr>)"

fun hash_rules :: "nat \<Rightarrow> nat \<Rightarrow> tok_item rule list \<Rightarrow> hashes \<Rightarrow> hashes" where
  "hash_rules z i [] H = H"
| "hash_rules z i (sel # sels) H =
     hash_rules z (i + 1) sels (foldl (\<lambda>H p. hash_pred z i sel p H) H (predicates sel))"

definition hash :: "nat \<Rightarrow> tok_item rule list \<Rightarrow> hashes" where
  "hash z selsTok =
     (let H = hash_rules z 0 selsTok \<lparr>idHash = [], tagHash = [], star = []\<rparr>
      in H\<lparr>idHash := map (\<lambda>(k, hs). (k, sort_key specificity hs)) (idHash H),
           tagHash := map (\<lambda>(k, hs). (k, sort_key specificity hs)) (tagHash H)\<rparr>)"

section \<open>Applying the rules at a node\<close>

definition apply_one :: "nat \<Rightarrow> string \<times> jsnum \<Rightarrow> sel_data \<Rightarrow> sel_data run" where
  "apply_one n p d = (case d (fst p) of None \<Rightarrow> Threw | Some a \<Rightarrow> Done (d(fst p \<mapsto> a(n := snd p))))"

definition applyProperties :: "nat \<Rightarrow> (string \<times> jsnum) list \<Rightarrow> sel_data \<Rightarrow> sel_data run" where
  "applyProperties n ps d = run_fold (apply_one n) ps d"

definition tok_of :: "jsnum \<Rightarrow> nat option" where
  "tok_of x = (case x of Num r \<Rightarrow> if r = real (nat \<lfloor>r\<rfloor>) then Some (nat \<lfloor>r\<rfloor>) else None | _ \<Rightarrow> None)"

definition candidates :: "'h list dict \<Rightarrow> jsnum \<Rightarrow> 'h list" where
  "candidates h x =
     (case tok_of x of None \<Rightarrow> [] | Some k \<Rightarrow> (case map_of h k of None \<Rightarrow> [] | Some hs \<Rightarrow> hs))"

fun merge_loop :: "('h \<Rightarrow> nat) \<Rightarrow> ('h \<Rightarrow> 's \<Rightarrow> 's run) \<Rightarrow> 'h list \<Rightarrow> 'h list \<Rightarrow> 's \<Rightarrow> 's run" where
  "merge_loop spec att [] [] d = Done d"
| "merge_loop spec att (i # idl) [] d = run_bind (att i d) (merge_loop spec att idl [])"
| "merge_loop spec att [] (t # tagl) d = run_bind (att t d) (merge_loop spec att [] tagl)"
| "merge_loop spec att (i # idl) (t # tagl) d =
     (if spec i < spec t then run_bind (att i d) (merge_loop spec att idl (t # tagl))
      else run_bind (att t d) (merge_loop spec att (i # idl) tagl))"

definition try_hit :: "nat \<Rightarrow> nat \<Rightarrow> hit \<Rightarrow> sel_data \<Rightarrow> sel_data run" where
  "try_hit z n h d =
     run_bind (matchNodeSelector z d n (pred h))
       (\<lambda>b. if b then applyProperties n (properties h) d else Done d)"

definition matchNode :: "nat \<Rightarrow> hashes \<Rightarrow> nat \<Rightarrow> sel_data \<Rightarrow> sel_data run" where
  "matchNode z H n d =
     (let idl = candidates (idHash H) (fld d ''id'' n);
          tagl = candidates (tagHash H) (fld d ''displayname'' n)
      in merge_loop specificity (try_hit z n) idl tagl d)"

definition level_nodes :: "level list \<Rightarrow> nat list" where
  "level_nodes lv = concat (map (\<lambda>l. [start_idx l..<start_idx l + llength l]) lv)"

definition selectors :: "nat \<Rightarrow> tok_item rule list \<Rightarrow> level list \<Rightarrow> sel_data \<Rightarrow> sel_data run" where
  "selectors z selsTok lv d = run_fold (matchNode z (hash z selsTok)) (level_nodes lv) d"

section \<open>What the engine applies\<close>

text \<open>The rules of a sheet, one per selector, in the order of the source.\<close>

fun hits_from :: "nat \<Rightarrow> nat \<Rightarrow> tok_item rule list \<Rightarrow> hit list" where
  "hits_from z i [] = []"
| "hits_from z i (sel # sels) =
     map (\<lambda>p. \<lparr>propList = i, pred = p, specificity = sel_specificity z p i, properties = declarations sel\<rparr>)
       (predicates sel) @ hits_from z (i + 1) sels"

definition last_pred :: "hit \<Rightarrow> tok_item" where
  "last_pred h = pred h ! (length (pred h) - 1)"

definition on_id :: "nat \<Rightarrow> hit \<Rightarrow> bool" where
  "on_id z h \<longleftrightarrow> iid (last_pred h) \<noteq> z"

definition on_tag :: "nat \<Rightarrow> hit \<Rightarrow> bool" where
  "on_tag z h \<longleftrightarrow> iid (last_pred h) = z \<and> itag (last_pred h) \<noteq> StarTok"

definition on_star :: "nat \<Rightarrow> hit \<Rightarrow> bool" where
  "on_star z h \<longleftrightarrow> iid (last_pred h) = z \<and> itag (last_pred h) = StarTok"

definition place :: "nat \<Rightarrow> hit \<Rightarrow> hashes \<Rightarrow> hashes" where
  "place z h H =
     (if on_id z h then H\<lparr>idHash := addSel (iid (last_pred h)) h (idHash H)\<rparr>
      else if on_tag z h then H\<lparr>tagHash := addSel (itag (last_pred h)) h (tagHash H)\<rparr>
      else H\<lparr>star := star H @ [h]\<rparr>)"

lemma hash_pred_place: "hash_pred z i sel p H = place z
    \<lparr>propList = i, pred = p, specificity = sel_specificity z p i, properties = declarations sel\<rparr> H"
  by (simp add: hash_pred_def place_def Let_def last_pred_def on_id_def on_tag_def)

lemma hash_rules_place: "hash_rules z i sels H = foldl (\<lambda>H h. place z h H) H (hits_from z i sels)"
  by (induction z i sels H rule: hash_rules.induct) (simp_all add: hash_pred_place foldl_map)

text \<open>A bucket of a hash: absent while empty.\<close>

definition bucket :: "hit list \<Rightarrow> hit list option" where
  "bucket hs = (if hs = [] then None else Some hs)"

lemma addSel_bucket:
  assumes "obj_keys_sorted H" and "map_of H k = bucket hs"
  shows "map_of (addSel k h H) = (map_of H)(k \<mapsto> hs @ [h]) \<and> obj_keys_sorted (addSel k h H)"
  using assms indexed.get_put [OF assms(1)] indexed.ok_put [OF assms(1)]
  by (cases "hs = []") (simp_all add: addSel_def bucket_def)

definition hashed :: "nat \<Rightarrow> hit list \<Rightarrow> hashes \<Rightarrow> bool" where
  "hashed z hs H \<longleftrightarrow> obj_keys_sorted (idHash H) \<and> obj_keys_sorted (tagHash H) \<and>
     (\<forall>k. map_of (idHash H) k = bucket (filter (\<lambda>h. on_id z h \<and> iid (last_pred h) = k) hs)) \<and>
     (\<forall>k. map_of (tagHash H) k = bucket (filter (\<lambda>h. on_tag z h \<and> itag (last_pred h) = k) hs)) \<and>
     star H = filter (on_star z) hs"

lemma place_hashed:
  assumes "hashed z hs H"
  shows "hashed z (hs @ [h]) (place z h H)"
proof -
  have i: "map_of (addSel (iid (last_pred h)) h (idHash H)) =
      (map_of (idHash H))(iid (last_pred h) \<mapsto> filter (\<lambda>g. on_id z g \<and> iid (last_pred g) = iid (last_pred h)) hs @ [h]) \<and>
      obj_keys_sorted (addSel (iid (last_pred h)) h (idHash H))"
    using assms by (intro addSel_bucket) (auto simp: hashed_def)
  have t: "map_of (addSel (itag (last_pred h)) h (tagHash H)) =
      (map_of (tagHash H))(itag (last_pred h) \<mapsto> filter (\<lambda>g. on_tag z g \<and> itag (last_pred g) = itag (last_pred h)) hs @ [h]) \<and>
      obj_keys_sorted (addSel (itag (last_pred h)) h (tagHash H))"
    using assms by (intro addSel_bucket) (auto simp: hashed_def)
  consider "on_id z h" | "on_tag z h" "\<not> on_id z h" | "on_star z h" "\<not> on_id z h" "\<not> on_tag z h"
    by (auto simp: on_id_def on_tag_def on_star_def)
  then show ?thesis
  proof cases
    case 1
    then have "\<not> on_tag z h" "\<not> on_star z h" by (auto simp: on_id_def on_tag_def on_star_def)
    with 1 i assms show ?thesis by (auto simp: hashed_def place_def bucket_def)
  next
    case 2
    then have "\<not> on_star z h" by (auto simp: on_id_def on_tag_def on_star_def)
    with 2 t assms show ?thesis by (auto simp: hashed_def place_def bucket_def)
  next
    case 3
    with assms show ?thesis by (auto simp: hashed_def place_def bucket_def)
  qed
qed

lemma hash_rules_hashed: "hashed z (hits_from z 0 sels) (hash_rules z 0 sels \<lparr>idHash = [], tagHash = [], star = []\<rparr>)"
proof -
  have "hashed z hs (foldl (\<lambda>H h. place z h H) \<lparr>idHash = [], tagHash = [], star = []\<rparr> hs)" for hs
    by (induction hs rule: rev_induct)
      (auto simp: place_hashed hashed_def [of _ "[]"] bucket_def obj_keys_sorted_def)
  then show ?thesis by (simp add: hash_rules_place)
qed

lemma map_of_values: "map_of (map (\<lambda>(k, v). (k, f v)) xs) k = map_option f (map_of xs k)"
  by (induction xs) auto

lemma candidates_id:
  "candidates (idHash (hash z sels)) x =
     (case tok_of x of None \<Rightarrow> []
      | Some k \<Rightarrow> sort_key specificity (filter (\<lambda>h. on_id z h \<and> iid (last_pred h) = k) (hits_from z 0 sels)))"
  using hash_rules_hashed [of z sels]
  by (auto simp: candidates_def hash_def Let_def map_of_values hashed_def bucket_def split: option.splits)

lemma candidates_tag:
  "candidates (tagHash (hash z sels)) x =
     (case tok_of x of None \<Rightarrow> []
      | Some k \<Rightarrow> sort_key specificity (filter (\<lambda>h. on_tag z h \<and> itag (last_pred h) = k) (hits_from z 0 sels)))"
  using hash_rules_hashed [of z sels]
  by (auto simp: candidates_def hash_def Let_def map_of_values hashed_def bucket_def split: option.splits)

lemma hash_star: "star (hash z sels) = filter (on_star z) (hits_from z 0 sels)"
  using hash_rules_hashed [of z sels] by (simp add: hash_def Let_def hashed_def)

text \<open>The order of the loop, apart from what it does at each rule.\<close>

fun merged :: "('h \<Rightarrow> 'k::linorder) \<Rightarrow> 'h list \<Rightarrow> 'h list \<Rightarrow> 'h list" where
  "merged spec [] ts = ts"
| "merged spec us [] = us"
| "merged spec (i # us) (t # ts) =
     (if spec i < spec t then i # merged spec us (t # ts) else t # merged spec (i # us) ts)"

lemma merged_Nil [simp]: "merged spec us [] = us"
  by (cases us) auto

lemma mset_merged: "mset (merged spec us ts) = mset us + mset ts"
  by (induction spec us ts rule: merged.induct) auto

lemma set_merged [simp]: "set (merged spec us ts) = set us \<union> set ts"
  by (metis mset_merged set_mset_mset set_mset_union)

lemma sorted_merged:
  "sorted (map spec us) \<Longrightarrow> sorted (map spec ts) \<Longrightarrow> sorted (map spec (merged spec us ts))"
  by (induction spec us ts rule: merged.induct) auto

lemma merge_loop_merged: "merge_loop spec att us ts d = run_fold att (merged spec us ts) d"
  by (induction spec att us ts d rule: merge_loop.induct)
     (auto simp: fun_eq_iff intro!: arg_cong2 [where f = run_bind])

text \<open>Rules may not set the fields that hold the tree itself.\<close>

definition tree_fields :: "string set" where
  "tree_fields = {''id'', ''displayname'', ''parent'', ''left_siblings''}"

definition same_tree :: "sel_data \<Rightarrow> sel_data \<Rightarrow> bool" where
  "same_tree d d' \<longleftrightarrow> (\<forall>f \<in> tree_fields. fld d' f = fld d f)"

definition hit_ok :: "string set \<Rightarrow> hit \<Rightarrow> bool" where
  "hit_ok F h \<longleftrightarrow> selector_ok (pred h) \<and> fst ` set (properties h) \<subseteq> F - tree_fields"

definition rules_ok :: "string set \<Rightarrow> tok_item rule list \<Rightarrow> bool" where
  "rules_ok F sels \<longleftrightarrow> (\<forall>sel \<in> set sels. (\<forall>p \<in> set (predicates sel). selector_ok p) \<and>
     fst ` set (declarations sel) \<subseteq> F - tree_fields)"

lemma rules_ok_hits: "rules_ok F sels \<Longrightarrow> h \<in> set (hits_from z i sels) \<Longrightarrow> hit_ok F h"
proof (induction z i sels rule: hits_from.induct)
  case (2 z i sel sels)
  show ?case
  proof (cases "h \<in> set (hits_from z (i + 1) sels)")
    case False
    with 2(3) obtain p where "p \<in> set (predicates sel)" "pred h = p" "properties h = declarations sel"
      by auto
    with 2(2) show ?thesis by (simp add: rules_ok_def hit_ok_def)
  qed (use 2 in \<open>simp add: rules_ok_def\<close>)
qed simp

lemma same_treeD:
  assumes "same_tree d d'"
  shows "fld d' ''id'' = fld d ''id''" and "fld d' ''displayname'' = fld d ''displayname''"
    and "fld d' ''parent'' = fld d ''parent''" and "fld d' ''left_siblings'' = fld d ''left_siblings''"
  using assms by (simp_all add: same_tree_def tree_fields_def)

lemma same_tree_predicate:
  "same_tree d d' \<Longrightarrow> matchNodeSelectorPredicate z d' n p = matchNodeSelectorPredicate z d n p"
  by (simp add: matchNodeSelectorPredicate_def same_treeD split: item.split)

lemma same_tree_climb_Some:
  assumes "climb z d p n = Some r"
  shows "same_tree d d' \<longrightarrow> climb z d' p n = Some r"
  using assms
proof (induction z d p n r rule: climb.raw_induct [rotated -1, consumes 1, case_names 1])
  case (1 climb z d p n r)
  show ?case
  proof
    assume d: "same_tree d d'"
    show "SelMatch.climb z d' p n = Some r"
      using 1 d by (subst climb.simps) (auto simp: same_tree_predicate same_treeD split: if_splits)
  qed
qed

lemma same_tree_sym: "same_tree d d' \<Longrightarrow> same_tree d' d"
  by (simp add: same_tree_def)

lemma same_tree_trans: "same_tree d d' \<Longrightarrow> same_tree d' d'' \<Longrightarrow> same_tree d d''"
  by (simp add: same_tree_def)

lemma same_tree_climb: "same_tree d d' \<Longrightarrow> climb z d' p n = climb z d p n"
  using same_tree_climb_Some [of z d p n _ d'] same_tree_climb_Some [of z d' p n _ d] same_tree_sym [of d d']
  by (cases "climb z d p n"; cases "climb z d' p n") auto

lemma same_tree_comb:
  "same_tree d d' \<Longrightarrow> comb_loop z d' sel i n s = comb_loop z d sel i n s"
proof (induction i arbitrary: n s rule: less_induct)
  case (less i)
  then show ?case
    by (subst (1 2) comb_loop.simps)
      (auto simp: same_tree_climb same_tree_predicate same_treeD split: item.split option.split)
qed

lemma same_tree_match: "same_tree d d' \<Longrightarrow> matchNodeSelector z d' n sel = matchNodeSelector z d n sel"
  by (simp add: matchNodeSelector_def same_tree_comb same_tree_predicate)

lemma same_tree_links: "same_tree d d' \<Longrightarrow> links_ok N d' = links_ok N d"
  by (simp add: links_ok_def same_treeD)

definition put_prop :: "nat \<Rightarrow> string \<times> jsnum \<Rightarrow> sel_data \<Rightarrow> sel_data" where
  "put_prop n p d = d(fst p := map_option (\<lambda>a. a(n := snd p)) (d (fst p)))"

definition put_props :: "nat \<Rightarrow> (string \<times> jsnum) list \<Rightarrow> sel_data \<Rightarrow> sel_data" where
  "put_props n ps d = fold (put_prop n) ps d"

definition put_hits :: "nat \<Rightarrow> hit list \<Rightarrow> sel_data \<Rightarrow> sel_data" where
  "put_hits n hs d = fold (\<lambda>h. put_props n (properties h)) hs d"

lemma dom_put_prop [simp]: "dom (put_prop n p d) = dom d"
  by (auto simp: put_prop_def split: if_splits)

lemma dom_put_props [simp]: "dom (put_props n ps d) = dom d"
  by (induction ps arbitrary: d) (simp_all add: put_props_def)

lemma fld_put_prop: "fst p \<in> dom d \<Longrightarrow>
    fld (put_prop n p d) f m = (if f = fst p \<and> m = n then snd p else fld d f m)"
  by (auto simp: put_prop_def fld_def split: option.split)

lemma fld_put_props:
  "fst ` set ps \<subseteq> dom d \<Longrightarrow> fld (put_props n ps d) f m =
     (if m = n then (case map_of (rev ps) f of Some v \<Rightarrow> v | None \<Rightarrow> fld d f m) else fld d f m)"
proof (induction ps arbitrary: d)
  case (Cons p ps)
  then have "fld (put_props n ps (put_prop n p d)) f m =
     (if m = n then (case map_of (rev ps) f of Some v \<Rightarrow> v | None \<Rightarrow> fld (put_prop n p d) f m)
      else fld (put_prop n p d) f m)"
    by simp
  with Cons.prems show ?case
    by (cases p) (auto simp: put_props_def fld_put_prop map_add_def split: option.split)
qed (simp add: put_props_def)

lemma applyProperties_Done:
  "fst ` set ps \<subseteq> dom d \<Longrightarrow> applyProperties n ps d = Done (put_props n ps d)"
  unfolding applyProperties_def put_props_def
proof (induction ps arbitrary: d)
  case (Cons p ps)
  then have "apply_one n p d = Done (put_prop n p d)"
    by (auto simp: apply_one_def put_prop_def)
  with Cons show ?case by simp
qed simp

lemma put_props_tree:
  assumes "fst ` set ps \<subseteq> dom d - tree_fields"
  shows "same_tree d (put_props n ps d)"
proof -
  have "map_of (rev ps) f = None" if "f \<in> tree_fields" for f
    using assms that by (auto simp: map_of_eq_None_iff)
  moreover have "fst ` set ps \<subseteq> dom d" using assms by blast
  ultimately show ?thesis by (auto simp: same_tree_def fld_put_props fun_eq_iff)
qed

lemma try_hits:
  assumes "\<forall>h \<in> set hs. hit_ok (dom d) h" and "links_ok N d" and "n < N"
  shows "run_fold (try_hit z n) hs d =
    Done (put_hits n (filter (\<lambda>h. matchNodeSelector z d n (pred h) = Done True) hs) d)"
  using assms
proof (induction hs arbitrary: d)
  case (Cons h hs)
  from Cons.prems(1) have h: "hit_ok (dom d) h" by simp
  from h have "selector_ok (pred h)" by (simp add: hit_ok_def)
  from match_selector_returns [OF Cons.prems(2) this Cons.prems(3)]
  obtain b where b: "matchNodeSelector z d n (pred h) = Done b" by blast
  show ?case
  proof (cases b)
    case True
    let ?d = "put_props n (properties h) d"
    have t: "same_tree d ?d" using h by (intro put_props_tree) (auto simp: hit_ok_def)
    have "fst ` set (properties h) \<subseteq> dom d" using h by (auto simp: hit_ok_def)
    then have "try_hit z n h d = Done ?d"
      using b True by (simp add: try_hit_def applyProperties_Done)
    moreover have "run_fold (try_hit z n) hs ?d =
        Done (put_hits n (filter (\<lambda>h. matchNodeSelector z ?d n (pred h) = Done True) hs) ?d)"
      using Cons.prems by (intro Cons.IH) (simp_all add: same_tree_links [OF t])
    ultimately show ?thesis using b True by (simp add: same_tree_match [OF t] put_hits_def)
  next
    case False
    with b have "try_hit z n h d = Done d" by (simp add: try_hit_def)
    with b False Cons show ?thesis by simp
  qed
qed (simp add: put_hits_def)

lemma put_hits_props: "put_hits n hs d = put_props n (concat (map properties hs)) d"
  by (induction hs arbitrary: d) (simp_all add: put_hits_def put_props_def)

definition matched :: "nat \<Rightarrow> sel_data \<Rightarrow> nat \<Rightarrow> hit \<Rightarrow> bool" where
  "matched z d n h \<longleftrightarrow> matchNodeSelector z d n (pred h) = Done True"

lemma tok_of_Num [simp]: "tok_of (Num (real k)) = Some k"
  by (simp add: tok_of_def)

lemma matched_last:
  assumes "matched z d n h" and "selector_ok (pred h)"
  shows "on_id z h \<Longrightarrow> tok_of (fld d ''id'' n) = Some (iid (last_pred h))"
    and "on_tag z h \<Longrightarrow> tok_of (fld d ''displayname'' n) = Some (itag (last_pred h))"
proof -
  have "odd (length (pred h))" using assms(2) by (simp add: selector_ok_def)
  then have "even (length (pred h) - 1)" "length (pred h) - 1 < length (pred h)" by (auto elim: oddE)
  then have "is_Pred (last_pred h)" using assms(2) by (simp add: selector_ok_def last_pred_def)
  then obtain t i where p: "last_pred h = Pred t i" by (cases "last_pred h") auto
  have "matchNodeSelectorPredicate z d n (last_pred h)"
    using assms(1) by (auto simp: matched_def matchNodeSelector_def last_pred_def split: if_splits)
  with p show "on_id z h \<Longrightarrow> tok_of (fld d ''id'' n) = Some (iid (last_pred h))"
    and "on_tag z h \<Longrightarrow> tok_of (fld d ''displayname'' n) = Some (itag (last_pred h))"
    by (auto simp: matchNodeSelectorPredicate_def on_id_def on_tag_def split: if_splits)
qed

lemma bucket_matched:
  assumes "\<And>h. h \<in> set hs \<Longrightarrow> P h \<Longrightarrow> Q h \<Longrightarrow> x = Some (key h)"
  shows "mset (filter Q (case x of None \<Rightarrow> [] | Some k \<Rightarrow> sort_key spec (filter (\<lambda>h. P h \<and> key h = k) hs))) =
    mset (filter (\<lambda>h. P h \<and> Q h) hs)"
proof -
  have "filter (\<lambda>h. P h \<and> Q h) hs = filter (\<lambda>h. P h \<and> Q h \<and> x = Some (key h)) hs"
    using assms by (intro filter_cong) auto
  moreover have "mset (filter Q (sort_key spec ys)) = mset (filter Q ys)" for ys :: "'a list"
    by (simp add: mset_filter)
  ultimately show ?thesis
    by (cases x) (simp_all del: mset_filter add: conj_ac eq_commute)
qed

lemma candidates_matched:
  assumes "rules_ok F sels"
  shows "mset (filter (matched z d n) (candidates (idHash (hash z sels)) (fld d ''id'' n))) =
    mset (filter (\<lambda>h. on_id z h \<and> matched z d n h) (hits_from z 0 sels))"
    and "mset (filter (matched z d n) (candidates (tagHash (hash z sels)) (fld d ''displayname'' n))) =
    mset (filter (\<lambda>h. on_tag z h \<and> matched z d n h) (hits_from z 0 sels))"
  unfolding candidates_id candidates_tag
  by (rule bucket_matched; use rules_ok_hits [OF assms] matched_last in \<open>auto simp: hit_ok_def\<close>)+

lemma candidates_sub:
  "set (candidates (idHash (hash z sels)) x) \<subseteq> set (hits_from z 0 sels)"
  "set (candidates (tagHash (hash z sels)) x) \<subseteq> set (hits_from z 0 sels)"
  "sorted (map specificity (candidates (idHash (hash z sels)) x))"
  "sorted (map specificity (candidates (tagHash (hash z sels)) x))"
  by (auto simp: candidates_id candidates_tag split: option.splits)

lemma mset_filter_or: "(\<And>x. x \<in> set xs \<Longrightarrow> \<not> (P x \<and> Q x)) \<Longrightarrow>
    mset (filter P xs) + mset (filter Q xs) = mset (filter (\<lambda>x. P x \<or> Q x) xs)"
  by (induction xs) auto

text \<open>The declarations of a list of rules, the last one of a field winning.\<close>

definition declared :: "hit list \<Rightarrow> string \<rightharpoonup> jsnum" where
  "declared hs = map_of (rev (concat (map properties hs)))"

lemma fld_put_hits:
  assumes "\<forall>h \<in> set hs. hit_ok (dom d) h"
  shows "fld (put_hits n hs d) f m =
    (if m = n then (case declared hs f of Some v \<Rightarrow> v | None \<Rightarrow> fld d f m) else fld d f m)"
proof -
  have "fst ` set (concat (map properties hs)) \<subseteq> dom d"
    using assms by (force simp: hit_ok_def)
  then show ?thesis by (simp add: put_hits_props fld_put_props declared_def)
qed

lemma put_hits_tree:
  assumes "\<forall>h \<in> set hs. hit_ok (dom d) h"
  shows "same_tree d (put_hits n hs d)"
proof -
  have "fst ` set (concat (map properties hs)) \<subseteq> dom d - tree_fields"
    using assms by (force simp: hit_ok_def)
  then show ?thesis by (simp add: put_hits_props put_props_tree)
qed

text \<open>
  The rules that match a node, by increasing specificity; a permutation of the matching rules
  of the sheet whose last predicate names a tag or an id.
\<close>

definition node_rules :: "nat \<Rightarrow> tok_item rule list \<Rightarrow> sel_data \<Rightarrow> nat \<Rightarrow> hit list \<Rightarrow> bool" where
  "node_rules z sels d n hs \<longleftrightarrow> sorted (map specificity hs) \<and>
     mset hs = mset (filter (\<lambda>h. \<not> on_star z h \<and> matched z d n h) (hits_from z 0 sels))"

lemma node_rules_ok: "rules_ok F sels \<Longrightarrow> node_rules z sels d n hs \<Longrightarrow> \<forall>h \<in> set hs. hit_ok F h"
  using rules_ok_hits [of F sels _ z 0] unfolding node_rules_def
  by (metis (no_types, lifting) filter_is_subset mset_eq_setD subsetD)

lemma node_rules_tree: "same_tree d d' \<Longrightarrow> node_rules z sels d' n hs = node_rules z sels d n hs"
  by (simp add: node_rules_def matched_def same_tree_match)

text \<open>
  The contract of an engine: at a node it applies the rules that \<open>gather\<close> lists, in that
  order, and the list depends on the tree only.  A sweep over distinct nodes then gives every
  node the declarations gathered for it, in whatever order the nodes are visited.
\<close>

locale engine =
  fixes step :: "nat \<Rightarrow> tok_item rule list \<Rightarrow> nat \<Rightarrow> sel_data \<Rightarrow> sel_data run"
    and gather :: "nat \<Rightarrow> tok_item rule list \<Rightarrow> sel_data \<Rightarrow> nat \<Rightarrow> hit list"
  assumes step: "rules_ok (dom d) sels \<Longrightarrow> links_ok N d \<Longrightarrow> n < N \<Longrightarrow>
      step z sels n d = Done (put_hits n (gather z sels d n) d)"
    and gather_hits: "set (gather z sels d n) \<subseteq> set (hits_from z 0 sels)"
    and gather_tree: "same_tree d d' \<Longrightarrow> gather z sels d' n = gather z sels d n"
begin

definition outcome :: "nat \<Rightarrow> tok_item rule list \<Rightarrow> sel_data \<Rightarrow> string \<Rightarrow> nat \<Rightarrow> jsnum" where
  "outcome z sels d f n = (case declared (gather z sels d n) f of Some v \<Rightarrow> v | None \<Rightarrow> fld d f n)"

lemma sweep:
  "distinct ns \<Longrightarrow> set ns \<subseteq> {..<N} \<Longrightarrow> rules_ok (dom d) sels \<Longrightarrow> links_ok N d \<Longrightarrow>
    \<exists>d'. run_fold (step z sels) ns d = Done d' \<and> same_tree d d' \<and> dom d' = dom d \<and>
      (\<forall>n f. fld d' f n = (if n \<in> set ns then outcome z sels d f n else fld d f n))"
proof (induction ns arbitrary: d)
  case Nil
  show ?case by (auto simp: same_tree_def)
next
  case (Cons n ns)
  define e where "e = put_hits n (gather z sels d n) d"
  have s: "step z sels n d = Done e"
    using step [OF Cons.prems(3,4), of n] Cons.prems(2) by (simp add: e_def)
  have ok: "\<forall>h \<in> set (gather z sels d n). hit_ok (dom d) h"
    using gather_hits rules_ok_hits [OF Cons.prems(3)] by blast
  have t: "same_tree d e" unfolding e_def by (rule put_hits_tree [OF ok])
  have e: "fld e f m = (if m = n then outcome z sels d f n else fld d f m)" for f m
    unfolding e_def outcome_def by (simp add: fld_put_hits [OF ok] cong: option.case_cong)
  have de: "dom e = dom d" by (simp add: e_def put_hits_props)
  then obtain d' where d': "run_fold (step z sels) ns e = Done d'" "same_tree e d'" "dom d' = dom e"
    "\<forall>m f. fld d' f m = (if m \<in> set ns then outcome z sels e f m else fld e f m)"
    using Cons.IH [of e] Cons.prems same_tree_links [OF t, of N] by auto
  have "outcome z sels e f m = outcome z sels d f m" if "m \<in> set ns" for f m
    using that Cons.prems(1) e [of f m] by (auto simp: outcome_def gather_tree [OF t] cong: option.case_cong)
  then have "\<forall>m f. fld d' f m = (if m \<in> set (n # ns) then outcome z sels d f m else fld d f m)"
    using d'(4) Cons.prems(1) by (simp add: e)
  then show ?case using d'(1,3) s de same_tree_trans [OF t d'(2)] by auto
qed

lemma sweep_order:
  assumes "distinct ns" and "set ns \<subseteq> {..<N}" and "rules_ok (dom d) sels" and "links_ok N d"
    and "distinct ms" and "set ms = set ns"
  shows "\<exists>d1 d2. run_fold (step z sels) ns d = Done d1 \<and> run_fold (step z sels) ms d = Done d2 \<and>
    (\<forall>f n. fld d1 f n = fld d2 f n)"
  using sweep [OF assms(1-4), of z] sweep [OF assms(5) _ assms(3,4), of z] assms(2,6) by fastforce

end

definition gathered :: "nat \<Rightarrow> tok_item rule list \<Rightarrow> sel_data \<Rightarrow> nat \<Rightarrow> hit list" where
  "gathered z sels d n = filter (matched z d n) (merged specificity
     (candidates (idHash (hash z sels)) (fld d ''id'' n))
     (candidates (tagHash (hash z sels)) (fld d ''displayname'' n)))"

lemma gathered_rules:
  assumes "rules_ok F sels"
  shows "node_rules z sels d n (gathered z sels d n)"
  unfolding node_rules_def
proof
  show "sorted (map specificity (gathered z sels d n))"
    unfolding gathered_def by (intro sorted_filter sorted_merged candidates_sub)
  have "mset (gathered z sels d n) =
      mset (filter (matched z d n) (candidates (idHash (hash z sels)) (fld d ''id'' n))) +
      mset (filter (matched z d n) (candidates (tagHash (hash z sels)) (fld d ''displayname'' n)))"
    by (simp add: gathered_def mset_filter mset_merged)
  also have "\<dots> = mset (filter (\<lambda>h. on_id z h \<and> matched z d n h \<or> on_tag z h \<and> matched z d n h) (hits_from z 0 sels))"
    unfolding candidates_matched [OF assms]
    by (rule mset_filter_or) (auto simp: on_id_def on_tag_def)
  also have "\<dots> = mset (filter (\<lambda>h. \<not> on_star z h \<and> matched z d n h) (hits_from z 0 sels))"
    by (intro arg_cong [where f = mset] filter_cong) (auto simp: on_id_def on_tag_def on_star_def)
  finally show "mset (gathered z sels d n) =
    mset (filter (\<lambda>h. \<not> on_star z h \<and> matched z d n h) (hits_from z 0 sels))" .
qed

interpretation objects: engine "\<lambda>z sels. matchNode z (hash z sels)" gathered
proof
  fix d :: sel_data and sels N n z
  assume a: "rules_ok (dom d) sels" "links_ok N d" "n < N"
  let ?is = "candidates (idHash (hash z sels)) (fld d ''id'' n)"
  let ?ts = "candidates (tagHash (hash z sels)) (fld d ''displayname'' n)"
  have "\<forall>h \<in> set (merged specificity ?is ?ts). hit_ok (dom d) h"
    using candidates_sub(1,2) rules_ok_hits [OF a(1)] by fastforce
  from try_hits [OF this a(2,3)]
  show "matchNode z (hash z sels) n d = Done (put_hits n (gathered z sels d n) d)"
    by (simp add: matchNode_def merge_loop_merged matched_def [abs_def] gathered_def)
next
  show "set (gathered z sels d n) \<subseteq> set (hits_from z 0 sels)" for z sels d n
    using candidates_sub(1,2) by (fastforce simp: gathered_def)
next
  show "gathered z sels d' n = gathered z sels d n" if "same_tree d d'" for z sels d d' n
    using that by (simp add: gathered_def matched_def same_tree_match same_treeD cong: filter_cong)
qed

lemma selectors_run:
  assumes "rules_ok (dom d) sels" and "links_ok N d" and "distinct (level_nodes lv)"
    and "set (level_nodes lv) = {..<N}"
  shows "\<exists>d'. selectors z sels lv d = Done d' \<and> same_tree d d' \<and>
    (\<forall>n < N. \<exists>hs. node_rules z sels d n hs \<and>
       (\<forall>f. fld d' f n = (case declared hs f of Some v \<Rightarrow> v | None \<Rightarrow> fld d f n)))"
  using objects.sweep [OF assms(3) _ assms(1,2), of z] gathered_rules [OF assms(1), of z d] assms(4)
  by (fastforce simp: selectors_def objects.outcome_def)

end
