(* ===== verification/SelFlat.thy ===== *)
theory SelFlat
  imports SelMatch
begin

text \<open>
  The two other engines for the same rules.  \<open>selectorsGPU.js\<close> stores the predicates and
  combinators of all selectors in flat arrays and addresses a selector by offsets into them;
  it is proved equal to the engine over objects.  The OpenCL kernel emitted by
  \<open>CLRunner.js\<close> works with 32-bit specificities and also tries the rules on any element.
\<close>

section \<open>The flat engine\<close>

record flat_hit =
  fh_combinator :: nat
  fh_tag :: nat
  fh_id :: nat
  fh_len :: nat
  fh_props :: nat
  fh_specificity :: nat

record flat_sels =
  combinators :: "nat list"
  ftags :: "nat list"
  fids :: "nat list"
  fprops :: "nat list"

definition flattenHit :: "hit \<Rightarrow> flat_sels \<Rightarrow> flat_hit \<times> flat_sels" where
  "flattenHit h F =
     (\<lparr>fh_combinator = length (combinators F), fh_tag = length (ftags F), fh_id = length (fids F),
       fh_len = length (pred h), fh_props = length (fprops F), fh_specificity = specificity h\<rparr>,
      F\<lparr>ftags := ftags F @ map (\<lambda>k. itag (pred h ! (2 * k))) [0..<(length (pred h) + 1) div 2],
        fids := fids F @ map (\<lambda>k. iid (pred h ! (2 * k))) [0..<(length (pred h) + 1) div 2],
        fprops := fprops F @ [propList h],
        combinators := combinators F @ map (\<lambda>k. combinator (pred h ! (2 * k + 1))) [0..<length (pred h) div 2]\<rparr>)"

fun flattenHits :: "hit list \<Rightarrow> flat_sels \<Rightarrow> flat_hit list \<times> flat_sels" where
  "flattenHits [] F = ([], F)"
| "flattenHits (h # hs) F =
     (let (fh, F1) = flattenHit h F; (fhs, F2) = flattenHits hs F1 in (fh # fhs, F2))"

fun flattenHash :: "hit list dict \<Rightarrow> flat_sels \<Rightarrow> flat_hit list dict \<times> flat_sels" where
  "flattenHash [] F = ([], F)"
| "flattenHash ((lbl, sels) # H) F =
     (let (fhs, F1) = flattenHits sels F; (m, F2) = flattenHash H F1 in ((lbl, fhs) # m, F2))"

record flat_hashes =
  tagMap :: "flat_hit list dict"
  idMap :: "flat_hit list dict"
  flats :: flat_sels

definition flattenSelectors :: "hashes \<Rightarrow> flat_hashes" where
  "flattenSelectors H =
     (let (tm, F1) = flattenHash (tagHash H) \<lparr>combinators = [], ftags = [], fids = [], fprops = []\<rparr>;
          (im, F2) = flattenHash (idHash H) F1
      in \<lparr>tagMap = tm, idMap = im, flats = F2\<rparr>)"

definition matchNodeSelectorPredicateGPU :: "nat \<Rightarrow> flat_sels \<Rightarrow> sel_data \<Rightarrow> nat \<Rightarrow> nat \<Rightarrow> nat \<Rightarrow> bool" where
  "matchNodeSelectorPredicateGPU z F d n tagIdx idIdx =
     (let predId = fids F ! idIdx; predTag = ftags F ! idIdx
      in if predId \<noteq> z \<and> fld d ''id'' n \<noteq> Num (real predId) then False
         else if predTag \<noteq> StarTok \<and> fld d ''displayname'' n \<noteq> Num (real predTag) then False
         else True)"

partial_function (option) climbGPU :: "nat \<Rightarrow> flat_sels \<Rightarrow> sel_data \<Rightarrow> nat \<Rightarrow> nat \<Rightarrow> nat \<Rightarrow> nat option option" where
  "climbGPU z F d tagIdx idIdx n =
     (if n = 0 then Some None
      else if matchNodeSelectorPredicateGPU z F d (par d n) tagIdx idIdx then Some (Some (par d n))
      else climbGPU z F d tagIdx idIdx (par d n))"

declare climbGPU.simps [code]

function comb_loopGPU :: "nat \<Rightarrow> flat_sels \<Rightarrow> sel_data \<Rightarrow> nat \<Rightarrow> nat \<Rightarrow> nat \<Rightarrow> nat \<Rightarrow> nat \<Rightarrow> nat \<Rightarrow> bool run" where
  "comb_loopGPU z F d combIdx tagIdx idIdx i nextNodeIdx nextSib =
     (if i < 1 then Done True
      else let pair = (i - 1) div 2; predTagIdx = tagIdx + pair; predIdIdx = idIdx + pair;
               c = combinators F ! (combIdx + pair)
           in if c = 0 then
                (case climbGPU z F d predTagIdx predIdIdx nextNodeIdx of
                   None \<Rightarrow> Forever
                 | Some None \<Rightarrow> Done False
                 | Some (Some m) \<Rightarrow> comb_loopGPU z F d combIdx tagIdx idIdx (i - 2) m 0)
              else if c = 1 then
                (if nextNodeIdx = 0 then Done False
                 else if \<not> matchNodeSelectorPredicateGPU z F d (par d nextNodeIdx) predTagIdx predIdIdx then Done False
                 else comb_loopGPU z F d combIdx tagIdx idIdx (i - 2) (par d nextNodeIdx) 0)
              else if c = 2 then
                (if left_of d (nextNodeIdx - nextSib) = 0 then Done False
                 else if \<not> matchNodeSelectorPredicateGPU z F d (nextNodeIdx - (nextSib + 1)) predTagIdx predIdIdx
                 then Done False
                 else comb_loopGPU z F d combIdx tagIdx idIdx (i - 2) nextNodeIdx (nextSib + 1))
              else Threw)"
  by pat_completeness auto
termination by (relation "measure (\<lambda>(z, F, d, c, t, j, i, n, s). i)") auto

declare comb_loopGPU.simps [simp del]

definition matchNodeSelectorGPU :: "nat \<Rightarrow> flat_sels \<Rightarrow> sel_data \<Rightarrow> nat \<Rightarrow> nat \<Rightarrow> nat \<Rightarrow> nat \<Rightarrow> nat \<Rightarrow> bool run" where
  "matchNodeSelectorGPU z F d n combIdx tagIdx idIdx plen =
     (if \<not> matchNodeSelectorPredicateGPU z F d n (tagIdx + (plen - 1) div 2) (idIdx + (plen - 1) div 2)
      then Done False
      else if 1 < plen then
        (if n = 0 then Done False else comb_loopGPU z F d combIdx tagIdx idIdx (plen - 2) n 0)
      else Done True)"

text \<open>
  \<open>makePropertyAppliers\<close> turns the declarations of every rule into the text of a function,
  \<open>data.<name>.set(nodeIdx, <value>);\<close> for each, and evaluates it.  When every name is an identifier
  that is the function which stores the values, since a number is printed so that it reads back the
  same.  Of any other name, as \<open>font-size\<close>, the text is some other program: \<open>ev\<close> says what the
  evaluation of it gives, \<open>None\<close> when it throws, as it does if the text does not parse.
\<close>

definition ident_char :: "char \<Rightarrow> bool" where
  "ident_char c \<longleftrightarrow> (let k = of_char c :: nat
     in 97 \<le> k \<and> k \<le> 122 \<or> 65 \<le> k \<and> k \<le> 90 \<or> 48 \<le> k \<and> k \<le> 57 \<or> k = 95 \<or> k = 36)"

definition is_identifier :: "string \<Rightarrow> bool" where
  "is_identifier s \<longleftrightarrow> s \<noteq> [] \<and> list_all ident_char s \<and> \<not> (let k = of_char (hd s) :: nat in 48 \<le> k \<and> k \<le> 57)"

definition plain_names :: "(string \<times> jsnum) list \<Rightarrow> bool" where
  "plain_names ps \<longleftrightarrow> list_all (\<lambda>p. is_identifier (fst p)) ps"

type_synonym applier = "nat \<Rightarrow> sel_data \<Rightarrow> sel_data run"

definition makePropertyApplier :: "((string \<times> jsnum) list \<Rightarrow> applier option) \<Rightarrow> (string \<times> jsnum) list \<Rightarrow> applier option" where
  "makePropertyApplier ev ps =
     (if plain_names ps then Some (\<lambda>n. applyProperties n ps) else ev ps)"

definition makePropertyAppliers :: "((string \<times> jsnum) list \<Rightarrow> applier option) \<Rightarrow> tok_item rule list
    \<Rightarrow> applier list option" where
  "makePropertyAppliers ev selsTok = those (map (\<lambda>sel. makePropertyApplier ev (declarations sel)) selsTok)"

definition try_hitGPU :: "nat \<Rightarrow> flat_sels \<Rightarrow> applier list \<Rightarrow> nat \<Rightarrow> flat_hit
    \<Rightarrow> sel_data \<Rightarrow> sel_data run" where
  "try_hitGPU z F appliers n sel d =
     run_bind (matchNodeSelectorGPU z F d n (fh_combinator sel) (fh_tag sel) (fh_id sel) (fh_len sel))
       (\<lambda>b. if b then (appliers ! (fprops F ! fh_props sel)) n d else Done d)"

definition matchNodeGPU :: "nat \<Rightarrow> flat_hashes \<Rightarrow> applier list \<Rightarrow> nat \<Rightarrow> sel_data
    \<Rightarrow> sel_data run" where
  "matchNodeGPU z FH appliers n d =
     (let idl = candidates (idMap FH) (fld d ''id'' n);
          tagl = candidates (tagMap FH) (fld d ''displayname'' n)
      in merge_loop fh_specificity (try_hitGPU z (flats FH) appliers n) idl tagl d)"

definition selectorsGPU :: "((string \<times> jsnum) list \<Rightarrow> applier option) \<Rightarrow> nat \<Rightarrow> tok_item rule list \<Rightarrow> level list
    \<Rightarrow> sel_data \<Rightarrow> sel_data run" where
  "selectorsGPU ev z selsTok lv d =
     (case makePropertyAppliers ev selsTok of
        None \<Rightarrow> Threw
      | Some appliers \<Rightarrow> run_fold (matchNodeGPU z (flattenSelectors (hash z selsTok)) appliers) (level_nodes lv) d)"

section \<open>The flat engine is the engine over objects\<close>

text \<open>What the offsets of a flat selector point at.\<close>

definition points :: "flat_sels \<Rightarrow> nat \<Rightarrow> nat \<Rightarrow> nat \<Rightarrow> tok_item list \<Rightarrow> bool" where
  "points F c t j p \<longleftrightarrow>
     (\<forall>k. 2 * k < length p \<longrightarrow> ftags F ! (t + k) = itag (p ! (2 * k)) \<and> fids F ! (j + k) = iid (p ! (2 * k))) \<and>
     (\<forall>k. 2 * k + 1 < length p \<longrightarrow> combinators F ! (c + k) = combinator (p ! (2 * k + 1)))"

lemma points_predicate:
  assumes "points F c t j p" and "selector_ok p" and "2 * k < length p" and "t = j"
  shows "matchNodeSelectorPredicateGPU z F d n (t + k) (j + k) = matchNodeSelectorPredicate z d n (p ! (2 * k))"
proof -
  have "is_Pred (p ! (2 * k))" using assms(2,3) by (simp add: selector_ok_def)
  then obtain t' j' where p: "p ! (2 * k) = Pred t' j'" by (cases "p ! (2 * k)") auto
  with assms(1,3,4) have "ftags F ! (j + k) = t'" "fids F ! (j + k) = j'"
    by (auto simp: points_def)
  with p show ?thesis
    by (simp add: matchNodeSelectorPredicateGPU_def matchNodeSelectorPredicate_def)
qed

lemma climb_transfer:
  assumes "climb z d p n = Some r"
  shows "(\<forall>n. matchNodeSelectorPredicateGPU z F d n t j = matchNodeSelectorPredicate z d n p) \<longrightarrow>
    climbGPU z F d t j n = Some r"
  using assms
proof (induction z d p n r rule: climb.raw_induct [rotated -1, consumes 1, case_names 1])
  case (1 climb z d p n r)
  then show ?case by (subst climbGPU.simps) (auto split: if_splits)
qed

lemma climbGPU_transfer:
  assumes "climbGPU z F d t j n = Some r"
  shows "(\<forall>n. matchNodeSelectorPredicateGPU z F d n t j = matchNodeSelectorPredicate z d n p) \<longrightarrow>
    climb z d p n = Some r"
  using assms
proof (induction z F d t j n r rule: climbGPU.raw_induct [rotated -1, consumes 1, case_names 1])
  case (1 climbGPU z F d t j n r)
  then show ?case by (subst climb.simps) (auto split: if_splits)
qed

lemma climbGPU_climb:
  assumes "\<And>n. matchNodeSelectorPredicateGPU z F d n t j = matchNodeSelectorPredicate z d n p"
  shows "climbGPU z F d t j n = climb z d p n"
  using climb_transfer [of z d p n _ F t j] climbGPU_transfer [of z F d t j n _ p] assms
  by (cases "climb z d p n"; cases "climbGPU z F d t j n") auto

lemma comb_loopGPU_comb:
  assumes "points F c t j p" and "selector_ok p" and "t = j"
  shows "odd i \<and> i < length p \<or> i = 0 \<Longrightarrow> comb_loopGPU z F d c t j i n s = comb_loop z d p i n s"
proof (induction i arbitrary: n s rule: less_induct)
  case (less i)
  show ?case
  proof (cases "i = 0")
    case True
    then show ?thesis by (subst comb_loopGPU.simps) simp
  next
    case False
    with less.prems have i: "odd i" "i < length p" by auto
    define k where "k = (i - 1) div 2"
    have ik: "i = 2 * k + 1" using i(1) by (auto simp: k_def elim!: oddE)
    obtain c' where c': "p ! i = Op c'" "c' < 3" using selector_okD [OF assms(2) i] by auto
    have p: "matchNodeSelectorPredicateGPU z F d m (t + k) (j + k) = matchNodeSelectorPredicate z d m (p ! (i - 1))" for m
      using points_predicate [OF assms(1,2) _ assms(3), of k] i ik by simp
    have cc: "combinators F ! (c + k) = c'"
      using assms(1) i c' ik by (auto simp: points_def)
    have IH: "comb_loopGPU z F d c t j (i - 2) m u = comb_loop z d p (i - 2) m u" for m u
      using less.IH [of "i - 2"] odd_minus_two [of i] i by (cases "i = 1") auto
    have "comb_loopGPU z F d c t j i n s =
       (if c' = 0 then (case climb z d (p ! (i - 1)) n of None \<Rightarrow> Forever | Some None \<Rightarrow> Done False
           | Some (Some m) \<Rightarrow> comb_loop z d p (i - 2) m 0)
        else if c' = 1 then (if n = 0 then Done False
           else if \<not> matchNodeSelectorPredicate z d (par d n) (p ! (i - 1)) then Done False
           else comb_loop z d p (i - 2) (par d n) 0)
        else if c' = 2 then (if left_of d (n - s) = 0 then Done False
           else if \<not> matchNodeSelectorPredicate z d (n - (s + 1)) (p ! (i - 1)) then Done False
           else comb_loop z d p (i - 2) n (s + 1))
        else Threw)"
      using False unfolding comb_loopGPU.simps [of z F d c t j i] Let_def k_def [symmetric]
      by (simp only: IH p cc climbGPU_climb [OF p] less_one if_False)
    also have "\<dots> = comb_loop z d p i n s"
      using False c' unfolding comb_loop.simps [of z d p i] by simp
    finally show ?thesis .
  qed
qed

lemma matchNodeSelectorGPU_eq:
  assumes "points F c t j p" and "selector_ok p" and "t = j"
  shows "matchNodeSelectorGPU z F d n c t j (length p) = matchNodeSelector z d n p"
proof -
  define k where "k = (length p - 1) div 2"
  have k: "length p - 1 = 2 * k" using assms(2) by (auto simp: k_def selector_ok_def elim!: oddE)
  have "2 * k < length p" using assms(2) k by (auto simp: selector_ok_def elim!: oddE)
  from points_predicate [OF assms(1,2) this assms(3), of z d n]
  have m: "matchNodeSelectorPredicateGPU z F d n (t + k) (j + k) = matchNodeSelectorPredicate z d n (p ! (length p - 1))"
    unfolding k .
  have c: "comb_loopGPU z F d c t j (length p - 2) n 0 = comb_loop z d p (length p - 2) n 0"
    if "1 < length p"
    using comb_loopGPU_comb [OF assms] selector_len [OF assms(2)] that by simp
  show ?thesis
    unfolding matchNodeSelectorGPU_def matchNodeSelector_def k_def [symmetric] m
    by (cases "1 < length p") (simp_all only: c if_True if_False)
qed

text \<open>Flattening only appends, so what an offset points at stays.\<close>

definition grown :: "flat_sels \<Rightarrow> flat_sels \<Rightarrow> bool" where
  "grown F F' \<longleftrightarrow> prefix (combinators F) (combinators F') \<and> prefix (ftags F) (ftags F') \<and>
     prefix (fids F) (fids F') \<and> prefix (fprops F) (fprops F')"

definition flat_of :: "flat_sels \<Rightarrow> flat_hit \<Rightarrow> hit \<Rightarrow> bool" where
  "flat_of F fh h \<longleftrightarrow> points F (fh_combinator fh) (fh_tag fh) (fh_id fh) (pred h) \<and> fh_tag fh = fh_id fh \<and>
     fh_tag fh + (length (pred h) + 1) div 2 \<le> length (ftags F) \<and>
     fh_id fh + (length (pred h) + 1) div 2 \<le> length (fids F) \<and>
     fh_combinator fh + length (pred h) div 2 \<le> length (combinators F) \<and>
     fh_props fh < length (fprops F) \<and> fprops F ! fh_props fh = propList h \<and>
     fh_len fh = length (pred h) \<and> fh_specificity fh = specificity h"

lemma prefix_nth: "prefix xs ys \<Longrightarrow> k < length xs \<Longrightarrow> ys ! k = xs ! k"
  by (auto simp: prefix_def nth_append)

lemma grown_refl [simp]: "grown F F"
  by (simp add: grown_def)

lemma grown_trans: "grown F F' \<Longrightarrow> grown F' F'' \<Longrightarrow> grown F F''"
  by (auto simp: grown_def intro: prefix_order.trans)

lemma flat_of_grown:
  assumes "flat_of F fh h" and "grown F F'"
  shows "flat_of F' fh h"
proof -
  have "points F' (fh_combinator fh) (fh_tag fh) (fh_id fh) (pred h)"
    unfolding points_def
  proof (intro conjI allI impI)
    fix k assume k: "2 * k < length (pred h)"
    then have b: "fh_tag fh + k < length (ftags F)" "fh_id fh + k < length (fids F)"
      using assms(1) by (auto simp: flat_of_def)
    show "ftags F' ! (fh_tag fh + k) = itag (pred h ! (2 * k))"
      "fids F' ! (fh_id fh + k) = iid (pred h ! (2 * k))"
      using assms b k by (auto simp: prefix_nth grown_def flat_of_def points_def)
  next
    fix k assume k: "2 * k + 1 < length (pred h)"
    then have "fh_combinator fh + k < length (combinators F)"
      using assms(1) by (auto simp: flat_of_def)
    then show "combinators F' ! (fh_combinator fh + k) = combinator (pred h ! (2 * k + 1))"
      using assms k by (auto simp: prefix_nth grown_def flat_of_def points_def)
  qed
  moreover have "fprops F' ! fh_props fh = propList h"
    using assms by (auto simp: flat_of_def grown_def prefix_nth)
  ultimately show ?thesis using assms
    by (auto simp: flat_of_def grown_def dest!: prefix_length_le)
qed

definition lockstep :: "flat_sels \<Rightarrow> bool" where
  "lockstep F \<longleftrightarrow> length (ftags F) = length (fids F)"

lemma flattenHit_flat:
  assumes "flattenHit h F = (fh, F')" and "lockstep F"
  shows "flat_of F' fh h \<and> grown F F' \<and> lockstep F'"
  using assms
  by (auto simp: flattenHit_def flat_of_def points_def grown_def lockstep_def nth_append)

lemma flattenHits_flat:
  "flattenHits hs F = (fhs, F') \<Longrightarrow> lockstep F \<Longrightarrow>
    list_all2 (flat_of F') fhs hs \<and> grown F F' \<and> lockstep F'"
proof (induction hs arbitrary: F fhs)
  case (Cons h hs)
  from Cons.prems(1) obtain fh F1 gs where s: "flattenHit h F = (fh, F1)" "flattenHits hs F1 = (gs, F')" "fhs = fh # gs"
    by (auto split: prod.splits)
  from flattenHit_flat [OF s(1) Cons.prems(2)] have h: "flat_of F1 fh h" "grown F F1" "lockstep F1" by auto
  from Cons.IH [OF s(2) h(3)] h s(3) show ?case by (auto intro: flat_of_grown grown_trans)
qed auto

lemma list_all2_grown: "list_all2 (flat_of F) fhs hs \<Longrightarrow> grown F F' \<Longrightarrow> list_all2 (flat_of F') fhs hs"
  by (erule list_all2_mono) (erule (1) flat_of_grown)

definition flat_map_of :: "flat_sels \<Rightarrow> flat_hit list dict \<Rightarrow> hit list dict \<Rightarrow> bool" where
  "flat_map_of F = list_all2 (\<lambda>(l, fhs) (k, hs). l = k \<and> list_all2 (flat_of F) fhs hs)"

lemma flat_map_of_grown: "flat_map_of F m H \<Longrightarrow> grown F F' \<Longrightarrow> flat_map_of F' m H"
  unfolding flat_map_of_def by (erule list_all2_mono) (auto intro: list_all2_grown)

lemma flattenHash_flat:
  "flattenHash H F = (m, F') \<Longrightarrow> lockstep F \<Longrightarrow> flat_map_of F' m H \<and> grown F F' \<and> lockstep F'"
proof (induction H F arbitrary: m rule: flattenHash.induct)
  case (1 F)
  then show ?case by (simp add: flat_map_of_def)
next
  case (2 lbl sels H F)
  from 2(2) obtain fhs F1 m' where s: "flattenHits sels F = (fhs, F1)" "flattenHash H F1 = (m', F')"
    "m = (lbl, fhs) # m'"
    by (auto split: prod.splits)
  from flattenHits_flat [OF s(1) 2(3)] have h: "list_all2 (flat_of F1) fhs sels" "grown F F1" "lockstep F1" by auto
  from 2(1) [OF s(1) [symmetric] refl s(2) h(3)] h s(3) show ?case
    by (auto simp: flat_map_of_def intro: list_all2_grown grown_trans)
qed

lemma flattenSelectors_flat:
  "flat_map_of (flats (flattenSelectors H)) (tagMap (flattenSelectors H)) (tagHash H) \<and>
   flat_map_of (flats (flattenSelectors H)) (idMap (flattenSelectors H)) (idHash H)"
proof -
  let ?F = "\<lparr>combinators = [], ftags = [], fids = [], fprops = []\<rparr>"
  obtain tm F1 where t: "flattenHash (tagHash H) ?F = (tm, F1)" by fastforce
  obtain im F2 where i: "flattenHash (idHash H) F1 = (im, F2)" by fastforce
  have "lockstep ?F" by (simp add: lockstep_def)
  with flattenHash_flat [OF t] flattenHash_flat [OF i] flat_map_of_grown [of F1 tm _ F2] t i
  show ?thesis by (simp add: flattenSelectors_def)
qed

lemma candidates_flat:
  assumes "flat_map_of F m H"
  shows "list_all2 (flat_of F) (candidates m x) (candidates H x)"
proof -
  have "rel_option (list_all2 (flat_of F)) (map_of m k) (map_of H k)" for k
    using assms unfolding flat_map_of_def by (induction m H rule: list_all2_induct) auto
  then show ?thesis
    by (auto simp: candidates_def split: option.split) (metis option.rel_distinct option.rel_inject(2))+
qed

lemma hits_from_rule: "h \<in> set (hits_from z i sels) \<Longrightarrow>
    i \<le> propList h \<and> propList h - i < length sels \<and> properties h = declarations (sels ! (propList h - i)) \<and>
    pred h \<in> set (predicates (sels ! (propList h - i)))"
proof (induction z i sels rule: hits_from.induct)
  case (2 z i sel sels)
  show ?case
  proof (cases "h \<in> set (hits_from z (i + 1) sels)")
    case True
    with 2 have "i + 1 \<le> propList h" "propList h - (i + 1) < length sels"
      "properties h = declarations (sels ! (propList h - (i + 1)))"
      "pred h \<in> set (predicates (sels ! (propList h - (i + 1))))" by auto
    then show ?thesis by (auto simp: nth_Cons')
  next
    case False
    with 2(2) show ?thesis by auto
  qed
qed simp

lemma merged_all2:
  assumes "\<And>f h. R f h \<Longrightarrow> fspec f = spec h"
  shows "list_all2 R fus us \<Longrightarrow> list_all2 R fts ts \<Longrightarrow> list_all2 R (merged fspec fus fts) (merged spec us ts)"
  using assms
proof (induction spec us ts arbitrary: fus fts rule: merged.induct)
  case (3 spec i us t ts)
  then obtain f fus' g fts' where f: "fus = f # fus'" "fts = g # fts'" "R f i" "R g t"
    "list_all2 R fus' us" "list_all2 R fts' ts"
    by (auto simp: list_all2_Cons2)
  have "fspec f = spec i" "fspec g = spec t" using f 3(5) by blast+
  with f 3 show ?case by auto
qed auto

lemma run_fold_all2:
  assumes "\<And>f h d. R f h \<Longrightarrow> h \<in> set hs \<Longrightarrow> fatt f d = att h d"
  shows "list_all2 R fhs hs \<Longrightarrow> run_fold fatt fhs d = run_fold att hs d"
  using assms
proof (induction hs arbitrary: fhs d)
  case (Cons h hs)
  then obtain f fs where f: "fhs = f # fs" "R f h" "list_all2 R fs hs" by (auto simp: list_all2_Cons2)
  have "run_fold fatt fs e = run_fold att hs e" for e
    using Cons.prems f by (intro Cons.IH) auto
  with f Cons.prems(2) [of f h] show ?case by (cases "att h d") auto
qed simp

text \<open>The appliers of rules that declare identifiers only.\<close>

definition appliers_of :: "tok_item rule list \<Rightarrow> applier list" where
  "appliers_of sels = map (\<lambda>sel n. applyProperties n (declarations sel)) sels"

lemma makePropertyAppliers_plain:
  "(\<And>sel. sel \<in> set sels \<Longrightarrow> plain_names (declarations sel)) \<Longrightarrow> makePropertyAppliers ev sels = Some (appliers_of sels)"
  unfolding makePropertyAppliers_def appliers_of_def by (rule those_map_Some) (simp add: makePropertyApplier_def)

lemma try_hitGPU_eq:
  assumes "flat_of F fh h" and "h \<in> set (hits_from z 0 sels)"
    and "\<forall>sel \<in> set sels. \<forall>p \<in> set (predicates sel). selector_ok p"
  shows "try_hitGPU z F (appliers_of sels) n fh d = try_hit z n h d"
proof -
  from hits_from_rule [OF assms(2)]
  have h: "propList h < length sels" "properties h = declarations (sels ! propList h)"
    "pred h \<in> set (predicates (sels ! propList h))" by auto
  with assms(3) have ok: "selector_ok (pred h)" by auto
  have "matchNodeSelectorGPU z F d n (fh_combinator fh) (fh_tag fh) (fh_id fh) (fh_len fh) =
      matchNodeSelector z d n (pred h)"
    using assms(1) matchNodeSelectorGPU_eq [OF _ ok, of F "fh_combinator fh" "fh_tag fh" "fh_id fh"]
    by (auto simp: flat_of_def)
  then show ?thesis
    using assms(1) h
    by (simp add: try_hitGPU_def try_hit_def appliers_of_def flat_of_def cong: if_cong)
qed

lemma matchNodeGPU_eq:
  assumes "\<forall>sel \<in> set sels. \<forall>p \<in> set (predicates sel). selector_ok p"
  shows "matchNodeGPU z (flattenSelectors (hash z sels)) (appliers_of sels) n d =
    matchNode z (hash z sels) n d"
proof -
  let ?F = "flats (flattenSelectors (hash z sels))"
  let ?H = "hash z sels"
  have all2: "list_all2 (flat_of ?F)
     (merged fh_specificity (candidates (idMap (flattenSelectors ?H)) x) (candidates (tagMap (flattenSelectors ?H)) y))
     (merged specificity (candidates (idHash ?H) x) (candidates (tagHash ?H) y))" for x y
    by (rule merged_all2)
      (auto simp: flat_of_def candidates_flat flattenSelectors_flat)
  show ?thesis
    unfolding matchNodeGPU_def matchNode_def Let_def merge_loop_merged
    by (rule run_fold_all2 [OF try_hitGPU_eq [OF _ _ assms] all2]) (use candidates_sub(1,2) in fastforce)+
qed

lemma selectorsGPU_eq:
  assumes "\<forall>sel \<in> set sels. plain_names (declarations sel) \<and> (\<forall>p \<in> set (predicates sel). selector_ok p)"
  shows "selectorsGPU ev z sels lv d = selectors z sels lv d"
proof -
  have "matchNodeGPU z (flattenSelectors (hash z sels)) (appliers_of sels) = matchNode z (hash z sels)"
    using matchNodeGPU_eq assms by (intro ext) blast
  then show ?thesis using assms by (simp add: selectorsGPU_def selectors_def makePropertyAppliers_plain)
qed

lemma selectorsGPU_refused:
  assumes "sel \<in> set sels" and "\<not> plain_names (declarations sel)" and "ev (declarations sel) = None"
  shows "selectorsGPU ev z sels lv d = Threw"
  unfolding selectorsGPU_def makePropertyAppliers_def
  by (subst those_None [of sel]) (simp_all add: assms makePropertyApplier_def)

section \<open>The OpenCL kernel\<close>

text \<open>
  The kernel that \<open>makeMatcher\<close> of \<open>CLRunner.js\<close> emits, one work item per node.  A specificity
  is a literal returned by a function of type \<open>unsigned int\<close>: it is kept modulo \<open>2 ^ 32\<close>.
  \<open>matchPredicate\<close> and \<open>matchSelector<hash>_<token>_<j>\<close> unroll the tests of
  \<open>matchNodeSelector\<close> for one selector; \<open>applySelector...\<close> assigns one literal per declaration and
  returns how many it assigned.  The declarations of the kernel's rules hold what these
  assignments leave in the fields: \<open>SelKernel\<close> derives them with the runner's own parser.
\<close>

definition getSpec :: "hit \<Rightarrow> 32 word" where
  "getSpec h = word_of_nat (specificity h)"

definition matchSelector :: "nat \<Rightarrow> nat \<Rightarrow> hit \<Rightarrow> 32 word \<times> sel_data \<Rightarrow> (32 word \<times> sel_data) run" where
  "matchSelector z n h s =
     (case s of (matches, d) \<Rightarrow>
        run_bind (matchNodeSelector z d n (pred h))
          (\<lambda>b. if b then run_bind (applyProperties n (properties h) d)
                           (\<lambda>d'. Done (matches + word_of_nat (length (properties h)), d'))
                else Done (matches, d)))"

text \<open>
  \<open>matchNodeGPU\<close>: the three cursors are the lists that remain.  A call past the end of the rules on
  any element, which the emitted comment calls unreachable, would only move the cursor away from
  its bound.
\<close>

function kernel_loop :: "('h \<Rightarrow> 32 word) \<Rightarrow> ('h \<Rightarrow> 's \<Rightarrow> 's run) \<Rightarrow> 'h list \<Rightarrow> 'h list \<Rightarrow> 'h list \<Rightarrow> 's \<Rightarrow> 's run" where
  "kernel_loop spec att idl tagl starl s =
     (if idl = [] \<and> tagl = [] \<and> starl = [] then Done s
      else
        let tryId = (if idl = [] then False
                     else if tagl \<noteq> [] \<and> spec (hd tagl) \<le> spec (hd idl) then False
                     else if starl \<noteq> [] \<and> spec (hd starl) \<le> spec (hd idl) then False
                     else True)
        in if tryId then run_bind (att (hd idl) s) (kernel_loop spec att (tl idl) tagl starl)
           else if tagl \<noteq> [] \<and> (starl = [] \<or> spec (hd starl) \<le> spec (hd tagl))
           then run_bind (att (hd tagl) s) (kernel_loop spec att idl (tl tagl) starl)
           else (case starl of [] \<Rightarrow> Forever
                 | h # starl' \<Rightarrow> run_bind (att h s) (kernel_loop spec att idl tagl starl')))"
  by pat_completeness auto
termination
  by (relation "measure (\<lambda>(spec, att, idl, tagl, starl, s). length idl + length tagl + length starl)")
    (auto split: if_splits simp: neq_Nil_conv)

declare kernel_loop.simps [simp del]

definition kernel_node :: "nat \<Rightarrow> tok_item rule list \<Rightarrow> nat \<Rightarrow> (nat \<Rightarrow> 32 word) \<times> sel_data
    \<Rightarrow> ((nat \<Rightarrow> 32 word) \<times> sel_data) run" where
  "kernel_node z sels n s =
     (case s of (selectors_buffer, d) \<Rightarrow>
        run_bind
          (kernel_loop getSpec (matchSelector z n)
             (candidates (idHash (hash z sels)) (fld d ''id'' n))
             (candidates (tagHash (hash z sels)) (fld d ''displayname'' n))
             (star (hash z sels)) (0, d))
          (\<lambda>(matches, d'). Done (selectors_buffer(n := matches), d')))"

text \<open>\<open>runSelectors\<close>: the work items run in some order over all nodes.\<close>

definition runSelectors :: "nat \<Rightarrow> tok_item rule list \<Rightarrow> nat list \<Rightarrow> (nat \<Rightarrow> 32 word) \<times> sel_data
    \<Rightarrow> ((nat \<Rightarrow> 32 word) \<times> sel_data) run" where
  "runSelectors z sels order s = run_fold (kernel_node z sels) order s"

section \<open>What the kernel applies\<close>

text \<open>The order in which the loop tries the rules of the three lists.\<close>

function merged3 :: "('h \<Rightarrow> 'k::linorder) \<Rightarrow> 'h list \<Rightarrow> 'h list \<Rightarrow> 'h list \<Rightarrow> 'h list" where
  "merged3 spec idl tagl starl =
     (if idl = [] \<and> tagl = [] \<and> starl = [] then []
      else if idl \<noteq> [] \<and> (tagl = [] \<or> spec (hd idl) < spec (hd tagl)) \<and> (starl = [] \<or> spec (hd idl) < spec (hd starl))
      then hd idl # merged3 spec (tl idl) tagl starl
      else if tagl \<noteq> [] \<and> (starl = [] \<or> spec (hd starl) \<le> spec (hd tagl))
      then hd tagl # merged3 spec idl (tl tagl) starl
      else hd starl # merged3 spec idl tagl (tl starl))"
  by pat_completeness auto
termination
  by (relation "measure (\<lambda>(spec, idl, tagl, starl). length idl + length tagl + length starl)")
    (auto split: if_splits simp: neq_Nil_conv not_less)

declare merged3.simps [simp del]

lemma kernel_loop_merged: "kernel_loop spec att idl tagl starl s = run_fold att (merged3 spec idl tagl starl) s"
proof (induction spec idl tagl starl arbitrary: s rule: merged3.induct)
  case (1 spec idl tagl starl)
  consider "idl = []" "tagl = []" "starl = []"
    | "idl \<noteq> []" "tagl = [] \<or> spec (hd idl) < spec (hd tagl)" "starl = [] \<or> spec (hd idl) < spec (hd starl)"
    | "\<not> (idl \<noteq> [] \<and> (tagl = [] \<or> spec (hd idl) < spec (hd tagl)) \<and> (starl = [] \<or> spec (hd idl) < spec (hd starl)))"
      "tagl \<noteq> []" "starl = [] \<or> spec (hd starl) \<le> spec (hd tagl)"
    | "\<not> (idl \<noteq> [] \<and> (tagl = [] \<or> spec (hd idl) < spec (hd tagl)) \<and> (starl = [] \<or> spec (hd idl) < spec (hd starl)))"
      "\<not> (tagl \<noteq> [] \<and> (starl = [] \<or> spec (hd starl) \<le> spec (hd tagl)))" "starl \<noteq> []"
    by blast
  then show ?case
  proof cases
    case 1
    then show ?thesis by (simp add: kernel_loop.simps merged3.simps)
  next
    case 2
    then have "kernel_loop spec att idl tagl starl s = run_bind (att (hd idl) s) (kernel_loop spec att (tl idl) tagl starl)"
      by (subst kernel_loop.simps) auto
    also have "kernel_loop spec att (tl idl) tagl starl = run_fold att (merged3 spec (tl idl) tagl starl)"
      using 2 "1.IH"(1) by (intro ext) blast
    finally show ?thesis using 2 by (subst merged3.simps) simp
  next
    case 3
    then have "kernel_loop spec att idl tagl starl s = run_bind (att (hd tagl) s) (kernel_loop spec att idl (tl tagl) starl)"
      by (subst kernel_loop.simps) (auto simp: not_less)
    also have "kernel_loop spec att idl (tl tagl) starl = run_fold att (merged3 spec idl (tl tagl) starl)"
      using 3 "1.IH"(2) by (intro ext) blast
    finally show ?thesis using 3 by (subst merged3.simps) auto
  next
    case 4
    then have "kernel_loop spec att idl tagl starl s = run_bind (att (hd starl) s) (kernel_loop spec att idl tagl (tl starl))"
      by (subst kernel_loop.simps) (auto simp: not_less neq_Nil_conv)
    also have "kernel_loop spec att idl tagl (tl starl) = run_fold att (merged3 spec idl tagl (tl starl))"
      using 4 "1.IH"(3) by (intro ext) blast
    finally show ?thesis using 4 by (subst merged3.simps) auto
  qed
qed

lemma mset_merged3: "mset (merged3 spec idl tagl starl) = mset idl + mset tagl + mset starl"
proof (induction spec idl tagl starl rule: merged3.induct)
  case (1 spec idl tagl starl)
  then show ?case
    by (cases idl; cases tagl; cases starl; subst merged3.simps) (auto simp: not_less)
qed

lemma merged3_no_star: "merged3 spec idl tagl [] = merged spec idl tagl"
proof (induction spec idl tagl rule: merged.induct)
  case (1 spec ts)
  show ?case by (induction ts) (simp_all add: merged3.simps)
next
  case (2 spec i us)
  show ?case by (induction us arbitrary: i) (simp_all add: merged3.simps)
next
  case (3 spec i us t ts)
  then show ?case by (subst merged3.simps) (auto simp: not_less)
qed

lemma matchSelector_tries:
  "run_fold (matchSelector z n) hs (m, d) = Done (m', d') \<Longrightarrow> run_fold (try_hit z n) hs d = Done d'"
proof (induction hs arbitrary: m d)
  case (Cons h hs)
  show ?case
  proof (cases "matchNodeSelector z d n (pred h)")
    case (Done b)
    with Cons show ?thesis
      by (cases b; cases "applyProperties n (properties h) d") (auto simp: matchSelector_def try_hit_def)
  qed (use Cons.prems in \<open>auto simp: matchSelector_def\<close>)
qed simp

lemma matchSelector_hits:
  assumes "run_fold (try_hit z n) hs d = Done d'"
  shows "\<exists>m'. run_fold (matchSelector z n) hs (m, d) = Done (m', d')"
  using assms
proof (induction hs arbitrary: m d)
  case (Cons h hs)
  show ?case
  proof (cases "matchNodeSelector z d n (pred h)")
    case (Done b)
    with Cons show ?thesis
      by (cases b; cases "applyProperties n (properties h) d") (auto simp: matchSelector_def try_hit_def)
  qed (use Cons.prems in \<open>auto simp: try_hit_def\<close>)
qed simp

text \<open>The effect of one work item on the fields of the tree.\<close>

definition kernel_step :: "nat \<Rightarrow> tok_item rule list \<Rightarrow> nat \<Rightarrow> sel_data \<Rightarrow> sel_data run" where
  "kernel_step z sels n d = run_bind (kernel_node z sels n (\<lambda>_. 0, d)) (\<lambda>(b, d'). Done d')"

definition kernel_gathered :: "nat \<Rightarrow> tok_item rule list \<Rightarrow> sel_data \<Rightarrow> nat \<Rightarrow> hit list" where
  "kernel_gathered z sels d n = filter (matched z d n) (merged3 getSpec
     (candidates (idHash (hash z sels)) (fld d ''id'' n))
     (candidates (tagHash (hash z sels)) (fld d ''displayname'' n))
     (star (hash z sels)))"

lemma set_merged3: "set (merged3 spec us ts ss) = set us \<union> set ts \<union> set ss"
  using arg_cong [OF mset_merged3 [of spec us ts ss], of set_mset] by simp

interpretation kernel: engine kernel_step kernel_gathered
proof
  fix d :: sel_data and sels N n z
  assume a: "rules_ok (dom d) sels" "links_ok N d" "n < N"
  let ?is = "candidates (idHash (hash z sels)) (fld d ''id'' n)"
  let ?ts = "candidates (tagHash (hash z sels)) (fld d ''displayname'' n)"
  let ?hs = "merged3 getSpec ?is ?ts (star (hash z sels))"
  have "\<forall>h \<in> set ?hs. hit_ok (dom d) h"
    using candidates_sub(1,2) rules_ok_hits [OF a(1)] by (fastforce simp: set_merged3 hash_star)
  from try_hits [OF this a(2,3)] have "run_fold (try_hit z n) ?hs d = Done (put_hits n (kernel_gathered z sels d n) d)"
    by (simp add: matched_def [abs_def] kernel_gathered_def)
  from matchSelector_hits [OF this, of 0]
  show "kernel_step z sels n d = Done (put_hits n (kernel_gathered z sels d n) d)"
    by (auto simp: kernel_step_def kernel_node_def kernel_loop_merged)
next
  show "set (kernel_gathered z sels d n) \<subseteq> set (hits_from z 0 sels)" for z sels d n
    using candidates_sub(1,2) by (fastforce simp: kernel_gathered_def set_merged3 hash_star)
next
  show "kernel_gathered z sels d' n = kernel_gathered z sels d n" if "same_tree d d'" for z sels d d' n
    using that by (simp add: kernel_gathered_def matched_def same_tree_match same_treeD cong: filter_cong)
qed

lemma kernel_node_step:
  assumes "kernel_step z sels n d = Done d'"
  shows "\<exists>m. kernel_node z sels n (b, d) = Done (b(n := m), d')"
proof -
  obtain m where "kernel_loop getSpec (matchSelector z n) (candidates (idHash (hash z sels)) (fld d ''id'' n))
      (candidates (tagHash (hash z sels)) (fld d ''displayname'' n)) (star (hash z sels)) (0, d) = Done (m, d')"
    using assms
    by (cases "kernel_loop getSpec (matchSelector z n) (candidates (idHash (hash z sels)) (fld d ''id'' n))
      (candidates (tagHash (hash z sels)) (fld d ''displayname'' n)) (star (hash z sels)) (0, d)")
      (auto simp: kernel_step_def kernel_node_def)
  then show ?thesis by (auto simp: kernel_node_def)
qed

lemma runSelectors_steps:
  "run_fold (kernel_step z sels) ns d = Done d' \<Longrightarrow> \<exists>b'. runSelectors z sels ns (b, d) = Done (b', d')"
  unfolding runSelectors_def
proof (induction ns arbitrary: b d)
  case (Cons n ns)
  then obtain e where e: "kernel_step z sels n d = Done e" "run_fold (kernel_step z sels) ns e = Done d'"
    by (cases "kernel_step z sels n d") auto
  from kernel_node_step [OF e(1)] obtain m where "kernel_node z sels n (b, d) = Done (b(n := m), e)" by blast
  with Cons.IH [OF e(2)] show ?case by simp
qed simp

lemma kernel_gathered_mset:
  assumes "rules_ok F sels"
  shows "mset (kernel_gathered z sels d n) = mset (filter (matched z d n) (hits_from z 0 sels))"
proof -
  have "mset (kernel_gathered z sels d n) =
      mset (filter (matched z d n) (candidates (idHash (hash z sels)) (fld d ''id'' n))) +
      mset (filter (matched z d n) (candidates (tagHash (hash z sels)) (fld d ''displayname'' n))) +
      mset (filter (\<lambda>h. on_star z h \<and> matched z d n h) (hits_from z 0 sels))"
    by (simp add: kernel_gathered_def mset_filter mset_merged3 hash_star filter_filter_mset)
  also have "\<dots> = mset (filter (\<lambda>h. (on_id z h \<and> matched z d n h \<or> on_tag z h \<and> matched z d n h) \<or>
      on_star z h \<and> matched z d n h) (hits_from z 0 sels))"
    unfolding candidates_matched [OF assms]
    by (subst mset_filter_or, force simp: on_id_def on_tag_def)
       (rule mset_filter_or, force simp: on_id_def on_tag_def on_star_def)
  also have "\<dots> = mset (filter (matched z d n) (hits_from z 0 sels))"
    by (intro arg_cong [where f = mset] filter_cong) (auto simp: on_id_def on_tag_def on_star_def)
  finally show ?thesis .
qed

lemma merged_key_cong:
  "(\<And>x y. x \<in> set us \<Longrightarrow> y \<in> set ts \<Longrightarrow> f x < f y \<longleftrightarrow> g x < g y) \<Longrightarrow> merged f us ts = merged g us ts"
  by (induction f us ts rule: merged.induct) auto

lemma getSpec_less:
  assumes "specificity h < 2 ^ 32" and "specificity k < 2 ^ 32"
  shows "getSpec h < getSpec k \<longleftrightarrow> specificity h < specificity k"
  using assms by (simp add: getSpec_def word_less_nat_alt unat_of_nat take_bit_nat_eq_self)

lemma kernel_gathered_objects:
  assumes "\<forall>h \<in> set (hits_from z 0 sels). specificity h < 2 ^ 32 \<and> \<not> on_star z h"
  shows "kernel_gathered z sels d n = gathered z sels d n"
proof -
  have "star (hash z sels) = []" using assms by (simp add: hash_star filter_empty_conv)
  moreover have "merged getSpec (candidates (idHash (hash z sels)) x) (candidates (tagHash (hash z sels)) y) =
      merged specificity (candidates (idHash (hash z sels)) x) (candidates (tagHash (hash z sels)) y)" for x y
    using assms candidates_sub(1,2) by (intro merged_key_cong getSpec_less) blast+
  ultimately show ?thesis by (simp add: kernel_gathered_def gathered_def merged3_no_star)
qed

end
