(* ===== verification/SelParse.thy ===== *)
theory SelParse
  imports SelFlat
begin

text \<open>
  The front end of the selector engines: the style sheet is parsed into rules, the names in it
  become tokens, and every selector that comes out alternates predicates and combinators, which
  is what the matchers need.  Strings are lists of 8-bit characters; numbers are exact.
\<close>

section \<open>String methods\<close>

definition js_space :: "char \<Rightarrow> bool" where
  "js_space c \<longleftrightarrow> c \<in> {CHR 0x09, CHR 0x0A, CHR 0x0B, CHR 0x0C, CHR 0x0D, CHR '' '', CHR 0xA0}"

definition trim :: "string \<Rightarrow> string" where
  "trim s = rev (dropWhile js_space (rev (dropWhile js_space s)))"

fun js_split :: "char \<Rightarrow> string \<Rightarrow> string list" where
  "js_split c [] = [[]]"
| "js_split c (x # xs) = (if x = c then [] # js_split c xs
     else (case js_split c xs of [] \<Rightarrow> [[x]] | p # ps \<Rightarrow> (x # p) # ps))"

text \<open>\<open>s.replace(/  |\t|\n|\r/g, ' ')\<close> and \<open>s.replace(/( ;)|(; )|(;;)/g, ';')\<close>.\<close>

definition blank_chars :: "char set" where
  "blank_chars = {CHR 0x09, CHR 0x0A, CHR 0x0D}"

definition semi_pair :: "char \<Rightarrow> char \<Rightarrow> bool" where
  "semi_pair c c' \<longleftrightarrow> (c, c') \<in> {(CHR '' '', CHR '';''), (CHR '';'', CHR '' ''), (CHR '';'', CHR '';'')}"

fun replace_blanks :: "string \<Rightarrow> string" where
  "replace_blanks [] = []"
| "replace_blanks (c # s) =
     (if c \<in> blank_chars then CHR '' '' # replace_blanks s
      else case s of
        [] \<Rightarrow> [c]
      | c' # s' \<Rightarrow> if c = CHR '' '' \<and> c' = CHR '' '' then CHR '' '' # replace_blanks s'
                   else c # replace_blanks s)"

fun replace_semis :: "string \<Rightarrow> string" where
  "replace_semis [] = []"
| "replace_semis [c] = [c]"
| "replace_semis (c # c' # s) =
     (if semi_pair c c'
      then CHR '';'' # replace_semis s else c # replace_semis (c' # s))"

text \<open>The loop of \<open>collapse\<close>: replace until nothing changes.\<close>

partial_function (option) collapse :: "(string \<Rightarrow> string) \<Rightarrow> string \<Rightarrow> string option" where
  "collapse repl raw = (if repl raw = raw then Some raw else collapse repl (repl raw))"

declare collapse.simps [code]

section \<open>Numbers\<close>

definition is_digit :: "char \<Rightarrow> bool" where
  "is_digit c \<longleftrightarrow> (48 :: nat) \<le> of_char c \<and> of_char c \<le> (57 :: nat)"

definition digits_val :: "nat \<Rightarrow> string \<Rightarrow> nat" where
  "digits_val b s = foldl (\<lambda>n c. n * b + (let k = of_char c :: nat in if k \<le> 57 then k - 48 else k - 87)) 0 s"

definition is_hex :: "char \<Rightarrow> bool" where
  "is_hex c \<longleftrightarrow> is_digit c \<or> (97 :: nat) \<le> of_char c \<and> of_char c \<le> (102 :: nat)"

definition split_sign :: "string \<Rightarrow> bool \<times> string" where
  "split_sign s = (case s of [] \<Rightarrow> (False, []) | c # r \<Rightarrow>
     if c = CHR ''-'' then (True, r) else if c = CHR ''+'' then (False, r) else (False, s))"

definition exponent :: "string \<Rightarrow> int" where
  "exponent s = (case s of [] \<Rightarrow> 0 | c # r \<Rightarrow>
     if c = CHR ''e'' \<or> c = CHR ''E''
     then (let (neg, r') = split_sign r; ds = takeWhile is_digit r'
           in if ds = [] then 0 else (if neg then - int (digits_val 10 ds) else int (digits_val 10 ds)))
     else 0)"

definition scale10 :: "int \<Rightarrow> real \<Rightarrow> real" where
  "scale10 e x = (if e < 0 then x / 10 ^ nat (- e) else x * 10 ^ nat e)"

definition parseFloat :: "string \<Rightarrow> jsnum" where
  "parseFloat s =
     (let (neg, r) = split_sign (dropWhile js_space s) in
      if prefix ''Infinity'' r then Infinite neg
      else let ip = takeWhile is_digit r; r1 = dropWhile is_digit r;
               fp = (case r1 of [] \<Rightarrow> [] | c # q \<Rightarrow> if c = CHR ''.'' then takeWhile is_digit q else []);
               r2 = (case r1 of [] \<Rightarrow> [] | c # q \<Rightarrow> if c = CHR ''.'' then dropWhile is_digit q else r1)
           in if ip = [] \<and> fp = [] then NaN
              else let v = scale10 (exponent r2 - int (length fp)) (real (digits_val 10 (ip @ fp)))
                   in Num (if neg then - v else v))"

text \<open>\<open>parseInt(s, 16)\<close> and \<open>parseInt(s)\<close> on lower-case text.\<close>

definition strip_0x :: "string \<Rightarrow> string" where
  "strip_0x r = (if prefix ''0x'' r then drop 2 r else r)"

definition parseInt16 :: "string \<Rightarrow> jsnum" where
  "parseInt16 s =
     (let (neg, r) = split_sign (dropWhile js_space s); ds = takeWhile is_hex (strip_0x r)
      in if ds = [] then NaN else Num (if neg then - real (digits_val 16 ds) else real (digits_val 16 ds)))"

definition parseInt :: "string \<Rightarrow> jsnum" where
  "parseInt s =
     (let (neg, r) = split_sign (dropWhile js_space s)
      in if prefix ''0x'' r then parseInt16 s
         else let ds = takeWhile is_digit r
              in if ds = [] then NaN else Num (if neg then - real (digits_val 10 ds) else real (digits_val 10 ds)))"

fun num_add :: "jsnum \<Rightarrow> jsnum \<Rightarrow> jsnum" where
  "num_add (Num a) (Num b) = Num (a + b)"
| "num_add a b = NaN"

fun num_scale :: "real \<Rightarrow> jsnum \<Rightarrow> jsnum" where
  "num_scale k (Num a) = Num (k * a)"
| "num_scale k a = NaN"

section \<open>Parsing\<close>

type_synonym raw_item = "(string, string, char) item"

definition parsePredicate :: "string \<Rightarrow> raw_item" where
  "parsePredicate predStr =
     (case index_of (CHR ''#'') predStr of
        None \<Rightarrow> Pred predStr ''''
      | Some hashIdx \<Rightarrow> Pred (if 0 < hashIdx then take hashIdx predStr else ''*'') (drop (1 + hashIdx) predStr))"

text \<open>\<open>if (i > 0) sel.push({combinator: c})\<close> before the items of each further part.\<close>

fun join_op :: "char \<Rightarrow> raw_item list list \<Rightarrow> raw_item list" where
  "join_op c [] = []"
| "join_op c [x] = x"
| "join_op c (x # y # zs) = x @ Op c # join_op c (y # zs)"

definition parsePredicates :: "string \<Rightarrow> raw_item list list" where
  "parsePredicates predsStr =
     filter (\<lambda>sel. 0 < length sel)
       (map (\<lambda>selRaw.
          join_op (CHR ''+'') (map (\<lambda>sib.
            join_op (CHR ''>'') (map (\<lambda>par.
              join_op (CHR '' '') (map (\<lambda>des. [parsePredicate des]) (js_split (CHR '' '') (trim par))))
              (js_split (CHR ''>'') (trim sib))))
            (js_split (CHR ''+'') (trim selRaw))))
          (js_split (CHR '','') predsStr))"

datatype sel_error = EmptyValue | NoValue | NoSuchProperty string | UnknownTag string | Stuck

text \<open>\<open>res[k] = v\<close> on an object with string keys.\<close>

fun put_key :: "string \<Rightarrow> 'v \<Rightarrow> (string \<times> 'v) list \<Rightarrow> (string \<times> 'v) list" where
  "put_key k v [] = [(k, v)]"
| "put_key k v ((l, w) # ps) = (if k = l then (k, v) # ps else (l, w) # put_key k v ps)"

definition props_parts :: "string \<Rightarrow> (string list) option" where
  "props_parts propsStr = map_option (\<lambda>s. filter (\<lambda>p. p \<noteq> '''') (js_split (CHR '';'') (trim s)))
     (collapse replace_semis propsStr)"

text \<open>\<open>parseProperties\<close> of \<open>selectors.js\<close> and \<open>selectorsGPU.js\<close>: no check of any kind.\<close>

definition parseProperties :: "string \<Rightarrow> sel_error + (string \<times> jsnum) list" where
  "parseProperties propsStr = (case props_parts propsStr of
     None \<Rightarrow> Inl Stuck
   | Some ps \<Rightarrow> Inr (foldl (\<lambda>res p.
        let pair = js_split (CHR '':'') (trim p)
        in put_key (lower_case (trim (pair ! 0))) (if 1 < length pair then parseFloat (pair ! 1) else NaN) res)
        [] ps))"

text \<open>\<open>parseVal\<close> of \<open>CLRunner.js\<close>; \<open>FloatText v\<close> is the string \<open>v + "f"\<close>.\<close>

datatype css_val = Plain jsnum | FloatText jsnum

definition parseVal :: "string \<Rightarrow> sel_error + css_val" where
  "parseVal valStrRaw =
     (let valStr = trim (lower_case valStrRaw) in
      if valStr = [] then Inl EmptyValue
      else if hd valStr = CHR ''#'' then
        (let code = tl valStr;
             code3 = (if length code = 3
                      then [code ! 0, code ! 0, code ! 1, code ! 1, code ! 2, code ! 2] else code);
             code6 = (if length code3 = 6 then ''ff'' @ code3 else code3)
         in Inr (Plain (parseInt16 code6)))
      else if take 4 valStr = ''rgb('' \<and> last valStr = CHR '')'' then
        (let colors = map (\<lambda>s. parseInt (trim s)) (js_split (CHR '','') (butlast (drop 4 valStr)));
             color = (\<lambda>k. if k < length colors then colors ! k else NaN)
         in Inr (Plain (num_add (num_add (num_scale (256 * 256) (color 0)) (num_scale 256 (color 1))) (color 2))))
      else
        (let val = parseFloat valStrRaw
         in case val of
              Num r \<Rightarrow> Inr (if r = of_int \<lfloor>r + 1 / 2\<rfloor> then Plain val else FloatText val)
            | NaN \<Rightarrow> Inr (FloatText val)
            | Infinite b \<Rightarrow> Inr (Plain val)))"

text \<open>\<open>parseProperties\<close> of \<open>CLRunner.js\<close>: \<open>known\<close> says which fields the runner has.\<close>

fun parse_props_checked :: "(string \<Rightarrow> bool) \<Rightarrow> string list \<Rightarrow> (string \<times> css_val) list
    \<Rightarrow> sel_error + (string \<times> css_val) list" where
  "parse_props_checked known [] res = Inr res"
| "parse_props_checked known (p # ps) res =
     (let pair = js_split (CHR '':'') (trim p); lhs = lower_case (trim (pair ! 0))
      in if \<not> known lhs then Inl (NoSuchProperty (pair ! 0))
         else if length pair \<le> 1 then Inl NoValue
         else (case parseVal (pair ! 1) of
                 Inl e \<Rightarrow> Inl e
               | Inr v \<Rightarrow> parse_props_checked known ps (put_key lhs v res)))"

definition parsePropertiesCL :: "(string \<Rightarrow> bool) \<Rightarrow> string \<Rightarrow> sel_error + (string \<times> css_val) list" where
  "parsePropertiesCL known propsStr = (case props_parts propsStr of
     None \<Rightarrow> Inl Stuck
   | Some ps \<Rightarrow> parse_props_checked known ps [])"

fun parse_rules :: "(string \<Rightarrow> sel_error + (string \<times> 'v) list) \<Rightarrow> string list
    \<Rightarrow> sel_error + (raw_item list list \<times> (string \<times> 'v) list) list" where
  "parse_rules pprops [] = Inr []"
| "parse_rules pprops (selRaw # sels) =
     (if CHR ''{'' \<notin> set selRaw then parse_rules pprops sels
      else let pair = js_split (CHR ''{'') selRaw
           in case pprops (pair ! 1) of
                Inl e \<Rightarrow> Inl e
              | Inr ds \<Rightarrow> (case parse_rules pprops sels of
                    Inl e \<Rightarrow> Inl e
                  | Inr rs \<Rightarrow> Inr ((parsePredicates (pair ! 0), ds) # rs)))"

definition parse :: "(string \<Rightarrow> sel_error + (string \<times> 'v) list) \<Rightarrow> string
    \<Rightarrow> sel_error + (raw_item list list \<times> (string \<times> 'v) list) list" where
  "parse pprops sheet = (case collapse replace_blanks sheet of
     None \<Rightarrow> Inl Stuck
   | Some s \<Rightarrow> parse_rules pprops (js_split (CHR ''}'') s))"

section \<open>Tokens\<close>

definition tokenizeOp :: "char \<Rightarrow> nat" where
  "tokenizeOp c = (if c = CHR '' '' then 0 else if c = CHR ''>'' then 1 else if c = CHR ''+'' then 2 else 3)"

definition id_token :: "nat \<Rightarrow> string \<Rightarrow> string list \<Rightarrow> nat \<times> string list" where
  "id_token z i IdToks =
     (if i = [] then (z, IdToks)
      else let idClean = lower_case i in
        case index_of idClean IdToks of
          Some k \<Rightarrow> (k, IdToks)
        | None \<Rightarrow> (length IdToks, IdToks @ [idClean]))"

definition tag_token :: "(string \<Rightarrow> nat option) \<Rightarrow> string \<Rightarrow> sel_error + nat" where
  "tag_token ctt t =
     (if t = [] then Inr 0
      else if t = ''*'' then Inr StarTok
      else case ctt (upper_case t) of None \<Rightarrow> Inl (UnknownTag t) | Some k \<Rightarrow> Inr k)"

fun tokenizeItems :: "(string \<Rightarrow> nat option) \<Rightarrow> nat \<Rightarrow> raw_item list \<Rightarrow> string list
    \<Rightarrow> sel_error + tok_item list \<times> string list" where
  "tokenizeItems ctt z [] IdToks = Inr ([], IdToks)"
| "tokenizeItems ctt z (Op c # xs) IdToks =
     (case tokenizeItems ctt z xs IdToks of Inl e \<Rightarrow> Inl e | Inr (ys, T) \<Rightarrow> Inr (Op (tokenizeOp c) # ys, T))"
| "tokenizeItems ctt z (Pred t i # xs) IdToks =
     (case tag_token ctt t of
        Inl e \<Rightarrow> Inl e
      | Inr t' \<Rightarrow>
          let (i', IdToks1) = id_token z i IdToks in
          case tokenizeItems ctt z xs IdToks1 of
            Inl e \<Rightarrow> Inl e
          | Inr (ys, T) \<Rightarrow> Inr (Pred t' i' # ys, T))"

fun tokenizePreds :: "(string \<Rightarrow> nat option) \<Rightarrow> nat \<Rightarrow> raw_item list list \<Rightarrow> string list
    \<Rightarrow> sel_error + tok_item list list \<times> string list" where
  "tokenizePreds ctt z [] IdToks = Inr ([], IdToks)"
| "tokenizePreds ctt z (p # ps) IdToks =
     (case tokenizeItems ctt z p IdToks of
        Inl e \<Rightarrow> Inl e
      | Inr (p', T) \<Rightarrow> (case tokenizePreds ctt z ps T of
            Inl e \<Rightarrow> Inl e
          | Inr (ps', T') \<Rightarrow> Inr (p' # ps', T')))"

fun tokenizeRules :: "(string \<Rightarrow> nat option) \<Rightarrow> nat \<Rightarrow> (raw_item list list \<times> (string \<times> jsnum) list) list
    \<Rightarrow> string list \<Rightarrow> sel_error + tok_item rule list \<times> string list" where
  "tokenizeRules ctt z [] IdToks = Inr ([], IdToks)"
| "tokenizeRules ctt z ((ps, ds) # rs) IdToks =
     (case tokenizePreds ctt z ps IdToks of
        Inl e \<Rightarrow> Inl e
      | Inr (ps', T) \<Rightarrow> (case tokenizeRules ctt z rs T of
            Inl e \<Rightarrow> Inl e
          | Inr (rs', T') \<Rightarrow> Inr (\<lparr>predicates = ps', declarations = ds\<rparr> # rs', T')))"

text \<open>
  The construction of an engine: the token of the empty id is found, or added, first.
\<close>

definition compile :: "(string \<Rightarrow> nat option) \<Rightarrow> string list \<Rightarrow> string
    \<Rightarrow> sel_error + nat \<times> tok_item rule list \<times> string list" where
  "compile ctt IdToks sels =
     (let IdToks1 = (if index_of [] IdToks = None then IdToks @ [[]] else IdToks);
          z = (case index_of [] IdToks1 of Some k \<Rightarrow> k | None \<Rightarrow> 0)
      in case parse parseProperties sels of
           Inl e \<Rightarrow> Inl e
         | Inr ast \<Rightarrow> (case tokenizeRules ctt z ast IdToks1 of
               Inl e \<Rightarrow> Inl e
             | Inr (rs, T) \<Rightarrow> Inr (z, rs, T)))"

section \<open>The selectors of a compiled sheet\<close>

fun alternating :: "('t, 'i, 'c) item list \<Rightarrow> bool" where
  "alternating [Pred t i] = True"
| "alternating (Pred t i # Op c # xs) = alternating xs"
| "alternating _ = False"

lemma alternating_join: "alternating xs \<Longrightarrow> alternating ys \<Longrightarrow> alternating (xs @ Op c # ys)"
  by (induction xs rule: alternating.induct) auto

lemma join_op_alternating:
  "xss \<noteq> [] \<Longrightarrow> \<forall>x \<in> set xss. alternating x \<Longrightarrow> alternating (join_op c xss)"
  by (induction c xss rule: join_op.induct) (auto intro: alternating_join)

lemma js_split_nonempty [simp]: "js_split c s \<noteq> []"
  by (induction c s rule: js_split.induct) (auto split: list.split)

lemma parsePredicate_alternating [simp]: "alternating [parsePredicate d]"
  by (simp add: parsePredicate_def split: option.split)

lemma parsePredicates_alternating: "p \<in> set (parsePredicates s) \<Longrightarrow> alternating p"
  by (auto simp: parsePredicates_def intro!: join_op_alternating)

fun op_chars :: "raw_item list \<Rightarrow> char set" where
  "op_chars [] = {}"
| "op_chars (Op c # xs) = insert c (op_chars xs)"
| "op_chars (Pred t i # xs) = op_chars xs"

lemma op_chars_append [simp]: "op_chars (xs @ ys) = op_chars xs \<union> op_chars ys"
  by (induction xs rule: op_chars.induct) auto

lemma op_chars_join: "op_chars (join_op c xss) \<subseteq> insert c (\<Union> (op_chars ` set xss))"
  by (induction c xss rule: join_op.induct) auto

lemma op_chars_predicate [simp]: "op_chars [parsePredicate d] = {}"
  by (simp add: parsePredicate_def split: option.split)

lemma parsePredicates_ops:
  assumes "p \<in> set (parsePredicates s)"
  shows "op_chars p \<subseteq> {CHR '' '', CHR ''>'', CHR ''+''}"
proof -
  have d: "op_chars (join_op (CHR '' '') (map (\<lambda>des. [parsePredicate des]) ds)) \<subseteq> {CHR '' ''}" for ds
    using op_chars_join [of "CHR '' ''" "map (\<lambda>des. [parsePredicate des]) ds"] by auto
  have p: "op_chars (join_op (CHR ''>'') (map (\<lambda>par. join_op (CHR '' '')
      (map (\<lambda>des. [parsePredicate des]) (f par))) ps)) \<subseteq> {CHR '' '', CHR ''>''}" for f ps
    by (rule order_trans [OF op_chars_join]) (use d in auto)
  show ?thesis
    using assms unfolding parsePredicates_def
    by (auto dest!: subsetD [OF op_chars_join] subsetD [OF p])
qed

lemma selector_ok_single: "selector_ok [p] \<longleftrightarrow> is_Pred p"
  by (simp add: selector_ok_def)

lemma selector_ok_step: "selector_ok (p # Op c # xs) \<longleftrightarrow> is_Pred p \<and> c < 3 \<and> selector_ok xs"
proof -
  have "(\<forall>k < Suc (Suc (length xs)). P k) \<longleftrightarrow> P 0 \<and> P 1 \<and> (\<forall>k < length xs. P (Suc (Suc k)))" for P
    by (auto simp: less_Suc_eq_0_disj)
  then show ?thesis by (simp add: selector_ok_def conj_ac)
qed

lemma tokenizeItems_ok:
  "tokenizeItems ctt z xs T = Inr (ys, T') \<Longrightarrow> alternating xs \<Longrightarrow>
    op_chars xs \<subseteq> {CHR '' '', CHR ''>'', CHR ''+''} \<Longrightarrow> selector_ok ys"
proof (induction xs arbitrary: ys T rule: alternating.induct)
  case (1 t i)
  then show ?case by (auto simp: selector_ok_single split: sum.splits prod.splits)
next
  case (2 t i c xs)
  then show ?case
    by (auto simp: selector_ok_step tokenizeOp_def split: sum.splits prod.splits)
qed auto

lemma tokenizePreds_ok:
  "tokenizePreds ctt z ps T = Inr (ps', T') \<Longrightarrow> set ps \<subseteq> set (parsePredicates s) \<Longrightarrow>
    p \<in> set ps' \<Longrightarrow> selector_ok p"
proof (induction ps arbitrary: ps' T)
  case (Cons q ps)
  then show ?case
    using tokenizeItems_ok [of ctt z q T _] parsePredicates_alternating [of q s] parsePredicates_ops [of q s]
    by (auto split: sum.splits)
qed simp

lemma parse_rules_preds:
  "parse_rules pprops ss = Inr rs \<Longrightarrow> list_all (\<lambda>r. \<exists>s. fst r = parsePredicates s) rs"
  by (induction ss arbitrary: rs) (auto simp: Let_def split: if_splits sum.splits)

lemma tokenizeRules_ok:
  "tokenizeRules ctt z rs T = Inr (rs', T') \<Longrightarrow> \<forall>r \<in> set rs. \<exists>s. fst r = parsePredicates s \<Longrightarrow>
    \<forall>r \<in> set rs'. \<forall>p \<in> set (predicates r). selector_ok p"
proof (induction rs arbitrary: rs' T)
  case (Cons r rs)
  obtain ps ds where r: "r = (ps, ds)" by (cases r)
  with Cons.prems obtain ps' T1 rs1 where t: "tokenizePreds ctt z ps T = Inr (ps', T1)"
    "tokenizeRules ctt z rs T1 = Inr (rs1, T')" "rs' = \<lparr>predicates = ps', declarations = ds\<rparr> # rs1"
    by (auto split: sum.splits)
  from Cons.prems(2) r obtain s where "ps = parsePredicates s" by auto
  with tokenizePreds_ok [OF t(1), of s] have "\<forall>p \<in> set ps'. selector_ok p" by auto
  with Cons.IH [OF t(2)] Cons.prems(2) t(3) show ?case by auto
qed simp

lemma compile_selectors_ok:
  assumes "compile ctt IdToks sheet = Inr (z, rs, T)"
  shows "\<forall>r \<in> set rs. \<forall>p \<in> set (predicates r). selector_ok p"
proof -
  from assms obtain ss ast T0 where a: "parse_rules parseProperties ss = Inr ast"
    "tokenizeRules ctt z ast T0 = Inr (rs, T)"
    by (auto simp: compile_def parse_def Let_def split: sum.splits option.splits prod.splits)
  show ?thesis
    using tokenizeRules_ok [OF a(2)] parse_rules_preds [OF a(1)] by (simp add: list_all_iff)
qed

section \<open>Collapsing\<close>

text \<open>The loop ends for a replacement that makes the text smaller whenever it changes it.\<close>

lemma collapse_ends:
  assumes "\<And>s. repl s = s \<or> m (repl s) < (m s :: nat)"
  shows "\<exists>t. collapse repl s = Some t \<and> repl t = t"
proof (induction s rule: measure_induct_rule [of m])
  case (less s)
  show ?case
  proof (cases "repl s = s")
    case True
    then show ?thesis by (subst collapse.simps) simp
  next
    case False
    with assms [of s] less obtain t where "collapse repl (repl s) = Some t" "repl t = t" by blast
    with False show ?thesis by (subst collapse.simps) simp
  qed
qed

definition blank_size :: "string \<Rightarrow> nat" where
  "blank_size s = length s + length (filter (\<lambda>c. c \<in> blank_chars) s)"

lemma space_not_blank [simp]: "CHR '' '' \<notin> blank_chars"
  by (simp add: blank_chars_def)

lemma replace_blanks_smaller: "replace_blanks s = s \<or> blank_size (replace_blanks s) < blank_size s"
proof (induction s rule: replace_blanks.induct)
  case (2 c s)
  show ?case
  proof (cases "c \<in> blank_chars")
    case True
    with 2(1) show ?thesis by (auto simp: blank_size_def)
  next
    case False
    with 2(2,3) show ?thesis by (cases s) (auto simp: blank_size_def)
  qed
qed simp

lemma replace_semis_smaller: "replace_semis s = s \<or> length (replace_semis s) < length s"
  by (induction s rule: replace_semis.induct) auto

lemma length_replace_blanks: "length (replace_blanks s) \<le> length s"
proof (induction s rule: replace_blanks.induct)
  case (2 c s)
  show ?case
  proof (cases "c \<in> blank_chars")
    case True
    with 2(1) show ?thesis by simp
  next
    case False
    with 2(2,3) show ?thesis by (cases s) (auto intro: le_SucI)
  qed
qed simp

lemma length_replace_semis: "length (replace_semis s) \<le> length s"
  by (induction s rule: replace_semis.induct) auto

fun adjacent :: "(char \<Rightarrow> char \<Rightarrow> bool) \<Rightarrow> string \<Rightarrow> bool" where
  "adjacent R (c # c' # s) = (R c c' \<or> adjacent R (c' # s))"
| "adjacent R _ = False"

text \<open>The fixed points: no blank but the space, and no two spaces, or no semicolon next to another or to a space.\<close>

lemma replace_blanks_fixed:
  "replace_blanks s = s \<Longrightarrow> set s \<inter> blank_chars = {} \<and> \<not> adjacent (\<lambda>c c'. c = CHR '' '' \<and> c' = CHR '' '') s"
proof (induction s rule: replace_blanks.induct)
  case (2 c s)
  have c: "c \<notin> blank_chars" using 2(4) by auto
  show ?case
  proof (cases s)
    case Nil
    with c show ?thesis by simp
  next
    case (Cons c' s')
    have "\<not> (c = CHR '' '' \<and> c' = CHR '' '')"
    proof
      assume a: "c = CHR '' '' \<and> c' = CHR '' ''"
      with 2(4) Cons have "length (CHR '' '' # replace_blanks s') = length (c # c' # s')" by simp
      with length_replace_blanks [of s'] show False by simp
    qed
    with 2(3) [OF c Cons] 2(4) c Cons show ?thesis by (auto split: if_splits)
  qed
qed simp

lemma replace_semis_fixed: "replace_semis s = s \<Longrightarrow> \<not> adjacent semi_pair s"
proof (induction s rule: replace_semis.induct)
  case (3 c c' s)
  have "\<not> semi_pair c c'"
  proof
    assume "semi_pair c c'"
    with 3(3) have "length (CHR '';'' # replace_semis s) = length (c # c' # s)" by simp
    with length_replace_semis [of s] show False by simp
  qed
  with 3 show ?case by simp
qed simp_all

lemma collapse_blanks:
  "\<exists>t. collapse replace_blanks s = Some t \<and> set t \<inter> blank_chars = {} \<and>
     \<not> adjacent (\<lambda>c c'. c = CHR '' '' \<and> c' = CHR '' '') t"
  using collapse_ends [of replace_blanks blank_size s] replace_blanks_smaller replace_blanks_fixed by blast

lemma collapse_semis: "\<exists>t. collapse replace_semis s = Some t \<and> \<not> adjacent semi_pair t"
  using collapse_ends [of replace_semis length s] replace_semis_smaller replace_semis_fixed by blast

section \<open>The token table\<close>

lemma id_token_table:
  assumes "id_token z i T = (k, T')" and "z < length T"
  shows "prefix T T' \<and> k < length T' \<and> (k = z \<or> T' ! k = lower_case i)"
  using assms index_of_Some [of "lower_case i" T]
  by (auto simp: id_token_def Let_def split: if_splits option.splits)

lemma tokenizeItems_table:
  "tokenizeItems ctt z xs T = Inr (ys, T') \<Longrightarrow> z < length T \<Longrightarrow>
    prefix T T' \<and> (\<forall>t i. Pred t i \<in> set ys \<longrightarrow> i < length T')"
proof (induction xs arbitrary: ys T)
  case (Cons x xs)
  show ?case
  proof (cases x)
    case (Op c)
    with Cons show ?thesis by (auto split: sum.splits)
  next
    case (Pred t i)
    with Cons.prems(1) obtain t' k T1 zs where t: "id_token z i T = (k, T1)"
      "tokenizeItems ctt z xs T1 = Inr (zs, T')" "ys = Pred t' k # zs"
      by (auto simp: Let_def split: sum.splits prod.splits)
    from id_token_table [OF t(1) Cons.prems(2)] have k: "prefix T T1" "k < length T1" by auto
    then have "z < length T1" using Cons.prems(2) prefix_length_le [of T T1] by linarith
    with Cons.IH [OF t(2)] have r: "prefix T1 T'" "\<forall>t i. Pred t i \<in> set zs \<longrightarrow> i < length T'" by auto
    with k prefix_length_le [OF r(1)] t(3) show ?thesis by (auto intro: prefix_order.trans)
  qed
qed simp

definition ids_below :: "nat \<Rightarrow> tok_item list \<Rightarrow> bool" where
  "ids_below n p \<longleftrightarrow> (\<forall>t i. Pred t i \<in> set p \<longrightarrow> i < n)"

lemma ids_below_mono: "ids_below m p \<Longrightarrow> m \<le> n \<Longrightarrow> ids_below n p"
  unfolding ids_below_def using order_less_le_trans by blast

lemma tokenizePreds_table:
  "tokenizePreds ctt z ps T = Inr (ps', T') \<Longrightarrow> z < length T \<Longrightarrow>
    prefix T T' \<and> (\<forall>p \<in> set ps'. ids_below (length T') p)"
proof (induction ps arbitrary: ps' T)
  case (Cons p ps)
  then obtain p1 T1 ps1 where t: "tokenizeItems ctt z p T = Inr (p1, T1)"
    "tokenizePreds ctt z ps T1 = Inr (ps1, T')" "ps' = p1 # ps1"
    by (auto split: sum.splits)
  from tokenizeItems_table [OF t(1) Cons.prems(2)] have a: "prefix T T1" "ids_below (length T1) p1"
    by (auto simp: ids_below_def)
  then have "z < length T1" using Cons.prems(2) prefix_length_le [of T T1] by linarith
  from Cons.IH [OF t(2) this] have r: "prefix T1 T'" "\<forall>p \<in> set ps1. ids_below (length T') p" by auto
  from a(2) have "ids_below (length T') p1" by (rule ids_below_mono) (rule prefix_length_le [OF r(1)])
  with prefix_order.trans [OF a(1) r(1)] r(2) t(3) show ?case by simp
qed simp

lemma tokenizeRules_table:
  "tokenizeRules ctt z rs T = Inr (rs', T') \<Longrightarrow> z < length T \<Longrightarrow>
    prefix T T' \<and> (\<forall>r \<in> set rs'. \<forall>p \<in> set (predicates r). ids_below (length T') p)"
proof (induction rs arbitrary: rs' T)
  case (Cons r rs)
  obtain ps ds where r: "r = (ps, ds)" by (cases r)
  with Cons.prems obtain ps1 T1 rs1 where t: "tokenizePreds ctt z ps T = Inr (ps1, T1)"
    "tokenizeRules ctt z rs T1 = Inr (rs1, T')" "rs' = \<lparr>predicates = ps1, declarations = ds\<rparr> # rs1"
    by (auto split: sum.splits)
  from tokenizePreds_table [OF t(1) Cons.prems(2)] have a: "prefix T T1" "\<forall>p \<in> set ps1. ids_below (length T1) p"
    by auto
  then have "z < length T1" using Cons.prems(2) prefix_length_le [of T T1] by linarith
  from Cons.IH [OF t(2) this] have b: "prefix T1 T'" "\<forall>r \<in> set rs1. \<forall>p \<in> set (predicates r). ids_below (length T') p"
    by auto
  have "ids_below (length T') p" if "p \<in> set ps1" for p
    using a(2) that by (intro ids_below_mono [OF _ prefix_length_le [OF b(1)]]) simp
  with prefix_order.trans [OF a(1) b(1)] b(2) t(3) show ?case by simp
qed simp

lemma compile_table:
  assumes "compile ctt IdToks sheet = Inr (z, rs, T)"
  shows "prefix IdToks T \<and> z < length T \<and> T ! z = [] \<and>
    (\<forall>r \<in> set rs. \<forall>p \<in> set (predicates r). selector_ok p \<and> ids_below (length T) p)"
proof -
  define T0 where "T0 = (if index_of [] IdToks = None then IdToks @ [[]] else IdToks)"
  define y where "y = (case index_of [] T0 of Some k \<Rightarrow> k | None \<Rightarrow> 0)"
  from assms have c: "(case parse parseProperties sheet of Inl e \<Rightarrow> Inl e
     | Inr ast \<Rightarrow> (case tokenizeRules ctt y ast T0 of Inl e \<Rightarrow> Inl e | Inr (rs, T) \<Rightarrow> Inr (y, rs, T))) = Inr (z, rs, T)"
    unfolding compile_def Let_def T0_def [symmetric] y_def [symmetric] .
  then obtain ast rs' T' where "tokenizeRules ctt y ast T0 = Inr (rs', T')" "(y, rs', T') = (z, rs, T)"
    by (cases "parse parseProperties sheet") (simp_all split: sum.splits prod.splits)
  then have a: "tokenizeRules ctt z ast T0 = Inr (rs, T)" "z = y" by simp_all
  have "[] \<in> set T0" by (simp add: T0_def index_of_None)
  then obtain k where k: "index_of [] T0 = Some k" using index_of_mem by metis
  then have z: "z < length T0" "T0 ! z = []" using a(2) index_of_Some [OF k] by (simp_all add: y_def)
  have p: "prefix IdToks T0" by (simp add: T0_def)
  from tokenizeRules_table [OF a(1) z(1)] have t: "prefix T0 T"
    "\<forall>r \<in> set rs. \<forall>p \<in> set (predicates r). ids_below (length T) p" by auto
  have "z < length T \<and> T ! z = []" using t(1) z by (auto simp: prefix_def nth_append)
  with prefix_order.trans [OF p t(1)] t(2) compile_selectors_ok [OF assms] show ?thesis by simp
qed

end
