(* ===== verification/SelKernel.thy ===== *)
theory SelKernel
  imports SelParse
begin

text \<open>
  The selector kernel of \<open>CLRunner.js\<close> from its own style sheet: the runner parses values with its own
  \<open>parseVal\<close>, prints what that returns into the source of the kernel, and C converts the literal to the
  type of the field.  On one sheet the kernel and the engine over objects are shown to apply the same
  rules in the same order at every node, each with its own reading of the same text.
\<close>

section \<open>The program\<close>

text \<open>
  \<open>assigned f v\<close> is what \<open>f(nodeindex) = <literal of v>;\<close> leaves in the field of a node, with the
  conversion of C to the field's type; \<open>None\<close> if the OpenCL compiler refuses the assignment, as it
  does for the text \<open>NaNf\<close>.
\<close>

type_synonym c_compiler = "string \<Rightarrow> css_val \<Rightarrow> jsnum option"

definition emitted :: "c_compiler \<Rightarrow> (string \<times> css_val) list \<Rightarrow> (string \<times> jsnum) list" where
  "emitted assigned ds = map (\<lambda>(f, v). (f, case assigned f v of Some x \<Rightarrow> x | None \<Rightarrow> NaN)) ds"

definition accepted :: "c_compiler \<Rightarrow> (string \<times> css_val) list \<Rightarrow> bool" where
  "accepted assigned ds \<longleftrightarrow> list_all (\<lambda>(f, v). assigned f v \<noteq> None) ds"

text \<open>
  \<open>selectorEngine\<close> and the build of the program.  The tokens are those of \<open>selectors.js\<close>; \<open>known\<close>
  says which names the runner has, and \<open>Inr None\<close> is a program that does not build.
\<close>

definition compileCL :: "(string \<Rightarrow> bool) \<Rightarrow> c_compiler \<Rightarrow> (string \<Rightarrow> nat option) \<Rightarrow> string list \<Rightarrow> string
    \<Rightarrow> sel_error + (nat \<times> tok_item rule list \<times> string list) option" where
  "compileCL known assigned ctt IdToks sels =
     (let IdToks1 = (if index_of [] IdToks = None then IdToks @ [[]] else IdToks);
          z = (case index_of [] IdToks1 of Some k \<Rightarrow> k | None \<Rightarrow> 0)
      in case parse (parsePropertiesCL known) sels of
           Inl e \<Rightarrow> Inl e
         | Inr ast \<Rightarrow> (case tokenizeRules ctt z (map (\<lambda>(ps, ds). (ps, emitted assigned ds)) ast) IdToks1 of
               Inl e \<Rightarrow> Inl e
             | Inr (rs, T) \<Rightarrow> Inr (if list_all (\<lambda>(ps, ds). accepted assigned ds) ast then Some (z, rs, T) else None)))"

section \<open>Two readings of one declaration\<close>

text \<open>The same text, read by \<open>selectors.js\<close> and by \<open>CLRunner.js\<close>.\<close>

definition same_text :: "string \<times> jsnum \<Rightarrow> string \<times> css_val \<Rightarrow> bool" where
  "same_text p q \<longleftrightarrow> fst p = fst q \<and> (\<exists>t. parseFloat t = snd p \<and> parseVal t = Inr (snd q))"

definition reads :: "c_compiler \<Rightarrow> string \<times> jsnum \<Rightarrow> string \<times> jsnum \<Rightarrow> bool" where
  "reads assigned p q \<longleftrightarrow> fst p = fst q \<and>
     (\<exists>t v. parseFloat t = snd p \<and> parseVal t = Inr v \<and> assigned (fst q) v = Some (snd q))"

lemma put_key_all2:
  "list_all2 same_text ps qs \<Longrightarrow> same_text (k, v) (k, w) \<Longrightarrow> list_all2 same_text (put_key k v ps) (put_key k w qs)"
proof (induction ps qs rule: list_all2_induct)
  case (Cons p ps q qs)
  then show ?case by (cases p; cases q) (auto simp: same_text_def)
qed simp

lemma parse_props_texts:
  "parse_props_checked known ps qs = Inr rs \<Longrightarrow> list_all2 same_text res qs \<Longrightarrow>
    list_all2 same_text (foldl (\<lambda>res p.
        let pair = js_split (CHR '':'') (trim p)
        in put_key (lower_case (trim (pair ! 0))) (if 1 < length pair then parseFloat (pair ! 1) else NaN) res) res ps) rs"
proof (induction known ps qs arbitrary: res rule: parse_props_checked.induct)
  case (2 known p ps qs)
  let ?pair = "js_split (CHR '':'') (trim p)"
  let ?lhs = "lower_case (trim (?pair ! 0))"
  from 2(2) obtain v where v: "known ?lhs" "1 < length ?pair" "parseVal (?pair ! 1) = Inr v"
    "parse_props_checked known ps (put_key ?lhs v qs) = Inr rs"
    by (auto simp: Let_def split: if_splits sum.splits)
  have "same_text (?lhs, parseFloat (?pair ! 1)) (?lhs, v)" using v(3) by (auto simp: same_text_def)
  with 2(3) have "list_all2 same_text (put_key ?lhs (parseFloat (?pair ! 1)) res) (put_key ?lhs v qs)" by (rule put_key_all2)
  with 2(1) [OF refl refl _ _ v(3) v(4)] v(1,2) show ?case by (simp add: Let_def)
qed simp

lemma properties_texts:
  assumes "parseProperties s = Inr ds" and "parsePropertiesCL known s = Inr es"
  shows "list_all2 same_text ds es"
  using assms parse_props_texts [of known _ "[]" es "[]"]
  by (auto simp: parseProperties_def parsePropertiesCL_def split: option.splits)

definition same_rule :: "raw_item list list \<times> (string \<times> jsnum) list \<Rightarrow> raw_item list list \<times> (string \<times> css_val) list \<Rightarrow> bool" where
  "same_rule r k \<longleftrightarrow> fst r = fst k \<and> list_all2 same_text (snd r) (snd k)"

lemma same_rule_pair [simp]: "same_rule (p, ds) (q, es) \<longleftrightarrow> p = q \<and> list_all2 same_text ds es"
  by (simp add: same_rule_def)

lemma parse_rules_texts:
  "parse_rules parseProperties sels = Inr rs \<Longrightarrow> parse_rules (parsePropertiesCL known) sels = Inr ks \<Longrightarrow>
    list_all2 same_rule rs ks"
proof (induction sels arbitrary: rs ks)
  case (Cons s sels)
  show ?case
  proof (cases "CHR ''{'' \<in> set s")
    case True
    with Cons.prems show ?thesis
      by (auto simp: Let_def properties_texts Cons.IH split: sum.splits)
  next
    case False
    with Cons show ?thesis by simp
  qed
qed simp

lemma parse_texts:
  "parse parseProperties s = Inr rs \<Longrightarrow> parse (parsePropertiesCL known) s = Inr ks \<Longrightarrow> list_all2 same_rule rs ks"
  by (auto simp: parse_def parse_rules_texts split: option.splits)

section \<open>The same rules\<close>

definition rule_reads :: "c_compiler \<Rightarrow> tok_item rule \<Rightarrow> tok_item rule \<Rightarrow> bool" where
  "rule_reads assigned r k \<longleftrightarrow> predicates r = predicates k \<and> list_all2 (reads assigned) (declarations r) (declarations k)"

lemma emitted_reads:
  "list_all2 same_text ds es \<Longrightarrow> accepted assigned es \<Longrightarrow> list_all2 (reads assigned) ds (emitted assigned es)"
proof (induction ds es rule: list_all2_induct)
  case (Cons p ps q qs)
  then show ?case by (cases q) (auto simp: emitted_def accepted_def reads_def same_text_def)
qed (simp add: emitted_def)

lemma tokenize_reads:
  assumes "list_all2 same_rule rs ks" and "list_all (\<lambda>(ps, ds). accepted assigned ds) ks"
    and "tokenizeRules ctt z rs I = Inr (us, T)" and "tokenizeRules ctt z (map (\<lambda>(ps, ds). (ps, emitted assigned ds)) ks) I = Inr (vs, T')"
  shows "list_all2 (rule_reads assigned) us vs \<and> T = T'"
  using assms
proof (induction rs ks arbitrary: I us vs rule: list_all2_induct)
  case (Cons r rs k ks)
  obtain ps ds es where rk: "r = (ps, ds)" "k = (ps, es)" "list_all2 same_text ds es"
    using Cons.hyps(1) by (cases r; cases k) (auto simp: same_rule_def)
  with Cons.prems have "accepted assigned es" by simp
  from emitted_reads [OF rk(3) this] Cons.prems show ?case
    by (auto simp: rk rule_reads_def dest!: Cons.IH split: sum.splits prod.splits)
qed simp

lemma compile_reads:
  assumes "compile ctt IdToks sheet = Inr (z, rs, T)" and "compileCL known assigned ctt IdToks sheet = Inr (Some (z', ks, T'))"
  shows "z' = z \<and> T' = T \<and> list_all2 (rule_reads assigned) rs ks"
  using assms
  by (auto simp: compile_def compileCL_def Let_def dest!: parse_texts tokenize_reads split: sum.splits prod.splits if_splits)

definition hit_reads :: "c_compiler \<Rightarrow> hit \<Rightarrow> hit \<Rightarrow> bool" where
  "hit_reads assigned h k \<longleftrightarrow> pred h = pred k \<and> specificity h = specificity k \<and>
     list_all2 (reads assigned) (properties h) (properties k)"

lemma hits_reads: "list_all2 (rule_reads assigned) rs ks \<Longrightarrow> list_all2 (hit_reads assigned) (hits_from z i rs) (hits_from z i ks)"
proof (induction rs ks arbitrary: i rule: list_all2_induct)
  case (Cons r rs k ks)
  then show ?case
    by (auto intro!: list_all2_appendI simp: rule_reads_def hit_reads_def list_all2_map1 list_all2_map2 list_all2_same)
qed simp

text \<open>What depends on selector and specificity only picks corresponding rules.\<close>

lemma hit_reads_on [simp]:
  "hit_reads assigned h k \<Longrightarrow> on_id z h = on_id z k \<and> on_tag z h = on_tag z k \<and> on_star z h = on_star z k \<and>
    last_pred h = last_pred k \<and> matched z d n h = matched z d n k"
  by (simp add: hit_reads_def on_id_def on_tag_def on_star_def last_pred_def matched_def)

lemma list_all2_filter:
  "list_all2 R xs ys \<Longrightarrow> (\<And>x y. R x y \<Longrightarrow> P x = Q y) \<Longrightarrow> list_all2 R (filter P xs) (filter Q ys)"
  by (induction rule: list_all2_induct) auto

lemma list_all2_insort:
  "list_all2 R xs ys \<Longrightarrow> R x y \<Longrightarrow> (\<And>x y. R x y \<Longrightarrow> f x = f y) \<Longrightarrow> list_all2 R (insort_key f x xs) (insort_key f y ys)"
  by (induction rule: list_all2_induct) auto

lemma list_all2_sort:
  "list_all2 R xs ys \<Longrightarrow> (\<And>x y. R x y \<Longrightarrow> f x = f y) \<Longrightarrow> list_all2 R (sort_key f xs) (sort_key f ys)"
  by (induction rule: list_all2_induct) (auto intro: list_all2_insort)

lemma candidates_reads:
  assumes "list_all2 (hit_reads assigned) (hits_from z 0 rs) (hits_from z 0 ks)"
  shows "list_all2 (hit_reads assigned) (candidates (idHash (hash z rs)) x) (candidates (idHash (hash z ks)) x)"
    and "list_all2 (hit_reads assigned) (candidates (tagHash (hash z rs)) x) (candidates (tagHash (hash z ks)) x)"
  unfolding candidates_id candidates_tag
  by (auto intro!: list_all2_sort list_all2_filter [OF assms] simp: hit_reads_def on_id_def on_tag_def last_pred_def split: option.split)

lemma gathered_reads:
  assumes "list_all2 (hit_reads assigned) (hits_from z 0 rs) (hits_from z 0 ks)"
  shows "list_all2 (hit_reads assigned) (gathered z rs d n) (gathered z ks d n)"
  unfolding gathered_def
  by (intro list_all2_filter merged_all2 candidates_reads assms) (auto simp: hit_reads_def matched_def)

text \<open>Of two corresponding lists the last declaration of a field is the same text.\<close>

lemma map_of_reads:
  "list_all2 (reads assigned) ps qs \<Longrightarrow> rel_option (\<lambda>v w. reads assigned (f, v) (f, w)) (map_of ps f) (map_of qs f)"
proof (induction rule: list_all2_induct)
  case (Cons p ps q qs)
  then show ?case by (cases p; cases q) (auto simp: reads_def)
qed simp

lemma declared_reads:
  assumes "list_all2 (hit_reads assigned) hs ks"
  shows "rel_option (\<lambda>v w. reads assigned (f, v) (f, w)) (declared hs f) (declared ks f)"
proof -
  have "list_all2 (reads assigned) (concat (map properties hs)) (concat (map properties ks))"
    using assms by (induction rule: list_all2_induct) (auto simp: hit_reads_def intro: list_all2_appendI)
  then have "list_all2 (reads assigned) (rev (concat (map properties hs))) (rev (concat (map properties ks)))"
    by (simp only: list_all2_rev)
  then show ?thesis unfolding declared_def by (rule map_of_reads)
qed

lemma reads_names: "list_all2 (reads assigned) ps qs \<Longrightarrow> fst ` set qs = fst ` set ps"
  by (induction rule: list_all2_induct) (auto simp: reads_def)

lemma rules_reads_ok: "list_all2 (rule_reads assigned) rs ks \<Longrightarrow> rules_ok F rs \<Longrightarrow> rules_ok F ks"
proof (induction rule: list_all2_induct)
  case (Cons r rs k ks)
  have "predicates k = predicates r" "fst ` set (declarations k) = fst ` set (declarations r)"
    using Cons.hyps(1) reads_names [of assigned "declarations r" "declarations k"] by (simp_all add: rule_reads_def)
  with Cons show ?case by (simp add: rules_ok_def)
qed simp

text \<open>The two engines over one sheet.\<close>

lemma kernel_reads:
  assumes "list_all2 (rule_reads assigned) rs ks" and "rules_ok (dom d) rs" and "links_ok N d"
    and "distinct ns" and "set ns = {..<N}" and "distinct (level_nodes lv)" and "set (level_nodes lv) = {..<N}"
    and "\<forall>h \<in> set (hits_from z 0 rs). specificity h < 2 ^ 32 \<and> \<not> on_star z h"
  shows "\<exists>b' d1 d2. runSelectors z ks ns (b, d) = Done (b', d1) \<and> selectors z rs lv d = Done d2 \<and>
    (\<forall>n < N. \<forall>f. rel_option (\<lambda>v w. reads assigned (f, v) (f, w)) (declared (gathered z rs d n) f) (declared (gathered z ks d n) f) \<and>
      fld d1 f n = (case declared (gathered z ks d n) f of Some w \<Rightarrow> w | None \<Rightarrow> fld d f n) \<and>
      fld d2 f n = (case declared (gathered z rs d n) f of Some v \<Rightarrow> v | None \<Rightarrow> fld d f n))"
proof -
  note hits = hits_reads [OF assms(1), of z 0]
  have ok: "rules_ok (dom d) ks" by (rule rules_reads_ok [OF assms(1,2)])
  have k: "\<forall>h \<in> set (hits_from z 0 ks). specificity h < 2 ^ 32 \<and> \<not> on_star z h"
  proof
    fix k assume "k \<in> set (hits_from z 0 ks)"
    with hits obtain h where "h \<in> set (hits_from z 0 rs)" "hit_reads assigned h k"
      by (metis (no_types, lifting) in_set_conv_nth list_all2_conv_all_nth)
    with assms(8) show "specificity k < 2 ^ 32 \<and> \<not> on_star z k" by (auto simp: hit_reads_def on_star_def last_pred_def)
  qed
  from kernel.sweep [OF assms(4) _ ok assms(3), of z] assms(5) obtain d1 where
    d1: "run_fold (kernel_step z ks) ns d = Done d1"
      "\<forall>n f. fld d1 f n = (if n \<in> set ns then kernel.outcome z ks d f n else fld d f n)" by auto
  from objects.sweep [OF assms(6) _ assms(2,3), of z] assms(7) obtain d2 where
    d2: "selectors z rs lv d = Done d2"
      "\<forall>n f. fld d2 f n = (if n \<in> set (level_nodes lv) then objects.outcome z rs d f n else fld d f n)"
    by (auto simp: selectors_def)
  obtain b' where "runSelectors z ks ns (b, d) = Done (b', d1)" using runSelectors_steps [OF d1(1), of b] by blast
  moreover have "\<forall>n < N. \<forall>f. rel_option (\<lambda>v w. reads assigned (f, v) (f, w)) (declared (gathered z rs d n) f) (declared (gathered z ks d n) f)"
    using declared_reads [OF gathered_reads [OF hits]] by blast
  ultimately show ?thesis
    using d1(2) d2 assms(5,7) kernel_gathered_objects [OF k]
    by (intro exI [of _ b'] exI [of _ d1] exI [of _ d2]) (simp add: kernel.outcome_def objects.outcome_def cong: option.case_cong)
qed

end
