(* ===== verification/Styles.thy ===== *)
theory Styles
  imports SelKernel
begin

text \<open>
  The selector engines on a flattened tree: the links that \<open>flatten\<close> writes satisfy what the
  matchers need, the levels list every node once, and so a compiled sheet runs to completion and
  gives every node the declarations of its rules.  The properties of the engines are stated
  here, with the inputs on which they depart from CSS.
\<close>

section \<open>The flattened tree\<close>

text \<open>The proxies show the link arrays of the tree.\<close>

definition tree_view :: "nat \<Rightarrow> 'v flat \<Rightarrow> sel_data \<Rightarrow> bool" where
  "tree_view N st d \<longleftrightarrow>
     (\<forall>n < N. fld d ''parent'' n = Num (of_int (parent st ! n)) \<and>
              fld d ''left_siblings'' n = Num (of_int (left_siblings st ! n)))"

lemma lefts_siblings:
  "q < length (lefts_of ns) \<Longrightarrow> lefts_of ns ! q \<noteq> 0 \<Longrightarrow>
    0 < q \<and> parents_from a ns ! (q - 1) = parents_from a ns ! q"
proof (induction ns arbitrary: a q)
  case (Cons n ns)
  let ?k = "length (kids n)"
  show ?case
  proof (cases "q < ?k")
    case True
    then have "lefts_of (n # ns) ! q = (if q = 0 then 0 else 1)"
      by (simp add: lefts_of_def nth_append lefts_from_def)
    with Cons.prems True show ?thesis by (auto simp: nth_append split: if_splits)
  next
    case False
    have "q - ?k < length (lefts_of ns)" "lefts_of ns ! (q - ?k) \<noteq> 0"
      using Cons.prems False by (simp_all add: lefts_of_def nth_append)
    from Cons.IH [OF this, of "a + 1"] False show ?thesis by (auto simp: nth_append)
  qed
qed (simp add: lefts_of_def)

lemma view_links_ok:
  assumes "flatten sch data st = Inr (lv, st')" and "links_len (treeSize data) st"
    and "left_siblings st ! 0 = 0" and "tree_view (treeSize data) st' d"
  shows "links_ok (treeSize data) d"
proof -
  let ?N = "treeSize data"
  note links = tree_links [OF assms(1,2)]
  have pos: "0 < ?N" by (simp add: treeSize_kids)
  have par: "par d n = nat (parent st' ! n)" and left: "left_of d n = nat (left_siblings st' ! n)" if "n < ?N" for n
    using assms(4) that by (simp_all add: tree_view_def idx_def)
  have len: "length (parents_from 0 (bfs data)) = ?N - 1"
    using links_len_def [of ?N st] by (simp add: bfs_kids del: length_concat)
  show ?thesis
    unfolding links_ok_def
  proof (intro conjI allI impI)
    show "left_of d 0 = 0" using left [OF pos] links assms(3) by simp
  next
    fix n assume n: "0 < n \<and> n < ?N"
    then obtain k p where k: "parent st' ! n = int p" "in_level lv k p" "in_level lv (Suc k) n"
      using parent_level [OF assms(1,2), of n] by blast
    from k(3) have "Suc k < length lv" by (simp add: in_level_def)
    with levels_partition [OF assms(1)] have "start_idx (lv ! Suc k) = sum_list (map llength (take (Suc k) lv))"
      "start_idx (lv ! k) = sum_list (map llength (take k lv))" by auto
    with \<open>Suc k < length lv\<close> have "start_idx (lv ! Suc k) = start_idx (lv ! k) + llength (lv ! k)"
      by (simp add: take_Suc_conv_app_nth)
    with k(2,3) have "p < n" by (simp add: in_level_def)
    with k(1) par n show "par d n < n" by simp
    assume "left_of d n \<noteq> 0"
    with left n links have l: "lefts_of (bfs data) ! (n - 1) \<noteq> 0" by (auto simp: nth_Cons')
    have "n - 1 < length (lefts_of (bfs data))" using n len by (auto simp del: length_concat)
    from lefts_siblings [OF this l, of 0] have q: "1 < n"
      "parents_from 0 (bfs data) ! (n - 2) = parents_from 0 (bfs data) ! (n - 1)"
      by (auto simp: numeral_2_eq_2)
    then show "1 < n" by simp
    show "par d (n - 1) = par d n"
      using par [of n] par [of "n - 1"] n q links by (auto simp: nth_Cons' numeral_2_eq_2)
  qed
qed

lemma level_nodes_table: "level_nodes (level_table a ls) = [a..<a + sum_list (map length ls)]"
proof (induction ls arbitrary: a)
  case (Cons l ls)
  have "level_nodes (level_table a (l # ls)) = [a..<a + length l] @ level_nodes (level_table (a + length l) ls)"
    by (simp add: level_nodes_def)
  also have "\<dots> = [a..<a + sum_list (map length (l # ls))]"
    using upt_add_eq_append [of a "a + length l" "sum_list (map length ls)"] Cons by (simp add: ac_simps)
  finally show ?case .
qed (simp add: level_nodes_def)

lemma flat_level_nodes:
  assumes "flatten sch data st = Inr (lv, st')"
  shows "level_nodes lv = [0..<treeSize data]"
proof -
  have "lv = level_table 0 (levels_of [data])"
    using assms by (auto simp: flatten_bfs split: sum.splits)
  then show ?thesis using levels_of_size [of "[data]"] by (simp add: level_nodes_table length_concat)
qed

lemma styles_run:
  assumes "flatten sch data st = Inr (lv, st')" and "links_len (treeSize data) st"
    and "left_siblings st ! 0 = 0" and "tree_view (treeSize data) st' d"
    and "compile ctt IdToks sheet = Inr (z, rs, T)"
    and "\<forall>r \<in> set rs. fst ` set (declarations r) \<subseteq> dom d - tree_fields"
  shows "\<exists>d'. selectors z rs lv d = Done d' \<and> same_tree d d' \<and>
    (\<forall>n < treeSize data. \<exists>hs. node_rules z rs d n hs \<and>
       (\<forall>f. fld d' f n = (case declared hs f of Some v \<Rightarrow> v | None \<Rightarrow> fld d f n)))"
proof (rule selectors_run)
  show "rules_ok (dom d) rs" using compile_selectors_ok [OF assms(5)] assms(6) by (simp add: rules_ok_def)
  show "links_ok (treeSize data) d" by (rule view_links_ok [OF assms(1-4)])
  show "distinct (level_nodes lv)" "set (level_nodes lv) = {..<treeSize data}"
    by (auto simp: flat_level_nodes [OF assms(1)])
qed

section \<open>A small sheet on a small tree\<close>

definition demo_data :: sel_data where
  "demo_data = [''id'' \<mapsto> (\<lambda>n. Num ([0, 0, 1, 0] ! n)), ''displayname'' \<mapsto> (\<lambda>n. Num ([7, 9, 9, 9] ! n)),
     ''parent'' \<mapsto> (\<lambda>_. Num 0), ''left_siblings'' \<mapsto> (\<lambda>n. Num ([0, 0, 1, 1] ! n)), ''w'' \<mapsto> (\<lambda>_. Num 0)]"

definition demo_ctt :: "string \<Rightarrow> nat option" where
  "demo_ctt = map_of [(''HBOX'', 7), (''LEAF'', 9)]"

definition demo_rules :: "tok_item rule list" where
  "demo_rules = [\<lparr>predicates = [[Pred 7 2, Op 1, Pred 9 1]], declarations = [(''w'', Num 2)]\<rparr>,
     \<lparr>predicates = [[Pred 9 2]], declarations = [(''w'', Num 1)]\<rparr>]"

definition demo_sheet :: string where
  "demo_sheet = ''HBOX>LEAF#b{w:2}LEAF{w:1}''"

lemmas parse_defs = parse_def collapse.simps blank_chars_def parseProperties_def props_parts_def semi_pair_def
  parsePredicates_def parsePredicate_def trim_def js_space_def parseFloat_def split_sign_def is_digit_def
  digits_val_def scale10_def exponent_def Let_def lower_case_def lower_char_def

lemma demo_parse: "parse parseProperties demo_sheet =
    Inr [([[Pred ''HBOX'' [], Op (CHR ''>''), Pred ''LEAF'' ''b'']], [(''w'', Num 2)]),
         ([[Pred ''LEAF'' []]], [(''w'', Num 1)])]"
  by (simp add: parse_defs demo_sheet_def)

lemma demo_compile: "compile demo_ctt [''a'', ''b''] demo_sheet = Inr (2, demo_rules, [''a'', ''b'', []])"
  by (simp add: compile_def demo_parse demo_ctt_def tag_token_def id_token_def upper_case_def upper_char_def
      tokenizeOp_def StarTok_def Let_def lower_case_def lower_char_def demo_rules_def)

definition demo_levels :: "level list" where
  "demo_levels = [\<lparr>start_idx = 0, llength = 1\<rparr>, \<lparr>start_idx = 1, llength = 3\<rparr>]"

lemma demo_hash: "hash 2 demo_rules = \<lparr>
    idHash = [(1, [\<lparr>propList = 0, pred = [Pred 7 2, Op 1, Pred 9 1], specificity = 2 ^ 30 + 2 ^ 13, properties = [(''w'', Num 2)]\<rparr>])],
    tagHash = [(9, [\<lparr>propList = 1, pred = [Pred 9 2], specificity = 4097, properties = [(''w'', Num 1)]\<rparr>])],
    star = []\<rparr>"
  by (simp add: hash_def hash_pred_def demo_rules_def sel_specificity_def addSel_def StarTok_def Let_def
      upt_conv_Cons)

lemmas run_defs = matchNode_def candidates_def tok_of_def fld_def idx_def try_hit_def matchNodeSelector_def
  matchNodeSelectorPredicate_def comb_loop.simps StarTok_def applyProperties_def apply_one_def Let_def

lemma demo_selectors:
  "(case selectors 2 demo_rules demo_levels demo_data of Done d \<Rightarrow> map (fld d ''w'') [0, 1, 2, 3] | _ \<Rightarrow> []) =
     [Num 0, Num 1, Num 2, Num 1]"
  by (simp add: selectors_def demo_hash demo_levels_def level_nodes_def upt_conv_Cons demo_data_def run_defs)

lemma demo_dom: "dom demo_data = {''id'', ''displayname'', ''parent'', ''left_siblings'', ''w''}"
  by (auto simp: demo_data_def)

lemma demo_rules_ok: "rules_ok (dom demo_data) demo_rules"
  unfolding demo_dom by (simp add: rules_ok_def demo_rules_def tree_fields_def selector_ok_step selector_ok_single)

lemma demo_links: "links_ok 4 demo_data"
proof -
  have "n = 1 \<or> n = 2 \<or> n = 3" if "0 < n \<and> n < 4" for n :: nat
    using that by linarith
  then show ?thesis
    by (force simp: links_ok_def fld_def idx_def demo_data_def)
qed

lemma demo_view:
  assumes "parent st' = [0, 0, 0, 0]" and "left_siblings st' = [0, 0, 1, 1]"
  shows "tree_view 4 st' demo_data"
proof -
  have "n = 0 \<or> n = 1 \<or> n = 2 \<or> n = 3" if "n < 4" for n :: nat
    using that by linarith
  with assms show ?thesis
    by (force simp: tree_view_def fld_def demo_data_def)
qed

section \<open>Properties of the engines\<close>

text \<open>
  C6.  A sheet that compiles runs to completion over a flattened tree, and gives every node, for
  every field, the last declaration among its rules in order of increasing specificity, or leaves
  the field; the rules of a node are a permutation of those whose selector matches it and whose
  last predicate names a tag or an id.  This needs that the declared fields exist and are not the
  four that hold the tree itself.
\<close>

theorem styles_cascade:
  assumes "flatten sch data st = Inr (lv, st')" and "links_len (treeSize data) st"
    and "left_siblings st ! 0 = 0" and "tree_view (treeSize data) st' d"
    and "compile ctt IdToks sheet = Inr (z, rs, T)"
    and "\<forall>r \<in> set rs. fst ` set (declarations r) \<subseteq> dom d - tree_fields"
  shows "\<exists>d'. selectors z rs lv d = Done d' \<and> same_tree d d' \<and>
    (\<forall>n < treeSize data. \<exists>hs. node_rules z rs d n hs \<and>
       (\<forall>f. fld d' f n = (case declared hs f of Some v \<Rightarrow> v | None \<Rightarrow> fld d f n)))"
  using assms by (rule styles_run)

text \<open>Witness: the small sheet on the small tree; node 2 is matched by both rules.\<close>

theorem styles_cascade_witness:
  "\<exists>lv st' d'. flatten demo_schema demo_tree demo_flat = Inr (lv, st') \<and>
     compile demo_ctt [''a'', ''b''] demo_sheet = Inr (2, demo_rules, [''a'', ''b'', []]) \<and>
     selectors 2 demo_rules lv demo_data = Done d' \<and> fld d' ''w'' 2 = Num 2 \<and>
     (\<exists>hs. node_rules 2 demo_rules demo_data 2 hs \<and>
       fld d' ''w'' 2 = (case declared hs ''w'' of Some v \<Rightarrow> v | None \<Rightarrow> Num 0))"
proof -
  obtain lv st' where r: "flatten demo_schema demo_tree demo_flat = Inr (lv, st')"
    and lv: "lv = demo_levels" and v: "left_siblings st' = [0, 0, 1, 1]" "parent st' = [0, 0, 0, 0]"
    using demo_result unfolding demo_levels_def by metis
  have d: "\<forall>r \<in> set demo_rules. fst ` set (declarations r) \<subseteq> dom demo_data - tree_fields"
    using demo_rules_ok by (simp add: rules_ok_def)
  have l: "left_siblings demo_flat ! 0 = 0" by (simp add: demo_flat_def)
  have view: "tree_view (treeSize demo_tree) st' demo_data"
    unfolding demo_treeSize by (rule demo_view [OF v(2,1)])
  from styles_cascade [OF r demo_links_len l view demo_compile d] obtain d' where
    d': "selectors 2 demo_rules lv demo_data = Done d'"
      "\<forall>n < treeSize demo_tree. \<exists>hs. node_rules 2 demo_rules demo_data n hs \<and>
        (\<forall>f. fld d' f n = (case declared hs f of Some v \<Rightarrow> v | None \<Rightarrow> fld demo_data f n))"
    by blast
  have "fld d' ''w'' 2 = Num 2" using demo_selectors d'(1) lv by simp
  moreover have "fld demo_data ''w'' 2 = Num 0" by (simp add: fld_def demo_data_def)
  moreover have "2 < treeSize demo_tree" by (simp add: demo_treeSize)
  then have "\<exists>hs. node_rules 2 demo_rules demo_data 2 hs \<and>
     fld d' ''w'' 2 = (case declared hs ''w'' of Some v \<Rightarrow> v | None \<Rightarrow> fld demo_data ''w'' 2)"
    using d'(2) by blast
  ultimately show ?thesis using r demo_compile d'(1) by (simp cong: option.case_cong)
qed

text \<open>
  C11.  Matching a selector against a node of a tree always ends with an answer; a positive answer
  is right, there is a CSS match; and every CSS match is found for the selectors with no child or
  sibling combinator to the left of a descendant combinator.
\<close>

theorem match_selector_css:
  assumes "links_ok N d" and "selector_ok sel" and "n < N"
  shows "\<exists>b. matchNodeSelector z d n sel = Done b \<and> (b \<longrightarrow> css z d n (rev sel)) \<and>
    (greedy_ok sel \<longrightarrow> b = css z d n (rev sel))"
  using match_selector_returns [OF assms, of z] match_selector_sound [OF assms, of z]
    match_selector_complete [OF assms, of z] by auto

text \<open>Witness: \<open>hbox > leaf#b\<close> at node 2 of the small tree.\<close>

theorem match_selector_css_witness:
  "greedy_ok [Pred 7 2, Op 1, Pred 9 1] \<and> matchNodeSelector 2 demo_data 2 [Pred 7 2, Op 1, Pred 9 1] = Done True \<and>
   css 2 demo_data 2 (rev [Pred 7 2, Op 1, Pred 9 1])"
proof -
  let ?sel = "[Pred 7 2, Op 1, Pred 9 1] :: tok_item list"
  have m: "matchNodeSelector 2 demo_data 2 ?sel = Done True"
    by (simp add: run_defs demo_data_def)
  have g: "greedy_ok ?sel"
    by (auto simp: greedy_ok_def less_Suc_eq numeral_3_eq_3 nth_Cons')
  have "selector_ok ?sel" by (simp add: selector_ok_step selector_ok_single)
  from match_selector_css [OF demo_links this, of 2 2] m g show ?thesis by auto
qed

text \<open>A chain of four nodes A, B, B, C, each the only child of the one before; \<open>NoIdTok\<close> is 5.\<close>

definition chain_data :: sel_data where
  "chain_data = [''id'' \<mapsto> (\<lambda>_. Num 5), ''displayname'' \<mapsto> (\<lambda>n. Num ([1, 2, 2, 3] ! n)),
     ''parent'' \<mapsto> (\<lambda>n. Num ([0, 0, 1, 2] ! n)), ''left_siblings'' \<mapsto> (\<lambda>_. Num 0)]"

definition chain_selector :: "tok_item list" where
  "chain_selector = [Pred 1 5, Op 1, Pred 2 5, Op 0, Pred 3 5]"

lemma chain_match: "matchNodeSelector 5 chain_data 3 chain_selector = Done False"
  by (simp add: run_defs chain_data_def chain_selector_def climb.simps)

lemma chain_css: "css 5 chain_data 3 (rev chain_selector)"
proof -
  have p: "par chain_data 3 = 2" "par chain_data 2 = 1" "par chain_data 1 = 0"
    by (simp_all add: fld_def idx_def chain_data_def)
  have "ancestor chain_data 1 3"
    using ancestor.step [of 3 chain_data 1] ancestor.parent [of 2 chain_data] p by simp
  then show ?thesis
    by (auto simp: chain_selector_def related_def p matchNodeSelectorPredicate_def fld_def idx_def chain_data_def StarTok_def
        intro!: exI [of _ 1])
qed

lemma chain_links: "links_ok 4 chain_data"
proof -
  have "n = 1 \<or> n = 2 \<or> n = 3" if "0 < n \<and> n < 4" for n :: nat
    using that by linarith
  then show ?thesis
    by (force simp: links_ok_def fld_def idx_def chain_data_def)
qed

text \<open>
  The search is greedy: \<open>A > B C\<close> is not found at the last node of the chain A, B, B, C,
  although it matches there, because the nearest B is not a child of A and the engine does not
  try the next one.  The side condition of the completeness above is not for convenience.
\<close>

lemma greedy_misses_match:
  "links_ok 4 chain_data \<and> selector_ok chain_selector \<and> css 5 chain_data 3 (rev chain_selector) \<and>
   matchNodeSelector 5 chain_data 3 chain_selector = Done False"
  using chain_links chain_css chain_match
  by (simp add: chain_selector_def selector_ok_step selector_ok_single)

text \<open>
  C27.  The engine over flat arrays evaluates program text that it makes of the declarations when it is
  built.  On a sheet with well-formed selectors whose declared names are all identifiers it then
  computes what the engine over objects does, in every state of the fields, errors and endless
  searches included; and if the text made of some rule with another name is refused by the
  evaluation, it throws, whether or not that rule would ever be applied.
\<close>

theorem flat_engine_equal:
  assumes "\<forall>sel \<in> set sels. \<forall>p \<in> set (predicates sel). selector_ok p"
  shows "((\<forall>sel \<in> set sels. plain_names (declarations sel)) \<longrightarrow> selectorsGPU ev z sels lv d = selectors z sels lv d) \<and>
    ((\<exists>sel \<in> set sels. \<not> plain_names (declarations sel) \<and> ev (declarations sel) = None) \<longrightarrow> selectorsGPU ev z sels lv d = Threw)"
  using selectorsGPU_eq [of sels ev z lv d] selectorsGPU_refused [of _ sels ev z lv d] assms by blast

text \<open>
  Witness: the small sheet; and a rule for a tag that no node has with the name \<open>a b\<close>, whose text
  does not parse.
\<close>

definition odd_rules :: "tok_item rule list" where
  "odd_rules = [\<lparr>predicates = [[Pred 5 2]], declarations = [(''a b'', Num 1)]\<rparr>]"

lemma odd_selectors: "selectors 2 odd_rules demo_levels demo_data = Done demo_data"
proof -
  have h: "hash 2 odd_rules = \<lparr>idHash = [],
      tagHash = [(5, [\<lparr>propList = 0, pred = [Pred 5 2], specificity = 4096, properties = [(''a b'', Num 1)]\<rparr>])], star = []\<rparr>"
    by (simp add: hash_def hash_pred_def odd_rules_def sel_specificity_def addSel_def StarTok_def Let_def upt_conv_Cons)
  show ?thesis
    by (simp add: selectors_def h demo_levels_def level_nodes_def upt_conv_Cons demo_data_def run_defs)
qed

theorem flat_engine_equal_witness:
  "selectorsGPU (\<lambda>_. None) 2 demo_rules demo_levels demo_data = selectors 2 demo_rules demo_levels demo_data \<and>
   (case selectorsGPU (\<lambda>_. None) 2 demo_rules demo_levels demo_data of Done d \<Rightarrow> fld d ''w'' 2 | _ \<Rightarrow> NaN) = Num 2 \<and>
   selectorsGPU (\<lambda>_. None) 2 odd_rules demo_levels demo_data = Threw \<and>
   selectors 2 odd_rules demo_levels demo_data = Done demo_data"
proof -
  have ok: "\<forall>sel \<in> set demo_rules. \<forall>p \<in> set (predicates sel). selector_ok p"
    "\<forall>sel \<in> set odd_rules. \<forall>p \<in> set (predicates sel). selector_ok p"
    using demo_rules_ok by (simp_all add: rules_ok_def odd_rules_def selector_ok_single)
  have names: "\<forall>sel \<in> set demo_rules. plain_names (declarations sel)" "\<not> plain_names [(''a b'', Num 1)]"
    by (simp_all add: demo_rules_def plain_names_def is_identifier_def ident_char_def)
  have "selectorsGPU (\<lambda>_. None) 2 demo_rules demo_levels demo_data = selectors 2 demo_rules demo_levels demo_data"
    using flat_engine_equal [OF ok(1)] names(1) by blast
  moreover have "selectorsGPU (\<lambda>_. None) 2 odd_rules demo_levels demo_data = Threw"
    using flat_engine_equal [OF ok(2), of "\<lambda>_. None" 2 demo_levels demo_data] names(2) by (simp add: odd_rules_def)
  ultimately show ?thesis using demo_selectors odd_selectors by (auto split: run.splits)
qed

text \<open>
  C29.  The kernel's work items may run in any order: two orders leave the same fields.  At every
  node the declarations that remain come from a permutation of all the rules that match it, each
  tried once, those on any element included.
\<close>

theorem kernel_order_free:
  assumes "rules_ok (dom d) sels" and "links_ok N d" and "distinct ns" and "set ns = {..<N}"
    and "distinct ms" and "set ms = {..<N}"
  shows "\<exists>b1 b2 d1 d2. runSelectors z sels ns (b, d) = Done (b1, d1) \<and>
    runSelectors z sels ms (b, d) = Done (b2, d2) \<and> (\<forall>f n. fld d1 f n = fld d2 f n) \<and>
    (\<forall>n < N. \<exists>hs. mset hs = mset (filter (matched z d n) (hits_from z 0 sels)) \<and>
       (\<forall>f. fld d1 f n = (case declared hs f of Some v \<Rightarrow> v | None \<Rightarrow> fld d f n)))"
proof -
  from kernel.sweep [OF assms(3) _ assms(1,2), of z] assms(4) obtain d1 where
    d1: "run_fold (kernel_step z sels) ns d = Done d1"
      "\<forall>n f. fld d1 f n = (if n \<in> set ns then kernel.outcome z sels d f n else fld d f n)" by auto
  from kernel.sweep [OF assms(5) _ assms(1,2), of z] assms(6) obtain d2 where
    d2: "run_fold (kernel_step z sels) ms d = Done d2"
      "\<forall>n f. fld d2 f n = (if n \<in> set ms then kernel.outcome z sels d f n else fld d f n)" by auto
  obtain b1 b2 where "runSelectors z sels ns (b, d) = Done (b1, d1)" "runSelectors z sels ms (b, d) = Done (b2, d2)"
    using runSelectors_steps [OF d1(1), of b] runSelectors_steps [OF d2(1), of b] by blast
  moreover have "\<forall>f n. fld d1 f n = fld d2 f n" using d1(2) d2(2) assms(4,6) by simp
  moreover have "\<forall>n < N. \<exists>hs. mset hs = mset (filter (matched z d n) (hits_from z 0 sels)) \<and>
       (\<forall>f. fld d1 f n = (case declared hs f of Some v \<Rightarrow> v | None \<Rightarrow> fld d f n))"
    using d1(2) assms(4) kernel_gathered_mset [OF assms(1), of z d]
    by (metis (no_types, lifting) kernel.outcome_def lessThan_iff)
  ultimately show ?thesis by blast
qed

text \<open>Witness: the four nodes of the small tree forwards and backwards.\<close>

theorem kernel_order_free_witness:
  "\<exists>b1 b2 d1 d2. runSelectors 2 demo_rules [0, 1, 2, 3] (\<lambda>_. 0, demo_data) = Done (b1, d1) \<and>
     runSelectors 2 demo_rules [3, 2, 1, 0] (\<lambda>_. 0, demo_data) = Done (b2, d2) \<and> (\<forall>f n. fld d1 f n = fld d2 f n)"
proof -
  have "set [0, 1, 2, 3] = {..<4 :: nat}" "set [3, 2, 1, 0] = {..<4 :: nat}" by auto
  then show ?thesis
    using kernel_order_free [OF demo_rules_ok demo_links, of "[0, 1, 2, 3]" "[3, 2, 1, 0]" 2 "\<lambda>_. 0"] by auto
qed






text \<open>
  Between a rule on any element and a rule on a tag the kernel tries the one of higher
  specificity first, so the lower one overrides it: \<open>* {w: 1} leaf {w: 2}\<close> leaves \<open>w = 1\<close> on a leaf.
\<close>

definition star_rules :: "tok_item rule list" where
  "star_rules = [\<lparr>predicates = [[Pred 0 2]], declarations = [(''w'', Num 1)]\<rparr>,
     \<lparr>predicates = [[Pred 9 2]], declarations = [(''w'', Num 2)]\<rparr>]"

lemma star_hash: "hash 2 star_rules = \<lparr>idHash = [],
    tagHash = [(9, [\<lparr>propList = 1, pred = [Pred 9 2], specificity = 4097, properties = [(''w'', Num 2)]\<rparr>])],
    star = [\<lparr>propList = 0, pred = [Pred 0 2], specificity = 0, properties = [(''w'', Num 1)]\<rparr>]\<rparr>"
  by (simp add: hash_def hash_pred_def star_rules_def sel_specificity_def addSel_def StarTok_def Let_def upt_conv_Cons)

lemma kernel_star_inverted:
  "\<exists>b' d'. runSelectors 2 star_rules [1] (\<lambda>_. 0, demo_data) = Done (b', d') \<and> fld d' ''w'' 1 = Num 1 \<and>
     map specificity (hits_from 2 0 star_rules) = [0, 4097] \<and>
     list_all (matched 2 demo_data 1) (hits_from 2 0 star_rules)"
proof -
  let ?t = "\<lparr>propList = 1, pred = [Pred 9 2], specificity = 4097, properties = [(''w'', Num 2)]\<rparr>"
  let ?s = "\<lparr>propList = 0, pred = [Pred 0 2], specificity = 0, properties = [(''w'', Num 1)]\<rparr>"
  have hits: "hits_from 2 0 star_rules = [?s, ?t]"
    by (simp add: star_rules_def sel_specificity_def StarTok_def Let_def upt_conv_Cons)
  have c: "candidates (idHash (hash 2 star_rules)) (fld demo_data ''id'' 1) = []"
    "candidates (tagHash (hash 2 star_rules)) (fld demo_data ''displayname'' 1) = [?t]"
    "star (hash 2 star_rules) = [?s]"
    by (simp_all add: star_hash candidates_def tok_of_def fld_def demo_data_def)
  have m: "merged3 getSpec [] [?t] [?s] = [?t, ?s]"
    by (simp add: merged3.simps getSpec_def)
  have p: "matchNodeSelector 2 d 1 [Pred 9 2] = Done (fld d ''displayname'' 1 = Num 9)"
    "matchNodeSelector 2 d 1 [Pred 0 2] = Done True" for d
    by (simp_all add: matchNodeSelector_def matchNodeSelectorPredicate_def StarTok_def)
  have d: "fld demo_data ''displayname'' 1 = Num 9" "demo_data ''w'' = Some (\<lambda>_. Num 0)"
    by (simp_all add: fld_def demo_data_def)
  let ?d = "demo_data(''w'' \<mapsto> ((\<lambda>_. Num 0)(1 := Num 2))(1 := Num 1))"
  have r: "run_fold (matchSelector 2 1) [?t, ?s] (0, demo_data) = Done (2, ?d)"
    by (simp add: matchSelector_def p [unfolded One_nat_def] d [unfolded One_nat_def] applyProperties_def apply_one_def)
  have "kernel_node 2 star_rules 1 (\<lambda>_. 0, demo_data) = Done ((\<lambda>_. 0)(1 := 2), ?d)"
    by (simp only: kernel_node_def prod.case kernel_loop_merged c m r run_bind.simps)
  then have "runSelectors 2 star_rules [1] (\<lambda>_. 0, demo_data) = Done ((\<lambda>_. 0)(1 := 2), ?d)"
    by (simp add: runSelectors_def)
  moreover have "fld ?d ''w'' 1 = Num 1" by (simp add: fld_def)
  moreover have "list_all (matched 2 demo_data 1) (hits_from 2 0 star_rules)"
    by (simp add: hits matched_def p [unfolded One_nat_def] d [unfolded One_nat_def])
  moreover have "map specificity (hits_from 2 0 star_rules) = [0, 4097]" by (simp add: hits)
  ultimately show ?thesis by (intro exI conjI)
qed

text \<open>
  C31.  A compiled sheet is well typed: every selector alternates predicates with the three
  combinators and ends in a predicate, every id token is in the table, the table extends the
  given one, and \<open>NoIdTok\<close> is the token of the empty string.
\<close>

theorem compile_well_typed:
  assumes "compile ctt IdToks sheet = Inr (z, rs, T)"
  shows "prefix IdToks T \<and> z < length T \<and> T ! z = [] \<and>
    (\<forall>r \<in> set rs. \<forall>p \<in> set (predicates r). selector_ok p \<and> ids_below (length T) p)"
  using assms by (rule compile_table)

text \<open>Witness: the small sheet.\<close>

theorem compile_well_typed_witness:
  "compile demo_ctt [''a'', ''b''] demo_sheet = Inr (2, demo_rules, [''a'', ''b'', []]) \<and>
     prefix [''a'', ''b''] [''a'', ''b'', []] \<and> selector_ok [Pred 7 2, Op 1, Pred 9 1]"
  using demo_compile compile_well_typed [OF demo_compile] by (simp add: demo_rules_def)

text \<open>
  C32.  The loops of \<open>collapse\<close> end on every text: the first one leaves no tab or line break and no
  two adjacent spaces, the second one no semicolon next to a semicolon or a space.
\<close>

theorem collapse_terminates:
  "(\<exists>t. collapse replace_blanks s = Some t \<and> set t \<inter> blank_chars = {} \<and>
      \<not> adjacent (\<lambda>c c'. c = CHR '' '' \<and> c' = CHR '' '') t) \<and>
   (\<exists>t. collapse replace_semis s = Some t \<and> \<not> adjacent semi_pair t)"
  using collapse_blanks collapse_semis by blast

text \<open>How many predicates of a selector name an id, and how many a tag.\<close>

definition id_count :: "nat \<Rightarrow> tok_item list \<Rightarrow> nat" where
  "id_count z sel = length (filter (\<lambda>k. iid (sel ! (2 * k)) \<noteq> z) [0..<(length sel + 1) div 2])"

definition tag_count :: "tok_item list \<Rightarrow> nat" where
  "tag_count sel = length (filter (\<lambda>k. itag (sel ! (2 * k)) \<noteq> StarTok) [0..<(length sel + 1) div 2])"

lemma specificity_counts: "sel_specificity z sel line = id_count z sel * 2 ^ 30 + tag_count sel * 2 ^ 12 + line"
  by (simp add: sel_specificity_def id_count_def tag_count_def Let_def filter_map comp_def)

lemma weights_less:
  fixes a b c d k l :: nat
  assumes "c < 2 ^ 18" and "d < 2 ^ 18" and "k < 2 ^ 12" and "l < 2 ^ 12"
  shows "a * 2 ^ 30 + c * 2 ^ 12 + k < b * 2 ^ 30 + d * 2 ^ 12 + l \<longleftrightarrow>
    a < b \<or> a = b \<and> (c < d \<or> c = d \<and> k < l)"
proof -
  have inner: "c * 2 ^ 12 + k < d * 2 ^ 12 + l \<longleftrightarrow> c < d \<or> c = d \<and> k < l"
    using assms(3,4) by (cases c d rule: linorder_cases) auto
  have "c * 2 ^ 12 + k < 2 ^ 30" "d * 2 ^ 12 + l < 2 ^ 30" using assms by simp_all
  then have "a * 2 ^ 30 + (c * 2 ^ 12 + k) < b * 2 ^ 30 + (d * 2 ^ 12 + l) \<longleftrightarrow>
      a < b \<or> a = b \<and> c * 2 ^ 12 + k < d * 2 ^ 12 + l"
    by (cases a b rule: linorder_cases) auto
  with inner show ?thesis by (simp add: add.assoc)
qed

text \<open>
  Specificities compare as CSS compares: ids first, then tags, then the place in the sheet,
  as long as the sheet has at most 4096 rules and the selectors fewer than \<open>2 ^ 18\<close> tags; and they
  fit the kernel's 32 bits when the selectors name at most three ids.
\<close>

lemma specificity_lexicographic:
  assumes "tag_count p < 2 ^ 18" and "tag_count q < 2 ^ 18" and "k < 4096" and "l < 4096"
  shows "(sel_specificity z p k < sel_specificity z q l \<longleftrightarrow>
      id_count z p < id_count z q \<or> id_count z p = id_count z q \<and>
        (tag_count p < tag_count q \<or> tag_count p = tag_count q \<and> k < l)) \<and>
    (sel_specificity z p k < 2 ^ 32 \<longleftrightarrow> id_count z p < 4)"
proof -
  have kl: "k < 2 ^ 12" "l < 2 ^ 12" using assms(3,4) by simp_all
  have "tag_count p * 2 ^ 12 + k < 2 ^ 30" using assms(1) kl by simp
  then have "sel_specificity z p k < 2 ^ 32 \<longleftrightarrow> id_count z p < 4"
    unfolding specificity_counts by simp linarith
  with weights_less [OF assms(1,2) kl] show ?thesis unfolding specificity_counts by blast
qed

text \<open>Witness: an id outweighs a tag of a later rule.\<close>

lemma specificity_lexicographic_witness:
  "sel_specificity 2 [Pred 9 2] 5 < sel_specificity 2 [Pred 0 1] 0"
  using specificity_lexicographic [of "[Pred 9 2]" "[Pred 0 1]" 5 0 2]
  by (simp add: tag_count_def id_count_def StarTok_def)

text \<open>Past those bounds the weights run into each other: rule 4096 on any element beats rule 0 on a tag.\<close>

lemma specificity_overflow:
  "sel_specificity 2 [Pred 9 2] 0 < sel_specificity 2 [Pred 0 2] 4097 \<and>
   getSpec \<lparr>propList = 0, pred = [], specificity = 4 * 2 ^ 30, properties = []\<rparr> = 0"
  by (simp add: sel_specificity_def StarTok_def Let_def getSpec_def)

text \<open>A node without an id has the id token 0, which is the first id of the tree: \<open>#a\<close> matches it.\<close>

lemma no_id_matches_first:
  "matchNodeSelector 2 demo_data 1 [Pred 0 0] = Done True \<and> fld demo_data ''id'' 1 = Num 0"
  by (simp add: run_defs demo_data_def)

end
