(* ===== verification/Matrix.thy ===== *)
theory Matrix
  imports Complex_Main Prelude
begin

text \<open>
  The matrix and vector library behind the renderer, \<open>lib/J3DIMath.js\<close>, without the CSS matrix of
  WebKit (\<open>J3DIHasCSSMatrix\<close> is \<open>false\<close>).  Numbers are exact reals, so rounding and the values
  \<open>NaN\<close> and \<open>Infinity\<close> are not modelled; a division by zero, which yields them, is 0 here, and the
  theorems carry the conditions that exclude it.  Matrices act on row vectors; \<open>m.multiply(n)\<close>
  makes \<open>m\<close> act after \<open>n\<close>.
\<close>

section \<open>Matrices\<close>

record mat4 =
  m11 :: real
  m12 :: real
  m13 :: real
  m14 :: real
  m21 :: real
  m22 :: real
  m23 :: real
  m24 :: real
  m31 :: real
  m32 :: real
  m33 :: real
  m34 :: real
  m41 :: real
  m42 :: real
  m43 :: real
  m44 :: real

definition makeIdentity :: mat4 where
  "makeIdentity = \<lparr>m11 = 1, m12 = 0, m13 = 0, m14 = 0,
     m21 = 0, m22 = 1, m23 = 0, m24 = 0,
     m31 = 0, m32 = 0, m33 = 1, m34 = 0,
     m41 = 0, m42 = 0, m43 = 0, m44 = 1\<rparr>"

definition getAsArray :: "mat4 \<Rightarrow> real list" where
  "getAsArray a = [m11 a, m12 a, m13 a, m14 a,
     m21 a, m22 a, m23 a, m24 a,
     m31 a, m32 a, m33 a, m34 a,
     m41 a, m42 a, m43 a, m44 a]"

text \<open>\<open>load\<close> of an array: fewer than 16 numbers give the identity.\<close>

definition load_array :: "real list \<Rightarrow> mat4" where
  "load_array xs =
     (if 16 \<le> length xs
      then \<lparr>m11 = xs ! 0, m12 = xs ! 1, m13 = xs ! 2, m14 = xs ! 3,
        m21 = xs ! 4, m22 = xs ! 5, m23 = xs ! 6, m24 = xs ! 7,
        m31 = xs ! 8, m32 = xs ! 9, m33 = xs ! 10, m34 = xs ! 11,
        m41 = xs ! 12, m42 = xs ! 13, m43 = xs ! 14, m44 = xs ! 15\<rparr>
      else makeIdentity)"

definition transpose :: "mat4 \<Rightarrow> mat4" where
  "transpose a = \<lparr>m11 = m11 a, m12 = m21 a, m13 = m31 a, m14 = m41 a,
     m21 = m12 a, m22 = m22 a, m23 = m32 a, m24 = m42 a,
     m31 = m13 a, m32 = m23 a, m33 = m33 a, m34 = m43 a,
     m41 = m14 a, m42 = m24 a, m43 = m34 a, m44 = m44 a\<rparr>"

text \<open>\<open>this.multiply(mat)\<close>: the rows of \<open>mat\<close> with the columns of \<open>this\<close>.\<close>

definition multiply :: "mat4 \<Rightarrow> mat4 \<Rightarrow> mat4" where
  "multiply this mat = \<lparr>m11 = m11 mat * m11 this + m12 mat * m21 this + m13 mat * m31 this + m14 mat * m41 this,
     m12 = m11 mat * m12 this + m12 mat * m22 this + m13 mat * m32 this + m14 mat * m42 this,
     m13 = m11 mat * m13 this + m12 mat * m23 this + m13 mat * m33 this + m14 mat * m43 this,
     m14 = m11 mat * m14 this + m12 mat * m24 this + m13 mat * m34 this + m14 mat * m44 this,
     m21 = m21 mat * m11 this + m22 mat * m21 this + m23 mat * m31 this + m24 mat * m41 this,
     m22 = m21 mat * m12 this + m22 mat * m22 this + m23 mat * m32 this + m24 mat * m42 this,
     m23 = m21 mat * m13 this + m22 mat * m23 this + m23 mat * m33 this + m24 mat * m43 this,
     m24 = m21 mat * m14 this + m22 mat * m24 this + m23 mat * m34 this + m24 mat * m44 this,
     m31 = m31 mat * m11 this + m32 mat * m21 this + m33 mat * m31 this + m34 mat * m41 this,
     m32 = m31 mat * m12 this + m32 mat * m22 this + m33 mat * m32 this + m34 mat * m42 this,
     m33 = m31 mat * m13 this + m32 mat * m23 this + m33 mat * m33 this + m34 mat * m43 this,
     m34 = m31 mat * m14 this + m32 mat * m24 this + m33 mat * m34 this + m34 mat * m44 this,
     m41 = m41 mat * m11 this + m42 mat * m21 this + m43 mat * m31 this + m44 mat * m41 this,
     m42 = m41 mat * m12 this + m42 mat * m22 this + m43 mat * m32 this + m44 mat * m42 this,
     m43 = m41 mat * m13 this + m42 mat * m23 this + m43 mat * m33 this + m44 mat * m43 this,
     m44 = m41 mat * m14 this + m42 mat * m24 this + m43 mat * m34 this + m44 mat * m44 this\<rparr>"

definition divide :: "mat4 \<Rightarrow> real \<Rightarrow> mat4" where
  "divide a divisor = \<lparr>m11 = m11 a / divisor, m12 = m12 a / divisor, m13 = m13 a / divisor, m14 = m14 a / divisor,
     m21 = m21 a / divisor, m22 = m22 a / divisor, m23 = m23 a / divisor, m24 = m24 a / divisor,
     m31 = m31 a / divisor, m32 = m32 a / divisor, m33 = m33 a / divisor, m34 = m34 a / divisor,
     m41 = m41 a / divisor, m42 = m42 a / divisor, m43 = m43 a / divisor, m44 = m44 a / divisor\<rparr>"

section \<open>Determinant and inverse\<close>

definition determinant2x2 :: "real \<Rightarrow> real \<Rightarrow> real \<Rightarrow> real \<Rightarrow> real" where
  "determinant2x2 a b c d = a * d - b * c"

definition determinant3x3 :: "real \<Rightarrow> real \<Rightarrow> real \<Rightarrow> real \<Rightarrow> real \<Rightarrow> real \<Rightarrow> real \<Rightarrow> real \<Rightarrow> real \<Rightarrow> real" where
  "determinant3x3 a1 a2 a3 b1 b2 b3 c1 c2 c3 =
     a1 * determinant2x2 b2 b3 c2 c3 - b1 * determinant2x2 a2 a3 c2 c3 + c1 * determinant2x2 a2 a3 b2 b3"

definition determinant4x4 :: "mat4 \<Rightarrow> real" where
  "determinant4x4 this =
    (let a1 = m11 this; b1 = m12 this; c1 = m13 this; d1 = m14 this;
         a2 = m21 this; b2 = m22 this; c2 = m23 this; d2 = m24 this;
         a3 = m31 this; b3 = m32 this; c3 = m33 this; d3 = m34 this;
         a4 = m41 this; b4 = m42 this; c4 = m43 this; d4 = m44 this
     in a1 * determinant3x3 b2 b3 b4 c2 c3 c4 d2 d3 d4
      - b1 * determinant3x3 a2 a3 a4 c2 c3 c4 d2 d3 d4
      + c1 * determinant3x3 a2 a3 a4 b2 b3 b4 d2 d3 d4
      - d1 * determinant3x3 a2 a3 a4 b2 b3 b4 c2 c3 c4)"

definition makeAdjoint :: "mat4 \<Rightarrow> mat4" where
  "makeAdjoint this =
    (let a1 = m11 this; b1 = m12 this; c1 = m13 this; d1 = m14 this;
         a2 = m21 this; b2 = m22 this; c2 = m23 this; d2 = m24 this;
         a3 = m31 this; b3 = m32 this; c3 = m33 this; d3 = m34 this;
         a4 = m41 this; b4 = m42 this; c4 = m43 this; d4 = m44 this
     in \<lparr>m11 = determinant3x3 b2 b3 b4 c2 c3 c4 d2 d3 d4,
         m12 = - determinant3x3 b1 b3 b4 c1 c3 c4 d1 d3 d4,
         m13 = determinant3x3 b1 b2 b4 c1 c2 c4 d1 d2 d4,
         m14 = - determinant3x3 b1 b2 b3 c1 c2 c3 d1 d2 d3,
         m21 = - determinant3x3 a2 a3 a4 c2 c3 c4 d2 d3 d4,
         m22 = determinant3x3 a1 a3 a4 c1 c3 c4 d1 d3 d4,
         m23 = - determinant3x3 a1 a2 a4 c1 c2 c4 d1 d2 d4,
         m24 = determinant3x3 a1 a2 a3 c1 c2 c3 d1 d2 d3,
         m31 = determinant3x3 a2 a3 a4 b2 b3 b4 d2 d3 d4,
         m32 = - determinant3x3 a1 a3 a4 b1 b3 b4 d1 d3 d4,
         m33 = determinant3x3 a1 a2 a4 b1 b2 b4 d1 d2 d4,
         m34 = - determinant3x3 a1 a2 a3 b1 b2 b3 d1 d2 d3,
         m41 = - determinant3x3 a2 a3 a4 b2 b3 b4 c2 c3 c4,
         m42 = determinant3x3 a1 a3 a4 b1 b3 b4 c1 c3 c4,
         m43 = - determinant3x3 a1 a2 a4 b1 b2 b4 c1 c2 c4,
         m44 = determinant3x3 a1 a2 a3 b1 b2 b3 c1 c2 c3\<rparr>)"

text \<open>\<open>invert\<close>: \<open>None\<close> is the return value \<open>null\<close>, with the matrix left as it is.\<close>

definition invert :: "mat4 \<Rightarrow> mat4 option" where
  "invert this =
     (let det = determinant4x4 this
      in if \<bar>det\<bar> < 1 / 10 ^ 8 then None else Some (divide (makeAdjoint this) det))"

section \<open>Transformations\<close>

text \<open>An argument that is missing is \<open>None\<close>; the array forms pass three numbers.\<close>

definition arg :: "real \<Rightarrow> real option \<Rightarrow> real" where
  "arg dflt x = (case x of None \<Rightarrow> dflt | Some v \<Rightarrow> v)"

definition translate :: "mat4 \<Rightarrow> real option \<Rightarrow> real option \<Rightarrow> real option \<Rightarrow> mat4" where
  "translate this x y z = multiply this (makeIdentity\<lparr>m41 := arg 0 x, m42 := arg 0 y, m43 := arg 0 z\<rparr>)"

definition scale :: "mat4 \<Rightarrow> real option \<Rightarrow> real option \<Rightarrow> real option \<Rightarrow> mat4" where
  "scale this x y z =
     (let x' = arg 1 x;
          (y', z') = (case z of
             None \<Rightarrow> (case y of None \<Rightarrow> (x', x') | Some v \<Rightarrow> (v, 1))
           | Some w \<Rightarrow> (arg x' y, w))
      in multiply this (makeIdentity\<lparr>m11 := x', m22 := y', m33 := z'\<rparr>))"

definition radians :: "real \<Rightarrow> real" where
  "radians angle = angle / 180 * pi / 2"

definition normalize_axis :: "real \<Rightarrow> real \<Rightarrow> real \<Rightarrow> real \<times> real \<times> real" where
  "normalize_axis x y z =
     (let len = sqrt (x * x + y * y + z * z)
      in if len = 0 then (0, 0, 1) else if len \<noteq> 1 then (x / len, y / len, z / len) else (x, y, z))"

text \<open>The matrix of a rotation about a unit axis, with the three axes of the frame special-cased.\<close>

definition rotation :: "real \<Rightarrow> real \<Rightarrow> real \<Rightarrow> real \<Rightarrow> mat4" where
  "rotation angle x y z =
     (let sinA = sin angle; cosA = cos angle; sinA2 = sinA * sinA in
      if x = 1 \<and> y = 0 \<and> z = 0 then
        \<lparr>m11 = 1, m12 = 0, m13 = 0, m14 = 0,
         m21 = 0, m22 = 1 - 2 * sinA2, m23 = 2 * sinA * cosA, m24 = 0,
         m31 = 0, m32 = - 2 * sinA * cosA, m33 = 1 - 2 * sinA2, m34 = 0,
         m41 = 0, m42 = 0, m43 = 0, m44 = 1\<rparr>
      else if x = 0 \<and> y = 1 \<and> z = 0 then
        \<lparr>m11 = 1 - 2 * sinA2, m12 = 0, m13 = - 2 * sinA * cosA, m14 = 0,
         m21 = 0, m22 = 1, m23 = 0, m24 = 0,
         m31 = 2 * sinA * cosA, m32 = 0, m33 = 1 - 2 * sinA2, m34 = 0,
         m41 = 0, m42 = 0, m43 = 0, m44 = 1\<rparr>
      else if x = 0 \<and> y = 0 \<and> z = 1 then
        \<lparr>m11 = 1 - 2 * sinA2, m12 = 2 * sinA * cosA, m13 = 0, m14 = 0,
         m21 = - 2 * sinA * cosA, m22 = 1 - 2 * sinA2, m23 = 0, m24 = 0,
         m31 = 0, m32 = 0, m33 = 1, m34 = 0,
         m41 = 0, m42 = 0, m43 = 0, m44 = 1\<rparr>
      else
        (let x2 = x * x; y2 = y * y; z2 = z * z in
         \<lparr>m11 = 1 - 2 * (y2 + z2) * sinA2, m12 = 2 * (x * y * sinA2 + z * sinA * cosA),
          m13 = 2 * (x * z * sinA2 - y * sinA * cosA), m14 = 0,
          m21 = 2 * (y * x * sinA2 - z * sinA * cosA), m22 = 1 - 2 * (z2 + x2) * sinA2,
          m23 = 2 * (y * z * sinA2 + x * sinA * cosA), m24 = 0,
          m31 = 2 * (z * x * sinA2 + y * sinA * cosA), m32 = 2 * (z * y * sinA2 - x * sinA * cosA),
          m33 = 1 - 2 * (x2 + y2) * sinA2, m34 = 0,
          m41 = 0, m42 = 0, m43 = 0, m44 = 1\<rparr>))"

datatype rot_args = AngleAxis real real real real | AngleXYZ real real real | AngleZ real

definition rotate_axis :: "mat4 \<Rightarrow> real \<Rightarrow> real \<Rightarrow> real \<Rightarrow> real \<Rightarrow> mat4" where
  "rotate_axis this angle x y z =
     (let (x', y', z') = normalize_axis x y z in multiply this (rotation (radians angle) x' y' z'))"

definition rotate :: "mat4 \<Rightarrow> rot_args \<Rightarrow> mat4" where
  "rotate this args = (case args of
     AngleAxis angle x y z \<Rightarrow> rotate_axis this angle x y z
   | AngleXYZ a b c \<Rightarrow> rotate_axis (rotate_axis (rotate_axis this a 1 0 0) b 0 1 0) c 0 0 1
   | AngleZ angle \<Rightarrow> rotate_axis this angle 0 0 1)"

section \<open>Projections\<close>

definition ortho :: "mat4 \<Rightarrow> real \<Rightarrow> real \<Rightarrow> real \<Rightarrow> real \<Rightarrow> real \<Rightarrow> real \<Rightarrow> mat4" where
  "ortho this left right btm tp near far =
     (let tx = (left + right) / (left - right);
          ty = (tp + btm) / (tp - btm);
          tz = (far + near) / (far - near)
      in multiply this
        \<lparr>m11 = 2 / (left - right), m12 = 0, m13 = 0, m14 = 0,
         m21 = 0, m22 = 2 / (tp - btm), m23 = 0, m24 = 0,
         m31 = 0, m32 = 0, m33 = - 2 / (far - near), m34 = 0,
         m41 = tx, m42 = ty, m43 = tz, m44 = 1\<rparr>)"

definition frustum :: "mat4 \<Rightarrow> real \<Rightarrow> real \<Rightarrow> real \<Rightarrow> real \<Rightarrow> real \<Rightarrow> real \<Rightarrow> mat4" where
  "frustum this left right btm tp near far =
     (let A = (right + left) / (right - left);
          B = (tp + btm) / (tp - btm);
          C = - (far + near) / (far - near);
          D = - (2 * far * near) / (far - near)
      in multiply this
        \<lparr>m11 = (2 * near) / (right - left), m12 = 0, m13 = 0, m14 = 0,
         m21 = 0, m22 = 2 * near / (tp - btm), m23 = 0, m24 = 0,
         m31 = A, m32 = B, m33 = C, m34 = -1,
         m41 = 0, m42 = 0, m43 = D, m44 = 0\<rparr>)"

definition perspective :: "mat4 \<Rightarrow> real \<Rightarrow> real \<Rightarrow> real \<Rightarrow> real \<Rightarrow> mat4" where
  "perspective this fovy aspect zNear zFar =
     (let tp = tan (fovy * pi / 360) * zNear;
          btm = - tp;
          left = aspect * btm;
          right = aspect * tp
      in frustum this left right btm tp zNear zFar)"

section \<open>Vectors\<close>

type_synonym vec3 = "real \<times> real \<times> real"

definition vectorLength :: "vec3 \<Rightarrow> real" where
  "vectorLength v = (case v of (x, y, z) \<Rightarrow> sqrt (x * x + y * y + z * z))"

definition vec_divide :: "vec3 \<Rightarrow> real \<Rightarrow> vec3" where
  "vec_divide v d = (case v of (x, y, z) \<Rightarrow> (x / d, y / d, z / d))"

text \<open>The three assignments of \<open>cross\<close>, in order: the later ones read the new components.\<close>

definition cross :: "vec3 \<Rightarrow> vec3 \<Rightarrow> vec3" where
  "cross this v = (case this of (t0, t1, t2) \<Rightarrow> case v of (v0, v1, v2) \<Rightarrow>
     let t0' = t1 * v2 - t2 * v1;
         t1' = - t0' * v2 + t2 * v0;
         t2' = t0' * v1 - t1' * v0
     in (t0', t1', t2'))"

definition dot :: "vec3 \<Rightarrow> vec3 \<Rightarrow> real" where
  "dot this v = (case this of (t0, t1, t2) \<Rightarrow> case v of (v0, v1, v2) \<Rightarrow> t0 * v0 + t1 * v1 + t2 * v2)"

definition combine :: "vec3 \<Rightarrow> vec3 \<Rightarrow> real \<Rightarrow> real \<Rightarrow> vec3" where
  "combine this v ascl bscl = (case this of (t0, t1, t2) \<Rightarrow> case v of (v0, v1, v2) \<Rightarrow>
     ((ascl * t0) + (bscl * v0), (ascl * t1) + (bscl * v1), (ascl * t2) + (bscl * v2)))"

definition multVecMatrix :: "vec3 \<Rightarrow> mat4 \<Rightarrow> vec3" where
  "multVecMatrix this a = (case this of (x, y, z) \<Rightarrow>
     let x' = m41 a + x * m11 a + y * m21 a + z * m31 a;
         y' = m42 a + x * m12 a + y * m22 a + z * m32 a;
         z' = m43 a + x * m13 a + y * m23 a + z * m33 a;
         w = m44 a + x * m14 a + y * m24 a + z * m34 a
     in if w \<noteq> 1 \<and> w \<noteq> 0 then (x' / w, y' / w, z' / w) else (x', y', z'))"

definition lookat :: "mat4 \<Rightarrow> vec3 \<Rightarrow> vec3 \<Rightarrow> vec3 \<Rightarrow> mat4" where
  "lookat this eye center up = (case eye of (eyex, eyey, eyez) \<Rightarrow> case center of (cx, cy, cz) \<Rightarrow>
     case up of (upx, upy, upz) \<Rightarrow>
     let (zx, zy, zz) = (eyex - cx, eyey - cy, eyez - cz);
         mag = sqrt (zx * zx + zy * zy + zz * zz);
         (zx, zy, zz) = (if mag \<noteq> 0 then (zx / mag, zy / mag, zz / mag) else (zx, zy, zz));
         (yx, yy, yz) = (upx, upy, upz);
         xx = yy * zz - yz * zy;
         xy = - yx * zz + yz * zx;
         xz = yx * zy - yy * zx;
         yx = zy * xz - zz * xy;
         yy = - zx * xz + zz * xx;
         yx = zx * xy - zy * xx;
         mag = sqrt (xx * xx + xy * xy + xz * xz);
         (xx, xy, xz) = (if mag \<noteq> 0 then (xx / mag, xy / mag, xz / mag) else (xx, xy, xz));
         mag = sqrt (yx * yx + yy * yy + yz * yz);
         (yx, yy, yz) = (if mag \<noteq> 0 then (yx / mag, yy / mag, yz / mag) else (yx, yy, yz))
     in multiply this (translate
          \<lparr>m11 = xx, m12 = xy, m13 = xz, m14 = 0,
           m21 = yx, m22 = yy, m23 = yz, m24 = 0,
           m31 = zx, m32 = zy, m33 = zz, m34 = 0,
           m41 = 0, m42 = 0, m43 = 0, m44 = 1\<rparr> (Some (- eyex)) (Some (- eyey)) (Some (- eyez))))"

section \<open>Decomposition\<close>

text \<open>
  \<open>decompose\<close>, which the renderer does not call.  It throws a \<open>TypeError\<close> on a matrix with a
  perspective part, because \<open>multVecMatrix\<close> is a method of vectors only, and a
  \<open>ReferenceError\<close> on one that flips the coordinate system, because \<open>row\<close> is not declared.
\<close>

datatype decomposition = NotDecomposed | TypeError | ReferenceError
  | Decomposed (d_translate: vec3) (d_rotate: vec3) (d_scale: vec3) (d_skew: vec3)

definition atan2 :: "real \<Rightarrow> real \<Rightarrow> real" where
  "atan2 y x =
     (if 0 < x then arctan (y / x)
      else if x < 0 then (if 0 \<le> y then arctan (y / x) + pi else arctan (y / x) - pi)
      else if 0 < y then pi / 2 else if y < 0 then - pi / 2 else 0)"

text \<open>The part on the rows of the linear part: scale, shear and rotation.\<close>

definition decompose_rows :: "vec3 \<Rightarrow> vec3 \<Rightarrow> vec3 \<Rightarrow> vec3 \<Rightarrow> decomposition" where
  "decompose_rows tr row0 row1 row2 =
     (let scale0 = vectorLength row0;
          row0 = vec_divide row0 scale0;
          skew0 = dot row0 row1;
          row1 = combine row1 row0 1 (- skew0);
          scale1 = vectorLength row1;
          row1 = vec_divide row1 scale1;
          skew0 = skew0 / scale1;
          skew1 = dot row1 row2;
          row2 = combine row2 row0 1 (- skew1);
          skew2 = dot row1 row2;
          row2 = combine row2 row1 1 (- skew2);
          scale2 = vectorLength row2;
          row2 = vec_divide row2 scale2;
          skew1 = skew1 / scale2;
          skew2 = skew2 / scale2
      in if dot row0 (cross row1 row2) < 0 then ReferenceError
         else case row0 of (r00, r01, r02) \<Rightarrow> case row1 of (r10, r11, r12) \<Rightarrow> case row2 of (r20, r21, r22) \<Rightarrow>
           let rot1 = arcsin (- r02);
               (rot0, rot2) = (if cos rot1 \<noteq> 0 then (atan2 r12 r22, atan2 r01 r00) else (atan2 (- r20) r11, 0));
               rad2deg = 180 / pi
           in Decomposed tr (rot0 * rad2deg, rot1 * rad2deg, rot2 * rad2deg)
                (scale0, scale1, scale2) (skew0, skew1, skew2))"

definition decompose :: "mat4 \<Rightarrow> decomposition" where
  "decompose this =
     (if m44 this = 0 then NotDecomposed
      else let matrix = divide this (m44 this);
               perspectiveMatrix = matrix\<lparr>m14 := 0, m24 := 0, m34 := 0, m44 := 1\<rparr>
           in if determinant4x4 perspectiveMatrix = 0 then NotDecomposed
              else if m14 matrix \<noteq> 0 \<or> m24 matrix \<noteq> 0 \<or> m34 matrix \<noteq> 0 then TypeError
              else decompose_rows (m41 matrix, m42 matrix, m43 matrix) (m11 matrix, m12 matrix, m13 matrix)
                (m21 matrix, m22 matrix, m23 matrix) (m31 matrix, m32 matrix, m33 matrix))"

section \<open>Laws\<close>

lemma multiply_identity [simp]: "multiply makeIdentity a = a" "multiply a makeIdentity = a"
  by (simp_all add: multiply_def makeIdentity_def)

lemma multiply_assoc: "multiply (multiply a b) c = multiply a (multiply b c)"
  by (simp add: multiply_def algebra_simps)

lemma transpose_transpose [simp]: "transpose (transpose a) = a"
  by (simp add: transpose_def)

lemma transpose_multiply: "transpose (multiply a b) = multiply (transpose b) (transpose a)"
  by (simp add: transpose_def multiply_def mult.commute)

lemma load_getAsArray [simp]: "load_array (getAsArray a) = a"
  by (simp add: load_array_def getAsArray_def)

lemmas det_defs = determinant4x4_def makeAdjoint_def determinant3x3_def determinant2x2_def Let_def

lemma multiply_adjoint: "multiply a (makeAdjoint a) = makeIdentity\<lparr>m11 := determinant4x4 a, m22 := determinant4x4 a,
    m33 := determinant4x4 a, m44 := determinant4x4 a\<rparr>"
  by (simp add: multiply_def makeIdentity_def det_defs algebra_simps)

lemma adjoint_multiply: "multiply (makeAdjoint a) a = makeIdentity\<lparr>m11 := determinant4x4 a, m22 := determinant4x4 a,
    m33 := determinant4x4 a, m44 := determinant4x4 a\<rparr>"
  by (simp add: multiply_def makeIdentity_def det_defs algebra_simps)

lemma multiply_divide: "multiply a (divide b k) = divide (multiply a b) k"
  "multiply (divide a k) b = divide (multiply a b) k"
  by (simp_all add: multiply_def divide_def add_divide_distrib)

lemma invert_inverse:
  assumes "invert a = Some b"
  shows "multiply a b = makeIdentity \<and> multiply b a = makeIdentity"
proof -
  let ?d = "determinant4x4 a"
  from assms have d: "\<not> \<bar>?d\<bar> < 1 / 10 ^ 8" and b: "b = divide (makeAdjoint a) ?d"
    by (auto simp: invert_def Let_def split: if_splits)
  then have "?d \<noteq> 0" by auto
  then show ?thesis
    unfolding b multiply_divide multiply_adjoint adjoint_multiply by (simp add: divide_def makeIdentity_def)
qed

lemma invert_unique:
  assumes "multiply a b = makeIdentity" and "multiply c a = makeIdentity"
  shows "b = c"
  using multiply_assoc [of c a b] assms by simp

section \<open>Rigid motions\<close>

definition affine :: "mat4 \<Rightarrow> bool" where
  "affine a \<longleftrightarrow> m14 a = 0 \<and> m24 a = 0 \<and> m34 a = 0 \<and> m44 a = 1"

text \<open>The linear part of an affine matrix, and the squared length of a vector.\<close>

definition linear_part :: "mat4 \<Rightarrow> vec3 \<Rightarrow> vec3" where
  "linear_part a v = (case v of (x, y, z) \<Rightarrow>
     (x * m11 a + y * m21 a + z * m31 a, x * m12 a + y * m22 a + z * m32 a, x * m13 a + y * m23 a + z * m33 a))"

definition norm2 :: "vec3 \<Rightarrow> real" where
  "norm2 v = (case v of (x, y, z) \<Rightarrow> x * x + y * y + z * z)"

definition vec_minus :: "vec3 \<Rightarrow> vec3 \<Rightarrow> vec3" where
  "vec_minus u v = (case u of (a, b, c) \<Rightarrow> case v of (x, y, z) \<Rightarrow> (a - x, b - y, c - z))"

definition rigid :: "mat4 \<Rightarrow> bool" where
  "rigid a \<longleftrightarrow> affine a \<and> (\<forall>v. norm2 (linear_part a v) = norm2 v)"

lemma affine_multiply: "affine a \<Longrightarrow> affine b \<Longrightarrow> affine (multiply a b)"
  by (simp add: affine_def multiply_def)

lemma linear_part_multiply: "affine b \<Longrightarrow> linear_part (multiply a b) v = linear_part a (linear_part b v)"
  by (cases v) (simp add: affine_def linear_part_def multiply_def algebra_simps)

lemma rigid_multiply: "rigid a \<Longrightarrow> rigid b \<Longrightarrow> rigid (multiply a b)"
  by (simp add: rigid_def affine_multiply linear_part_multiply del: split_paired_All)

lemma rigid_identity: "rigid makeIdentity"
  by (auto simp: rigid_def affine_def linear_part_def makeIdentity_def)

lemma multVecMatrix_affine: "affine a \<Longrightarrow> vec_minus (multVecMatrix u a) (multVecMatrix v a) = linear_part a (vec_minus u v)"
  by (cases u; cases v) (simp add: affine_def multVecMatrix_def vec_minus_def linear_part_def Let_def algebra_simps)

text \<open>A rigid motion keeps the distance of any two points.\<close>

lemma rigid_distance: "rigid a \<Longrightarrow>
    vectorLength (vec_minus (multVecMatrix u a) (multVecMatrix v a)) = vectorLength (vec_minus u v)"
proof -
  assume a: "rigid a"
  have "vectorLength w = sqrt (norm2 w)" for w by (cases w) (simp add: vectorLength_def norm2_def)
  then show ?thesis using a by (simp add: rigid_def multVecMatrix_affine del: split_paired_All)
qed

lemma rigid_translation: "rigid (makeIdentity\<lparr>m41 := x, m42 := y, m43 := z\<rparr>)"
  by (auto simp: rigid_def affine_def linear_part_def makeIdentity_def)

lemma rigid_translate: "rigid a \<Longrightarrow> rigid (translate a x y z)"
  by (simp add: translate_def rigid_multiply rigid_translation)

text \<open>The rotation with the quaternion \<open>(w, p, q, r)\<close> of norm 1.\<close>

definition quaternion_matrix :: "real \<Rightarrow> real \<Rightarrow> real \<Rightarrow> real \<Rightarrow> mat4" where
  "quaternion_matrix w p q r =
     \<lparr>m11 = 1 - 2 * (q * q + r * r), m12 = 2 * (p * q + r * w), m13 = 2 * (p * r - q * w), m14 = 0,
      m21 = 2 * (p * q - r * w), m22 = 1 - 2 * (r * r + p * p), m23 = 2 * (q * r + p * w), m24 = 0,
      m31 = 2 * (p * r + q * w), m32 = 2 * (q * r - p * w), m33 = 1 - 2 * (p * p + q * q), m34 = 0,
      m41 = 0, m42 = 0, m43 = 0, m44 = 1\<rparr>"

lemma rotation_quaternion:
  assumes "x * x + y * y + z * z = 1"
  shows "rotation t x y z = quaternion_matrix (cos t) (sin t * x) (sin t * y) (sin t * z)"
  by (simp add: rotation_def quaternion_matrix_def Let_def algebra_simps power2_eq_square)

lemma orthonormal_rigid:
  assumes "affine a"
    and "m11 a * m11 a + m12 a * m12 a + m13 a * m13 a = 1" and "m21 a * m21 a + m22 a * m22 a + m23 a * m23 a = 1"
    and "m31 a * m31 a + m32 a * m32 a + m33 a * m33 a = 1" and "m11 a * m21 a + m12 a * m22 a + m13 a * m23 a = 0"
    and "m11 a * m31 a + m12 a * m32 a + m13 a * m33 a = 0" and "m21 a * m31 a + m22 a * m32 a + m23 a * m33 a = 0"
  shows "rigid a"
proof -
  have "norm2 (linear_part a (x, y, z)) = x * x + y * y + z * z" for x y z
  proof -
    have "norm2 (linear_part a (x, y, z)) =
        x * x * (m11 a * m11 a + m12 a * m12 a + m13 a * m13 a) +
        y * y * (m21 a * m21 a + m22 a * m22 a + m23 a * m23 a) +
        z * z * (m31 a * m31 a + m32 a * m32 a + m33 a * m33 a) +
        2 * x * y * (m11 a * m21 a + m12 a * m22 a + m13 a * m23 a) +
        2 * x * z * (m11 a * m31 a + m12 a * m32 a + m13 a * m33 a) +
        2 * y * z * (m21 a * m31 a + m22 a * m32 a + m23 a * m33 a)"
      by (simp add: norm2_def linear_part_def algebra_simps)
    then show ?thesis using assms by simp
  qed
  then show ?thesis using assms(1) by (auto simp: rigid_def norm2_def)
qed

lemma quaternion_rigid:
  assumes "w * w + p * p + q * q + r * r = 1"
  shows "rigid (quaternion_matrix w p q r)"
proof (rule orthonormal_rigid)
  show "affine (quaternion_matrix w p q r)" by (simp add: affine_def quaternion_matrix_def)
qed (use assms in \<open>simp add: quaternion_matrix_def, algebra\<close>)+

lemma normalize_axis_unit:
  assumes "normalize_axis x y z = (x', y', z')"
  shows "x' * x' + y' * y' + z' * z' = 1"
proof -
  let ?l = "sqrt (x * x + y * y + z * z)"
  have sq: "?l * ?l = x * x + y * y + z * z" by (simp add: real_sqrt_mult_self abs_if not_less)
  consider "?l = 0" | "?l = 1" | "?l \<noteq> 0" "?l \<noteq> 1" by blast
  then show ?thesis
  proof cases
    case 1
    with assms have "x' = 0 \<and> y' = 0 \<and> z' = 1" by (simp add: normalize_axis_def Let_def)
    then show ?thesis by simp
  next
    case 2
    with assms sq show ?thesis by (simp add: normalize_axis_def Let_def)
  next
    case 3
    with assms have "x' = x / ?l" "y' = y / ?l" "z' = z / ?l"
      by (auto simp: normalize_axis_def Let_def split: if_splits)
    then have "x' * x' + y' * y' + z' * z' = x * x / (?l * ?l) + y * y / (?l * ?l) + z * z / (?l * ?l)"
      by (simp only: times_divide_times_eq)
    also have "\<dots> = (?l * ?l) / (?l * ?l)" unfolding sq by (simp only: add_divide_distrib)
    also have "\<dots> = 1" using 3(1) by simp
    finally show ?thesis .
  qed
qed

lemma rigid_rotate_axis:
  assumes "rigid a"
  shows "rigid (rotate_axis a t x y z)"
proof -
  obtain x' y' z' where n: "normalize_axis x y z = (x', y', z')" using prod_cases3 by blast
  note u = normalize_axis_unit [OF n]
  let ?t = "radians t"
  have "cos ?t * cos ?t + sin ?t * x' * (sin ?t * x') + sin ?t * y' * (sin ?t * y') + sin ?t * z' * (sin ?t * z') =
      cos ?t * cos ?t + sin ?t * sin ?t * (x' * x' + y' * y' + z' * z')"
    by (simp add: algebra_simps)
  also have "\<dots> = 1" using u sin_cos_squared_add3 [of ?t] by simp
  finally have "rigid (quaternion_matrix (cos ?t) (sin ?t * x') (sin ?t * y') (sin ?t * z'))"
    by (rule quaternion_rigid)
  then show ?thesis
    using rigid_multiply [OF assms] by (simp add: rotate_axis_def n rotation_quaternion [OF u])
qed

lemma rigid_rotate: "rigid a \<Longrightarrow> rigid (rotate a args)"
  by (cases args) (simp_all add: rotate_def rigid_rotate_axis)

section \<open>The view frustum\<close>

lemma perspective_point:
  assumes "0 < d" and "zNear \<noteq> 0"
  shows "multVecMatrix (x, y, - d) (perspective makeIdentity fovy aspect zNear zFar) =
    (x / (aspect * tan (fovy * pi / 360)) / d, y / tan (fovy * pi / 360) / d,
     (d * (zFar + zNear) - 2 * zFar * zNear) / (zFar - zNear) / d)"
  using assms
  by (simp add: perspective_def frustum_def multVecMatrix_def Let_def diff_divide_distrib add_divide_distrib
      algebra_simps mult_2 [symmetric])

section \<open>What the code gets wrong\<close>

text \<open>\<open>cross\<close> overwrites the components it still needs; \<open>lookat\<close> never assigns the third component of its
  \<open>y\<close> axis, so that its result need not be rigid; \<open>decompose\<close> cannot handle a mirrored frame.\<close>

lemma cross_units: "cross (0, 1, 0) (0, 0, 1) = (1, -1, 0)"
  by (simp add: cross_def)

lemma cross_first: "fst (cross (a, b, c) (x, y, z)) = b * z - c * y"
  by (simp add: cross_def Let_def)

lemma lookat_skewed: "m21 (lookat makeIdentity (0, 3, 4) (0, 0, 0) (0, 1, 0)) * m31 (lookat makeIdentity (0, 3, 4) (0, 0, 0) (0, 1, 0)) +
    m22 (lookat makeIdentity (0, 3, 4) (0, 0, 0) (0, 1, 0)) * m32 (lookat makeIdentity (0, 3, 4) (0, 0, 0) (0, 1, 0)) +
    m23 (lookat makeIdentity (0, 3, 4) (0, 0, 0) (0, 1, 0)) * m33 (lookat makeIdentity (0, 3, 4) (0, 0, 0) (0, 1, 0)) \<noteq> 0"
proof -
  have 5: "sqrt 25 = (5::real)" by (rule real_sqrt_unique) simp_all
  have 4: "sqrt 16 = (4::real)" by (rule real_sqrt_unique) simp_all
  have 45: "sqrt (16 / 25) = (4 / 5::real)" by (simp add: real_sqrt_divide 5 4)
  show ?thesis
    by (simp add: lookat_def translate_def multiply_def makeIdentity_def arg_def 5 4 45 Let_def)
qed

lemma rows_mirror: "decompose_rows t (1, 0, 0) (0, 1, 0) (0, 0, -1) = ReferenceError"
  by (simp add: decompose_rows_def vectorLength_def vec_divide_def dot_def combine_def cross_def Let_def)

lemma decompose_mirror: "decompose (scale makeIdentity (Some 1) (Some 1) (Some (-1))) = ReferenceError"
proof -
  let ?m = "makeIdentity\<lparr>m33 := -1\<rparr>"
  have m: "scale makeIdentity (Some 1) (Some 1) (Some (-1)) = ?m"
    by (simp add: scale_def) (simp add: arg_def makeIdentity_def)
  have "m44 ?m = 1" "divide ?m 1 = ?m" "?m\<lparr>m14 := 0, m24 := 0, m34 := 0, m44 := 1\<rparr> = ?m" "determinant4x4 ?m = -1"
    by (simp_all add: divide_def makeIdentity_def det_defs)
  then have "decompose ?m = decompose_rows (m41 ?m, m42 ?m, m43 ?m) (m11 ?m, m12 ?m, m13 ?m) (m21 ?m, m22 ?m, m23 ?m)
      (m31 ?m, m32 ?m, m33 ?m)"
    unfolding decompose_def by (simp add: makeIdentity_def)
  then show ?thesis unfolding m by (simp add: rows_mirror makeIdentity_def)
qed

lemma decompose_perspective: "decompose (makeIdentity\<lparr>m34 := -1\<rparr>) = TypeError"
  by (simp add: decompose_def det_defs divide_def makeIdentity_def)

lemma ortho_mirror: "m11 (ortho makeIdentity (-1) 1 (-1) 1 1 2) = -1"
  by (simp add: ortho_def)

section \<open>The inverse\<close>

text \<open>
  C22.  \<open>invert\<close> is correct: it gives up exactly when the determinant is below \<open>1e-8\<close>, and otherwise
  its result is the two-sided inverse, the only one there is; inverting it again, when its own
  determinant is not too small, gives back the matrix.
\<close>

theorem invert_correct: "case invert a of
    None \<Rightarrow> \<bar>determinant4x4 a\<bar> < 1 / 10 ^ 8
  | Some b \<Rightarrow> 1 / 10 ^ 8 \<le> \<bar>determinant4x4 a\<bar> \<and> multiply a b = makeIdentity \<and> multiply b a = makeIdentity \<and>
      (\<forall>c. multiply a c = makeIdentity \<longleftrightarrow> c = b) \<and> (\<forall>c. multiply c a = makeIdentity \<longleftrightarrow> c = b) \<and>
      invert b \<in> {None, Some a}"
proof (cases "invert a")
  case None
  then show ?thesis by (auto simp: invert_def Let_def split: if_splits)
next
  case (Some b)
  from invert_inverse [OF this] have ab: "multiply a b = makeIdentity" "multiply b a = makeIdentity" by simp_all
  have "1 / 10 ^ 8 \<le> \<bar>determinant4x4 a\<bar>" using Some by (auto simp: invert_def Let_def split: if_splits)
  moreover have "multiply a c = makeIdentity \<longleftrightarrow> c = b" for c using invert_unique [of a c b] ab by blast
  moreover have "multiply c a = makeIdentity \<longleftrightarrow> c = b" for c using invert_unique [of a b c] ab by blast
  moreover have "invert b \<in> {None, Some a}"
  proof (cases "invert b")
    case None
    then show ?thesis by simp
  next
    case (Some c)
    from invert_unique [of b c a] invert_inverse [OF Some] ab have "c = a" by blast
    with Some show ?thesis by blast
  qed
  ultimately show ?thesis using ab unfolding Some option.case by (intro conjI allI) assumption+
qed

theorem invert_correct_witness:
  "\<exists>b. invert (makeIdentity\<lparr>m11 := 2, m41 := 6\<rparr>) = Some b \<and> m11 b = 1 / 2 \<and> m41 b = -3 \<and>
     multiply (makeIdentity\<lparr>m11 := 2, m41 := 6\<rparr>) b = makeIdentity"
proof -
  let ?a = "makeIdentity\<lparr>m11 := 2, m41 := 6\<rparr>"
  have "determinant4x4 ?a = 2" by (simp add: det_defs makeIdentity_def)
  moreover have "m11 (makeAdjoint ?a) = 1" "m41 (makeAdjoint ?a) = -6" by (simp_all add: det_defs makeIdentity_def)
  ultimately have b: "invert ?a = Some (divide (makeAdjoint ?a) 2)" "m11 (divide (makeAdjoint ?a) 2) = 1 / 2"
    "m41 (divide (makeAdjoint ?a) 2) = -3"
    by (simp_all add: invert_def divide_def)
  from invert_correct [of ?a] show ?thesis unfolding b(1) option.case using b(2,3) by blast
qed

end
