(* ===== verification/GL.thy ===== *)
theory GL
  imports Matrix "HOL-Library.Word"
begin

text \<open>
  The renderer, \<open>GLRunner.js\<close>: the vertex buffer it keeps for the layout engine, the view and model
  matrices it hands to the shaders, and the packed colours of the 2D canvas mode.  The WebGL
  context is modelled by what the runner relies on: which buffers exist and how large they are,
  which one is bound, where the two vertex attributes point, and the values of the uniforms.
  Shaders, console output and error codes of the context are not modelled.
\<close>

section \<open>State\<close>

record attribute =
  a_buffer :: nat
  a_components :: nat
  a_stride :: nat
  a_offset :: nat

record glcontext =
  buffers :: "nat \<rightharpoonup> nat"
  next_buffer :: nat
  array_buffer :: "nat option"
  a_position :: "attribute option"
  a_color :: "attribute option"
  viewport :: "real \<times> real"
  u_projection_matrix :: "real list"
  u_modelview_matrix :: "real list"
  u_w :: real

record persp =
  fov :: real
  aspect :: real
  nearPlane :: real
  farPlane :: real

record glrunner =
  gl :: glcontext
  view :: persp
  position :: vec3
  rotation3 :: vec3
  vertex_w :: real
  vbo_size :: nat
  num_vertices :: nat
  vbo :: "nat option"

datatype gl_error = BadVBOSize int

definition numVertexComponents :: nat where "numVertexComponents = 4"
definition sizeVertexCompontent :: nat where "sizeVertexCompontent = 4 * 4"
definition numColorsComponents :: nat where "numColorsComponents = 4"
definition sizeTotal :: nat where "sizeTotal = (4 + 4) * 4"

section \<open>Views\<close>

text \<open>\<open>setUniform\<close>: the numbers uploaded for a matrix, row by row.\<close>

definition setUniform :: "mat4 \<Rightarrow> real list" where
  "setUniform m = [m11 m, m12 m, m13 m, m14 m, m21 m, m22 m, m23 m, m24 m,
     m31 m, m32 m, m33 m, m34 m, m41 m, m42 m, m43 m, m44 m]"

definition model_view :: "vec3 \<Rightarrow> vec3 \<Rightarrow> mat4" where
  "model_view pos rot = (case pos of (px, py, pz) \<Rightarrow> case rot of (rx, ry, rz) \<Rightarrow>
     let mv = translate makeIdentity (Some px) (Some py) (Some pz);
         mv = rotate mv (AngleAxis rx 1 0 0);
         mv = rotate mv (AngleAxis ry 0 1 0)
     in rotate mv (AngleAxis rz 0 0 1))"

definition updateModelView :: "glrunner \<Rightarrow> glrunner" where
  "updateModelView g = g\<lparr>gl := (gl g)\<lparr>u_modelview_matrix := setUniform (model_view (position g) (rotation3 g))\<rparr>\<rparr>"

definition setPosition :: "vec3 \<Rightarrow> glrunner \<Rightarrow> glrunner" where
  "setPosition p g = updateModelView (g\<lparr>position := p\<rparr>)"

definition movePosition :: "vec3 \<Rightarrow> glrunner \<Rightarrow> glrunner" where
  "movePosition d g = (case position g of (x, y, z) \<Rightarrow> case d of (dx, dy, dz) \<Rightarrow>
     setPosition (x + dx, y + dy, z + dz) g)"

definition setRotation :: "vec3 \<Rightarrow> glrunner \<Rightarrow> glrunner" where
  "setRotation r g = updateModelView (g\<lparr>rotation3 := r\<rparr>)"

text \<open>\<open>rotate\<close> only records the angles.\<close>

definition gl_rotate :: "vec3 \<Rightarrow> glrunner \<Rightarrow> glrunner" where
  "gl_rotate d g = (case rotation3 g of (x, y, z) \<Rightarrow> case d of (dx, dy, dz) \<Rightarrow>
     g\<lparr>rotation3 := (x + dx, y + dy, z + dz)\<rparr>)"

definition setW :: "real \<Rightarrow> glrunner \<Rightarrow> glrunner" where
  "setW w g = g\<lparr>vertex_w := w, gl := (gl g)\<lparr>u_w := w\<rparr>\<rparr>"

text \<open>
  \<open>updateView\<close> on a canvas of the given client size; an absent field of the argument keeps the
  old value, and the aspect ratio is always that of the canvas.
\<close>

definition updateView :: "real \<Rightarrow> real \<Rightarrow> real option \<Rightarrow> real option \<Rightarrow> real option \<Rightarrow> glrunner \<Rightarrow> glrunner" where
  "updateView cw ch f n r g =
     (let v = \<lparr>fov = arg (fov (view g)) f, aspect = cw / ch,
               nearPlane = arg (nearPlane (view g)) n, farPlane = arg (farPlane (view g)) r\<rparr>
      in g\<lparr>view := v, gl := (gl g)\<lparr>viewport := (cw, ch), u_projection_matrix :=
             setUniform (perspective makeIdentity (fov v) (aspect v) (nearPlane v) (farPlane v))\<rparr>\<rparr>)"

section \<open>The vertex buffer\<close>

definition linkVBO :: "glrunner \<Rightarrow> glrunner" where
  "linkVBO g = (case vbo g of
     None \<Rightarrow> g
   | Some v \<Rightarrow> (case array_buffer (gl g) of
         None \<Rightarrow> g
       | Some b \<Rightarrow> g\<lparr>gl := (gl g)
           \<lparr>a_position := Some \<lparr>a_buffer = b, a_components = numVertexComponents, a_stride = sizeTotal, a_offset = 0\<rparr>,
            a_color := Some \<lparr>a_buffer = b, a_components = numColorsComponents, a_stride = sizeTotal,
                             a_offset = sizeVertexCompontent\<rparr>\<rparr>\<rparr>))"

definition delete_vbo :: "glrunner \<Rightarrow> glrunner" where
  "delete_vbo g = (case vbo g of
     None \<Rightarrow> g
   | Some v \<Rightarrow> g\<lparr>gl := (gl g)\<lparr>array_buffer := None, buffers := (buffers (gl g))(v := None)\<rparr>\<rparr>)"

definition create_vbo :: "nat \<Rightarrow> glrunner \<Rightarrow> glrunner" where
  "create_vbo bytes g =
     (let b = next_buffer (gl g)
      in g\<lparr>vbo := Some b, vbo_size := bytes,
           gl := (gl g)\<lparr>next_buffer := b + 1, array_buffer := Some b, buffers := (buffers (gl g))(b \<mapsto> bytes)\<rparr>\<rparr>)"

text \<open>
  \<open>reallocateVBO\<close>: a new buffer when the old one is too small or more than a quarter of it would
  be unused, with a quarter to spare.
\<close>

definition vbo_bytes :: "nat \<Rightarrow> nat" where
  "vbo_bytes requested_size = nat \<lceil>real requested_size * (125 / 100)\<rceil>"

definition vbo_out_of_range :: "nat \<Rightarrow> nat \<Rightarrow> bool" where
  "vbo_out_of_range bytes requested_size \<longleftrightarrow>
     bytes < requested_size \<or> real bytes - real requested_size > real bytes * (25 / 100)"

definition reallocateVBO :: "int \<Rightarrow> glrunner \<Rightarrow> gl_error + glrunner" where
  "reallocateVBO numRequestedVertices g =
     (if numRequestedVertices \<le> 0 then Inl (BadVBOSize numRequestedVertices)
      else let n = nat numRequestedVertices;
               requested_size = n * sizeTotal;
               g1 = g\<lparr>num_vertices := n\<rparr>
           in if vbo_out_of_range (vbo_size g) requested_size
              then Inr (linkVBO (create_vbo (vbo_bytes requested_size) (delete_vbo g1)))
              else Inr (g1\<lparr>gl := (gl g1)\<lparr>array_buffer := vbo g1\<rparr>\<rparr>))"

text \<open>\<open>renderFrame\<close> draws \<open>num_vertices\<close> vertices: the bytes it reads of each attribute's buffer.\<close>

definition attribute_end :: "nat \<Rightarrow> attribute \<Rightarrow> nat" where
  "attribute_end n a = (if n = 0 then 0 else a_offset a + (n - 1) * a_stride a + a_components a * 4)"

definition draw_in_bounds :: "glrunner \<Rightarrow> bool" where
  "draw_in_bounds g \<longleftrightarrow> num_vertices g = 0 \<or>
     (\<exists>p c sp sc. a_position (gl g) = Some p \<and> a_color (gl g) = Some c \<and>
        buffers (gl g) (a_buffer p) = Some sp \<and> buffers (gl g) (a_buffer c) = Some sc \<and>
        attribute_end (num_vertices g) p \<le> sp \<and> attribute_end (num_vertices g) c \<le> sc)"

section \<open>Sequences of calls\<close>

datatype gl_call = SetPosition vec3 | MovePosition vec3 | SetRotation vec3 | Rotate vec3 | SetW real
  | UpdateView real real "real option" "real option" "real option" | ReallocateVBO int

fun gl_apply :: "gl_call \<Rightarrow> glrunner \<Rightarrow> gl_error + glrunner" where
  "gl_apply (SetPosition p) g = Inr (setPosition p g)"
| "gl_apply (MovePosition d) g = Inr (movePosition d g)"
| "gl_apply (SetRotation r) g = Inr (setRotation r g)"
| "gl_apply (Rotate d) g = Inr (gl_rotate d g)"
| "gl_apply (SetW w) g = Inr (setW w g)"
| "gl_apply (UpdateView cw ch f n r) g = Inr (updateView cw ch f n r g)"
| "gl_apply (ReallocateVBO n) g = reallocateVBO n g"

text \<open>The constructor, on a fresh context and a canvas of the given size.\<close>

definition GLRunner :: "real \<Rightarrow> real \<Rightarrow> glrunner" where
  "GLRunner cw ch =
     (let g0 = \<lparr>gl = \<lparr>buffers = (\<lambda>_. None), next_buffer = 0, array_buffer = None, a_position = None, a_color = None,
                   viewport = (cw, ch), u_projection_matrix = [], u_modelview_matrix = [], u_w = 0\<rparr>,
               view = \<lparr>fov = 0, aspect = 0, nearPlane = 0, farPlane = 0\<rparr>,
               position = (0, 0, 0), rotation3 = (0, 0, 0), vertex_w = 0,
               vbo_size = 0, num_vertices = 0, vbo = None\<rparr>
      in setW 10000 (setRotation (0, 0, 0) (setPosition (- 514 / 100, - 38 / 10, - 75 / 10)
           (updateView cw ch (Some 60) (Some 1) (Some 20) g0))))"

text \<open>The states the runner reaches; a call that throws leaves the state.\<close>

inductive gl_reachable :: "glrunner \<Rightarrow> bool" where
  start: "gl_reachable (GLRunner cw ch)"
| call: "gl_reachable g \<Longrightarrow> gl_apply c g = Inr g' \<Longrightarrow> gl_reachable g'"

inductive_cases gl_reachableE: "gl_reachable g"

section \<open>The vertex buffer invariant\<close>

definition vbo_inv :: "glrunner \<Rightarrow> bool" where
  "vbo_inv g \<longleftrightarrow>
     (case vbo g of
        None \<Rightarrow> num_vertices g = 0 \<and> vbo_size g = 0 \<and> buffers (gl g) = (\<lambda>_. None)
      | Some v \<Rightarrow> buffers (gl g) = [v \<mapsto> vbo_size g] \<and> v < next_buffer (gl g) \<and> array_buffer (gl g) = Some v \<and>
          num_vertices g * sizeTotal \<le> vbo_size g \<and> 3 * vbo_size g \<le> 4 * (num_vertices g * sizeTotal) \<and>
          a_position (gl g) = Some \<lparr>a_buffer = v, a_components = numVertexComponents, a_stride = sizeTotal, a_offset = 0\<rparr> \<and>
          a_color (gl g) = Some \<lparr>a_buffer = v, a_components = numColorsComponents, a_stride = sizeTotal,
                                 a_offset = sizeVertexCompontent\<rparr>)"

lemmas view_defs = setPosition_def movePosition_def setRotation_def gl_rotate_def setW_def updateView_def
  updateModelView_def Let_def

lemma view_frame:
  assumes "gl_apply c g = Inr g'" and "\<And>n. c \<noteq> ReallocateVBO n"
  shows "vbo g' = vbo g \<and> vbo_size g' = vbo_size g \<and> num_vertices g' = num_vertices g \<and>
    buffers (gl g') = buffers (gl g) \<and> next_buffer (gl g') = next_buffer (gl g) \<and>
    array_buffer (gl g') = array_buffer (gl g) \<and> a_position (gl g') = a_position (gl g) \<and> a_color (gl g') = a_color (gl g)"
  using assms by (cases c) (auto simp: view_defs split: prod.splits)

lemma GLRunner_inv: "vbo_inv (GLRunner cw ch)"
  by (simp add: GLRunner_def vbo_inv_def view_defs)

lemma vbo_bytes_vertices: "vbo_bytes (n * sizeTotal) = n * 40"
proof -
  have "real (n * sizeTotal) * (125 / 100) = of_int (int (n * 40))" by (simp add: sizeTotal_def)
  then show ?thesis unfolding vbo_bytes_def by (simp only: ceiling_of_int nat_int)
qed

lemma vbo_in_range: "\<not> vbo_out_of_range b req \<longleftrightarrow> req \<le> b \<and> 3 * b \<le> 4 * req"
  unfolding vbo_out_of_range_def by linarith

lemma reallocateVBO_inv:
  assumes "vbo_inv g" and "reallocateVBO n g = Inr g'"
  shows "vbo_inv g'"
proof -
  from assms(2) have n: "0 < n" by (auto simp: reallocateVBO_def split: if_splits)
  let ?n = "nat n"
  show ?thesis
  proof (cases "vbo_out_of_range (vbo_size g) (?n * sizeTotal)")
    case True
    with assms(2) n have g': "g' = linkVBO (create_vbo (?n * 40) (delete_vbo (g\<lparr>num_vertices := ?n\<rparr>)))"
      by (simp add: reallocateVBO_def Let_def vbo_bytes_vertices)
    show ?thesis
      using assms(1) unfolding g' vbo_inv_def
      by (cases "vbo g") (auto simp: linkVBO_def create_vbo_def delete_vbo_def sizeTotal_def Let_def)
  next
    case False
    with assms(2) n have g': "g' = g\<lparr>num_vertices := ?n, gl := (gl g)\<lparr>array_buffer := vbo g\<rparr>\<rparr>"
      by (simp add: reallocateVBO_def Let_def)
    from n have "0 < ?n" by simp
    with False assms(1) have "vbo g \<noteq> None" by (cases "vbo g") (auto simp: vbo_inv_def sizeTotal_def vbo_in_range)
    then obtain v where v: "vbo g = Some v" by blast
    with assms(1) False show ?thesis unfolding g' vbo_inv_def vbo_in_range by simp
  qed
qed

lemma gl_apply_inv: "vbo_inv g \<Longrightarrow> gl_apply c g = Inr g' \<Longrightarrow> vbo_inv g'"
proof (cases "\<exists>n. c = ReallocateVBO n")
  case True
  then show "vbo_inv g \<Longrightarrow> gl_apply c g = Inr g' \<Longrightarrow> vbo_inv g'" by (auto intro: reallocateVBO_inv)
next
  case False
  then show "vbo_inv g \<Longrightarrow> gl_apply c g = Inr g' \<Longrightarrow> vbo_inv g'"
    using view_frame [of c g g'] by (cases "vbo g") (simp_all add: vbo_inv_def)
qed

lemma gl_reachable_inv: "gl_reachable g \<Longrightarrow> vbo_inv g"
  by (induction rule: gl_reachable.induct) (auto intro: GLRunner_inv gl_apply_inv)

lemma vbo_inv_draw: "vbo_inv g \<Longrightarrow> draw_in_bounds g"
  by (cases "vbo g")
    (auto simp: vbo_inv_def draw_in_bounds_def attribute_end_def sizeTotal_def numVertexComponents_def
      numColorsComponents_def sizeVertexCompontent_def)

lemma reallocateVBO_num: "reallocateVBO n g = Inr g' \<Longrightarrow> num_vertices g' = nat n"
  by (auto simp: reallocateVBO_def Let_def linkVBO_def create_vbo_def delete_vbo_def split: if_splits option.splits)

text \<open>Asking again for the same size keeps the buffer.\<close>

lemma reallocateVBO_again:
  assumes "vbo_inv g" and "reallocateVBO n g = Inr g'"
  shows "reallocateVBO n g' = Inr g'"
proof -
  have inv: "vbo_inv g'" by (rule reallocateVBO_inv [OF assms])
  have n: "0 < n" "num_vertices g' = nat n"
    using assms(2) by (auto simp: reallocateVBO_def Let_def linkVBO_def create_vbo_def delete_vbo_def
        split: if_splits option.splits)
  then obtain v where v: "vbo g' = Some v" using inv by (cases "vbo g'") (auto simp: vbo_inv_def)
  with inv n have "nat n * sizeTotal \<le> vbo_size g'" "3 * vbo_size g' \<le> 4 * (nat n * sizeTotal)"
    "array_buffer (gl g') = vbo g'" by (simp_all add: vbo_inv_def)
  then show ?thesis
    using n by (simp add: reallocateVBO_def Let_def vbo_in_range [THEN iffD2])
qed

section \<open>The vertex shader\<close>

text \<open>
  A shader reads the uploaded array by columns, so
  that its \<open>m * v\<close> is the row vector \<open>v\<close> times the matrix of \<open>J3DIMath\<close>.
\<close>

type_synonym vec4 = "real \<times> real \<times> real \<times> real"

definition glsl_mult :: "real list \<Rightarrow> vec4 \<Rightarrow> vec4" where
  "glsl_mult u v = (case v of (x, y, z, w) \<Rightarrow>
     (u ! 0 * x + u ! 4 * y + u ! 8 * z + u ! 12 * w, u ! 1 * x + u ! 5 * y + u ! 9 * z + u ! 13 * w,
      u ! 2 * x + u ! 6 * y + u ! 10 * z + u ! 14 * w, u ! 3 * x + u ! 7 * y + u ! 11 * z + u ! 15 * w))"

definition vertex_main :: "glcontext \<Rightarrow> vec4 \<Rightarrow> vec4" where
  "vertex_main c a_pos = (case a_pos of (x, y, z, _) \<Rightarrow>
     glsl_mult (u_projection_matrix c) (glsl_mult (u_modelview_matrix c) (x, y, z, u_w c)))"

text \<open>The clip volume of the rasteriser, and the frustum that the view describes.\<close>

definition in_clip :: "vec4 \<Rightarrow> bool" where
  "in_clip v = (case v of (x, y, z, w) \<Rightarrow> \<bar>x\<bar> \<le> w \<and> \<bar>y\<bar> \<le> w \<and> \<bar>z\<bar> \<le> w)"

definition in_frustum :: "persp \<Rightarrow> vec3 \<Rightarrow> bool" where
  "in_frustum v e = (case e of (x, y, z) \<Rightarrow>
     nearPlane v \<le> - z \<and> - z \<le> farPlane v \<and>
     \<bar>y\<bar> \<le> - z * tan (fov v * pi / 360) \<and> \<bar>x\<bar> \<le> - z * tan (fov v * pi / 360) * aspect v)"

section \<open>The uniforms follow the state\<close>

text \<open>\<open>rotate\<close> leaves the uniform behind the angles, so these angles are some earlier ones.\<close>

definition uniforms_inv :: "glrunner \<Rightarrow> bool" where
  "uniforms_inv g \<longleftrightarrow>
     (\<exists>r. u_modelview_matrix (gl g) = setUniform (model_view (position g) r)) \<and> u_w (gl g) = vertex_w g \<and>
     u_projection_matrix (gl g) =
       setUniform (perspective makeIdentity (fov (view g)) (aspect (view g)) (nearPlane (view g)) (farPlane (view g)))"

lemma GLRunner_uniforms: "uniforms_inv (GLRunner cw ch)"
  by (auto simp: GLRunner_def uniforms_inv_def view_defs)

lemma reallocateVBO_frame:
  assumes "reallocateVBO n g = Inr g'"
  shows "u_modelview_matrix (gl g') = u_modelview_matrix (gl g) \<and> u_w (gl g') = u_w (gl g) \<and>
    u_projection_matrix (gl g') = u_projection_matrix (gl g) \<and> view g' = view g \<and> position g' = position g \<and>
    rotation3 g' = rotation3 g \<and> vertex_w g' = vertex_w g"
  using assms by (auto simp: reallocateVBO_def Let_def linkVBO_def create_vbo_def delete_vbo_def
      split: if_splits option.splits)

lemma gl_apply_uniforms: "uniforms_inv g \<Longrightarrow> gl_apply c g = Inr g' \<Longrightarrow> uniforms_inv g'"
proof (cases c)
  case (ReallocateVBO n)
  moreover assume "uniforms_inv g" "gl_apply c g = Inr g'"
  ultimately show "uniforms_inv g'" using reallocateVBO_frame [of n g g'] by (simp add: uniforms_inv_def)
qed (auto simp: uniforms_inv_def view_defs split: prod.splits simp del: split_paired_Ex)

lemma gl_reachable_uniforms: "gl_reachable g \<Longrightarrow> uniforms_inv g"
  by (induction rule: gl_reachable.induct) (auto intro: GLRunner_uniforms gl_apply_uniforms)

lemma model_view_rigid: "rigid (model_view p r)"
  by (cases p; cases r) (simp add: model_view_def Let_def rigid_rotate rigid_translate rigid_identity)

lemma load_setUniform [simp]: "load_array (setUniform m) = m"
  by (simp add: load_array_def setUniform_def)

lemma reachable_rigid: "gl_reachable g \<Longrightarrow> rigid (load_array (u_modelview_matrix (gl g)))"
  using gl_reachable_uniforms [of g] by (auto simp: uniforms_inv_def model_view_rigid simp del: split_paired_Ex)

lemma multiply_linear_origin:
  "m41 b = 0 \<Longrightarrow> m42 b = 0 \<Longrightarrow> m43 b = 0 \<Longrightarrow> affine b \<Longrightarrow> affine a \<Longrightarrow>
    multVecMatrix (0, 0, 0) (multiply a b) = multVecMatrix (0, 0, 0) a"
  by (simp add: multVecMatrix_def multiply_def affine_def)

lemma rotate_axis_origin: "affine a \<Longrightarrow> multVecMatrix (0, 0, 0) (rotate_axis a t x y z) = multVecMatrix (0, 0, 0) a"
  unfolding rotate_axis_def
  by (cases "normalize_axis x y z")
    (simp add: multiply_linear_origin affine_def rotation_def Let_def split: if_split)

lemma rigid_affine: "rigid a \<Longrightarrow> affine a"
  by (simp add: rigid_def)

lemma translate_origin: "multVecMatrix (0, 0, 0) (translate makeIdentity (Some x) (Some y) (Some z)) = (x, y, z)"
  by (simp add: translate_def) (simp add: arg_def multVecMatrix_def makeIdentity_def)

lemma model_view_origin: "multVecMatrix (0, 0, 0) (model_view p r) = p"
  by (cases p; cases r)
    (simp add: model_view_def Let_def rotate_def rotate_axis_origin rigid_affine rigid_rotate_axis rigid_translate
      rigid_identity translate_origin)

section \<open>Clipping\<close>

lemma perspective_matrix: "perspective makeIdentity f a n r =
    (let t = tan (f * pi / 360) in
     \<lparr>m11 = 2 * n / (2 * a * t * n), m12 = 0, m13 = 0, m14 = 0, m21 = 0, m22 = 2 * n / (2 * t * n), m23 = 0, m24 = 0,
      m31 = 0, m32 = 0, m33 = - (r + n) / (r - n), m34 = - 1, m41 = 0, m42 = 0, m43 = - (2 * r * n) / (r - n), m44 = 0\<rparr>)"
  by (simp add: perspective_def frustum_def Let_def algebra_simps)

lemma clip_depth:
  assumes "0 < n" "n < (r::real)"
  shows "\<bar>(d * (r + n) - 2 * r * n) / (r - n)\<bar> \<le> d \<longleftrightarrow> n \<le> d \<and> d \<le> r"
proof -
  have "\<bar>(d * (r + n) - 2 * r * n) / (r - n)\<bar> \<le> d \<longleftrightarrow> \<bar>d * (r + n) - 2 * r * n\<bar> \<le> d * (r - n)"
    using assms by (simp add: abs_divide pos_divide_le_eq)
  also have "\<dots> \<longleftrightarrow> 0 \<le> 2 * r * (d - n) \<and> 0 \<le> 2 * n * (r - d)"
    unfolding abs_le_iff by (auto simp: algebra_simps)
  also have "\<dots> \<longleftrightarrow> n \<le> d \<and> d \<le> r" using assms by (simp add: zero_le_mult_iff)
  finally show ?thesis .
qed

lemma vertex_main_frustum:
  assumes mv: "affine mv" and u: "u_modelview_matrix c = setUniform mv" "u_w c = w"
    and p: "u_projection_matrix c = setUniform (perspective makeIdentity (fov v) (aspect v) (nearPlane v) (farPlane v))"
    and w: "0 < w" and n: "0 < nearPlane v" "nearPlane v < farPlane v" and a: "0 < aspect v"
    and t: "0 < tan (fov v * pi / 360)"
  shows "in_clip (vertex_main c (x, y, z, k)) \<longleftrightarrow> in_frustum v (multVecMatrix (x / w, y / w, z / w) mv)"
proof -
  obtain ex ey ez where e: "multVecMatrix (x / w, y / w, z / w) mv = (ex, ey, ez)" using prod_cases3 by blast
  let ?t = "tan (fov v * pi / 360)" and ?n = "nearPlane v" and ?f = "farPlane v"
  have eye: "glsl_mult (setUniform mv) (x, y, z, w) = (w * ex, w * ey, w * ez, w)"
    using mv e w by (auto simp: glsl_mult_def setUniform_def affine_def multVecMatrix_def Let_def field_simps)
  have n0: "2 * ?n / (2 * aspect v * ?t * ?n) = 1 / (aspect v * ?t)" "2 * ?n / (2 * ?t * ?n) = 1 / ?t"
    using n(1) by simp_all
  have out: "vertex_main c (x, y, z, k) =
      (w * (ex / (aspect v * ?t)), w * (ey / ?t), w * ((- ez * (?f + ?n) - 2 * ?f * ?n) / (?f - ?n)), w * (- ez))"
    unfolding vertex_main_def prod.case u p eye perspective_matrix n0 Let_def
    by (simp add: glsl_mult_def setUniform_def diff_divide_distrib add_divide_distrib algebra_simps)
  have scale: "\<bar>w * r\<bar> \<le> w * d \<longleftrightarrow> \<bar>r\<bar> \<le> d" for r d
    using w by (simp add: abs_mult)
  have "in_clip (vertex_main c (x, y, z, k)) \<longleftrightarrow>
      \<bar>ex / (aspect v * ?t)\<bar> \<le> - ez \<and> \<bar>ey / ?t\<bar> \<le> - ez \<and> \<bar>(- ez * (?f + ?n) - 2 * ?f * ?n) / (?f - ?n)\<bar> \<le> - ez"
    unfolding out in_clip_def prod.case scale ..
  also have "\<dots> \<longleftrightarrow> \<bar>ex\<bar> \<le> - ez * ?t * aspect v \<and> \<bar>ey\<bar> \<le> - ez * ?t \<and> ?n \<le> - ez \<and> - ez \<le> ?f"
  proof -
    have "\<bar>ex / (aspect v * ?t)\<bar> \<le> - ez \<longleftrightarrow> \<bar>ex\<bar> \<le> - ez * ?t * aspect v"
      using a t pos_divide_le_eq [of "aspect v * ?t" "\<bar>ex\<bar>" "- ez"] by (simp add: abs_divide abs_mult ac_simps)
    moreover have "\<bar>ey / ?t\<bar> \<le> - ez \<longleftrightarrow> \<bar>ey\<bar> \<le> - ez * ?t"
      using t by (simp add: abs_divide pos_divide_le_eq)
    ultimately show ?thesis by (simp only: clip_depth [OF n])
  qed
  finally show ?thesis by (auto simp: e in_frustum_def)
qed

section \<open>Theorems\<close>

lemma start_view: "view (GLRunner cw ch) = \<lparr>fov = 60, aspect = cw / ch, nearPlane = 1, farPlane = 20\<rparr>"
  "vertex_w (GLRunner cw ch) = 10000" "position (GLRunner cw ch) = (- 514 / 100, - 38 / 10, - 75 / 10)"
  by (simp_all add: GLRunner_def view_defs arg_def)

lemma origin_at_position: "gl_reachable g \<Longrightarrow> multVecMatrix (0, 0, 0) (load_array (u_modelview_matrix (gl g))) = position g"
  using gl_reachable_uniforms [of g] by (auto simp: uniforms_inv_def model_view_origin)

text \<open>
  In every state the runner reaches, by any sequence of calls, drawing reads the vertex buffer
  in bounds; a request for \<open>n\<close> vertices leaves a buffer that holds them with at most a quarter of it
  unused, and asking again for the same number keeps the buffer.
\<close>

lemma draws_in_bounds:
  assumes "gl_reachable g"
  shows "draw_in_bounds g \<and>
    (\<forall>n g'. reallocateVBO n g = Inr g' \<longrightarrow>
       num_vertices g' = nat n \<and> draw_in_bounds g' \<and> reallocateVBO n g' = Inr g' \<and>
       (\<exists>v. vbo g' = Some v \<and> buffers (gl g') = [v \<mapsto> vbo_size g'] \<and>
            3 * vbo_size g' \<le> 4 * (nat n * sizeTotal)))"
proof (intro conjI allI impI)
  show "draw_in_bounds g" using assms by (intro vbo_inv_draw gl_reachable_inv)
  fix n g' assume r: "reallocateVBO n g = Inr g'"
  note inv = gl_reachable_inv [OF assms]
  note inv' = reallocateVBO_inv [OF inv r]
  show n: "num_vertices g' = nat n" by (rule reallocateVBO_num [OF r])
  show "draw_in_bounds g'" by (rule vbo_inv_draw [OF inv'])
  show "reallocateVBO n g' = Inr g'" by (rule reallocateVBO_again [OF inv r])
  from r have "0 < n" by (simp add: reallocateVBO_def split: if_splits)
  with n inv' show "\<exists>v. vbo g' = Some v \<and> buffers (gl g') = [v \<mapsto> vbo_size g'] \<and> 3 * vbo_size g' \<le> 4 * (nat n * sizeTotal)"
    by (cases "vbo g'") (simp_all add: vbo_inv_def)
qed

lemma draws_in_bounds_witness:
  "\<exists>g. reallocateVBO 3 (GLRunner 4 3) = Inr g \<and> num_vertices g = 3 \<and> vbo_size g = 120 \<and> draw_in_bounds g"
proof -
  obtain g where g: "reallocateVBO 3 (GLRunner 4 3) = Inr g"
    by (cases "reallocateVBO 3 (GLRunner 4 3)") (auto simp: reallocateVBO_def Let_def split: if_splits)
  then have "gl_reachable g" by (intro gl_reachable.call [OF gl_reachable.start, of "ReallocateVBO 3" 4 3]) simp
  then have "draw_in_bounds g" using draws_in_bounds by blast
  moreover have "num_vertices g = 3 \<and> vbo_size g = 120"
    using g by (auto simp: reallocateVBO_def Let_def vbo_out_of_range_def sizeTotal_def GLRunner_def view_defs linkVBO_def
        create_vbo_def delete_vbo_def vbo_bytes_vertices [of 3, unfolded sizeTotal_def, simplified])
  ultimately show ?thesis using g by blast
qed

text \<open>
  C20.  The model-view matrix on the device is a rigid motion in every reachable state: it keeps the
  distance of any two points, and it moves the origin of the scene to the runner's position.
\<close>

theorem modelview_rigid:
  assumes "gl_reachable g"
  shows "vectorLength (vec_minus (multVecMatrix p (load_array (u_modelview_matrix (gl g))))
      (multVecMatrix q (load_array (u_modelview_matrix (gl g))))) = vectorLength (vec_minus p q) \<and>
    multVecMatrix (0, 0, 0) (load_array (u_modelview_matrix (gl g))) = position g"
  using rigid_distance [OF reachable_rigid] origin_at_position assms by blast

theorem modelview_rigid_witness:
  "vectorLength (vec_minus (multVecMatrix (3, 4, 0) (load_array (u_modelview_matrix (gl (setRotation (30, 20, 10) (GLRunner 4 3))))))
      (multVecMatrix (0, 0, 0) (load_array (u_modelview_matrix (gl (setRotation (30, 20, 10) (GLRunner 4 3))))))) = 5"
proof -
  have "gl_reachable (setRotation (30, 20, 10) (GLRunner 4 3))"
    by (rule gl_reachable.call [OF gl_reachable.start, of "SetRotation (30, 20, 10)" 4 3]) simp
  note rigid = conjunct1 [OF modelview_rigid [OF this, of "(3, 4, 0)" "(0, 0, 0)"]]
  show ?thesis unfolding rigid using real_sqrt_unique [of 5 25] by (simp add: vec_minus_def vectorLength_def)
qed

text \<open>
  C18.  What the vertex shader puts into the clip volume is exactly what the view describes: with a
  sensible view, a vertex is kept if and only if its point, taken to the eye by the model-view
  matrix, lies between the near and far planes and within the field of view in both directions.
\<close>

theorem clip_is_frustum:
  assumes "gl_reachable g" and "0 < vertex_w g" and "0 < nearPlane (view g)" and "nearPlane (view g) < farPlane (view g)"
    and "0 < aspect (view g)" and "0 < fov (view g)" and "fov (view g) < 180"
  shows "in_clip (vertex_main (gl g) (x, y, z, k)) \<longleftrightarrow>
    in_frustum (view g)
      (multVecMatrix (x / vertex_w g, y / vertex_w g, z / vertex_w g) (load_array (u_modelview_matrix (gl g))))"
proof -
  from gl_reachable_uniforms [OF assms(1)] obtain r where u: "u_modelview_matrix (gl g) = setUniform (model_view (position g) r)"
    "u_w (gl g) = vertex_w g" and p: "u_projection_matrix (gl g) =
       setUniform (perspective makeIdentity (fov (view g)) (aspect (view g)) (nearPlane (view g)) (farPlane (view g)))"
    unfolding uniforms_inv_def by blast
  have "0 < tan (fov (view g) * pi / 360)"
    using assms by (intro tan_gt_zero) (simp_all add: field_simps)
  from vertex_main_frustum [OF rigid_affine [OF model_view_rigid] u p assms(2-5) this] show ?thesis
    unfolding u load_setUniform .
qed

theorem clip_is_frustum_witness: "in_clip (vertex_main (gl (GLRunner 4 3)) (0, 0, 0, 1))"
proof -
  have r: "gl_reachable (GLRunner 4 3)" by (rule gl_reachable.start)
  have e: "multVecMatrix (0 / 10000, 0 / 10000, 0 / 10000) (load_array (u_modelview_matrix (gl (GLRunner 4 3)))) =
      (- 514 / 100, - 38 / 10, - 75 / 10)"
    unfolding div_0 origin_at_position [OF r] start_view ..
  have "sqrt 3 \<le> 18 / 10" by (rule real_le_lsqrt) (simp_all add: power2_eq_square)
  then have t: "55 / 100 \<le> 1 / sqrt 3" by (simp add: field_simps)
  have "in_frustum (view (GLRunner 4 3)) (- 514 / 100, - 38 / 10, - 75 / 10)"
    using t by (simp add: in_frustum_def start_view tan_30)
  with clip_is_frustum [OF r, of 0 0 0 1] show ?thesis unfolding start_view(2) e by (simp add: start_view(1))
qed

end
