(* ===== verification/Canvas2D.thy ===== *)
theory Canvas2D
  imports Complex_Main Prelude "HOL-Library.Word"
begin

text \<open>
  The mode of \<open>GLRunner.js\<close> without WebCL and WebGL: the functions it installs on the window draw
  rectangles on a 2D canvas, in colours packed into one number.  Numbers are exact reals, packed
  colours are integers, and the bitwise operators work on the 32-bit words of \<open>ToInt32\<close>.  Of the
  canvas the model keeps its transformation, its styles and the rectangles painted so far.
\<close>

unbundle bit_operations_syntax

section \<open>Packed colours\<close>

text \<open>\<open>ToInt32\<close> of the language: truncate, then wrap around.\<close>

definition toInt32 :: "real \<Rightarrow> 32 word" where
  "toInt32 x = word_of_int (if 0 \<le> x then \<lfloor>x\<rfloor> else \<lceil>x\<rceil>)"

definition rgba :: "real \<Rightarrow> real \<Rightarrow> real \<Rightarrow> real \<Rightarrow> int" where
  "rgba r g b a = sint (push_bit 24 (toInt32 a AND 255)) + sint (push_bit 16 (toInt32 r AND 255)) +
     sint (push_bit 8 (toInt32 g AND 255)) + sint (toInt32 b AND 255)"

definition rgb :: "real \<Rightarrow> real \<Rightarrow> real \<Rightarrow> int" where
  "rgb r g b = sint (push_bit 24 (255 :: 32 word)) + sint (push_bit 16 (toInt32 r AND 255)) +
     sint (push_bit 8 (toInt32 g AND 255)) + sint (toInt32 b AND 255)"

text \<open>\<open>(color >> n) & 255\<close>, for \<open>n\<close> 24, 16, 8 and 0.\<close>

definition color_byte :: "nat \<Rightarrow> int \<Rightarrow> int" where
  "color_byte n color = sint (signed_drop_bit n (word_of_int color :: 32 word) AND 255)"

definition lerp_byte :: "real \<Rightarrow> int \<Rightarrow> int \<Rightarrow> 32 word" where
  "lerp_byte fk s e = toInt32 ((1 - fk) * of_int s + fk * of_int e) AND 255"

definition lerpColor :: "int \<Rightarrow> int \<Rightarrow> real \<Rightarrow> int" where
  "lerpColor start_color end_color fk =
     (if 1 \<le> fk then end_color
      else let red_blended = lerp_byte fk (color_byte 16 start_color) (color_byte 16 end_color);
               green_blended = lerp_byte fk (color_byte 8 start_color) (color_byte 8 end_color);
               blue_blended = lerp_byte fk (color_byte 0 start_color) (color_byte 0 end_color)
           in sint (push_bit 16 red_blended) + sint (push_bit 8 green_blended) + sint blue_blended)"

section \<open>The canvas\<close>

text \<open>The argument of \<open>rgba(r,g,b,a)\<close> in a style; the canvas clamps the alpha value to \<open>[0, 1]\<close>.\<close>

datatype css_style = CssRgba int int int int

datatype painted = Filled real real real real css_style | Stroked real real real real css_style real

record canvas2d =
  c_height :: real
  scale_x :: real
  scale_y :: real
  trans_x :: real
  trans_y :: real
  fillStyle :: css_style
  strokeStyle :: css_style
  lineWidth :: real
  display :: "painted list"

definition canvas_translate :: "real \<Rightarrow> real \<Rightarrow> canvas2d \<Rightarrow> canvas2d" where
  "canvas_translate x y c = c\<lparr>trans_x := trans_x c + scale_x c * x, trans_y := trans_y c + scale_y c * y\<rparr>"

definition canvas_scale :: "real \<Rightarrow> real \<Rightarrow> canvas2d \<Rightarrow> canvas2d" where
  "canvas_scale x y c = c\<lparr>scale_x := scale_x c * x, scale_y := scale_y c * y\<rparr>"

text \<open>Assigning a canvas its own width clears it and resets its context.\<close>

definition canvas_clear :: "canvas2d \<Rightarrow> canvas2d" where
  "canvas_clear c = c\<lparr>scale_x := 1, scale_y := 1, trans_x := 0, trans_y := 0, fillStyle := CssRgba 0 0 0 1,
     strokeStyle := CssRgba 0 0 0 1, lineWidth := 1, display := []\<rparr>"

definition resetCanvas :: "canvas2d \<Rightarrow> canvas2d" where
  "resetCanvas c = canvas_scale (27 / 10000) (16 / 10000) (canvas_translate 5 (c_height c * (9 / 10)) (canvas_clear c))"

definition style_of :: "int \<Rightarrow> css_style" where
  "style_of color = CssRgba (color_byte 16 color) (color_byte 8 color) (color_byte 0 color) (color_byte 24 color)"

definition Rectangle_draw :: "real \<Rightarrow> real \<Rightarrow> real \<Rightarrow> real \<Rightarrow> int \<Rightarrow> canvas2d \<Rightarrow> canvas2d" where
  "Rectangle_draw x y w h color c =
     (let c = c\<lparr>fillStyle := style_of color\<rparr> in c\<lparr>display := display c @ [Filled x (- y) w (- h) (fillStyle c)]\<rparr>)"

definition RectangleZ_draw :: "real \<Rightarrow> real \<Rightarrow> real \<Rightarrow> real \<Rightarrow> real \<Rightarrow> int \<Rightarrow> canvas2d \<Rightarrow> canvas2d" where
  "RectangleZ_draw x y w h z color c = Rectangle_draw x y w h color c"

definition RectangleOutline_draw :: "real \<Rightarrow> real \<Rightarrow> real \<Rightarrow> real \<Rightarrow> int \<Rightarrow> canvas2d \<Rightarrow> canvas2d" where
  "RectangleOutline_draw x y w h color c =
     (let c = c\<lparr>lineWidth := 3, strokeStyle := style_of color\<rparr>
      in c\<lparr>display := display c @ [Stroked x (- y) w (- h) (strokeStyle c) (lineWidth c)]\<rparr>)"

definition movePosition2d :: "real \<times> real \<times> real \<Rightarrow> real \<times> real \<times> real \<Rightarrow> real \<times> real \<times> real" where
  "movePosition2d d pos = (case pos of (px, py, pz) \<Rightarrow> case d of (x, y, z) \<Rightarrow> (px + x, py + y, pz + z))"

text \<open>Where a point of the drawing lands on the canvas, and how opaque a style paints.\<close>

definition device :: "canvas2d \<Rightarrow> real \<times> real \<Rightarrow> real \<times> real" where
  "device c p = (trans_x c + scale_x c * fst p, trans_y c + scale_y c * snd p)"

fun opacity :: "css_style \<Rightarrow> real" where
  "opacity (CssRgba r g b a) = max 0 (min 1 (of_int a))"

lemma device_reset: "device (resetCanvas c) (x, - y) = (5 + 27 / 10000 * x, c_height c * (9 / 10) - 16 / 10000 * y)"
  by (simp add: device_def resetCanvas_def canvas_scale_def canvas_translate_def canvas_clear_def)

section \<open>Bytes of packed colours\<close>

lemma mask8: "(255 :: 32 word) = mask 8"
  by (simp add: mask_eq_exp_minus_1)

lemma byte_bit: "bit (x AND 255 :: 32 word) i \<longleftrightarrow> i < 8 \<and> bit x i"
  by (auto simp: mask8 bit_simps)

definition pack :: "32 word \<Rightarrow> 32 word \<Rightarrow> 32 word \<Rightarrow> 32 word \<Rightarrow> 32 word" where
  "pack a r g b = push_bit 24 a OR push_bit 16 r OR push_bit 8 g OR b"

lemma pack_sum:
  fixes a r g b :: "32 word"
  assumes "a AND 255 = a" "r AND 255 = r" "g AND 255 = g" "b AND 255 = b"
  shows "word_of_int (sint (push_bit 24 a) + sint (push_bit 16 r) + sint (push_bit 8 g) + sint b) = pack a r g b"
proof -
  have bits: "bit a i \<Longrightarrow> i < 8" "bit r i \<Longrightarrow> i < 8" "bit g i \<Longrightarrow> i < 8" "bit b i \<Longrightarrow> i < 8" for i
    using assms byte_bit by metis+
  have 1: "push_bit 24 a + push_bit 16 r = push_bit 24 a OR push_bit 16 r"
    by (rule disjunctive_add_eq_or) (rule bit_word_eqI, auto simp: bit_simps dest!: bits)
  have 2: "(push_bit 24 a OR push_bit 16 r) + push_bit 8 g = (push_bit 24 a OR push_bit 16 r) OR push_bit 8 g"
    by (rule disjunctive_add_eq_or) (rule bit_word_eqI, auto simp: bit_simps dest!: bits)
  have 3: "((push_bit 24 a OR push_bit 16 r) OR push_bit 8 g) + b = ((push_bit 24 a OR push_bit 16 r) OR push_bit 8 g) OR b"
    by (rule disjunctive_add_eq_or) (rule bit_word_eqI, auto simp: bit_simps dest!: bits)
  show ?thesis
    unfolding of_int_add of_int_sint scast_id 1 2 3 by (simp only: pack_def or.assoc)
qed

lemma byte_idem: "(x AND 255) AND 255 = (x AND 255 :: 32 word)"
  by (simp add: and.assoc)

lemma pack_byte:
  fixes a r g b :: "32 word"
  assumes "a AND 255 = a" "r AND 255 = r" "g AND 255 = g" "b AND 255 = b"
  shows "signed_drop_bit 24 (pack a r g b) AND 255 = a" "signed_drop_bit 16 (pack a r g b) AND 255 = r"
    "signed_drop_bit 8 (pack a r g b) AND 255 = g" "signed_drop_bit 0 (pack a r g b) AND 255 = b"
proof -
  have bits: "8 \<le> i \<Longrightarrow> \<not> bit a i" "8 \<le> i \<Longrightarrow> \<not> bit r i" "8 \<le> i \<Longrightarrow> \<not> bit g i" "8 \<le> i \<Longrightarrow> \<not> bit b i" for i
    using assms byte_bit by (metis not_less)+
  have "bit (signed_drop_bit 24 (pack a r g b) AND 255) i = bit a i" "bit (signed_drop_bit 16 (pack a r g b) AND 255) i = bit r i"
    "bit (signed_drop_bit 8 (pack a r g b) AND 255) i = bit g i" "bit (signed_drop_bit 0 (pack a r g b) AND 255) i = bit b i" for i
    by (cases "i < 8"; simp add: pack_def mask8 bit_simps bits)+
  then show "signed_drop_bit 24 (pack a r g b) AND 255 = a" "signed_drop_bit 16 (pack a r g b) AND 255 = r"
    "signed_drop_bit 8 (pack a r g b) AND 255 = g" "signed_drop_bit 0 (pack a r g b) AND 255 = b"
    by (auto intro: bit_word_eqI)
qed

lemma color_bytes:
  fixes a r g b :: "32 word"
  assumes "a AND 255 = a" "r AND 255 = r" "g AND 255 = g" "b AND 255 = b"
    and "c = sint (push_bit 24 a) + sint (push_bit 16 r) + sint (push_bit 8 g) + sint b"
  shows "color_byte 24 c = sint a \<and> color_byte 16 c = sint r \<and> color_byte 8 c = sint g \<and> color_byte 0 c = sint b"
  using pack_sum [OF assms(1-4)] pack_byte [OF assms(1-4)] assms(5) by (simp add: color_byte_def)

lemma sint_cases: "sint (x :: 32 word) = (if uint x < 2 ^ 31 then uint x else uint x - 2 ^ 32)"
proof -
  have lt: "uint x < 4294967296" using uint_lt2p [of x] by simp
  have "bit (uint x) 31 \<longleftrightarrow> odd (uint x div 2 ^ 31)" by (rule bit_iff_odd)
  also have "\<dots> \<longleftrightarrow> 2 ^ 31 \<le> uint x"
  proof (cases "2 ^ 31 \<le> uint x")
    case True
    then have "uint x div 2 ^ 31 = 1" using lt by (intro int_div_pos_eq [of _ _ _ "uint x - 2 ^ 31"]) simp_all
    then show ?thesis using True by simp
  next
    case False
    then have "uint x div 2 ^ 31 = 0" by (simp add: div_pos_pos_trivial)
    then show ?thesis using False by simp
  qed
  finally have "bit (uint x) 31 \<longleftrightarrow> 2 ^ 31 \<le> uint x" .
  moreover have "take_bit 32 (uint x) = uint x" using lt by (simp add: take_bit_int_eq_self)
  ultimately show ?thesis by (simp add: sint_uint signed_take_bit_eq_take_bit_minus)
qed

lemma byte_uint: "uint (x AND 255 :: 32 word) = uint x mod 256"
proof -
  have "x AND 255 = take_bit 8 x" by (simp add: mask8 take_bit_eq_mask)
  then show ?thesis by (simp add: uint_mod take_bit_eq_mod)
qed

lemma byte_range: "0 \<le> sint (x AND 255 :: 32 word) \<and> sint (x AND 255 :: 32 word) < 256"
proof -
  have "0 \<le> uint x mod 256" "uint x mod 256 < 256" by simp_all
  then show ?thesis unfolding sint_cases byte_uint by simp
qed

lemma byte_uint_of: "0 \<le> x \<Longrightarrow> x < 256 \<Longrightarrow> uint (toInt32 x AND 255) = \<lfloor>x\<rfloor>"
  by (simp add: byte_uint toInt32_def uint_word_of_int le_floor_iff floor_less_iff)

lemma byte_of: "0 \<le> x \<Longrightarrow> x < 256 \<Longrightarrow> sint (toInt32 x AND 255) = \<lfloor>x\<rfloor>"
  by (simp add: sint_cases byte_uint_of floor_less_iff)

lemma sint_push:
  assumes "uint (x :: 32 word) = k" and "k < 256"
  shows "sint (push_bit 8 x) = k * 256" "sint (push_bit 16 x) = k * 65536"
    "sint (push_bit 24 x) = (if k < 128 then k * 16777216 else k * 16777216 - 4294967296)"
proof -
  have k: "0 \<le> k" using assms(1) by auto
  have "uint (push_bit n x) = (k * 2 ^ n) mod 2 ^ 32" for n
    unfolding unsigned_push_bit_eq by (simp add: assms(1) push_bit_eq_mult take_bit_eq_mod)
  then have "uint (push_bit 8 x) = k * 256" "uint (push_bit 16 x) = k * 65536" "uint (push_bit 24 x) = k * 16777216"
    using k assms(2) by simp_all
  then show "sint (push_bit 8 x) = k * 256" "sint (push_bit 16 x) = k * 65536"
    "sint (push_bit 24 x) = (if k < 128 then k * 16777216 else k * 16777216 - 4294967296)"
    using k assms(2) by (simp_all add: sint_cases)
qed

section \<open>Theorems\<close>

lemma lerp_mix:
  fixes fk :: real
  assumes "0 \<le> fk" "fk \<le> 1" "0 \<le> s" "s < 256" "0 \<le> e" "e < 256"
  shows "0 \<le> (1 - fk) * of_int s + fk * of_int e" "(1 - fk) * of_int s + fk * of_int e < 256"
    "of_int (min s e) \<le> (1 - fk) * of_int s + fk * of_int e" "(1 - fk) * of_int s + fk * of_int e \<le> of_int (max s e)"
proof -
  let ?l = "real_of_int (min s e)" and ?h = "real_of_int (max s e)"
  have "(1 - fk) * ?l + fk * ?l \<le> (1 - fk) * of_int s + fk * of_int e"
    "(1 - fk) * of_int s + fk * of_int e \<le> (1 - fk) * ?h + fk * ?h"
    using assms by (auto intro!: add_mono mult_left_mono)
  then show l: "?l \<le> (1 - fk) * of_int s + fk * of_int e" and h: "(1 - fk) * of_int s + fk * of_int e \<le> ?h"
    by (simp_all add: algebra_simps)
  have "0 \<le> ?l" "?h < 256" using assms by auto
  with l h show "0 \<le> (1 - fk) * of_int s + fk * of_int e" "(1 - fk) * of_int s + fk * of_int e < 256" by linarith+
qed

lemma lerp_byte_value:
  assumes "0 \<le> fk" "fk \<le> 1" "0 \<le> s" "s < 256" "0 \<le> e" "e < 256"
  shows "sint (lerp_byte fk s e) = \<lfloor>(1 - fk) * of_int s + fk * of_int e\<rfloor> \<and> min s e \<le> sint (lerp_byte fk s e) \<and>
    sint (lerp_byte fk s e) \<le> max s e"
proof -
  note m = lerp_mix [OF assms]
  have "sint (lerp_byte fk s e) = \<lfloor>(1 - fk) * of_int s + fk * of_int e\<rfloor>"
    unfolding lerp_byte_def by (rule byte_of [OF m(1,2)])
  then show ?thesis using m(3,4) by (simp add: le_floor_iff floor_le_iff)
qed

lemma color_byte_range: "0 \<le> color_byte n c \<and> color_byte n c < 256"
  unfolding color_byte_def by (rule byte_range)

lemma rgba_bytes: "color_byte 24 (rgba r g b a) = sint (toInt32 a AND 255) \<and> color_byte 16 (rgba r g b a) = sint (toInt32 r AND 255) \<and>
    color_byte 8 (rgba r g b a) = sint (toInt32 g AND 255) \<and> color_byte 0 (rgba r g b a) = sint (toInt32 b AND 255)"
  by (rule color_bytes) (simp_all add: byte_idem rgba_def)

lemma lerp_bytes:
  assumes "fk < 1"
  shows "color_byte 24 (lerpColor s e fk) = 0 \<and>
    color_byte 16 (lerpColor s e fk) = sint (lerp_byte fk (color_byte 16 s) (color_byte 16 e)) \<and>
    color_byte 8 (lerpColor s e fk) = sint (lerp_byte fk (color_byte 8 s) (color_byte 8 e)) \<and>
    color_byte 0 (lerpColor s e fk) = sint (lerp_byte fk (color_byte 0 s) (color_byte 0 e))"
proof -
  have "sint (0 :: 32 word) = 0" by simp
  from assms show ?thesis
    using color_bytes [of 0 "lerp_byte fk (color_byte 16 s) (color_byte 16 e)"
        "lerp_byte fk (color_byte 8 s) (color_byte 8 e)" "lerp_byte fk (color_byte 0 s) (color_byte 0 e)" "lerpColor s e fk"]
    by (simp add: lerpColor_def lerp_byte_def byte_idem Let_def)
qed

lemma packed_sign:
  fixes r g b a :: int
  assumes "0 \<le> r" "r < 256" "0 \<le> g" "g < 256" "0 \<le> b" "b < 256" "0 \<le> a" "a < 256"
  shows "(if a < 128 then a * 16777216 else a * 16777216 - 4294967296) + r * 65536 + g * 256 + b < 0 \<longleftrightarrow> 128 \<le> a"
proof (cases "a < 128")
  case True
  then have "0 \<le> a * 16777216 + r * 65536 + g * 256 + b" using assms by linarith
  with True show ?thesis by simp
next
  case False
  then have "a * 16777216 - 4294967296 + r * 65536 + g * 256 + b < 0" using assms by linarith
  with False show ?thesis by simp
qed

text \<open>
  C39.  Packed colours lose nothing: the style that a rectangle is painted with has the channels given
  to \<open>rgba\<close>, rounded down, and \<open>rgb\<close> is \<open>rgba\<close> with alpha 255, although the packed number is
  negative when the alpha value exceeds 127.
\<close>

theorem color_roundtrip:
  assumes "0 \<le> r" "r < 256" "0 \<le> g" "g < 256" "0 \<le> b" "b < 256" "0 \<le> a" "a < 256"
  shows "style_of (rgba r g b a) = CssRgba \<lfloor>r\<rfloor> \<lfloor>g\<rfloor> \<lfloor>b\<rfloor> \<lfloor>a\<rfloor> \<and> rgb r g b = rgba r g b 255 \<and>
    (rgba r g b a < 0 \<longleftrightarrow> 128 \<le> a)"
proof -
  have f: "0 \<le> \<lfloor>r\<rfloor>" "\<lfloor>r\<rfloor> < 256" "0 \<le> \<lfloor>g\<rfloor>" "\<lfloor>g\<rfloor> < 256" "0 \<le> \<lfloor>b\<rfloor>" "\<lfloor>b\<rfloor> < 256" "0 \<le> \<lfloor>a\<rfloor>" "\<lfloor>a\<rfloor> < 256"
    using assms by linarith+
  have "style_of (rgba r g b a) = CssRgba \<lfloor>r\<rfloor> \<lfloor>g\<rfloor> \<lfloor>b\<rfloor> \<lfloor>a\<rfloor>"
    unfolding style_of_def using rgba_bytes [of r g b a] assms by (simp add: byte_of)
  moreover have "toInt32 255 AND 255 = 255" by (simp add: toInt32_def)
  then have "rgb r g b = rgba r g b 255" by (simp add: rgb_def rgba_def)
  moreover have "rgba r g b a < 0 \<longleftrightarrow> 128 \<le> \<lfloor>a\<rfloor>"
    unfolding rgba_def sint_push(1) [OF byte_uint_of [OF assms(3,4)] f(4)] sint_push(2) [OF byte_uint_of [OF assms(1,2)] f(2)]
      sint_push(3) [OF byte_uint_of [OF assms(7,8)] f(8)] byte_of [OF assms(5,6)]
    by (rule packed_sign) (rule f)+
  moreover have "128 \<le> \<lfloor>a\<rfloor> \<longleftrightarrow> 128 \<le> a" by (simp add: le_floor_iff)
  ultimately show ?thesis by simp
qed

theorem color_roundtrip_witness: "style_of (rgba 18 52 86 200) = CssRgba 18 52 86 200 \<and> rgba 18 52 86 200 < 0"
  using color_roundtrip [of 18 52 86 200] by simp

text \<open>
  Blending stays between its two colours in every channel, up to rounding down, but drops the
  alpha value: before its end a blend paints nothing.
\<close>

lemma lerp_between:
  assumes "0 \<le> fk" and "fk < 1" and "n \<in> {0, 8, 16}"
  shows "color_byte n (lerpColor s e fk) = \<lfloor>(1 - fk) * of_int (color_byte n s) + fk * of_int (color_byte n e)\<rfloor> \<and>
    min (color_byte n s) (color_byte n e) \<le> color_byte n (lerpColor s e fk) \<and>
    color_byte n (lerpColor s e fk) \<le> max (color_byte n s) (color_byte n e) \<and>
    opacity (style_of (lerpColor s e fk)) = 0"
proof -
  have "color_byte n (lerpColor s e fk) = sint (lerp_byte fk (color_byte n s) (color_byte n e))"
    using assms(3) lerp_bytes [OF assms(2), of s e] by auto
  moreover have "opacity (style_of (lerpColor s e fk)) = 0"
    using lerp_bytes [OF assms(2), of s e] by (simp add: style_of_def)
  ultimately show ?thesis
    using lerp_byte_value [of fk "color_byte n s" "color_byte n e"] assms color_byte_range by simp
qed

lemma lerp_between_witness: "color_byte 16 (lerpColor (rgb 10 0 0) (rgb 20 0 0) (1 / 2)) = 15"
proof -
  have "color_byte 16 (rgb 10 0 0) = 10" "color_byte 16 (rgb 20 0 0) = 20" by (simp_all add: rgb_def color_byte_def toInt32_def)
  then show ?thesis using lerp_between [of "1 / 2" 16 "rgb 10 0 0" "rgb 20 0 0"] by simp
qed

end
