(* ===== verification/Traverse.thy ===== *)
theory Traverse
  imports FlatTree Bindings "HOL-Library.Multiset"
begin

text \<open>
  The synchronous passes of \<open>CLRunner.js\<close> over the levels of a flattened tree: \<open>topDownTraversal\<close>
  and \<open>bottomUpTraversal\<close>, on the CPU node by node and on the GPU by one launch per level, whose
  work items run in an order of their own.  A visit of the layout engine is an argument of the
  model: what it does to the state at a node.  The theorems say when the order does not matter.
\<close>

section \<open>Passes\<close>

record run_cfg =
  ignoreCL :: bool
  webworkerLayout :: bool

datatype pass_error = NeedsAsync

definition level_range :: "level \<Rightarrow> nat list" where
  "level_range lvl = [start_idx lvl ..< start_idx lvl + llength lvl]"

text \<open>\<open>seqLvl\<close> of \<open>traverseAsync\<close> and the inner loops of both passes.\<close>

definition seqLvl :: "(nat \<Rightarrow> 's \<Rightarrow> 's) \<Rightarrow> level \<Rightarrow> 's \<Rightarrow> 's" where
  "seqLvl visit lvl s = fold visit (level_range lvl) s"

text \<open>\<open>enqueueNDRangeKernel\<close> on a level, whose work items run in the given order, and \<open>finish\<close>.\<close>

definition ndrange :: "(level \<Rightarrow> nat list) \<Rightarrow> (nat \<Rightarrow> 's \<Rightarrow> 's) \<Rightarrow> level \<Rightarrow> 's \<Rightarrow> 's" where
  "ndrange order visit lvl s = fold visit (order lvl) s"

definition topDownTraversal ::
    "run_cfg \<Rightarrow> (level \<Rightarrow> nat list) \<Rightarrow> (nat \<Rightarrow> 's \<Rightarrow> 's) \<Rightarrow> level list \<Rightarrow> 's \<Rightarrow> pass_error + 's" where
  "topDownTraversal cfg order visit lvls s =
     (if ignoreCL cfg \<and> webworkerLayout cfg then Inl NeedsAsync
      else if ignoreCL cfg then Inr (fold (seqLvl visit) lvls s)
      else Inr (fold (ndrange order visit) lvls s))"

definition bottomUpTraversal ::
    "run_cfg \<Rightarrow> (level \<Rightarrow> nat list) \<Rightarrow> (nat \<Rightarrow> 's \<Rightarrow> 's) \<Rightarrow> level list \<Rightarrow> 's \<Rightarrow> 's" where
  "bottomUpTraversal cfg order visit lvls s =
     (if ignoreCL cfg then fold (seqLvl visit) (rev lvls) s
      else fold (ndrange order visit) (rev lvls) s)"

section \<open>Visits that stay near their node\<close>

text \<open>
  The attributes of the nodes, by position.  A visit at \<open>i\<close> may write the attributes of \<open>i\<close> and of its
  children, and may read those and the ones of its parent.
\<close>

definition children_of :: "'v flat \<Rightarrow> nat \<Rightarrow> nat \<Rightarrow> nat set" where
  "children_of st n i = {c. 0 < c \<and> c < n \<and> parent st ! c = int i}"

definition near :: "'v flat \<Rightarrow> nat \<Rightarrow> nat \<Rightarrow> nat set" where
  "near st n i = insert i (children_of st n i)"

definition reads_of :: "'v flat \<Rightarrow> nat \<Rightarrow> nat \<Rightarrow> nat set" where
  "reads_of st n i = near st n i \<union> {p. 0 < i \<and> parent st ! i = int p}"

definition local_visit :: "'v flat \<Rightarrow> nat \<Rightarrow> (nat \<Rightarrow> (nat \<Rightarrow> 'a) \<Rightarrow> (nat \<Rightarrow> 'a)) \<Rightarrow> bool" where
  "local_visit st n visit \<longleftrightarrow>
     (\<forall>i \<sigma> j. j \<notin> near st n i \<longrightarrow> visit i \<sigma> j = \<sigma> j) \<and>
     (\<forall>i \<sigma> \<tau> j. (\<forall>k \<in> reads_of st n i. \<sigma> k = \<tau> k) \<longrightarrow> j \<in> near st n i \<longrightarrow> visit i \<sigma> j = visit i \<tau> j)"

lemma local_visit_frame: "local_visit st n visit \<Longrightarrow> j \<notin> near st n i \<Longrightarrow> visit i \<sigma> j = \<sigma> j"
  by (simp add: local_visit_def)

lemma local_visit_cong: "local_visit st n visit \<Longrightarrow> (\<And>k. k \<in> reads_of st n i \<Longrightarrow> \<sigma> k = \<tau> k) \<Longrightarrow> j \<in> near st n i \<Longrightarrow>
    visit i \<sigma> j = visit i \<tau> j"
  unfolding local_visit_def by blast

text \<open>Visits whose reads and writes do not meet commute.\<close>

lemma local_visits_commute:
  assumes k: "local_visit st n visit" and d: "near st n i \<inter> reads_of st n j = {}" "near st n j \<inter> reads_of st n i = {}"
  shows "visit i \<circ> visit j = visit j \<circ> visit i"
proof (intro ext)
  fix \<sigma> x
  have sub: "near st n m \<subseteq> reads_of st n m" for m by (simp add: reads_of_def)
  have i: "visit i (visit j \<sigma>) y = visit i \<sigma> y" if "y \<in> near st n i" for y
    using d(2) local_visit_frame [OF k] by (intro local_visit_cong [OF k _ that]) blast
  have j: "visit j (visit i \<sigma>) y = visit j \<sigma> y" if "y \<in> near st n j" for y
    using d(1) local_visit_frame [OF k] by (intro local_visit_cong [OF k _ that]) blast
  have ij: "y \<notin> near st n i \<or> y \<notin> near st n j" for y using d sub by blast
  show "(visit i \<circ> visit j) \<sigma> x = (visit j \<circ> visit i) \<sigma> x"
    using i [of x] j [of x] ij [of x] local_visit_frame [OF k, of x i] local_visit_frame [OF k, of x j]
    by (cases "x \<in> near st n i"; cases "x \<in> near st n j") simp_all
qed

section \<open>Levels keep visits apart\<close>

lemma level_starts_mono:
  assumes "\<forall>i < length lv. start_idx (lv ! i) = sum_list (map llength (take i lv))" and "k < m" and "m < length lv"
  shows "start_idx (lv ! k) + llength (lv ! k) \<le> start_idx (lv ! m)"
proof -
  have "take m lv = take (Suc k) lv @ take (m - Suc k) (drop (Suc k) lv)"
    using assms(2) take_add [of "Suc k" "m - Suc k" lv] by simp
  moreover have "take (Suc k) lv = take k lv @ [lv ! k]"
    using assms(2,3) by (intro take_Suc_conv_app_nth) simp
  ultimately have "sum_list (map llength (take m lv)) = sum_list (map llength (take k lv)) + llength (lv ! k) +
      sum_list (map llength (take (m - Suc k) (drop (Suc k) lv)))"
    by simp
  then show ?thesis using assms by simp
qed

lemma level_unique:
  assumes "flatten sch data st = Inr (lv, st')" and "in_level lv k p" and "in_level lv m p"
  shows "k = m"
proof (rule ccontr)
  assume "k \<noteq> m"
  note s = level_starts_mono [of lv] levels_partition [OF assms(1)]
  from \<open>k \<noteq> m\<close> consider "k < m" | "m < k" by linarith
  then show False
  proof cases
    case 1
    then show False using s(1) [of k m] s(2) assms(2,3) by (auto simp: in_level_def)
  next
    case 2
    then show False using s(1) [of m k] s(2) assms(2,3) by (auto simp: in_level_def)
  qed
qed

lemma in_level_bound:
  assumes "flatten sch data st = Inr (lv, st')" and "in_level lv k p"
  shows "p < treeSize data"
proof -
  note p = levels_partition [OF assms(1)]
  from assms(2) have k: "k < length lv" by (simp add: in_level_def)
  have "lv = take k lv @ lv ! k # drop (Suc k) lv" by (rule id_take_nth_drop [OF k])
  then have "sum_list (map llength lv) =
      sum_list (map llength (take k lv)) + llength (lv ! k) + sum_list (map llength (drop (Suc k) lv))"
    by (metis (mono_tags) add.assoc list.simps(9) map_append sum_list.Cons sum_list_append)
  then show ?thesis using p assms(2) k by (auto simp: in_level_def)
qed

lemma near_level:
  assumes "flatten sch data st = Inr (lv, st')" and "links_len (treeSize data) st"
    and "in_level lv k i" and "j \<in> near st' (treeSize data) i"
  shows "j = i \<or> (in_level lv (Suc k) j \<and> 0 < j \<and> parent st' ! j = int i)"
proof -
  from assms(4) consider "j = i" | "0 < j" "j < treeSize data" "parent st' ! j = int i"
    by (auto simp: near_def children_of_def)
  then show ?thesis
  proof cases
    case 2
    from parent_level [OF assms(1,2) 2(1,2)] 2(3) obtain m where "in_level lv m i" "in_level lv (Suc m) j" by auto
    with level_unique [OF assms(1) assms(3)] 2 show ?thesis by blast
  qed simp
qed

lemma level_disjoint:
  assumes "flatten sch data st = Inr (lv, st')" and "links_len (treeSize data) st"
    and i: "in_level lv k i" and j: "in_level lv k j" and "i \<noteq> j"
  shows "near st' (treeSize data) i \<inter> reads_of st' (treeSize data) j = {}"
proof (rule equals0I)
  fix x assume x: "x \<in> near st' (treeSize data) i \<inter> reads_of st' (treeSize data) j"
  have xi: "x = i \<or> (in_level lv (Suc k) x \<and> 0 < x \<and> parent st' ! x = int i)"
    using near_level [OF assms(1,2) i] x by blast
  have neq: "\<not> (in_level lv k y \<and> in_level lv (Suc k) y)" for y
    using level_unique [OF assms(1), of k y "Suc k"] by auto
  from x consider "x \<in> near st' (treeSize data) j" | "0 < j" "parent st' ! j = int x" by (auto simp: reads_of_def)
  then show False
  proof cases
    case 1
    from near_level [OF assms(1,2) j 1] xi neq i j \<open>i \<noteq> j\<close> show False by auto
  next
    case 2
    from parent_level [OF assms(1,2) 2(1) in_level_bound [OF assms(1) j]] 2(2)
    obtain m where m: "in_level lv m x" "in_level lv (Suc m) j" by auto
    with level_unique [OF assms(1) j] have k: "k = Suc m" by blast
    have "x = i \<Longrightarrow> m = k" "in_level lv (Suc k) x \<Longrightarrow> m = Suc k"
      using level_unique [OF assms(1) m(1)] i by blast+
    with xi k show False by linarith
  qed
qed

lemma ndrange_seq:
  assumes "flatten sch data st = Inr (lv, st')" and "links_len (treeSize data) st" and k: "local_visit st' (treeSize data) visit"
    and l: "l \<in> set lv" and o: "mset (order l) = mset (level_range l)"
  shows "ndrange order visit l = seqLvl visit l"
proof -
  from l obtain m where m: "m < length lv" "l = lv ! m" by (metis in_set_conv_nth)
  have "set (order l) = set (level_range l)" by (rule mset_eq_setD [OF o])
  then have lev: "in_level lv m x" if "x \<in> set (order l)" for x
    using that m by (auto simp: level_range_def in_level_def)
  have "visit x \<circ> visit y = visit y \<circ> visit x" if "x \<in> set (order l)" "y \<in> set (order l)" for x y
  proof (cases "x = y")
    case False
    then show ?thesis
      using level_disjoint [OF assms(1,2)] lev [OF that(1)] lev [OF that(2)]
      by (intro local_visits_commute [OF k]) blast+
  qed simp
  from fold_multiset_equiv [OF this o] show ?thesis by (intro ext) (simp add: ndrange_def seqLvl_def)
qed

text \<open>
  C10.  The device and the CPU compute the same: on a flattened tree, for every visit that writes only its node
  and the node's children and reads only these and the parent, both passes give the same attributes
  in every order in which the device runs the work items of a level.
\<close>

theorem device_passes_equal:
  assumes "flatten sch data st = Inr (lv, st')" and "links_len (treeSize data) st"
    and "local_visit st' (treeSize data) visit" and "\<forall>l \<in> set lv. mset (order l) = mset (level_range l)"
    and "ignoreCL cpu" and "\<not> webworkerLayout cpu" and "\<not> ignoreCL gpu"
  shows "topDownTraversal gpu order visit lv \<sigma> = topDownTraversal cpu o' visit lv \<sigma> \<and>
    bottomUpTraversal gpu order visit lv \<sigma> = bottomUpTraversal cpu o' visit lv \<sigma>"
proof -
  have eq: "ndrange order visit l = seqLvl visit l" if "l \<in> set lv" for l
    using ndrange_seq [OF assms(1-3) that] assms(4) that by blast
  have "fold (ndrange order visit) lv = fold (seqLvl visit) lv"
    "fold (ndrange order visit) (rev lv) = fold (seqLvl visit) (rev lv)"
    by (auto intro!: fold_cong eq)
  then show ?thesis using assms(5-7) by (simp add: topDownTraversal_def bottomUpTraversal_def)
qed

text \<open>Witness: the depths of the nodes of the small tree, with its children visited backwards.\<close>

definition depth_visit :: "'v flat \<Rightarrow> nat \<Rightarrow> nat \<Rightarrow> (nat \<Rightarrow> nat) \<Rightarrow> nat \<Rightarrow> nat" where
  "depth_visit st n i \<sigma> = (\<lambda>j. if j \<in> children_of st n i \<and> j \<noteq> i then \<sigma> i + 1 else \<sigma> j)"

lemma depth_visit_local: "local_visit st n (depth_visit st n)"
  by (auto simp: local_visit_def depth_visit_def near_def reads_of_def)

theorem device_passes_equal_witness:
  "\<exists>lv st'. flatten demo_schema demo_tree demo_flat = Inr (lv, st') \<and>
     topDownTraversal \<lparr>ignoreCL = False, webworkerLayout = False\<rparr> (rev \<circ> level_range) (depth_visit st' 4) lv (\<lambda>_. 0) =
     topDownTraversal \<lparr>ignoreCL = True, webworkerLayout = False\<rparr> level_range (depth_visit st' 4) lv (\<lambda>_. 0)"
proof -
  obtain lv st' where r: "flatten demo_schema demo_tree demo_flat = Inr (lv, st')" using demo_result by metis
  from device_passes_equal [OF r demo_links_len depth_visit_local, of "rev \<circ> level_range"
      "\<lparr>ignoreCL = True, webworkerLayout = False\<rparr>" "\<lparr>ignoreCL = False, webworkerLayout = False\<rparr>" "\<lambda>_. 0" level_range] r
  show ?thesis unfolding demo_treeSize by auto
qed

end
