(* ===== verification/Workers.thy ===== *)
theory Workers
  imports Traverse Complex_Main
begin

text \<open>
  The multicore passes of \<open>CLRunner.js\<close>: \<open>traverseAsync\<close> splits a long level into chunks, posts each
  to a free web worker with copies of the fields its visit reads, and copies the returned fields
  back when the worker answers; the next level starts when all chunks of the level have answered.
  The answers arrive in any order.  Fields are arrays of exact reals; the generated visits are
  arguments.  What the worker finds in the message is what \<open>runKernelRange\<close> puts there, which has
  no \<open>span\<close>: the theorem at the end says what a multicore pass computes.
\<close>

section \<open>Read and write sets\<close>

text \<open>
  The field names that the regular expressions of \<open>computeReadWriteSets\<close> find in the source of a
  node's visitor are arguments; the code collects them into sets.
\<close>

record hits =
  self :: "string list"
  child :: "string list"

record visit_sets =
  writes :: hits
  reads :: hits
  any :: "string list"
  returnViews :: "string list"

definition arrayToSet :: "string list \<Rightarrow> string list" where
  "arrayToSet arr = foldl (\<lambda>res v. if v \<in> set res then res else res @ [v]) [] arr"

definition reducer :: "hits list \<Rightarrow> hits" where
  "reducer hs = foldl (\<lambda>acc w. \<lparr>self = arrayToSet (self acc @ self w), child = arrayToSet (child acc @ child w)\<rparr>)
     \<lparr>self = [], child = []\<rparr> hs"

definition visitFields :: "hits list \<Rightarrow> hits list \<Rightarrow> visit_sets" where
  "visitFields wr rd =
     (let w = reducer wr; r = reducer rd
      in \<lparr>writes = w, reads = r, any = arrayToSet (child r @ child w @ self r @ self w),
          returnViews = arrayToSet (self w @ child w)\<rparr>)"

lemma arrayToSet_loop: "distinct res \<Longrightarrow>
    distinct (foldl (\<lambda>res v. if v \<in> set res then res else res @ [v]) res arr) \<and>
    set (foldl (\<lambda>res v. if v \<in> set res then res else res @ [v]) res arr) = set res \<union> set arr"
  by (induction arr arbitrary: res) auto

lemma set_arrayToSet [simp]: "set (arrayToSet arr) = set arr" "distinct (arrayToSet arr)"
  using arrayToSet_loop [of "[]" arr] by (simp_all add: arrayToSet_def)

definition sets_ok :: "visit_sets \<Rightarrow> bool" where
  "sets_ok S \<longleftrightarrow> set (any S) = set (self (reads S)) \<union> set (child (reads S)) \<union> set (self (writes S)) \<union> set (child (writes S)) \<and>
     set (returnViews S) = set (self (writes S)) \<union> set (child (writes S)) \<and> distinct (any S) \<and> distinct (returnViews S)"

lemma visitFields_ok: "sets_ok (visitFields wr rd)"
  by (auto simp: visitFields_def Let_def sets_ok_def)

section \<open>Buffers\<close>

text \<open>\<open>memcpy\<close> between arrays of the same type; a range outside an array throws a \<open>RangeError\<close>, \<open>None\<close>.\<close>

definition memcpy :: "real list \<Rightarrow> nat \<Rightarrow> real list \<Rightarrow> nat \<Rightarrow> nat \<Rightarrow> real list option" where
  "memcpy dst dstOffset src srcOffset n =
     (if dstOffset + n \<le> length dst \<and> srcOffset + n \<le> length src
      then Some (take dstOffset dst @ take n (drop srcOffset src) @ drop (dstOffset + n) dst) else None)"

definition new_buffer :: "visit_sets \<Rightarrow> level \<Rightarrow> nat \<Rightarrow> string \<Rightarrow> real list" where
  "new_buffer S lvl nextLvlLen i =
     replicate (llength lvl + (if i \<in> set (child (reads S)) \<or> i \<in> set (child (writes S)) then nextLvlLen else 0)) 0"

definition copy_in :: "visit_sets \<Rightarrow> level \<Rightarrow> nat \<Rightarrow> string \<Rightarrow> real list \<Rightarrow> real list option" where
  "copy_in S lvl nextLvlLen i arr =
     Option.bind
       (if i \<in> set (self (reads S)) then memcpy (new_buffer S lvl nextLvlLen i) 0 arr (start_idx lvl) (llength lvl)
        else Some (new_buffer S lvl nextLvlLen i))
       (\<lambda>buff. if nextLvlLen \<noteq> 0 \<and> i \<in> set (child (reads S))
               then memcpy buff (llength lvl) arr (start_idx lvl + llength lvl) nextLvlLen else Some buff)"

type_synonym buffers = "(string \<times> real list) list"
type_synonym bufs = "string \<Rightarrow> real list"

definition make_buffers :: "visit_sets \<Rightarrow> level \<Rightarrow> nat \<Rightarrow> bufs \<Rightarrow> buffers option" where
  "make_buffers S lvl nextLvlLen b =
     those (map (\<lambda>i. map_option (Pair i) (copy_in S lvl nextLvlLen i (b i))) (any S))"

definition write_field :: "visit_sets \<Rightarrow> level \<Rightarrow> nat \<Rightarrow> string \<Rightarrow> real list \<Rightarrow> real list \<Rightarrow> real list option" where
  "write_field S lvl nextLvlLen i buff arr =
     Option.bind
       (if i \<in> set (self (writes S)) then memcpy arr (start_idx lvl) buff 0 (llength lvl) else Some arr)
       (\<lambda>arr. if nextLvlLen \<noteq> 0 \<and> i \<in> set (child (writes S))
              then memcpy arr (start_idx lvl + llength lvl) buff (llength lvl) nextLvlLen else Some arr)"

fun write_back :: "visit_sets \<Rightarrow> level \<Rightarrow> nat \<Rightarrow> buffers \<Rightarrow> bufs \<Rightarrow> bufs option" where
  "write_back S lvl nextLvlLen [] b = Some b"
| "write_back S lvl nextLvlLen ((i, buff) # ws) b =
     (case write_field S lvl nextLvlLen i buff (b i) of
        None \<Rightarrow> None
      | Some arr \<Rightarrow> write_back S lvl nextLvlLen ws (b(i := arr)))"

section \<open>Messages\<close>

text \<open>
  A posted message, with the worker it went to and the variables its handler closes over.  No
  message has a \<open>span\<close>, so that the loop of the worker compares with \<open>undefined\<close> and ends at once.
\<close>

record message =
  m_buffers :: buffers
  m_visitorNum :: nat
  m_startOffset :: nat
  m_endOffset :: nat
  m_levelLength :: nat
  m_tree_size :: nat
  m_returnViews :: "string list"
  m_span :: "nat option"
  m_worker :: nat
  m_lvl :: level
  m_nextLvlLen :: nat

type_synonym engine = "nat \<Rightarrow> nat \<Rightarrow> nat \<Rightarrow> buffers \<Rightarrow> buffers"

text \<open>The worker's answer; \<open>None\<close> is the answer with an error.\<close>

definition layout_worker :: "engine \<Rightarrow> message \<Rightarrow> buffers option" where
  "layout_worker visit m =
     (let that = (case m_span m of None \<Rightarrow> m_buffers m
                  | Some k \<Rightarrow> fold (\<lambda>i. visit (m_visitorNum m) i (m_tree_size m)) [0 ..< k] (m_buffers m))
      in those (map (\<lambda>fld. map_option (Pair fld) (map_of that fld)) (m_returnViews m)))"

section \<open>The runner\<close>

record plan =
  p_direction :: direction
  p_levels :: "level list"
  p_numWorkers :: nat
  p_minParallel :: nat
  p_visitNum :: nat
  p_sets :: visit_sets
  p_tree_size :: nat
  p_visit :: "nat \<Rightarrow> bufs \<Rightarrow> bufs"
  p_engine :: engine

record trav =
  t_bufs :: bufs
  t_free :: "nat list"
  t_busy :: "nat list"
  t_posted :: "message list"
  t_lvl :: nat
  t_chunks :: nat
  t_ready :: nat
  t_finished :: nat

datatype async_error = NoFreeWorker | RangeError | PassError pass_error

definition runKernelRange :: "plan \<Rightarrow> level \<Rightarrow> nat \<Rightarrow> nat \<Rightarrow> nat \<Rightarrow> trav \<Rightarrow> async_error + trav" where
  "runKernelRange P lvl nextLvlLen startIdx endIdx t =
     (case make_buffers (p_sets P) lvl nextLvlLen (t_bufs t) of
        None \<Rightarrow> Inl RangeError
      | Some bs \<Rightarrow>
          if t_free t = [] then Inl NoFreeWorker
          else Inr (t\<lparr>t_free := butlast (t_free t), t_busy := t_busy t @ [last (t_free t)],
            t_posted := t_posted t @ [\<lparr>m_buffers = bs, m_visitorNum = p_visitNum P, m_startOffset = startIdx - start_idx lvl,
              m_endOffset = (startIdx - start_idx lvl) + (endIdx - startIdx), m_levelLength = llength lvl,
              m_tree_size = p_tree_size P, m_returnViews = returnViews (p_sets P), m_span = None,
              m_worker = last (t_free t), m_lvl = lvl, m_nextLvlLen = nextLvlLen\<rparr>]\<rparr>))"

text \<open>\<open>Math.round(length / numWorkers)\<close>; a chunk is one longer.\<close>

definition chunk_round :: "nat \<Rightarrow> nat \<Rightarrow> nat" where
  "chunk_round n numWorkers = nat \<lfloor>real n / real numWorkers + 1 / 2\<rfloor>"

function chunk_starts :: "nat \<Rightarrow> nat \<Rightarrow> nat \<Rightarrow> nat list" where
  "chunk_starts nxt endIdx r = (if nxt < endIdx then nxt # chunk_starts (nxt + (r + 1)) endIdx r else [])"
  by auto
termination by (relation "measure (\<lambda>(nxt, endIdx, r). endIdx - nxt)") auto

declare chunk_starts.simps [simp del]

fun post_chunks :: "plan \<Rightarrow> level \<Rightarrow> nat \<Rightarrow> nat \<Rightarrow> nat \<Rightarrow> nat list \<Rightarrow> trav \<Rightarrow> async_error + trav" where
  "post_chunks P lvl nextLvlLen endIdx r [] t = Inr t"
| "post_chunks P lvl nextLvlLen endIdx r (a # as) t =
     (case runKernelRange P lvl nextLvlLen a (min endIdx (a + (r + 1))) t of
        Inl e \<Rightarrow> Inl e
      | Inr t' \<Rightarrow> post_chunks P lvl nextLvlLen endIdx r as t')"

definition more :: "plan \<Rightarrow> nat \<Rightarrow> bool" where
  "more P l \<longleftrightarrow> (case p_direction P of TopDown \<Rightarrow> l + 1 < length (p_levels P) | BottomUp \<Rightarrow> 1 \<le> l)"

definition next_level :: "plan \<Rightarrow> nat \<Rightarrow> nat" where
  "next_level P l = (case p_direction P of TopDown \<Rightarrow> l + 1 | BottomUp \<Rightarrow> l - 1)"

definition next_len :: "plan \<Rightarrow> nat \<Rightarrow> nat" where
  "next_len P l = (if l + 1 < length (p_levels P) then llength (p_levels P ! (l + 1)) else 0)"

definition remaining :: "plan \<Rightarrow> nat \<Rightarrow> nat" where
  "remaining P l = (case p_direction P of TopDown \<Rightarrow> length (p_levels P) - 1 - l | BottomUp \<Rightarrow> l)"

lemma remaining_next: "more P l \<Longrightarrow> Suc (remaining P (next_level P l)) = remaining P l"
  by (auto simp: more_def remaining_def next_level_def split: direction.splits)

function runLevel :: "plan \<Rightarrow> nat \<Rightarrow> trav \<Rightarrow> async_error + trav"
  and workerDone :: "plan \<Rightarrow> trav \<Rightarrow> async_error + trav" where
  "runLevel P l t =
     (let lvl = p_levels P ! l in
      if p_minParallel P < llength lvl then
        (let startIdx = start_idx lvl;
             endIdx = startIdx + llength lvl;
             r = chunk_round (llength lvl) (p_numWorkers P);
             starts = chunk_starts startIdx endIdx r
         in post_chunks P lvl (next_len P l) endIdx r starts (t\<lparr>t_lvl := l, t_chunks := length starts, t_ready := 0\<rparr>))
      else workerDone P (t\<lparr>t_lvl := l, t_bufs := seqLvl (p_visit P) lvl (t_bufs t), t_chunks := 1, t_ready := 0\<rparr>))"
| "workerDone P t =
     (let t1 = t\<lparr>t_ready := t_ready t + 1\<rparr> in
      if t_ready t1 = t_chunks t1 then
        (if more P (t_lvl t1) then runLevel P (next_level P (t_lvl t1)) (t1\<lparr>t_ready := 0\<rparr>)
         else Inr (t1\<lparr>t_finished := t_finished t1 + 1\<rparr>))
      else Inr t1)"
  by pat_completeness auto
termination
  by (relation "measure (\<lambda>x. case x of Inl (P, l, t) \<Rightarrow> 2 * remaining P l + 1 | Inr (P, t) \<Rightarrow> 2 * remaining P (t_lvl t))")
    (auto dest: remaining_next)

declare runLevel.simps [simp del] workerDone.simps [simp del]

text \<open>The answer to the \<open>k\<close>-th posted message arrives.\<close>

definition deliver :: "plan \<Rightarrow> nat \<Rightarrow> trav \<Rightarrow> async_error + trav" where
  "deliver P k t =
     (let m = t_posted t ! k;
          t1 = t\<lparr>t_posted := take k (t_posted t) @ drop (Suc k) (t_posted t),
                 t_busy := remove1 (m_worker m) (t_busy t), t_free := t_free t @ [m_worker m]\<rparr>
      in case layout_worker (p_engine P) m of
           None \<Rightarrow> workerDone P t1
         | Some ws \<Rightarrow>
             (case write_back (p_sets P) (m_lvl m) (m_nextLvlLen m) ws (t_bufs t1) of
                None \<Rightarrow> Inl RangeError
              | Some b \<Rightarrow> workerDone P (t1\<lparr>t_bufs := b\<rparr>)))"

text \<open>\<open>getVisitNum\<close> searches the visits without end; a visit is known by its identity.\<close>

partial_function (option) getVisitNum :: "nat list \<Rightarrow> nat \<Rightarrow> nat \<Rightarrow> nat option" where
  "getVisitNum vs fn num =
     (if num < length vs \<and> vs ! num = fn then Some num else getVisitNum vs fn (num + 1))"

text \<open>
  \<open>traverseAsync\<close>: the multicore case, the render pass, which runs in the runner itself, and the
  synchronous passes.
\<close>

definition traverseAsync :: "run_cfg \<Rightarrow> (level \<Rightarrow> nat list) \<Rightarrow> nat \<Rightarrow> plan \<Rightarrow> trav \<Rightarrow> async_error + trav" where
  "traverseAsync cfg order nvisits P t =
     (let finish = (\<lambda>b. Inr (t\<lparr>t_bufs := b, t_finished := t_finished t + 1\<rparr>)) in
      if ignoreCL cfg \<and> webworkerLayout cfg then
        (if p_visitNum P + 1 < nvisits
         then runLevel P (case p_direction P of TopDown \<Rightarrow> 0 | BottomUp \<Rightarrow> length (p_levels P) - 1) t
         else finish (fold (seqLvl (p_visit P))
                (case p_direction P of TopDown \<Rightarrow> p_levels P | BottomUp \<Rightarrow> rev (p_levels P)) (t_bufs t)))
      else (case p_direction P of
          TopDown \<Rightarrow> (case topDownTraversal cfg order (p_visit P) (p_levels P) (t_bufs t) of
              Inl e \<Rightarrow> Inl (PassError e)
            | Inr b \<Rightarrow> finish b)
        | BottomUp \<Rightarrow> finish (bottomUpTraversal cfg order (p_visit P) (p_levels P) (t_bufs t))))"

section \<open>Chunks\<close>

text \<open>The chunks of a level cover it, in order and without overlap, and are no more than the workers.\<close>

definition chunk_ranges :: "nat \<Rightarrow> nat \<Rightarrow> nat \<Rightarrow> (nat \<times> nat) list" where
  "chunk_ranges startIdx endIdx r = map (\<lambda>a. (a, min endIdx (a + (r + 1)))) (chunk_starts startIdx endIdx r)"

lemma chunk_ranges_cover: "concat (map (\<lambda>(a, b). [a ..< b]) (chunk_ranges s e r)) = [s ..< e]"
proof (induction s e r rule: chunk_starts.induct)
  case (1 s e r)
  show ?case
  proof (cases "s < e")
    case True
    have "concat (map (\<lambda>(a, b). [a ..< b]) (chunk_ranges s e r)) = [s ..< min e (s + (r + 1))] @ [s + (r + 1) ..< e]"
      using 1 [OF True] True by (simp add: chunk_ranges_def chunk_starts.simps [of s])
    also have "\<dots> = [s ..< e]"
    proof (cases "s + (r + 1) \<le> e")
      case True
      then show ?thesis using upt_add_eq_append [of s "s + (r + 1)" "e - (s + (r + 1))"] by (simp add: min_absorb2)
    qed (simp add: min_absorb1)
    finally show ?thesis .
  qed (simp add: chunk_ranges_def chunk_starts.simps [of s])
qed

lemma chunk_starts_count: "e - s \<le> n * (r + 1) \<Longrightarrow> length (chunk_starts s e r) \<le> n"
proof (induction s e r arbitrary: n rule: chunk_starts.induct)
  case (1 s e r)
  show ?case
  proof (cases "s < e")
    case True
    then obtain m where m: "n = Suc m" using 1 by (cases n) auto
    have "e - (s + (r + 1)) \<le> m * (r + 1)" using "1.prems" by (simp add: m)
    from "1.IH" [OF True this] True show ?thesis by (simp add: m chunk_starts.simps [of s])
  qed (simp add: chunk_starts.simps [of s])
qed

lemma chunk_round_covers: "0 < W \<Longrightarrow> n \<le> W * (chunk_round n W + 1)"
proof -
  assume W: "0 < W"
  have "real n / real W < real_of_int (\<lfloor>real n / real W + 1 / 2\<rfloor>) + 1" by linarith
  also have "\<dots> = real (chunk_round n W + 1)" using W by (simp add: chunk_round_def)
  finally have "real n < real (W * (chunk_round n W + 1))" using W by (simp add: field_simps)
  then show ?thesis by linarith
qed

lemma chunks_le_workers:
  assumes "0 < W"
  shows "length (chunk_starts s (s + n) (chunk_round n W)) \<le> W"
  using chunk_starts_count [of "s + n" s W "chunk_round n W"] chunk_round_covers [OF assms, of n] by simp

lemma chunk_starts_nonempty: "0 < n \<Longrightarrow> chunk_starts s (s + n) r \<noteq> []"
  by (simp add: chunk_starts.simps [of s])

section \<open>What a chunk does to a field\<close>

definition clear_range :: "nat \<Rightarrow> nat \<Rightarrow> real list \<Rightarrow> real list" where
  "clear_range a n xs = take a xs @ replicate n 0 @ drop (a + n) xs"

text \<open>The fields that a visit writes but does not read come back as zeros.\<close>

definition parallel_field :: "visit_sets \<Rightarrow> level \<Rightarrow> nat \<Rightarrow> string \<Rightarrow> real list \<Rightarrow> real list" where
  "parallel_field S lvl n f xs =
     (let xs = (if f \<in> set (self (writes S)) \<and> f \<notin> set (self (reads S)) then clear_range (start_idx lvl) (llength lvl) xs else xs)
      in if f \<in> set (child (writes S)) \<and> f \<notin> set (child (reads S)) then clear_range (start_idx lvl + llength lvl) n xs else xs)"

definition parallel_level :: "visit_sets \<Rightarrow> level \<Rightarrow> nat \<Rightarrow> bufs \<Rightarrow> bufs" where
  "parallel_level S lvl n b = (\<lambda>f. parallel_field S lvl n f (b f))"

definition fields_cover :: "visit_sets \<Rightarrow> nat \<Rightarrow> bufs \<Rightarrow> bool" where
  "fields_cover S sz b \<longleftrightarrow> (\<forall>f \<in> set (any S). sz \<le> length (b f))"

lemma split_field:
  assumes "start_idx lvl + llength lvl + n \<le> length (xs :: real list)"
  obtains A X Y Z where "xs = A @ X @ Y @ Z" "length A = start_idx lvl" "length X = llength lvl" "length Y = n"
proof
  let ?s = "start_idx lvl" and ?l = "llength lvl"
  show "xs = take ?s xs @ take ?l (drop ?s xs) @ take n (drop (?s + ?l) xs) @ drop (?s + ?l + n) xs"
    by (metis append_take_drop_id drop_drop add.commute)
qed (use assms in simp_all)

lemma memcpy_append: "length A = a \<Longrightarrow> length C = c \<Longrightarrow> length X = n \<Longrightarrow> length B = n \<Longrightarrow>
    memcpy (A @ X @ R) a (C @ B @ D) c n = Some (A @ B @ R)"
  by (auto simp: memcpy_def)

text \<open>The buffer a worker gets for a field with the given parts.\<close>

definition sent_buffer :: "visit_sets \<Rightarrow> string \<Rightarrow> real list \<Rightarrow> real list \<Rightarrow> real list" where
  "sent_buffer S f X Y =
     (if f \<in> set (self (reads S)) then X else replicate (length X) 0) @
     (if f \<in> set (child (reads S)) then Y
      else if f \<in> set (child (writes S)) then replicate (length Y) 0 else [])"

lemma copy_in_parts:
  assumes "xs = A @ X @ Y @ Z" "length A = start_idx lvl" "length X = llength lvl" "length Y = n"
  shows "copy_in S lvl n f xs = Some (sent_buffer S f X Y)"
proof -
  let ?b = "replicate (length X) (0::real)" and ?c = "replicate (length Y) (0::real)"
  define E where "E = (if f \<in> set (child (reads S)) \<or> f \<in> set (child (writes S)) then ?c else [])"
  have new: "new_buffer S lvl n f = ?b @ E"
    using assms by (simp add: new_buffer_def replicate_add E_def)
  have 1: "memcpy (?b @ R) 0 xs (start_idx lvl) (llength lvl) = Some (X @ R)" for R
    using memcpy_append [of "[]" 0 A "start_idx lvl" ?b "llength lvl" X R "Y @ Z"] assms by simp
  have 2: "memcpy (P @ ?c) (llength lvl) xs (start_idx lvl + llength lvl) n = Some (P @ Y)" if "length P = llength lvl" for P
    using memcpy_append [of P "llength lvl" "A @ X" "start_idx lvl + llength lvl" ?c n Y "[]" Z] assms that by simp
  define P where "P = (if f \<in> set (self (reads S)) then X else ?b)"
  have "length P = llength lvl" using assms(3) by (simp add: P_def)
  note 3 = 2 [OF this]
  have "copy_in S lvl n f xs = (if n \<noteq> 0 \<and> f \<in> set (child (reads S))
      then memcpy (P @ E) (llength lvl) xs (start_idx lvl + llength lvl) n else Some (P @ E))"
    unfolding copy_in_def new P_def by (simp add: 1)
  also have "\<dots> = Some (sent_buffer S f X Y)"
    using 3 assms(4) by (cases "n = 0") (auto simp: E_def sent_buffer_def P_def)
  finally show ?thesis .
qed

lemma parallel_field_parts:
  assumes "xs = A @ X @ Y @ Z" "length A = start_idx lvl" "length X = llength lvl" "length Y = n"
  shows "parallel_field S lvl n f xs =
    A @ (if f \<in> set (self (writes S)) \<and> f \<notin> set (self (reads S)) then replicate (length X) 0 else X) @
    (if f \<in> set (child (writes S)) \<and> f \<notin> set (child (reads S)) then replicate (length Y) 0 else Y) @ Z"
  using assms by (simp add: parallel_field_def clear_range_def Let_def)

lemma write_field_parts:
  assumes "xs = A @ X @ Y @ Z" "length A = start_idx lvl" "length X = llength lvl" "length Y = n"
    and "ys = xs \<or> ys = parallel_field S lvl n f xs"
  shows "write_field S lvl n f (sent_buffer S f X Y) ys = Some (parallel_field S lvl n f xs)"
proof -
  obtain X' Y' where ys: "ys = A @ X' @ Y' @ Z" "length X' = length X" "length Y' = length Y"
    and same: "f \<notin> set (self (writes S)) \<longrightarrow> X' = X" "f \<notin> set (child (writes S)) \<longrightarrow> Y' = Y"
    using assms(1,5) parallel_field_parts [OF assms(1-4), of S f] by (cases "ys = xs") auto
  let ?X = "if f \<in> set (self (reads S)) then X else replicate (length X) 0"
  let ?Y = "if f \<in> set (child (reads S)) then Y else replicate (length Y) 0"
  have 1: "memcpy ys (start_idx lvl) (?X @ R) 0 (llength lvl) = Some (A @ ?X @ Y' @ Z)" for R
    using memcpy_append [of A "start_idx lvl" "[]" 0 X' "llength lvl" ?X "Y' @ Z" R] assms(2,3) by (simp add: ys)
  have 2: "memcpy (A @ P @ Y' @ Z) (start_idx lvl + llength lvl) (?X @ ?Y) (llength lvl) n = Some (A @ P @ ?Y @ Z)"
    if "length P = llength lvl" for P
    using memcpy_append [of "A @ P" "start_idx lvl + llength lvl" ?X "llength lvl" Y' n ?Y Z "[]"] assms(2-4) that
    by (simp add: ys)
  have sent: "sent_buffer S f X Y = ?X @ (if f \<in> set (child (writes S)) then ?Y else
      if f \<in> set (child (reads S)) then Y else [])"
    by (simp add: sent_buffer_def)
  define E where "E = (if f \<in> set (child (writes S)) then ?Y else if f \<in> set (child (reads S)) then Y else [])"
  define P where "P = (if f \<in> set (self (writes S)) then ?X else X')"
  have P: "length P = llength lvl" using assms(3) ys(2) by (simp add: P_def)
  have "write_field S lvl n f (sent_buffer S f X Y) ys = (if n \<noteq> 0 \<and> f \<in> set (child (writes S))
      then memcpy (A @ P @ Y' @ Z) (start_idx lvl + llength lvl) (?X @ E) (llength lvl) n else Some (A @ P @ Y' @ Z))"
    unfolding write_field_def sent E_def [symmetric] using 1 [of E] by (simp add: P_def ys(1))
  also have "\<dots> = Some (A @ P @ (if f \<in> set (child (writes S)) then ?Y else Y') @ Z)"
    using 2 [OF P] ys(3) assms(4) by (cases "n = 0") (auto simp: E_def)
  also have "\<dots> = Some (parallel_field S lvl n f xs)"
    unfolding parallel_field_parts [OF assms(1-4)] using same by (auto simp: P_def)
  finally show ?thesis .
qed

section \<open>What a chunk does to all fields\<close>

lemma covers_parallel: "fields_cover S sz b \<Longrightarrow> start_idx lvl + llength lvl + n \<le> sz \<Longrightarrow> fields_cover S sz (parallel_level S lvl n b)"
  by (auto simp: fields_cover_def parallel_level_def parallel_field_def clear_range_def Let_def)

definition snapshot :: "visit_sets \<Rightarrow> level \<Rightarrow> nat \<Rightarrow> bufs \<Rightarrow> string \<Rightarrow> real list" where
  "snapshot S lvl n b f = the (copy_in S lvl n f (b f))"

lemma make_buffers_snapshot:
  assumes "fields_cover S sz b" and "start_idx lvl + llength lvl + n \<le> sz"
  shows "make_buffers S lvl n b = Some (map (\<lambda>f. (f, snapshot S lvl n b f)) (any S))"
  unfolding make_buffers_def
proof (rule those_map_Some)
  fix f assume "f \<in> set (any S)"
  then have "start_idx lvl + llength lvl + n \<le> length (b f)" using assms by (auto simp: fields_cover_def)
  then obtain A X Y Z where "b f = A @ X @ Y @ Z" "length A = start_idx lvl" "length X = llength lvl" "length Y = n"
    by (rule split_field)
  from copy_in_parts [OF this] show "map_option (Pair f) (copy_in S lvl n f (b f)) = Some (f, snapshot S lvl n b f)"
    by (simp add: snapshot_def)
qed

lemma write_field_snapshot:
  assumes "fields_cover S sz b" and "start_idx lvl + llength lvl + n \<le> sz" and "f \<in> set (any S)"
    and "b' = b \<or> b' = parallel_level S lvl n b"
  shows "write_field S lvl n f (snapshot S lvl n b f) (b' f) = Some (parallel_level S lvl n b f)"
proof -
  have "start_idx lvl + llength lvl + n \<le> length (b f)" using assms by (auto simp: fields_cover_def)
  then obtain A X Y Z where p: "b f = A @ X @ Y @ Z" "length A = start_idx lvl" "length X = llength lvl" "length Y = n"
    by (rule split_field)
  from write_field_parts [OF p, of "b' f"] copy_in_parts [OF p] assms(4) show ?thesis
    by (auto simp: snapshot_def parallel_level_def)
qed

lemma write_back_all:
  assumes "distinct fs" and "\<And>f. f \<in> set fs \<Longrightarrow> write_field S lvl n f (g f) (b f) = Some (h f)"
  shows "write_back S lvl n (map (\<lambda>f. (f, g f)) fs) b = Some (\<lambda>f. if f \<in> set fs then h f else b f)"
  using assms
proof (induction fs arbitrary: b)
  case (Cons f fs)
  have "write_back S lvl n (map (\<lambda>f. (f, g f)) fs) (b(f := h f)) =
      Some (\<lambda>x. if x \<in> set fs then h x else (b(f := h f)) x)"
    using Cons.prems by (intro Cons.IH) auto
  moreover have "(\<lambda>x. if x \<in> set fs then h x else (b(f := h f)) x) = (\<lambda>x. if x \<in> set (f # fs) then h x else b x)"
    by auto
  ultimately show ?case using Cons.prems(2) by simp
qed simp

lemma write_back_snapshot:
  assumes S: "sets_ok S" and c: "fields_cover S sz b" and l: "start_idx lvl + llength lvl + n \<le> sz"
    and b': "b' = b \<or> b' = parallel_level S lvl n b"
  shows "write_back S lvl n (map (\<lambda>f. (f, snapshot S lvl n b f)) (returnViews S)) b' = Some (parallel_level S lvl n b)"
proof -
  have "write_back S lvl n (map (\<lambda>f. (f, snapshot S lvl n b f)) (returnViews S)) b' =
      Some (\<lambda>f. if f \<in> set (returnViews S) then parallel_level S lvl n b f else b' f)"
    using S by (intro write_back_all write_field_snapshot [OF c l _ b']) (auto simp: sets_ok_def)
  moreover have "b' f = parallel_level S lvl n b f" if "f \<notin> set (returnViews S)" for f
    using that b' S by (auto simp: sets_ok_def parallel_level_def parallel_field_def)
  then have "(\<lambda>f. if f \<in> set (returnViews S) then parallel_level S lvl n b f else b' f) = parallel_level S lvl n b"
    by auto
  ultimately show ?thesis by simp
qed

section \<open>What a pass computes\<close>

definition level_spec :: "plan \<Rightarrow> nat \<Rightarrow> bufs \<Rightarrow> bufs" where
  "level_spec P l b =
     (if p_minParallel P < llength (p_levels P ! l) then parallel_level (p_sets P) (p_levels P ! l) (next_len P l) b
      else seqLvl (p_visit P) (p_levels P ! l) b)"

text \<open>The levels from \<open>l\<close> on, in the order of the pass.\<close>

definition levels_from :: "plan \<Rightarrow> nat \<Rightarrow> nat list" where
  "levels_from P l = (case p_direction P of TopDown \<Rightarrow> [l ..< length (p_levels P)] | BottomUp \<Rightarrow> rev [0 ..< Suc l])"

definition first_level :: "plan \<Rightarrow> nat" where
  "first_level P = (case p_direction P of TopDown \<Rightarrow> 0 | BottomUp \<Rightarrow> length (p_levels P) - 1)"

definition pass_spec :: "plan \<Rightarrow> bufs \<Rightarrow> bufs" where
  "pass_spec P b = fold (level_spec P) (levels_from P (first_level P)) b"

lemma levels_from_step:
  assumes "l < length (p_levels P)"
  shows "levels_from P l = l # (if more P l then levels_from P (next_level P l) else [])"
  using assms by (cases "p_direction P"; cases l)
    (auto simp: levels_from_def more_def next_level_def upt_conv_Cons)

lemma next_level_less: "l < length (p_levels P) \<Longrightarrow> more P l \<Longrightarrow> next_level P l < length (p_levels P)"
  by (auto simp: more_def next_level_def split: direction.splits)

definition plan_ok :: "plan \<Rightarrow> bool" where
  "plan_ok P \<longleftrightarrow> sets_ok (p_sets P) \<and> 0 < p_numWorkers P \<and>
     (\<forall>l < length (p_levels P). start_idx (p_levels P ! l) + llength (p_levels P ! l) + next_len P l \<le> p_tree_size P) \<and>
     (\<forall>i b f. length (p_visit P i b f) = length (b f))"

lemma covers_seqLvl: "plan_ok P \<Longrightarrow> fields_cover S sz b \<Longrightarrow> fields_cover S sz (seqLvl (p_visit P) lvl b)"
proof -
  assume P: "plan_ok P"
  have "length (fold (p_visit P) is b f) = length (b f)" for "is" f
    using P by (induction "is" arbitrary: b) (simp_all add: plan_ok_def)
  then show "fields_cover S sz b \<Longrightarrow> fields_cover S sz (seqLvl (p_visit P) lvl b)"
    by (simp add: fields_cover_def seqLvl_def)
qed

section \<open>The invariant of a pass\<close>

text \<open>A message posted for level \<open>l\<close> when the fields were \<open>b\<close>.\<close>

definition sent_for :: "plan \<Rightarrow> nat \<Rightarrow> bufs \<Rightarrow> message \<Rightarrow> bool" where
  "sent_for P l b m \<longleftrightarrow> m_buffers m = map (\<lambda>f. (f, snapshot (p_sets P) (p_levels P ! l) (next_len P l) b f)) (any (p_sets P)) \<and>
     m_span m = None \<and> m_returnViews m = returnViews (p_sets P) \<and> m_lvl m = p_levels P ! l \<and> m_nextLvlLen m = next_len P l"

definition waiting :: "plan \<Rightarrow> nat multiset \<Rightarrow> bufs \<Rightarrow> trav \<Rightarrow> bool" where
  "waiting P ws goal t \<longleftrightarrow> t_finished t = 0 \<and> t_posted t \<noteq> [] \<and> t_lvl t < length (p_levels P) \<and>
     t_ready t + length (t_posted t) = t_chunks t \<and> mset (t_free t) + mset (t_busy t) = ws \<and>
     mset (t_busy t) = mset (map m_worker (t_posted t)) \<and>
     (\<exists>b. fields_cover (p_sets P) (p_tree_size P) b \<and> fold (level_spec P) (levels_from P (t_lvl t)) b = goal \<and>
        p_minParallel P < llength (p_levels P ! t_lvl t) \<and> (\<forall>m \<in> set (t_posted t). sent_for P (t_lvl t) b m) \<and>
        t_bufs t = (if t_ready t = 0 then b else parallel_level (p_sets P) (p_levels P ! t_lvl t) (next_len P (t_lvl t)) b))"

definition finished :: "plan \<Rightarrow> nat multiset \<Rightarrow> bufs \<Rightarrow> trav \<Rightarrow> bool" where
  "finished P ws goal t \<longleftrightarrow> t_finished t = 1 \<and> t_posted t = [] \<and> t_busy t = [] \<and> mset (t_free t) = ws \<and> t_bufs t = goal"

text \<open>How many answers are still to come, at most.\<close>

definition work :: "plan \<Rightarrow> trav \<Rightarrow> nat" where
  "work P t = (if t_finished t = 0 then remaining P (t_lvl t) * (p_numWorkers P + 1) else 0) + length (t_posted t)"

lemma post_chunks_waiting:
  assumes P: "plan_ok P" and l: "l < length (p_levels P)" and c: "fields_cover (p_sets P) (p_tree_size P) (t_bufs t)"
    and "length as \<le> length (t_free t)" and "\<forall>m \<in> set (t_posted t). sent_for P l (t_bufs t) m"
    and "mset (t_free t) + mset (t_busy t) = ws" and "mset (t_busy t) = mset (map m_worker (t_posted t))"
  shows "\<exists>t'. post_chunks P (p_levels P ! l) (next_len P l) e r as t = Inr t' \<and>
    t_bufs t' = t_bufs t \<and> t_lvl t' = t_lvl t \<and> t_chunks t' = t_chunks t \<and> t_ready t' = t_ready t \<and> t_finished t' = t_finished t \<and>
    length (t_posted t') = length (t_posted t) + length as \<and> (\<forall>m \<in> set (t_posted t'). sent_for P l (t_bufs t) m) \<and>
    mset (t_free t') + mset (t_busy t') = ws \<and> mset (t_busy t') = mset (map m_worker (t_posted t'))"
  using assms(3-)
proof (induction as arbitrary: t)
  case (Cons a as)
  let ?lvl = "p_levels P ! l" and ?n = "next_len P l" and ?w = "last (t_free t)"
  have sz: "start_idx ?lvl + llength ?lvl + ?n \<le> p_tree_size P" using P l by (simp add: plan_ok_def)
  note mk = make_buffers_snapshot [OF Cons.prems(1) sz]
  have ne: "t_free t \<noteq> []" using Cons.prems(2) by auto
  then have free: "add_mset ?w (mset (butlast (t_free t))) = mset (t_free t)"
    by (metis append_butlast_last_id mset.simps union_code mset_append add_mset_add_single)
  obtain t1 where t1: "runKernelRange P ?lvl ?n a (min e (a + (r + 1))) t = Inr t1"
    "t_bufs t1 = t_bufs t" "t_lvl t1 = t_lvl t" "t_chunks t1 = t_chunks t" "t_ready t1 = t_ready t" "t_finished t1 = t_finished t"
    "t_free t1 = butlast (t_free t)" "t_busy t1 = t_busy t @ [?w]"
    and m: "\<exists>m. t_posted t1 = t_posted t @ [m] \<and> sent_for P l (t_bufs t) m \<and> m_worker m = ?w"
    using ne by (simp add: runKernelRange_def mk sent_for_def)
  then obtain m where post: "t_posted t1 = t_posted t @ [m]" "sent_for P l (t_bufs t) m" "m_worker m = ?w" by blast
  have "\<exists>t'. post_chunks P ?lvl ?n e r as t1 = Inr t' \<and>
    t_bufs t' = t_bufs t1 \<and> t_lvl t' = t_lvl t1 \<and> t_chunks t' = t_chunks t1 \<and> t_ready t' = t_ready t1 \<and> t_finished t' = t_finished t1 \<and>
    length (t_posted t') = length (t_posted t1) + length as \<and> (\<forall>m \<in> set (t_posted t'). sent_for P l (t_bufs t1) m) \<and>
    mset (t_free t') + mset (t_busy t') = ws \<and> mset (t_busy t') = mset (map m_worker (t_posted t'))"
  proof (rule Cons.IH)
    show "mset (t_free t1) + mset (t_busy t1) = ws"
      using Cons.prems(4) unfolding free [symmetric] t1 by simp
  qed (use Cons.prems in \<open>auto simp: t1 post\<close>)
  then show ?case unfolding post_chunks.simps t1(1) sum.case by (auto simp: t1 post)
qed simp

lemma run_level_inv:
  assumes P: "plan_ok P" and "l < length (p_levels P)" and "fields_cover (p_sets P) (p_tree_size P) (t_bufs t)"
    and "t_posted t = []" and "t_finished t = 0" and "t_busy t = []" and "mset (t_free t) = ws" and "size ws = p_numWorkers P"
    and "fold (level_spec P) (levels_from P l) (t_bufs t) = goal"
  shows "\<exists>t'. runLevel P l t = Inr t' \<and> (waiting P ws goal t' \<or> finished P ws goal t') \<and>
    work P t' \<le> remaining P l * (p_numWorkers P + 1) + p_numWorkers P"
  using assms(2-)
proof (induction "remaining P l" arbitrary: l t rule: less_induct)
  case less
  let ?lvl = "p_levels P ! l" and ?W = "p_numWorkers P"
  show ?case
  proof (cases "p_minParallel P < llength ?lvl")
    case True
    define as where "as = chunk_starts (start_idx ?lvl) (start_idx ?lvl + llength ?lvl) (chunk_round (llength ?lvl) ?W)"
    define t0 where "t0 = t\<lparr>t_lvl := l, t_chunks := length as, t_ready := 0\<rparr>"
    have free: "length (t_free t) = ?W" using less.prems(6,7) by (metis size_mset)
    have as: "length as \<le> ?W" "as \<noteq> []"
      unfolding as_def using P True by (simp_all add: chunks_le_workers chunk_starts_nonempty plan_ok_def)
    have "\<exists>t'. post_chunks P ?lvl (next_len P l) (start_idx ?lvl + llength ?lvl) (chunk_round (llength ?lvl) ?W) as t0 = Inr t' \<and>
      t_bufs t' = t_bufs t0 \<and> t_lvl t' = t_lvl t0 \<and> t_chunks t' = t_chunks t0 \<and> t_ready t' = t_ready t0 \<and> t_finished t' = t_finished t0 \<and>
      length (t_posted t') = length (t_posted t0) + length as \<and> (\<forall>m \<in> set (t_posted t'). sent_for P l (t_bufs t0) m) \<and>
      mset (t_free t') + mset (t_busy t') = ws \<and> mset (t_busy t') = mset (map m_worker (t_posted t'))"
      by (rule post_chunks_waiting [OF P less.prems(1)]) (use less.prems free as in \<open>simp_all add: t0_def\<close>)
    then obtain t' where post: "runLevel P l t = Inr t'" and t': "t_bufs t' = t_bufs t" "t_lvl t' = l" "t_chunks t' = length as"
      "t_ready t' = 0" "t_finished t' = 0" "length (t_posted t') = length as" "\<forall>m \<in> set (t_posted t'). sent_for P l (t_bufs t) m"
      "mset (t_free t') + mset (t_busy t') = ws" "mset (t_busy t') = mset (map m_worker (t_posted t'))"
      using less.prems True by (auto simp: runLevel.simps [of P l] as_def [symmetric] t0_def [symmetric] Let_def) (simp add: t0_def)
    have "waiting P ws goal t'"
      unfolding waiting_def using t' as less.prems True by (auto intro!: exI [of _ "t_bufs t"])
    moreover have "work P t' \<le> remaining P l * (?W + 1) + ?W" using t' as(1) by (simp add: work_def)
    ultimately show ?thesis using post by blast
  next
    case False
    define t1 where "t1 = t\<lparr>t_lvl := l, t_bufs := seqLvl (p_visit P) ?lvl (t_bufs t), t_chunks := 1, t_ready := 0\<rparr>"
    have run: "runLevel P l t = workerDone P t1"
      using False by (simp add: runLevel.simps [of P l] t1_def Let_def)
    have spec: "level_spec P l (t_bufs t) = t_bufs t1" using False by (simp add: level_spec_def t1_def)
    show ?thesis
    proof (cases "more P l")
      case True
      let ?t2 = "t1\<lparr>t_ready := 0\<rparr>"
      have step: "runLevel P l t = runLevel P (next_level P l) ?t2"
        using True by (simp add: run workerDone.simps t1_def)
      note rem = remaining_next [OF True]
      have "\<exists>t'. runLevel P (next_level P l) ?t2 = Inr t' \<and> (waiting P ws goal t' \<or> finished P ws goal t') \<and>
        work P t' \<le> remaining P (next_level P l) * (?W + 1) + ?W"
      proof (rule less.hyps)
        show "remaining P (next_level P l) < remaining P l" using rem by simp
        show "fold (level_spec P) (levels_from P (next_level P l)) (t_bufs ?t2) = goal"
          using less.prems(8) True by (simp add: levels_from_step [OF less.prems(1)] spec)
      qed (use less.prems True in \<open>simp_all add: t1_def next_level_less covers_seqLvl [OF P]\<close>)
      moreover have "remaining P (next_level P l) * (?W + 1) + ?W \<le> remaining P l * (?W + 1) + ?W"
        unfolding rem [symmetric] by simp
      ultimately show ?thesis unfolding step by (meson order_trans)
    next
      case no: False
      let ?t2 = "t1\<lparr>t_ready := 1, t_finished := 1\<rparr>"
      have "runLevel P l t = Inr ?t2"
        using no less.prems by (simp add: run workerDone.simps t1_def)
      moreover have "finished P ws goal ?t2"
        using no less.prems spec by (simp add: finished_def t1_def levels_from_step)
      moreover have "work P ?t2 = 0" using less.prems by (simp add: work_def t1_def)
      ultimately show ?thesis by auto
    qed
  qed
qed

lemma deliver_inv:
  assumes P: "plan_ok P" and w: "waiting P ws goal t" and k: "k < length (t_posted t)" and "size ws = p_numWorkers P"
  shows "\<exists>t'. deliver P k t = Inr t' \<and> (waiting P ws goal t' \<or> finished P ws goal t') \<and> work P t' < work P t"
proof -
  let ?l = "t_lvl t" and ?S = "p_sets P" and ?m = "t_posted t ! k"
  let ?lvl = "p_levels P ! ?l" and ?n = "next_len P ?l"
  from w obtain b where b: "fields_cover ?S (p_tree_size P) b" "fold (level_spec P) (levels_from P ?l) b = goal"
    "p_minParallel P < llength ?lvl" "\<forall>m \<in> set (t_posted t). sent_for P ?l b m"
    "t_bufs t = (if t_ready t = 0 then b else parallel_level ?S ?lvl ?n b)"
    and l: "?l < length (p_levels P)" and fin: "t_finished t = 0" and cnt: "t_ready t + length (t_posted t) = t_chunks t"
    and ms: "mset (t_free t) + mset (t_busy t) = ws" "mset (t_busy t) = mset (map m_worker (t_posted t))"
    unfolding waiting_def by blast
  have sz: "start_idx ?lvl + llength ?lvl + ?n \<le> p_tree_size P" and S: "sets_ok ?S"
    using P l by (simp_all add: plan_ok_def)
  let ?b' = "parallel_level ?S ?lvl ?n b"
  have m: "sent_for P ?l b ?m" using b(4) k by simp
  then have reply: "layout_worker (p_engine P) ?m = Some (map (\<lambda>f. (f, snapshot ?S ?lvl ?n b f)) (returnViews ?S))"
    unfolding layout_worker_def Let_def
    using S by (auto simp: sent_for_def sets_ok_def map_of_map_restrict intro!: those_map_Some)
  have wb: "write_back ?S ?lvl ?n (map (\<lambda>f. (f, snapshot ?S ?lvl ?n b f)) (returnViews ?S)) (t_bufs t) = Some ?b'"
    by (rule write_back_snapshot [OF S b(1) sz]) (simp add: b(5))
  define t1 where "t1 = t\<lparr>t_posted := take k (t_posted t) @ drop (Suc k) (t_posted t),
    t_busy := remove1 (m_worker ?m) (t_busy t), t_free := t_free t @ [m_worker ?m], t_bufs := ?b'\<rparr>"
  have d: "deliver P k t = workerDone P t1"
    using m wb by (simp add: deliver_def reply sent_for_def t1_def Let_def)
  have split: "t_posted t = take k (t_posted t) @ ?m # drop (Suc k) (t_posted t)" by (rule id_take_nth_drop [OF k])
  have "mset (map m_worker (t_posted t)) = mset (map m_worker (take k (t_posted t) @ ?m # drop (Suc k) (t_posted t)))"
    by (simp only: split [symmetric])
  also have "\<dots> = add_mset (m_worker ?m) (mset (map m_worker (t_posted t1)))" by (simp add: t1_def)
  finally have "mset (map m_worker (t_posted t)) = add_mset (m_worker ?m) (mset (map m_worker (t_posted t1)))" .
  then have busy: "mset (t_busy t) = add_mset (m_worker ?m) (mset (map m_worker (t_posted t1)))" using ms(2) by simp
  have ms1: "mset (t_busy t1) = mset (map m_worker (t_posted t1))" "mset (t_free t1) + mset (t_busy t1) = ws"
    using busy ms(1) by (simp_all add: t1_def)
  have same: "t_lvl t1 = t_lvl t" "t_finished t1 = t_finished t" "t_chunks t1 = t_chunks t" "t_bufs t1 = ?b'"
    by (simp_all add: t1_def)
  have len: "length (t_posted t) = Suc (length (t_posted t1))" using k by (simp add: t1_def)
  have sub: "set (t_posted t1) \<subseteq> set (t_posted t)" by (auto simp: t1_def dest: in_set_takeD in_set_dropD)
  show ?thesis
  proof (cases "t_posted t1 = []")
    case False
    then have "length (t_posted t1) \<noteq> 0" by simp
    then have "t_ready t + 1 \<noteq> t_chunks t" using cnt len by linarith
    then have wd: "workerDone P t1 = Inr (t1\<lparr>t_ready := t_ready t + 1\<rparr>)" by (simp add: workerDone.simps t1_def)
    have "waiting P ws goal (t1\<lparr>t_ready := t_ready t + 1\<rparr>)"
      unfolding waiting_def
    proof (intro conjI exI [of _ b])
      show "\<forall>m \<in> set (t_posted (t1\<lparr>t_ready := t_ready t + 1\<rparr>)). sent_for P (t_lvl (t1\<lparr>t_ready := t_ready t + 1\<rparr>)) b m"
        using b(4) sub by (simp add: same) blast
    qed (use False cnt len ms1(2) [unfolded ms1(1)] in \<open>simp_all add: fin l ms1(1) b same\<close>)
    moreover have "work P (t1\<lparr>t_ready := t_ready t + 1\<rparr>) < work P t" using len by (simp add: work_def) (simp add: t1_def)
    ultimately show ?thesis unfolding d wd by blast
  next
    case True
    then have last: "t_ready t + 1 = t_chunks t" using cnt len by simp
    have spec: "level_spec P ?l b = ?b'" using b(3) by (simp add: level_spec_def)
    have free: "mset (t_free t1) = ws" "t_busy t1 = []" using ms1 True by simp_all
    have w0: "remaining P ?l * (p_numWorkers P + 1) < work P t" using fin len by (simp add: work_def)
    show ?thesis
    proof (cases "more P ?l")
      case more: True
      note rem = remaining_next [OF more]
      have wd: "workerDone P t1 = runLevel P (next_level P ?l) (t1\<lparr>t_ready := 0\<rparr>)"
        using last more by (simp add: workerDone.simps t1_def)
      have "\<exists>t'. runLevel P (next_level P ?l) (t1\<lparr>t_ready := 0\<rparr>) = Inr t' \<and> (waiting P ws goal t' \<or> finished P ws goal t') \<and>
        work P t' \<le> remaining P (next_level P ?l) * (p_numWorkers P + 1) + p_numWorkers P"
      proof (rule run_level_inv [OF P next_level_less [OF l more]])
        show "fold (level_spec P) (levels_from P (next_level P ?l)) (t_bufs (t1\<lparr>t_ready := 0\<rparr>)) = goal"
          using b(2) more by (simp add: levels_from_step [OF l] spec) (simp add: t1_def)
        show "fields_cover ?S (p_tree_size P) (t_bufs (t1\<lparr>t_ready := 0\<rparr>))"
          using covers_parallel [OF b(1) sz] by (simp add: t1_def)
      qed (use True free fin assms(4) in \<open>simp_all add: t1_def\<close>)
      moreover have "remaining P (next_level P ?l) * (p_numWorkers P + 1) + p_numWorkers P < remaining P ?l * (p_numWorkers P + 1)"
        unfolding rem [symmetric] by simp
      ultimately show ?thesis unfolding d wd using w0 by (meson order_le_less_trans less_trans)
    next
      case no: False
      have wd: "workerDone P t1 = Inr (t1\<lparr>t_ready := t_chunks t, t_finished := 1\<rparr>)"
        using last no fin by (simp add: workerDone.simps t1_def)
      have "finished P ws goal (t1\<lparr>t_ready := t_chunks t, t_finished := 1\<rparr>)"
        using True free b(2) no by (simp add: finished_def levels_from_step [OF l] spec) (simp add: t1_def)
      moreover have "work P (t1\<lparr>t_ready := t_chunks t, t_finished := 1\<rparr>) = 0" using True by (simp add: work_def)
      ultimately show ?thesis unfolding d wd using w0 by auto
    qed
  qed
qed

section \<open>Runs\<close>

definition pass_start :: "plan \<Rightarrow> bufs \<Rightarrow> trav" where
  "pass_start P b = \<lparr>t_bufs = b, t_free = [0 ..< p_numWorkers P], t_busy = [], t_posted = [], t_lvl = 0, t_chunks = 0,
     t_ready = 0, t_finished = 0\<rparr>"

definition multicore :: run_cfg where
  "multicore = \<lparr>ignoreCL = True, webworkerLayout = True\<rparr>"

text \<open>The states of a pass: after the call, and after each answer, whichever comes next.\<close>

inductive pass_reach :: "nat \<Rightarrow> plan \<Rightarrow> bufs \<Rightarrow> trav \<Rightarrow> bool" for nvisits P b where
  call: "traverseAsync multicore level_range nvisits P (pass_start P b) = Inr t \<Longrightarrow> pass_reach nvisits P b t"
| answer: "pass_reach nvisits P b t \<Longrightarrow> k < length (t_posted t) \<Longrightarrow> deliver P k t = Inr t' \<Longrightarrow> pass_reach nvisits P b t'"

inductive_cases pass_reachE: "pass_reach nvisits P b t"

definition finish_once :: "plan \<Rightarrow> bufs \<Rightarrow> trav \<Rightarrow> bool" where
  "finish_once P goal t \<longleftrightarrow>
     (if t_posted t = [] then t_finished t = 1 \<and> t_bufs t = goal \<and> mset (t_free t) = mset [0 ..< p_numWorkers P]
      else t_finished t = 0 \<and>
        list_all (\<lambda>k. case deliver P k t of Inl e \<Rightarrow> False | Inr t' \<Rightarrow> work P t' < work P t) [0 ..< length (t_posted t)])"

lemma level_end:
  assumes "flatten sch data st = Inr (lv, st')" and "l < length lv"
  shows "start_idx (lv ! l) + llength (lv ! l) \<le> treeSize data"
proof -
  have "0 < llength (lv ! l)" using levels_partition [OF assms(1)] assms(2) by blast
  moreover from this have "in_level lv l (start_idx (lv ! l) + (llength (lv ! l) - 1))" using assms(2) by (simp add: in_level_def)
  from in_level_bound [OF assms(1) this] have "start_idx (lv ! l) + (llength (lv ! l) - 1) < treeSize data" .
  ultimately show ?thesis by linarith
qed

lemma tree_plan_ok:
  assumes "flatten sch data st = Inr (p_levels P, st')" and "p_tree_size P = treeSize data"
    and "p_sets P = visitFields wr rd" and "0 < p_numWorkers P" and "\<And>i b f. length (p_visit P i b f) = length (b f)"
  shows "plan_ok P \<and> p_levels P \<noteq> []"
proof -
  note lv = levels_partition [OF assms(1)]
  have "start_idx (p_levels P ! l) + llength (p_levels P ! l) + next_len P l \<le> p_tree_size P" if l: "l < length (p_levels P)" for l
  proof (cases "l + 1 < length (p_levels P)")
    case True
    have "start_idx (p_levels P ! (l + 1)) = start_idx (p_levels P ! l) + llength (p_levels P ! l)"
      using lv True by (simp add: take_Suc_conv_app_nth)
    then show ?thesis using level_end [OF assms(1) True] True by (simp add: next_len_def assms(2))
  next
    case False
    then show ?thesis using level_end [OF assms(1) l] by (simp add: next_len_def assms(2))
  qed
  then show ?thesis using assms lv by (simp add: plan_ok_def visitFields_ok)
qed

lemma traverse_runLevel: "p_visitNum P + 1 < nvisits \<Longrightarrow>
    traverseAsync multicore order nvisits P t = runLevel P (first_level P) t"
  by (simp add: traverseAsync_def multicore_def first_level_def)

lemma traverse_start:
  assumes "plan_ok P" "p_levels P \<noteq> []" "fields_cover (p_sets P) (p_tree_size P) b" "p_visitNum P + 1 < nvisits"
  shows "\<exists>t. traverseAsync multicore level_range nvisits P (pass_start P b) = Inr t \<and>
    (waiting P (mset [0 ..< p_numWorkers P]) (pass_spec P b) t \<or> finished P (mset [0 ..< p_numWorkers P]) (pass_spec P b) t)"
proof -
  have "first_level P < length (p_levels P)" using assms(2) by (auto simp: first_level_def split: direction.splits)
  then have "\<exists>t. runLevel P (first_level P) (pass_start P b) = Inr t \<and>
      (waiting P (mset [0 ..< p_numWorkers P]) (pass_spec P b) t \<or> finished P (mset [0 ..< p_numWorkers P]) (pass_spec P b) t) \<and>
      work P t \<le> remaining P (first_level P) * (p_numWorkers P + 1) + p_numWorkers P"
    by (rule run_level_inv [OF assms(1)]) (use assms(3) in \<open>simp_all add: pass_start_def pass_spec_def\<close>)
  then show ?thesis unfolding traverse_runLevel [OF assms(4)] by blast
qed

lemma pass_reach_inv:
  assumes "pass_reach nvisits P b t"
    and "plan_ok P" "p_levels P \<noteq> []" "fields_cover (p_sets P) (p_tree_size P) b" "p_visitNum P + 1 < nvisits"
  shows "waiting P (mset [0 ..< p_numWorkers P]) (pass_spec P b) t \<or> finished P (mset [0 ..< p_numWorkers P]) (pass_spec P b) t"
  using assms(1)
proof induction
  case (call t)
  then show ?case using traverse_start [OF assms(2-5)] by auto
next
  case (answer t k t')
  then have "waiting P (mset [0 ..< p_numWorkers P]) (pass_spec P b) t" by (auto simp: finished_def)
  from deliver_inv [OF assms(2) this answer(2)] answer(3) show ?case by (auto simp: size_mset)
qed

lemma inv_finish_once:
  assumes "plan_ok P" and "waiting P (mset [0 ..< p_numWorkers P]) goal t \<or> finished P (mset [0 ..< p_numWorkers P]) goal t"
  shows "finish_once P goal t"
  using assms(2)
proof
  assume w: "waiting P (mset [0 ..< p_numWorkers P]) goal t"
  have "case deliver P k t of Inl e \<Rightarrow> False | Inr t' \<Rightarrow> work P t' < work P t" if "k < length (t_posted t)" for k
    using deliver_inv [OF assms(1) w that] by (auto simp: size_mset)
  then show ?thesis using w by (auto simp: finish_once_def waiting_def list_all_iff)
next
  assume "finished P (mset [0 ..< p_numWorkers P]) goal t"
  then show ?thesis by (simp add: finish_once_def finished_def)
qed

text \<open>
  C8.  A multicore pass over a flattened tree always ends: in whichever order the workers answer, no
  answer fails and each brings the end nearer; there is always a free worker for a chunk; the
  callback runs exactly once, when no answer is outstanding and all workers are free again; and the
  fields then are those of \<open>pass_spec\<close>, whatever the order was.
\<close>

theorem multicore_pass:
  assumes "flatten sch data st = Inr (p_levels P, st')" and "p_tree_size P = treeSize data"
    and "p_sets P = visitFields wr rd" and "0 < p_numWorkers P" and "\<And>i b f. length (p_visit P i b f) = length (b f)"
    and "\<forall>f \<in> set (any (p_sets P)). treeSize data \<le> length (b f)" and "p_visitNum P + 1 < nvisits"
  shows "(\<exists>t. traverseAsync multicore level_range nvisits P (pass_start P b) = Inr t) \<and>
    (\<forall>t. pass_reach nvisits P b t \<longrightarrow> finish_once P (pass_spec P b) t)"
proof -
  have P: "plan_ok P" "p_levels P \<noteq> []" using tree_plan_ok [OF assms(1-5)] by simp_all
  have c: "fields_cover (p_sets P) (p_tree_size P) b" using assms(2,6) by (simp add: fields_cover_def)
  show ?thesis
    using traverse_start [OF P c assms(7)] pass_reach_inv [OF _ P c assms(7)] inv_finish_once [OF P(1)] by blast
qed

text \<open>Witness: a visit that numbers the nodes, on the small tree with two workers.\<close>

definition demo_visit :: "nat \<Rightarrow> bufs \<Rightarrow> bufs" where
  "demo_visit i b = b(''w'' := (b ''w'')[i := real i])"

definition demo_plan :: "level list \<Rightarrow> plan" where
  "demo_plan lv = \<lparr>p_direction = TopDown, p_levels = lv, p_numWorkers = 2, p_minParallel = 0, p_visitNum = 0,
     p_sets = visitFields [\<lparr>self = [''w''], child = []\<rparr>] [\<lparr>self = [], child = []\<rparr>], p_tree_size = 4,
     p_visit = demo_visit, p_engine = (\<lambda>_ _ _ bs. bs)\<rparr>"

definition demo_bufs :: bufs where
  "demo_bufs f = replicate 4 7"

lemma demo_plan_hyps: "p_levels (demo_plan lv) = lv" "p_tree_size (demo_plan lv) = treeSize demo_tree"
  "p_sets (demo_plan lv) = visitFields [\<lparr>self = [''w''], child = []\<rparr>] [\<lparr>self = [], child = []\<rparr>]"
  "0 < p_numWorkers (demo_plan lv)" "\<And>i b f. length (p_visit (demo_plan lv) i b f) = length (b f)"
  "\<forall>f \<in> set (any (p_sets (demo_plan lv))). treeSize demo_tree \<le> length (demo_bufs f)" "p_visitNum (demo_plan lv) + 1 < 2"
  by (simp_all add: demo_plan_def demo_treeSize demo_visit_def demo_bufs_def)

theorem multicore_pass_witness:
  "\<exists>lv st' t. flatten demo_schema demo_tree demo_flat = Inr (lv, st') \<and>
     traverseAsync multicore level_range 2 (demo_plan lv) (pass_start (demo_plan lv) demo_bufs) = Inr t \<and>
     finish_once (demo_plan lv) (pass_spec (demo_plan lv) demo_bufs) t"
proof -
  obtain lv st' where r: "flatten demo_schema demo_tree demo_flat = Inr (lv, st')" using demo_result by metis
  then have "flatten demo_schema demo_tree demo_flat = Inr (p_levels (demo_plan lv), st')" by (simp add: demo_plan_hyps)
  from multicore_pass [OF this demo_plan_hyps(2-7)]
  obtain t where "traverseAsync multicore level_range 2 (demo_plan lv) (pass_start (demo_plan lv) demo_bufs) = Inr t"
    "finish_once (demo_plan lv) (pass_spec (demo_plan lv) demo_bufs) t"
    using pass_reach.call by blast
  with r show ?thesis by blast
qed

section \<open>What the workers lose\<close>

lemma fold_cong_fun: "(\<And>l. l \<in> set ls \<Longrightarrow> f l = g l) \<Longrightarrow> fold f ls b = fold g ls b"
  by (rule fold_cong) simp_all

lemma parallel_field_nth:
  assumes "start_idx lvl + llength lvl + n \<le> length xs" and "i < length xs"
  shows "length (parallel_field S lvl n f xs) = length xs \<and> parallel_field S lvl n f xs ! i =
    (if (f \<in> set (self (writes S)) \<and> f \<notin> set (self (reads S)) \<and> start_idx lvl \<le> i \<and> i < start_idx lvl + llength lvl) \<or>
        (f \<in> set (child (writes S)) \<and> f \<notin> set (child (reads S)) \<and> start_idx lvl + llength lvl \<le> i \<and>
         i < start_idx lvl + llength lvl + n) then 0 else xs ! i)"
proof -
  have clear: "length (clear_range a k ys) = length ys \<and> (i < length ys \<longrightarrow>
      clear_range a k ys ! i = (if a \<le> i \<and> i < a + k then 0 else ys ! i))" if "a + k \<le> length ys" for a k ys
    using that by (auto simp: clear_range_def nth_append)
  show ?thesis
    using assms clear [of "start_idx lvl" "llength lvl" xs]
      clear [of "start_idx lvl + llength lvl" n "clear_range (start_idx lvl) (llength lvl) xs"]
      clear [of "start_idx lvl + llength lvl" n xs]
    by (auto simp: parallel_field_def Let_def)
qed

lemma cleared_levels:
  assumes "\<And>l. l \<in> set ls \<Longrightarrow> start_idx (lv l) + llength (lv l) + n l \<le> sz" and "sz \<le> length (b f)" and "i < sz"
    and f: "f \<in> set (self (writes S))" "f \<notin> set (self (reads S))"
    and "b f ! i = 0 \<or> (\<exists>l \<in> set ls. start_idx (lv l) \<le> i \<and> i < start_idx (lv l) + llength (lv l))"
  shows "fold (\<lambda>l. parallel_level S (lv l) (n l)) ls b f ! i = 0"
  using assms(1-3,6)
proof (induction ls arbitrary: b)
  case (Cons l ls)
  let ?b = "parallel_level S (lv l) (n l) b"
  have p: "length (?b f) = length (b f)" "?b f ! i = (if (start_idx (lv l) \<le> i \<and> i < start_idx (lv l) + llength (lv l)) \<or>
        (f \<in> set (child (writes S)) \<and> f \<notin> set (child (reads S)) \<and> start_idx (lv l) + llength (lv l) \<le> i \<and>
         i < start_idx (lv l) + llength (lv l) + n l) then 0 else b f ! i)"
    using parallel_field_nth [of "lv l" "n l" "b f" i S f] Cons.prems(1) [of l] Cons.prems(2,3) f
    by (auto simp: parallel_level_def)
  have "fold (\<lambda>l. parallel_level S (lv l) (n l)) ls ?b f ! i = 0"
    by (rule Cons.IH) (use Cons.prems p in auto)
  then show ?case by simp
qed simp

lemma position_in_level:
  assumes "flatten sch data st = Inr (lv, st')" and "i < treeSize data"
  obtains l where "l < length lv" "start_idx (lv ! l) \<le> i" "i < start_idx (lv ! l) + llength (lv ! l)"
proof -
  note p = levels_partition [OF assms(1)]
  have "\<exists>l < length lv. start_idx (lv ! l) \<le> i \<and> i < start_idx (lv ! l) + llength (lv ! l)"
  proof -
    have "k \<le> length lv \<Longrightarrow> i < sum_list (map llength (take k lv)) \<Longrightarrow>
        \<exists>l < k. start_idx (lv ! l) \<le> i \<and> i < start_idx (lv ! l) + llength (lv ! l)" for k
    proof (induction k)
      case (Suc k)
      then have "sum_list (map llength (take (Suc k) lv)) = start_idx (lv ! k) + llength (lv ! k)"
        using p by (simp add: take_Suc_conv_app_nth)
      with Suc p show ?case by (cases "start_idx (lv ! k) \<le> i") (auto simp: less_Suc_eq)
    qed simp
    from this [of "length lv"] show ?thesis using p assms(2) by simp
  qed
  then show ?thesis using that by blast
qed

text \<open>
  A level that is split among workers is not laid out: with every level long enough to be
  split, the fields after the pass do not depend on the visit at all, and at each level a field that
  the visit computes for the node itself, without reading it, is cleared to zeros.
\<close>

lemma workers_lose_layout:
  assumes "pass_reach nvisits P b t" and "t_posted t = []" and "flatten sch data st = Inr (p_levels P, st')"
    and "p_tree_size P = treeSize data" and "p_sets P = visitFields wr rd" and "0 < p_numWorkers P"
    and "\<And>i b f. length (p_visit P i b f) = length (b f)"
    and "\<forall>f \<in> set (any (p_sets P)). treeSize data \<le> length (b f)" and "p_visitNum P + 1 < nvisits"
    and "\<forall>lvl \<in> set (p_levels P). p_minParallel P < llength lvl"
  shows "t_bufs t = fold (\<lambda>l. parallel_level (p_sets P) (p_levels P ! l) (next_len P l)) (levels_from P (first_level P)) b \<and>
    t_bufs t = pass_spec (P\<lparr>p_visit := (\<lambda>i b. b)\<rparr>) b \<and>
    (\<forall>f \<in> set (self (writes (p_sets P))). \<forall>i < treeSize data. f \<notin> set (self (reads (p_sets P))) \<longrightarrow> t_bufs t f ! i = 0)"
proof -
  have P: "plan_ok P" "p_levels P \<noteq> []" using tree_plan_ok [OF assms(3-7)] by simp_all
  have c: "fields_cover (p_sets P) (p_tree_size P) b" using assms(4,8) by (simp add: fields_cover_def)
  have "t_bufs t = pass_spec P b"
    using pass_reach_inv [OF assms(1) P c assms(9)] assms(2) by (auto simp: waiting_def finished_def)
  moreover have lev: "set (levels_from P (first_level P)) \<subseteq> {..<length (p_levels P)}"
    using P(2) by (auto simp: levels_from_def first_level_def split: direction.splits)
  moreover have "level_spec P l = parallel_level (p_sets P) (p_levels P ! l) (next_len P l)" if "l < length (p_levels P)" for l
    using assms(10) that by (intro ext) (simp add: level_spec_def)
  moreover have "level_spec (P\<lparr>p_visit := (\<lambda>i b. b)\<rparr>) l = parallel_level (p_sets P) (p_levels P ! l) (next_len P l)"
    if "l < length (p_levels P)" for l
    using assms(10) that by (intro ext) (simp add: level_spec_def next_len_def)
  moreover have "levels_from (P\<lparr>p_visit := (\<lambda>i b. b)\<rparr>) (first_level (P\<lparr>p_visit := (\<lambda>i b. b)\<rparr>)) = levels_from P (first_level P)"
    by (cases "p_direction P") (simp_all add: levels_from_def first_level_def)
  ultimately have eq: "t_bufs t = fold (\<lambda>l. parallel_level (p_sets P) (p_levels P ! l) (next_len P l)) (levels_from P (first_level P)) b \<and>
      t_bufs t = pass_spec (P\<lparr>p_visit := (\<lambda>i b. b)\<rparr>) b"
    unfolding pass_spec_def by (auto intro!: fold_cong_fun)
  have "t_bufs t f ! i = 0"
    if f: "f \<in> set (self (writes (p_sets P)))" "f \<notin> set (self (reads (p_sets P)))" and i: "i < treeSize data" for f i
    unfolding conjunct1 [OF eq]
  proof (rule cleared_levels [OF _ _ _ f])
    show "treeSize data \<le> length (b f)" using assms(5,8) f by (auto simp: visitFields_def Let_def)
    obtain l where "l < length (p_levels P)" "start_idx (p_levels P ! l) \<le> i" "i < start_idx (p_levels P ! l) + llength (p_levels P ! l)"
      using position_in_level [OF assms(3) i] by blast
    moreover have "l \<in> set (levels_from P (first_level P))" if "l < length (p_levels P)" for l
      using that by (auto simp: levels_from_def first_level_def split: direction.splits)
    ultimately show "b f ! i = 0 \<or> (\<exists>l \<in> set (levels_from P (first_level P)).
        start_idx (p_levels P ! l) \<le> i \<and> i < start_idx (p_levels P ! l) + llength (p_levels P ! l))" by blast
  qed (use i lev P(1) assms(4) in \<open>auto simp: plan_ok_def\<close>)
  with eq show ?thesis by blast
qed

lemma pass_ends:
  assumes "pass_reach nvisits P b t"
    and "plan_ok P" "p_levels P \<noteq> []" "fields_cover (p_sets P) (p_tree_size P) b" "p_visitNum P + 1 < nvisits"
  shows "\<exists>t'. pass_reach nvisits P b t' \<and> t_posted t' = []"
  using assms(1)
proof (induction "work P t" arbitrary: t rule: less_induct)
  case less
  show ?case
  proof (cases "t_posted t")
    case (Cons m ms)
    then have w: "waiting P (mset [0 ..< p_numWorkers P]) (pass_spec P b) t"
      using pass_reach_inv [OF less.prems assms(2-5)] by (auto simp: finished_def)
    from deliver_inv [OF assms(2) w, of 0] Cons obtain t' where "deliver P 0 t = Inr t'" "work P t' < work P t"
      by (auto simp: size_mset)
    with less Cons show ?thesis using pass_reach.answer by fastforce
  qed (use less in blast)
qed

text \<open>Witness: the numbering of the small tree is lost, with the old values replaced by zeros.\<close>

lemma workers_lose_layout_witness:
  "\<exists>lv st' t. flatten demo_schema demo_tree demo_flat = Inr (lv, st') \<and> pass_reach 2 (demo_plan lv) demo_bufs t \<and>
     t_posted t = [] \<and> t_bufs t ''w'' ! 3 = 0 \<and> demo_bufs ''w'' ! 3 = 7"
proof -
  obtain lv st' where r: "flatten demo_schema demo_tree demo_flat = Inr (lv, st')"
    and lv: "lv = [\<lparr>start_idx = 0, llength = 1\<rparr>, \<lparr>start_idx = 1, llength = 3\<rparr>]"
    using demo_result by metis
  let ?P = "demo_plan lv"
  have r': "flatten demo_schema demo_tree demo_flat = Inr (p_levels ?P, st')" using r by (simp add: demo_plan_hyps)
  have P: "plan_ok ?P" "p_levels ?P \<noteq> []" using tree_plan_ok [OF r' demo_plan_hyps(2-5)] by simp_all
  have c: "fields_cover (p_sets ?P) (p_tree_size ?P) demo_bufs" using demo_plan_hyps(2,6) by (simp add: fields_cover_def)
  obtain t where t: "pass_reach 2 ?P demo_bufs t" "t_posted t = []"
    using traverse_start [OF P c demo_plan_hyps(7)] pass_ends [OF pass_reach.call P c demo_plan_hyps(7)] by blast
  have "\<forall>l \<in> set (p_levels ?P). p_minParallel ?P < llength l" by (simp add: demo_plan_def lv)
  from conjunct2 [OF conjunct2 [OF workers_lose_layout [OF t r' demo_plan_hyps(2-7) this]]]
  have "t_bufs t ''w'' ! 3 = 0"
    by (simp add: demo_plan_hyps(3) demo_treeSize visitFields_def reducer_def arrayToSet_def)
  with r t show ?thesis by (auto simp: demo_bufs_def)
qed

end
