(* ===== verification/TreemapStore.thy ===== *)
theory TreemapStore
  imports Canvas2D Traverse
begin

text \<open>
  What the emitted visits of \<open>examples/treemap/kernels.visualization.js\<close> work on: the fields of the
  layout, each a window of a typed array and known by its array and slot; the links and class
  tokens of the flattened tree; and the canvas.  A store converts the number to the type of the
  array: 32-bit integers wrap around, while single-precision numbers are exact reals here.  Indices
  are those of nodes, so no store falls outside its window.
\<close>

section \<open>State\<close>

datatype tfield = Slot (fbuf: hbuf) (fslot: nat)

record tm =
  vals :: "tfield \<Rightarrow> nat \<Rightarrow> real"
  nodeix :: "tfield \<Rightarrow> nat \<Rightarrow> nat"
  tokens :: "nat \<Rightarrow> nat"
  screen :: canvas2d

definition get :: "tfield \<Rightarrow> nat \<Rightarrow> tm \<Rightarrow> real" where
  "get f i s = vals s f i"

definition convert :: "tfield \<Rightarrow> real \<Rightarrow> real" where
  "convert f v = (if fbuf f = IntBuf then of_int (sint (toInt32 v)) else v)"

definition put :: "tfield \<Rightarrow> nat \<Rightarrow> real \<Rightarrow> tm \<Rightarrow> tm" where
  "put f i v s = s\<lparr>vals := (vals s)(f := (vals s f)(i := convert f v))\<rparr>"

text \<open>An assignment \<open>this.f[i] = e\<close>, and one whose right-hand side also paints.\<close>

definition assign :: "tfield \<Rightarrow> nat \<Rightarrow> (tm \<Rightarrow> real) \<Rightarrow> tm \<Rightarrow> tm" where
  "assign f i e s = put f i (e s) s"

definition paint :: "tfield \<Rightarrow> nat \<Rightarrow> (tm \<Rightarrow> canvas2d \<Rightarrow> real \<times> canvas2d) \<Rightarrow> tm \<Rightarrow> tm" where
  "paint f i e s = (case e s (screen s) of (v, c) \<Rightarrow> put f i v (s\<lparr>screen := c\<rparr>))"

primrec run_all :: "(tm \<Rightarrow> tm) list \<Rightarrow> tm \<Rightarrow> tm" where
  "run_all [] s = s"
| "run_all (c # cs) s = run_all cs (c s)"

section \<open>The loop over the children\<close>

definition GetAbsoluteIndex :: "nat \<Rightarrow> nat \<Rightarrow> nat" where
  "GetAbsoluteIndex rel ref = (if rel = 0 then 0 else rel + ref)"

definition right_siblings_fld :: tfield where "right_siblings_fld = Slot NodeBuf 6"

definition first_child :: "tfield \<Rightarrow> nat \<Rightarrow> tm \<Rightarrow> nat" where
  "first_child f i s = GetAbsoluteIndex (nodeix s f i) i"

definition next_sibling :: "nat \<Rightarrow> tm \<Rightarrow> nat" where
  "next_sibling cur s = GetAbsoluteIndex (nodeix s right_siblings_fld cur) cur"

text \<open>The nodes the loop visits; \<open>k\<close> bounds its rounds.\<close>

fun walk :: "nat \<Rightarrow> tm \<Rightarrow> nat \<Rightarrow> nat list" where
  "walk 0 s cur = []"
| "walk (Suc k) s cur = (if cur = 0 then [] else cur # walk k s (next_sibling cur s))"

fun each :: "(nat \<Rightarrow> nat \<Rightarrow> nat \<Rightarrow> tm \<Rightarrow> tm) \<Rightarrow> nat \<Rightarrow> nat \<Rightarrow> nat list \<Rightarrow> tm \<Rightarrow> tm" where
  "each body step prev [] s = s"
| "each body step prev (cur # cs) s = each body (step + 1) cur cs (body (step + 1) prev cur s)"

definition kids_of :: "nat \<Rightarrow> tfield \<Rightarrow> nat \<Rightarrow> tm \<Rightarrow> nat list" where
  "kids_of n f i s = walk n s (first_child f i s)"

text \<open>A sibling link leads to the right, so that \<open>n\<close> rounds, the size of the tree, are enough.\<close>

definition for_children :: "nat \<Rightarrow> tfield \<Rightarrow> nat \<Rightarrow> (nat \<Rightarrow> nat \<Rightarrow> nat \<Rightarrow> tm \<Rightarrow> tm) \<Rightarrow> tm \<Rightarrow> tm" where
  "for_children n f i body s = each body 0 0 (kids_of n f i s) s"

lemma walk_0 [simp]: "walk k s 0 = []"
  by (cases k) simp_all

lemma next_sibling_right: "next_sibling c s = 0 \<or> c < next_sibling c s"
  by (simp add: next_sibling_def GetAbsoluteIndex_def)

lemma walk_increasing: "cur \<in> set (walk k s c) \<Longrightarrow> 0 < cur \<and> c \<le> cur"
proof (induction k arbitrary: c)
  case (Suc k)
  then have "c \<noteq> 0" by (cases "c = 0") simp_all
  with Suc.prems consider "cur = c" | "cur \<in> set (walk k s (next_sibling c s))" by auto
  then show ?case
  proof cases
    case 2
    with Suc.IH [OF this] next_sibling_right [of c s] show ?thesis by auto
  qed (use \<open>c \<noteq> 0\<close> in simp)
qed simp

lemma walk_sorted: "sorted_wrt (<) (walk k s c)"
proof (induction k arbitrary: c)
  case (Suc k)
  have "c < x" if "x \<in> set (walk k s (next_sibling c s))" for x
    using walk_increasing [OF that] next_sibling_right [of c s] that by (cases "next_sibling c s = 0") auto
  then show ?case using Suc by simp
qed simp

lemma walk_distinct: "distinct (walk k s c)"
  using walk_sorted strict_sorted_iff by blast

lemma walk_enough:
  assumes "\<And>i. i < n \<Longrightarrow> next_sibling i s < n"
  shows "c < n \<Longrightarrow> n - c \<le> k \<Longrightarrow> walk k s c = walk n s c"
proof (induction "n - c" arbitrary: c k rule: less_induct)
  case less
  obtain k' where k: "k = Suc k'" using less.prems by (cases k) simp_all
  obtain m where m: "n = Suc m" using less.prems(1) by (cases n) simp_all
  let ?c = "next_sibling c s"
  have "walk k' s ?c = walk m s ?c"
  proof (cases "?c = 0")
    case False
    with next_sibling_right [of c s] have "c < ?c" by simp
    then have c: "n - ?c < n - c" "n - ?c \<le> k'" "n - ?c \<le> m" using less.prems k m by linarith+
    note IH = less.hyps [OF c(1) assms [OF less.prems(1)]]
    from IH [OF c(2)] IH [OF c(3)] show ?thesis by (simp only:)
  qed simp
  then show ?case by (simp add: k m)
qed

text \<open>The rounds are enough when the links stay in the tree.\<close>

lemma kids_of_all:
  assumes "\<And>i. i < n \<Longrightarrow> next_sibling i s < n" and "first_child f i s < n" and "n \<le> k"
  shows "kids_of k f i s = kids_of n f i s"
  using walk_enough [of n s "first_child f i s" k] assms by (simp add: kids_of_def)

section \<open>What statements change\<close>

lemma get_put [simp]: "get g j (put f i v s) = (if g = f \<and> j = i then convert f v else get g j s)"
  by (simp add: get_def put_def)

lemma put_links [simp]: "nodeix (put f i v s) = nodeix s" "tokens (put f i v s) = tokens s" "screen (put f i v s) = screen s"
  by (simp_all add: put_def)

definition keeps_links :: "tm \<Rightarrow> tm \<Rightarrow> bool" where
  "keeps_links s t \<longleftrightarrow> nodeix s = nodeix t \<and> tokens s = tokens t"

lemma keeps_links_kids: "keeps_links s t \<Longrightarrow> kids_of n f i s = kids_of n f i t"
proof -
  assume l: "keeps_links s t"
  have "walk k s c = walk k t c" for k c
    using l by (induction k arbitrary: c) (simp_all add: keeps_links_def next_sibling_def)
  then show ?thesis using l by (simp add: kids_of_def first_child_def keeps_links_def)
qed

text \<open>A loop, by an invariant over the children already visited.\<close>

lemma each_induct:
  assumes "I [] s" and "\<And>done c rest s. cs = done @ c # rest \<Longrightarrow> I done s \<Longrightarrow>
    I (done @ [c]) (body (Suc (length done)) (if done = [] then 0 else last done) c s)"
  shows "I cs (each body 0 0 cs s)"
proof -
  have "cs = done @ rest \<Longrightarrow> I done s \<Longrightarrow> I cs (each body (length done) (if done = [] then 0 else last done) rest s)" for "done" rest s
  proof (induction rest arbitrary: "done" s)
    case (Cons c rest)
    have "I (done @ [c]) (body (Suc (length done)) (if done = [] then 0 else last done) c s)"
      by (rule assms(2) [OF Cons.prems])
    from Cons.IH [OF _ this] Cons.prems(1) show ?case by simp
  qed simp
  from this [of "[]" cs s] assms(1) show ?thesis by simp
qed

section \<open>Frames\<close>

text \<open>\<open>t\<close> has the links of \<open>s\<close> and differs from it in \<open>W\<close> only; a statement that behaves so in every state with the links of \<open>s\<close>.\<close>

definition frame :: "(tfield \<times> nat) set \<Rightarrow> tm \<Rightarrow> tm \<Rightarrow> bool" where
  "frame W s t \<longleftrightarrow> keeps_links t s \<and> (\<forall>g j. (g, j) \<notin> W \<longrightarrow> get g j t = get g j s)"

definition frames :: "(tfield \<times> nat) set \<Rightarrow> tm \<Rightarrow> (tm \<Rightarrow> tm) \<Rightarrow> bool" where
  "frames W s c \<longleftrightarrow> (\<forall>s'. keeps_links s' s \<longrightarrow> frame W s' (c s'))"

lemma keeps_links_refl [simp]: "keeps_links s s"
  by (simp add: keeps_links_def)

lemma keeps_links_trans: "keeps_links s t \<Longrightarrow> keeps_links t u \<Longrightarrow> keeps_links s u"
  by (simp add: keeps_links_def)

lemma frame_refl [simp]: "frame W s s"
  by (simp add: frame_def)

lemma frame_trans: "frame W s t \<Longrightarrow> frame W t u \<Longrightarrow> frame W s u"
  by (simp add: frame_def keeps_links_def)

lemma frame_mono: "frame V s t \<Longrightarrow> V \<subseteq> W \<Longrightarrow> frame W s t"
  unfolding frame_def by blast

lemma frame_get: "frame W s t \<Longrightarrow> (g, j) \<notin> W \<Longrightarrow> get g j t = get g j s"
  by (simp add: frame_def)

lemma frame_links: "frame W s t \<Longrightarrow> keeps_links t s"
  by (simp add: frame_def)

lemma frame_kids: "frame W s t \<Longrightarrow> kids_of n f i t = kids_of n f i s"
  using keeps_links_kids frame_links by blast

lemma frames_D: "frames W s c \<Longrightarrow> frame W s (c s)"
  by (simp add: frames_def)

lemma frames_mono: "frames V s c \<Longrightarrow> V \<subseteq> W \<Longrightarrow> frames W s c"
  unfolding frames_def using frame_mono by blast

lemma frames_assign: "(f, i) \<in> W \<Longrightarrow> frames W s (assign f i e)"
  by (auto simp: frames_def frame_def assign_def keeps_links_def)

lemma frames_paint: "(f, i) \<in> W \<Longrightarrow> frames W s (paint f i e)"
  by (auto simp: frames_def frame_def paint_def keeps_links_def get_def put_def split: prod.split)

lemma frames_Nil: "frames W s (run_all [])"
  by (simp add: frames_def)

lemma frames_seq:
  assumes "frames W s c" and "frames W s d"
  shows "frames W s (\<lambda>s. d (c s))"
  unfolding frames_def
proof (intro allI impI)
  fix s' assume l: "keeps_links s' s"
  have c: "frame W s' (c s')" using assms(1) l by (simp add: frames_def)
  have "keeps_links (c s') s" by (rule keeps_links_trans [OF frame_links [OF c] l])
  with assms(2) have "frame W (c s') (d (c s'))" by (simp add: frames_def)
  then show "frame W s' (d (c s'))" by (rule frame_trans [OF c])
qed

lemma frames_Cons: "frames W s c \<Longrightarrow> frames W s (run_all cs) \<Longrightarrow> frames W s (run_all (c # cs))"
  using frames_seq [of W s c "run_all cs"] by (simp add: frames_def)

lemma frames_each: "(\<And>st p c. c \<in> set cs \<Longrightarrow> frames W s (body st p c)) \<Longrightarrow> frames W s (each body st p cs)"
proof (induction cs arbitrary: st p)
  case (Cons c cs)
  then have "frames W s (body (st + 1) p c)" "frames W s (each body (st + 1) c cs)" by simp_all
  from frames_seq [OF this] show ?case by (simp add: frames_def)
qed (simp add: frames_def)

lemma frames_for_children:
  assumes "\<And>st p c. c \<in> set (kids_of n f i s) \<Longrightarrow> frames W s (body st p c)"
  shows "frames W s (for_children n f i body)"
proof -
  have "for_children n f i body s' = each body 0 0 (kids_of n f i s) s'" if "keeps_links s' s" for s'
    using keeps_links_kids [OF that] by (simp add: for_children_def)
  with frames_each [of "kids_of n f i s" W s body 0 0] assms show ?thesis by (simp add: frames_def)
qed

lemmas frames_intros = frames_Nil frames_Cons frames_for_children frames_assign frames_paint

lemma run_all_append: "run_all (cs @ ds) s = run_all ds (run_all cs s)"
  by (induction cs arbitrary: s) simp_all

lemma frames_run: "(\<And>c. c \<in> set cs \<Longrightarrow> frames W s c) \<Longrightarrow> frames W s (run_all cs)"
  by (induction cs) (simp_all add: frames_Nil frames_Cons del: run_all.simps)

section \<open>Passes over all nodes\<close>

lemma fold_levels: "fold (seqLvl v) lv s = fold v (concat (map level_range lv)) s"
  by (induction lv arbitrary: s) (simp_all add: seqLvl_def)

lemma fold_induct:
  assumes "I [] s" and "\<And>done x rest s. xs = done @ x # rest \<Longrightarrow> I done s \<Longrightarrow> I (done @ [x]) (v x s)"
  shows "I xs (fold v xs s)"
proof -
  have "xs = done @ rest \<Longrightarrow> I done s \<Longrightarrow> I xs (fold v rest s)" for "done" rest s
  proof (induction rest arbitrary: "done" s)
    case (Cons x rest)
    have "I (done @ [x]) (v x s)" by (rule assms(2) [OF Cons.prems])
    from Cons.IH [OF _ this] Cons.prems(1) show ?case by simp
  qed simp
  from this [of "[]" xs s] assms(1) show ?thesis by simp
qed

end
