(* ===== verification/TreemapVisits.thy ===== *)
theory TreemapVisits
  imports TreemapStore
begin

text \<open>
  The layout engine of \<open>examples/treemap/kernels.visualization.js\<close>: one definition per emitted
  function, in the order of the file.  Fields keep their names, with the runs of underscores
  shortened.  A drawing function of the canvas returns \<open>undefined\<close>, as do the functions for sizes,
  and an integer array stores it as 0.  The argument \<open>glBufferMacro(index)\<close> is not used by them.
  Numbers are exact reals: a quotient by 0, which JavaScript makes NaN or infinite, is 0 here, so that
  what is stated of the tiles that \<open>visit_2\<close> divides excludes a magnitude of 0.
\<close>

section \<open>Fields\<close>

definition fld_countrycontainer_child_childs_leftmost_child :: tfield where "fld_countrycontainer_child_childs_leftmost_child = Slot NodeBuf 1"
definition fld_countrycontainer_childs_rx_init :: tfield where "fld_countrycontainer_childs_rx_init = Slot FloatBuf 29"
definition fld_countrycontainer_childs_rx_last :: tfield where "fld_countrycontainer_childs_rx_last = Slot FloatBuf 30"
definition fld_countrycontainer_childs_renderrightoffset_init :: tfield where "fld_countrycontainer_childs_renderrightoffset_init = Slot IntBuf 29"
definition fld_countrycontainer_childs_renderrightoffset_last :: tfield where "fld_countrycontainer_childs_renderrightoffset_last = Slot IntBuf 30"
definition fld_countrycontainer_totalmag_init :: tfield where "fld_countrycontainer_totalmag_init = Slot FloatBuf 25"
definition fld_countrycontainer_childsrendersize :: tfield where "fld_countrycontainer_childsrendersize = Slot IntBuf 15"
definition fld_countrycontainer_childsrendersize_init :: tfield where "fld_countrycontainer_childsrendersize_init = Slot IntBuf 25"
definition fld_countrycontainer_draw :: tfield where "fld_countrycontainer_draw = Slot IntBuf 18"
definition fld_countrycontainer_draw_0 :: tfield where "fld_countrycontainer_draw_0 = Slot IntBuf 17"
definition fld_countrycontainer_selfrendersize :: tfield where "fld_countrycontainer_selfrendersize = Slot IntBuf 19"
definition fld_countrycontainer_selfrendersize_0 :: tfield where "fld_countrycontainer_selfrendersize_0 = Slot IntBuf 16"
definition fld_countrycontainer_votesur_init :: tfield where "fld_countrycontainer_votesur_init = Slot IntBuf 27"
definition fld_district_child_childs_leftmost_child :: tfield where "fld_district_child_childs_leftmost_child = Slot NodeBuf 3"
definition fld_district_childs_rx_init :: tfield where "fld_district_childs_rx_init = Slot FloatBuf 69"
definition fld_district_childs_rx_last :: tfield where "fld_district_childs_rx_last = Slot FloatBuf 70"
definition fld_district_childs_renderrightoffset_init :: tfield where "fld_district_childs_renderrightoffset_init = Slot IntBuf 59"
definition fld_district_childs_renderrightoffset_last :: tfield where "fld_district_childs_renderrightoffset_last = Slot IntBuf 60"
definition fld_district_totalmag_init :: tfield where "fld_district_totalmag_init = Slot FloatBuf 65"
definition fld_district_childsrendersize :: tfield where "fld_district_childsrendersize = Slot IntBuf 45"
definition fld_district_childsrendersize_init :: tfield where "fld_district_childsrendersize_init = Slot IntBuf 55"
definition fld_district_draw :: tfield where "fld_district_draw = Slot IntBuf 48"
definition fld_district_draw_0 :: tfield where "fld_district_draw_0 = Slot IntBuf 47"
definition fld_district_selfrendersize :: tfield where "fld_district_selfrendersize = Slot IntBuf 49"
definition fld_district_selfrendersize_0 :: tfield where "fld_district_selfrendersize_0 = Slot IntBuf 46"
definition fld_district_votesur_init :: tfield where "fld_district_votesur_init = Slot IntBuf 57"
definition fld_hsquare_child_childs_leftmost_child :: tfield where "fld_hsquare_child_childs_leftmost_child = Slot NodeBuf 5"
definition fld_hsquare_childs_rx_init :: tfield where "fld_hsquare_childs_rx_init = Slot FloatBuf 109"
definition fld_hsquare_childs_rx_last :: tfield where "fld_hsquare_childs_rx_last = Slot FloatBuf 110"
definition fld_hsquare_childs_renderrightoffset_init :: tfield where "fld_hsquare_childs_renderrightoffset_init = Slot IntBuf 87"
definition fld_hsquare_childs_renderrightoffset_last :: tfield where "fld_hsquare_childs_renderrightoffset_last = Slot IntBuf 88"
definition fld_hsquare_totalmag_init :: tfield where "fld_hsquare_totalmag_init = Slot FloatBuf 105"
definition fld_hsquare_childsrendersize :: tfield where "fld_hsquare_childsrendersize = Slot IntBuf 75"
definition fld_hsquare_childsrendersize_init :: tfield where "fld_hsquare_childsrendersize_init = Slot IntBuf 83"
definition fld_hsquare_draw :: tfield where "fld_hsquare_draw = Slot IntBuf 76"
definition fld_hsquare_selfrendersize :: tfield where "fld_hsquare_selfrendersize = Slot IntBuf 77"
definition fld_hsquare_votesur_init :: tfield where "fld_hsquare_votesur_init = Slot IntBuf 85"
definition fld_iroot_fixwidth :: tfield where "fld_iroot_fixwidth = Slot IntBuf 4"
definition fld_iroot_height :: tfield where "fld_iroot_height = Slot FloatBuf 3"
definition fld_iroot_maxturnout :: tfield where "fld_iroot_maxturnout = Slot FloatBuf 5"
definition fld_iroot_minturnout :: tfield where "fld_iroot_minturnout = Slot FloatBuf 2"
definition fld_iroot_showfraud :: tfield where "fld_iroot_showfraud = Slot FloatBuf 8"
definition fld_iroot_showjavascript :: tfield where "fld_iroot_showjavascript = Slot FloatBuf 7"
definition fld_iroot_showprojected :: tfield where "fld_iroot_showprojected = Slot FloatBuf 4"
definition fld_iroot_totalmag :: tfield where "fld_iroot_totalmag = Slot FloatBuf 0"
definition fld_iroot_dorenderinglast :: tfield where "fld_iroot_dorenderinglast = Slot IntBuf 3"
definition fld_iroot_renderoffset :: tfield where "fld_iroot_renderoffset = Slot IntBuf 1"
definition fld_iroot_renderrightoffset :: tfield where "fld_iroot_renderrightoffset = Slot IntBuf 0"
definition fld_iroot_rendersize :: tfield where "fld_iroot_rendersize = Slot IntBuf 2"
definition fld_iroot_votesur :: tfield where "fld_iroot_votesur = Slot FloatBuf 1"
definition fld_iroot_width :: tfield where "fld_iroot_width = Slot FloatBuf 6"
definition fld_node_by :: tfield where "fld_node_by = Slot FloatBuf 12"
definition fld_node_fixwidth :: tfield where "fld_node_fixwidth = Slot IntBuf 6"
definition fld_node_h :: tfield where "fld_node_h = Slot FloatBuf 13"
definition fld_node_maxturnout :: tfield where "fld_node_maxturnout = Slot FloatBuf 10"
definition fld_node_minturnout :: tfield where "fld_node_minturnout = Slot FloatBuf 14"
definition fld_node_rx :: tfield where "fld_node_rx = Slot FloatBuf 17"
definition fld_node_showfraud :: tfield where "fld_node_showfraud = Slot FloatBuf 19"
definition fld_node_showjavascript :: tfield where "fld_node_showjavascript = Slot FloatBuf 11"
definition fld_node_showprojected :: tfield where "fld_node_showprojected = Slot FloatBuf 16"
definition fld_node_totalmag :: tfield where "fld_node_totalmag = Slot FloatBuf 9"
definition fld_node_dorenderinglast :: tfield where "fld_node_dorenderinglast = Slot IntBuf 7"
definition fld_node_renderoffset :: tfield where "fld_node_renderoffset = Slot IntBuf 8"
definition fld_node_renderrightoffset :: tfield where "fld_node_renderrightoffset = Slot IntBuf 5"
definition fld_node_rendersize :: tfield where "fld_node_rendersize = Slot IntBuf 10"
definition fld_node_votesur :: tfield where "fld_node_votesur = Slot IntBuf 9"
definition fld_node_w :: tfield where "fld_node_w = Slot FloatBuf 15"
definition fld_node_x :: tfield where "fld_node_x = Slot FloatBuf 20"
definition fld_node_y :: tfield where "fld_node_y = Slot FloatBuf 18"
definition fld_pollingplace_calcfraudcolor :: tfield where "fld_pollingplace_calcfraudcolor = Slot IntBuf 95"
definition fld_pollingplace_calcprojectedcolor :: tfield where "fld_pollingplace_calcprojectedcolor = Slot IntBuf 102"
definition fld_pollingplace_calcregularcolor :: tfield where "fld_pollingplace_calcregularcolor = Slot IntBuf 99"
definition fld_pollingplace_calcvotescolor :: tfield where "fld_pollingplace_calcvotescolor = Slot IntBuf 101"
definition fld_pollingplace_defcolor :: tfield where "fld_pollingplace_defcolor = Slot IntBuf 89"
definition fld_pollingplace_fraudcolor :: tfield where "fld_pollingplace_fraudcolor = Slot IntBuf 93"
definition fld_pollingplace_injavascript :: tfield where "fld_pollingplace_injavascript = Slot IntBuf 90"
definition fld_pollingplace_magnitude :: tfield where "fld_pollingplace_magnitude = Slot FloatBuf 124"
definition fld_pollingplace_totalvotes :: tfield where "fld_pollingplace_totalvotes = Slot IntBuf 92"
definition fld_pollingplace_totalvotesur :: tfield where "fld_pollingplace_totalvotesur = Slot IntBuf 94"
definition fld_pollingplace_turnout :: tfield where "fld_pollingplace_turnout = Slot FloatBuf 122"
definition fld_pollingplace_urcolor :: tfield where "fld_pollingplace_urcolor = Slot IntBuf 91"
definition fld_pollingplace_urvotes :: tfield where "fld_pollingplace_urvotes = Slot FloatBuf 123"
definition fld_pollingplace_urvotesprojected :: tfield where "fld_pollingplace_urvotesprojected = Slot FloatBuf 121"
definition fld_pollingplace_draw :: tfield where "fld_pollingplace_draw = Slot IntBuf 98"
definition fld_pollingplace_draw_0 :: tfield where "fld_pollingplace_draw_0 = Slot IntBuf 97"
definition fld_pollingplace_selfrendersize :: tfield where "fld_pollingplace_selfrendersize = Slot IntBuf 100"
definition fld_pollingplace_selfrendersize_0 :: tfield where "fld_pollingplace_selfrendersize_0 = Slot IntBuf 96"
definition fld_region_child_childs_leftmost_child :: tfield where "fld_region_child_childs_leftmost_child = Slot NodeBuf 2"
definition fld_region_childs_by_init :: tfield where "fld_region_childs_by_init = Slot FloatBuf 47"
definition fld_region_childs_by_last :: tfield where "fld_region_childs_by_last = Slot FloatBuf 48"
definition fld_region_childs_renderrightoffset_init :: tfield where "fld_region_childs_renderrightoffset_init = Slot IntBuf 43"
definition fld_region_childs_renderrightoffset_last :: tfield where "fld_region_childs_renderrightoffset_last = Slot IntBuf 44"
definition fld_region_totalmag_init :: tfield where "fld_region_totalmag_init = Slot FloatBuf 45"
definition fld_region_childsrendersize :: tfield where "fld_region_childsrendersize = Slot IntBuf 31"
definition fld_region_childsrendersize_init :: tfield where "fld_region_childsrendersize_init = Slot IntBuf 39"
definition fld_region_draw :: tfield where "fld_region_draw = Slot IntBuf 32"
definition fld_region_selfrendersize :: tfield where "fld_region_selfrendersize = Slot IntBuf 33"
definition fld_region_votesur_init :: tfield where "fld_region_votesur_init = Slot IntBuf 41"
definition fld_root_child_childs_leftmost_child :: tfield where "fld_root_child_childs_leftmost_child = Slot NodeBuf 0"
definition fld_root_childsrendersize :: tfield where "fld_root_childsrendersize = Slot IntBuf 11"
definition fld_root_draw :: tfield where "fld_root_draw = Slot IntBuf 12"
definition fld_root_selfrendersize :: tfield where "fld_root_selfrendersize = Slot IntBuf 13"
definition fld_vsquare_child_childs_leftmost_child :: tfield where "fld_vsquare_child_childs_leftmost_child = Slot NodeBuf 4"
definition fld_vsquare_childs_by_init :: tfield where "fld_vsquare_childs_by_init = Slot FloatBuf 87"
definition fld_vsquare_childs_by_last :: tfield where "fld_vsquare_childs_by_last = Slot FloatBuf 88"
definition fld_vsquare_childs_renderrightoffset_init :: tfield where "fld_vsquare_childs_renderrightoffset_init = Slot IntBuf 73"
definition fld_vsquare_childs_renderrightoffset_last :: tfield where "fld_vsquare_childs_renderrightoffset_last = Slot IntBuf 74"
definition fld_vsquare_totalmag_init :: tfield where "fld_vsquare_totalmag_init = Slot FloatBuf 85"
definition fld_vsquare_childsrendersize :: tfield where "fld_vsquare_childsrendersize = Slot IntBuf 61"
definition fld_vsquare_childsrendersize_init :: tfield where "fld_vsquare_childsrendersize_init = Slot IntBuf 69"
definition fld_vsquare_draw :: tfield where "fld_vsquare_draw = Slot IntBuf 62"
definition fld_vsquare_selfrendersize :: tfield where "fld_vsquare_selfrendersize = Slot IntBuf 63"
definition fld_vsquare_votesur_init :: tfield where "fld_vsquare_votesur_init = Slot IntBuf 71"

lemmas fld_defs = fld_countrycontainer_child_childs_leftmost_child_def fld_countrycontainer_childs_rx_init_def
  fld_countrycontainer_childs_rx_last_def fld_countrycontainer_childs_renderrightoffset_init_def
  fld_countrycontainer_childs_renderrightoffset_last_def fld_countrycontainer_totalmag_init_def
  fld_countrycontainer_childsrendersize_def fld_countrycontainer_childsrendersize_init_def
  fld_countrycontainer_draw_def fld_countrycontainer_draw_0_def
  fld_countrycontainer_selfrendersize_def fld_countrycontainer_selfrendersize_0_def
  fld_countrycontainer_votesur_init_def fld_district_child_childs_leftmost_child_def
  fld_district_childs_rx_init_def fld_district_childs_rx_last_def
  fld_district_childs_renderrightoffset_init_def fld_district_childs_renderrightoffset_last_def
  fld_district_totalmag_init_def fld_district_childsrendersize_def
  fld_district_childsrendersize_init_def fld_district_draw_def fld_district_draw_0_def
  fld_district_selfrendersize_def fld_district_selfrendersize_0_def
  fld_district_votesur_init_def fld_hsquare_child_childs_leftmost_child_def
  fld_hsquare_childs_rx_init_def fld_hsquare_childs_rx_last_def
  fld_hsquare_childs_renderrightoffset_init_def fld_hsquare_childs_renderrightoffset_last_def
  fld_hsquare_totalmag_init_def fld_hsquare_childsrendersize_def
  fld_hsquare_childsrendersize_init_def fld_hsquare_draw_def fld_hsquare_selfrendersize_def
  fld_hsquare_votesur_init_def fld_iroot_fixwidth_def fld_iroot_height_def
  fld_iroot_maxturnout_def fld_iroot_minturnout_def fld_iroot_showfraud_def
  fld_iroot_showjavascript_def fld_iroot_showprojected_def fld_iroot_totalmag_def
  fld_iroot_dorenderinglast_def fld_iroot_renderoffset_def fld_iroot_renderrightoffset_def
  fld_iroot_rendersize_def fld_iroot_votesur_def fld_iroot_width_def fld_node_by_def
  fld_node_fixwidth_def fld_node_h_def fld_node_maxturnout_def fld_node_minturnout_def
  fld_node_rx_def fld_node_showfraud_def fld_node_showjavascript_def fld_node_showprojected_def
  fld_node_totalmag_def fld_node_dorenderinglast_def fld_node_renderoffset_def
  fld_node_renderrightoffset_def fld_node_rendersize_def fld_node_votesur_def fld_node_w_def
  fld_node_x_def fld_node_y_def fld_pollingplace_calcfraudcolor_def
  fld_pollingplace_calcprojectedcolor_def fld_pollingplace_calcregularcolor_def
  fld_pollingplace_calcvotescolor_def fld_pollingplace_defcolor_def
  fld_pollingplace_fraudcolor_def fld_pollingplace_injavascript_def
  fld_pollingplace_magnitude_def fld_pollingplace_totalvotes_def
  fld_pollingplace_totalvotesur_def fld_pollingplace_turnout_def fld_pollingplace_urcolor_def
  fld_pollingplace_urvotes_def fld_pollingplace_urvotesprojected_def fld_pollingplace_draw_def
  fld_pollingplace_draw_0_def fld_pollingplace_selfrendersize_def
  fld_pollingplace_selfrendersize_0_def fld_region_child_childs_leftmost_child_def
  fld_region_childs_by_init_def fld_region_childs_by_last_def
  fld_region_childs_renderrightoffset_init_def fld_region_childs_renderrightoffset_last_def
  fld_region_totalmag_init_def fld_region_childsrendersize_def
  fld_region_childsrendersize_init_def fld_region_draw_def fld_region_selfrendersize_def
  fld_region_votesur_init_def fld_root_child_childs_leftmost_child_def
  fld_root_childsrendersize_def fld_root_draw_def fld_root_selfrendersize_def
  fld_vsquare_child_childs_leftmost_child_def fld_vsquare_childs_by_init_def
  fld_vsquare_childs_by_last_def fld_vsquare_childs_renderrightoffset_init_def
  fld_vsquare_childs_renderrightoffset_last_def fld_vsquare_totalmag_init_def
  fld_vsquare_childsrendersize_def fld_vsquare_childsrendersize_init_def fld_vsquare_draw_def
  fld_vsquare_selfrendersize_def fld_vsquare_votesur_init_def

section \<open>Class tokens\<close>

definition TOK_VSQUARE :: nat where "TOK_VSQUARE = 15"
definition TOK_ROOT :: nat where "TOK_ROOT = 12"
definition TOK_COUNTRYCONTAINER :: nat where "TOK_COUNTRYCONTAINER = 6"
definition TOK_REGION :: nat where "TOK_REGION = 11"
definition TOK_HSQUARE :: nat where "TOK_HSQUARE = 8"
definition TOK_POLLINGPLACE :: nat where "TOK_POLLINGPLACE = 10"
definition TOK_DISTRICT :: nat where "TOK_DISTRICT = 7"

lemmas tok_defs = TOK_ROOT_def TOK_COUNTRYCONTAINER_def TOK_REGION_def TOK_DISTRICT_def TOK_VSQUARE_def
  TOK_HSQUARE_def TOK_POLLINGPLACE_def

section \<open>Functions of the canvas\<close>

definition lerp_number :: "real \<Rightarrow> real \<Rightarrow> real \<Rightarrow> real" where
  "lerp_number c d k = of_int (lerpColor \<lfloor>c\<rfloor> \<lfloor>d\<rfloor> k)"

definition rgb_number :: "real \<Rightarrow> real \<Rightarrow> real \<Rightarrow> real" where
  "rgb_number r g b = of_int (rgb r g b)"

definition rectangle_size :: "real \<Rightarrow> real \<Rightarrow> real \<Rightarrow> real \<Rightarrow> real \<Rightarrow> real" where
  "rectangle_size x y w h color = 0"

definition outline_size :: "real \<Rightarrow> real \<Rightarrow> real \<Rightarrow> real \<Rightarrow> real \<Rightarrow> real" where
  "outline_size x y w h color = 0"

text \<open>The first two arguments are the offset and the size in the buffer of the device.\<close>

definition draw_rectangle :: "real \<Rightarrow> real \<Rightarrow> real \<Rightarrow> real \<Rightarrow> real \<Rightarrow> real \<Rightarrow> real \<Rightarrow> canvas2d \<Rightarrow> real \<times> canvas2d" where
  "draw_rectangle ofs sz x y w h color c = (0, Rectangle_draw x y w h \<lfloor>color\<rfloor> c)"

definition draw_outline :: "real \<Rightarrow> real \<Rightarrow> real \<Rightarrow> real \<Rightarrow> real \<Rightarrow> real \<Rightarrow> real \<Rightarrow> canvas2d \<Rightarrow> real \<times> canvas2d" where
  "draw_outline ofs sz x y w h color c = (0, RectangleOutline_draw x y w h \<lfloor>color\<rfloor> c)"

section \<open>Functions of the grammar\<close>

definition district_draw_0 :: "real \<Rightarrow> real \<Rightarrow> real \<Rightarrow> real \<Rightarrow> real \<Rightarrow> real
    \<Rightarrow> real \<Rightarrow> canvas2d \<Rightarrow> real \<times> canvas2d" where
  "district_draw_0 a6 a3 a0 a2 a7 a5 a4 = (if a0 \<noteq> 0 then draw_outline a2 a3 a4 a5 a6 a7 (rgb_number 0 0 0) else Pair 0)"

definition district_y :: "real \<Rightarrow> real \<Rightarrow> real" where
  "district_y a0 a1 = a0 - a1"

definition district_renderOffset :: "real \<Rightarrow> real \<Rightarrow> real" where
  "district_renderOffset a0 a1 = a0 - a1"

definition district_draw :: "real \<Rightarrow> real" where
  "district_draw a0 = a0"

definition district_selfRenderSize_0 :: "real \<Rightarrow> real \<Rightarrow> real \<Rightarrow> real \<Rightarrow> real \<Rightarrow>
    real" where
  "district_selfRenderSize_0 a3 a0 a4 a2 a1 = (if a0 \<noteq> 0 then outline_size a1 a2 a3 a4 (rgb_number 0 0 0) else 0)"

definition district_x :: "real \<Rightarrow> real \<Rightarrow> real" where
  "district_x a1 a0 = a0 - a1"

definition district_selfRenderSize :: "real \<Rightarrow> real" where
  "district_selfRenderSize a0 = a0"

definition district_renderSize :: "real \<Rightarrow> real \<Rightarrow> real" where
  "district_renderSize a0 a1 = a0 + a1"

definition root_childs_fixWidth :: "real \<Rightarrow> real" where
  "root_childs_fixWidth a0 = a0"

definition root_totalMag :: "real \<Rightarrow> real" where
  "root_totalMag a0 = a0"

definition root_votesUR :: "real \<Rightarrow> real \<Rightarrow> real" where
  "root_votesUR a1 a0 = a0 / a1"

definition root_childs_maxTurnout :: "real \<Rightarrow> real" where
  "root_childs_maxTurnout a0 = a0"

definition root_childs_doRenderingLast :: "real \<Rightarrow> real" where
  "root_childs_doRenderingLast a0 = a0"

definition root_childs_h :: "real \<Rightarrow> real \<Rightarrow> real" where
  "root_childs_h a0 a1 = a0 * (a1 / 63895164)"

definition root_renderSize :: "real \<Rightarrow> real \<Rightarrow> real" where
  "root_renderSize a0 a1 = a0 + a1"

definition root_childs_minTurnout :: "real \<Rightarrow> real" where
  "root_childs_minTurnout a0 = a0"

definition root_childs_showProjected :: "real \<Rightarrow> real" where
  "root_childs_showProjected a0 = a0"

definition root_doRenderingLast :: "real \<Rightarrow> real" where
  "root_doRenderingLast a0 = a0"

definition root_childs_renderRightOffset :: "real \<Rightarrow> real \<Rightarrow> real" where
  "root_childs_renderRightOffset a0 a1 = a0 + a1"

definition root_draw :: "real" where
  "root_draw = 0"

definition root_childs_by :: "real \<Rightarrow> real" where
  "root_childs_by a0 = a0"

definition root_renderOffset :: "real \<Rightarrow> real \<Rightarrow> real" where
  "root_renderOffset a0 a1 = a0 - a1"

definition root_childs_rx :: "real \<Rightarrow> real" where
  "root_childs_rx a0 = a0"

definition root_selfRenderSize :: "real" where
  "root_selfRenderSize = 0"

definition root_childs_w :: "real \<Rightarrow> real \<Rightarrow> real \<Rightarrow> real" where
  "root_childs_w a2 a1 a0 = (if a0 \<noteq> 0 then a1 else a1 * (a2 / 63895164))"

definition root_renderRightOffset :: "real \<Rightarrow> real" where
  "root_renderRightOffset a0 = a0"

definition root_childs_showFraud :: "real \<Rightarrow> real" where
  "root_childs_showFraud a0 = a0"

definition root_childs_showJavascript :: "real \<Rightarrow> real" where
  "root_childs_showJavascript a0 = a0"

definition root_childsRenderSize :: "real \<Rightarrow> real" where
  "root_childsRenderSize a0 = a0"

definition pollingplace_totalMag :: "real \<Rightarrow> real \<Rightarrow> real \<Rightarrow> real" where
  "pollingplace_totalMag a0 a1 a2 = (if a0 \<noteq> 0 then a1 else a2 * a1)"

definition pollingplace_x :: "real \<Rightarrow> real \<Rightarrow> real" where
  "pollingplace_x a1 a0 = a0 - a1"

definition pollingplace_selfRenderSize :: "real \<Rightarrow> real" where
  "pollingplace_selfRenderSize a0 = a0"

definition pollingplace_votesUR :: "real \<Rightarrow> real \<Rightarrow> real \<Rightarrow> real \<Rightarrow> real \<Rightarrow> real
    \<Rightarrow> real \<Rightarrow> real" where
  "pollingplace_votesUR a1 a4 a6 a5 a2 a0 a3 = (if (a0 > a1) \<and> (a0 \<le> a2) then (if a0 > (83 / 100) then (a3 * (1 - a4)) + ((a5 * a6)
      * a4) else a3) else 0)"

definition pollingplace_calcVotesColor :: "real \<Rightarrow> real \<Rightarrow> real \<Rightarrow> real \<Rightarrow> real" where
  "pollingplace_calcVotesColor a3 a1 a2 a0 = (if a0 > (83 / 100) then lerp_number a1 a2 a3 else a1)"

definition pollingplace_draw_0 :: "real \<Rightarrow> real \<Rightarrow> real \<Rightarrow> real \<Rightarrow> real \<Rightarrow> real
    \<Rightarrow> real \<Rightarrow> real \<Rightarrow> real \<Rightarrow> canvas2d \<Rightarrow> real \<times> canvas2d" where
  "pollingplace_draw_0 a8 a5 a2 a1 a7 a6 a4 a9 a3 = draw_rectangle a1 a2 a3 a4 a5 a6 ((((255 * 256) * 256) * 256) + (lerp_number a7 a8 a9))"

definition pollingplace_magnitude :: "real \<Rightarrow> real \<Rightarrow> real \<Rightarrow> real \<Rightarrow> real" where
  "pollingplace_magnitude a1 a3 a2 a0 = (if (a0 > a1) \<and> (a0 \<le> a2) then a3 else 0)"

definition pollingplace_calcRegularColor :: "real \<Rightarrow> real \<Rightarrow> real \<Rightarrow> real" where
  "pollingplace_calcRegularColor a0 a1 a2 = lerp_number a0 a1 a2"

definition pollingplace_calcFraudColor :: "real \<Rightarrow> real \<Rightarrow> real \<Rightarrow> real" where
  "pollingplace_calcFraudColor a2 a0 a1 = (if a0 > (83 / 100) then a1 else a2)"

definition pollingplace_selfRenderSize_0 :: "real \<Rightarrow> real \<Rightarrow> real \<Rightarrow> real \<Rightarrow> real \<Rightarrow>
    real \<Rightarrow> real \<Rightarrow> real" where
  "pollingplace_selfRenderSize_0 a5 a2 a4 a3 a1 a6 a0 = rectangle_size a0 a1 a2 a3 ((((255 * 256) * 256) * 256) + (lerp_number a4 a5 a6))"

definition pollingplace_draw :: "real \<Rightarrow> real" where
  "pollingplace_draw a0 = a0"

definition pollingplace_calcProjectedColor :: "real \<Rightarrow> real \<Rightarrow> real \<Rightarrow> real" where
  "pollingplace_calcProjectedColor a0 a2 a1 = lerp_number a0 a1 a2"

definition pollingplace_y :: "real \<Rightarrow> real \<Rightarrow> real" where
  "pollingplace_y a0 a1 = a0 - a1"

definition pollingplace_renderOffset :: "real \<Rightarrow> real \<Rightarrow> real" where
  "pollingplace_renderOffset a0 a1 = a0 - a1"

definition pollingplace_renderSize :: "real \<Rightarrow> real" where
  "pollingplace_renderSize a0 = a0"

definition region_renderSize :: "real \<Rightarrow> real \<Rightarrow> real" where
  "region_renderSize a0 a1 = a0 + a1"

definition region_selfRenderSize :: "real" where
  "region_selfRenderSize = 0"

definition region_renderOffset :: "real \<Rightarrow> real \<Rightarrow> real" where
  "region_renderOffset a0 a1 = a0 - a1"

definition region_draw :: "real" where
  "region_draw = 0"

definition region_y :: "real \<Rightarrow> real \<Rightarrow> real" where
  "region_y a0 a1 = a0 - a1"

definition region_x :: "real \<Rightarrow> real \<Rightarrow> real" where
  "region_x a1 a0 = a0 - a1"

definition hsquare_x :: "real \<Rightarrow> real \<Rightarrow> real" where
  "hsquare_x a1 a0 = a0 - a1"

definition hsquare_selfRenderSize :: "real" where
  "hsquare_selfRenderSize = 0"

definition hsquare_renderOffset :: "real \<Rightarrow> real \<Rightarrow> real" where
  "hsquare_renderOffset a0 a1 = a0 - a1"

definition hsquare_draw :: "real" where
  "hsquare_draw = 0"

definition hsquare_y :: "real \<Rightarrow> real \<Rightarrow> real" where
  "hsquare_y a0 a1 = a0 - a1"

definition hsquare_renderSize :: "real \<Rightarrow> real \<Rightarrow> real" where
  "hsquare_renderSize a0 a1 = a0 + a1"

definition vsquare_y :: "real \<Rightarrow> real \<Rightarrow> real" where
  "vsquare_y a0 a1 = a0 - a1"

definition vsquare_renderOffset :: "real \<Rightarrow> real \<Rightarrow> real" where
  "vsquare_renderOffset a0 a1 = a0 - a1"

definition vsquare_selfRenderSize :: "real" where
  "vsquare_selfRenderSize = 0"

definition vsquare_renderSize :: "real \<Rightarrow> real \<Rightarrow> real" where
  "vsquare_renderSize a0 a1 = a0 + a1"

definition vsquare_x :: "real \<Rightarrow> real \<Rightarrow> real" where
  "vsquare_x a1 a0 = a0 - a1"

definition vsquare_draw :: "real" where
  "vsquare_draw = 0"

definition countrycontainer_selfRenderSize :: "real \<Rightarrow> real" where
  "countrycontainer_selfRenderSize a0 = a0"

definition countrycontainer_draw_0 :: "real \<Rightarrow> real \<Rightarrow> real \<Rightarrow> real \<Rightarrow> real \<Rightarrow> real
    \<Rightarrow> real \<Rightarrow> canvas2d \<Rightarrow> real \<times> canvas2d" where
  "countrycontainer_draw_0 a6 a3 a0 a2 a7 a5 a4 = (if a0 \<noteq> 0 then draw_outline a2 a3 a4 a5 a6 a7 (rgb_number 0 0 0) else Pair 0)"

definition countrycontainer_draw :: "real \<Rightarrow> real" where
  "countrycontainer_draw a0 = a0"

definition countrycontainer_renderOffset :: "real \<Rightarrow> real \<Rightarrow> real" where
  "countrycontainer_renderOffset a0 a1 = a0 - a1"

definition countrycontainer_renderSize :: "real \<Rightarrow> real \<Rightarrow> real" where
  "countrycontainer_renderSize a0 a1 = a0 + a1"

definition countrycontainer_selfRenderSize_0 :: "real \<Rightarrow> real \<Rightarrow> real \<Rightarrow> real \<Rightarrow> real
    \<Rightarrow> real" where
  "countrycontainer_selfRenderSize_0 a3 a0 a4 a2 a1 = (if a0 \<noteq> 0 then outline_size a1 a2 a3 a4 (rgb_number 0 0 0) else 0)"

definition countrycontainer_x :: "real \<Rightarrow> real \<Rightarrow> real" where
  "countrycontainer_x a1 a0 = a0 - a1"

definition countrycontainer_y :: "real \<Rightarrow> real \<Rightarrow> real" where
  "countrycontainer_y a0 a1 = a0 - a1"

lemmas grammar_defs = district_draw_0_def district_y_def district_renderOffset_def district_draw_def
  district_selfRenderSize_0_def district_x_def district_selfRenderSize_def
  district_renderSize_def root_childs_fixWidth_def root_totalMag_def root_votesUR_def
  root_childs_maxTurnout_def root_childs_doRenderingLast_def root_childs_h_def
  root_renderSize_def root_childs_minTurnout_def root_childs_showProjected_def
  root_doRenderingLast_def root_childs_renderRightOffset_def root_draw_def root_childs_by_def
  root_renderOffset_def root_childs_rx_def root_selfRenderSize_def root_childs_w_def
  root_renderRightOffset_def root_childs_showFraud_def root_childs_showJavascript_def
  root_childsRenderSize_def pollingplace_totalMag_def pollingplace_x_def
  pollingplace_selfRenderSize_def pollingplace_votesUR_def pollingplace_calcVotesColor_def
  pollingplace_draw_0_def pollingplace_magnitude_def pollingplace_calcRegularColor_def
  pollingplace_calcFraudColor_def pollingplace_selfRenderSize_0_def pollingplace_draw_def
  pollingplace_calcProjectedColor_def pollingplace_y_def pollingplace_renderOffset_def
  pollingplace_renderSize_def region_renderSize_def region_selfRenderSize_def
  region_renderOffset_def region_draw_def region_y_def region_x_def hsquare_x_def
  hsquare_selfRenderSize_def hsquare_renderOffset_def hsquare_draw_def hsquare_y_def
  hsquare_renderSize_def vsquare_y_def vsquare_renderOffset_def vsquare_selfRenderSize_def
  vsquare_renderSize_def vsquare_x_def vsquare_draw_def countrycontainer_selfRenderSize_def
  countrycontainer_draw_0_def countrycontainer_draw_def countrycontainer_renderOffset_def
  countrycontainer_renderSize_def countrycontainer_selfRenderSize_0_def countrycontainer_x_def
  countrycontainer_y_def

section \<open>Visit 0\<close>

definition visit_root_0 :: "nat \<Rightarrow> nat \<Rightarrow> tm \<Rightarrow> tm" where
  "visit_root_0 n i s = (let c = first_child fld_root_child_childs_leftmost_child i s in run_all [
      assign fld_node_by c (\<lambda>s. root_childs_by (get fld_iroot_height i s)),
      assign fld_node_fixwidth c (\<lambda>s. root_childs_fixWidth (get fld_iroot_fixwidth i s)),
      assign fld_node_maxturnout c (\<lambda>s. root_childs_maxTurnout (get fld_iroot_maxturnout i s)),
      assign fld_node_minturnout c (\<lambda>s. root_childs_minTurnout (get fld_iroot_minturnout i s)),
      assign fld_node_rx c (\<lambda>s. root_childs_rx (get fld_iroot_width i s)),
      assign fld_node_showfraud c (\<lambda>s. root_childs_showFraud (get fld_iroot_showfraud i s)),
      assign fld_node_showjavascript c (\<lambda>s. root_childs_showJavascript (get fld_iroot_showjavascript i s)),
      assign fld_node_showprojected c (\<lambda>s. root_childs_showProjected (get fld_iroot_showprojected i s)),
      assign fld_root_draw i (\<lambda>s. root_draw),
      assign fld_root_selfrendersize i (\<lambda>s. root_selfRenderSize),
      assign fld_node_dorenderinglast c (\<lambda>s. root_childs_doRenderingLast (get fld_root_draw i s))] s)"

definition visit_district_0 :: "nat \<Rightarrow> nat \<Rightarrow> tm \<Rightarrow> tm" where
  "visit_district_0 n i s = (run_all [
      for_children n fld_district_child_childs_leftmost_child i (\<lambda>step prev cur. run_all [
        assign fld_node_fixwidth cur (\<lambda>s. get fld_node_fixwidth i s),
        assign fld_node_maxturnout cur (\<lambda>s. get fld_node_maxturnout i s),
        assign fld_node_minturnout cur (\<lambda>s. get fld_node_minturnout i s),
        assign fld_node_showfraud cur (\<lambda>s. get fld_node_showfraud i s),
        assign fld_node_showjavascript cur (\<lambda>s. get fld_node_showjavascript i s),
        assign fld_node_showprojected cur (\<lambda>s. get fld_node_showprojected i s)])]) s"

definition visit_pollingplace_0 :: "nat \<Rightarrow> nat \<Rightarrow> tm \<Rightarrow> tm" where
  "visit_pollingplace_0 n i s = (run_all [
      assign fld_pollingplace_calcprojectedcolor i (\<lambda>s. pollingplace_calcProjectedColor (get fld_pollingplace_defcolor i s) (get
          fld_pollingplace_urvotesprojected i s) (get fld_pollingplace_urcolor i s)),
      assign fld_pollingplace_calcregularcolor i (\<lambda>s. pollingplace_calcRegularColor (get fld_pollingplace_defcolor i s) (get
          fld_pollingplace_urcolor i s) (get fld_pollingplace_urvotes i s)),
      assign fld_pollingplace_magnitude i (\<lambda>s. pollingplace_magnitude (get fld_node_minturnout i s) (get fld_pollingplace_totalvotes
          i s) (get fld_node_maxturnout i s) (get fld_pollingplace_turnout i s)),
      assign fld_node_votesur i (\<lambda>s. pollingplace_votesUR (get fld_node_minturnout i s) (get fld_node_showprojected i s) (get
          fld_pollingplace_urvotesprojected i s) (get fld_pollingplace_totalvotes i s) (get fld_node_maxturnout i s) (get
          fld_pollingplace_turnout i s) (get fld_pollingplace_totalvotesur i s)),
      assign fld_pollingplace_calcvotescolor i (\<lambda>s. pollingplace_calcVotesColor (get fld_node_showprojected i s) (get
          fld_pollingplace_calcregularcolor i s) (get fld_pollingplace_calcprojectedcolor i s) (get fld_pollingplace_turnout i s)),
      assign fld_node_totalmag i (\<lambda>s. pollingplace_totalMag (get fld_pollingplace_injavascript i s) (get fld_pollingplace_magnitude
          i s) (get fld_node_showjavascript i s)),
      assign fld_pollingplace_calcfraudcolor i (\<lambda>s. pollingplace_calcFraudColor (get fld_pollingplace_calcvotescolor i s) (get
          fld_pollingplace_turnout i s) (get fld_pollingplace_fraudcolor i s))]) s"

definition visit_region_0 :: "nat \<Rightarrow> nat \<Rightarrow> tm \<Rightarrow> tm" where
  "visit_region_0 n i s = (run_all [
      assign fld_region_draw i (\<lambda>s. region_draw),
      assign fld_region_selfrendersize i (\<lambda>s. region_selfRenderSize),
      for_children n fld_region_child_childs_leftmost_child i (\<lambda>step prev cur. run_all [
        assign fld_node_fixwidth cur (\<lambda>s. get fld_node_fixwidth i s),
        assign fld_node_maxturnout cur (\<lambda>s. get fld_node_maxturnout i s),
        assign fld_node_minturnout cur (\<lambda>s. get fld_node_minturnout i s),
        assign fld_node_showfraud cur (\<lambda>s. get fld_node_showfraud i s),
        assign fld_node_showjavascript cur (\<lambda>s. get fld_node_showjavascript i s),
        assign fld_node_showprojected cur (\<lambda>s. get fld_node_showprojected i s)]),
      for_children n fld_region_child_childs_leftmost_child i (\<lambda>step prev cur. run_all [
        assign fld_node_dorenderinglast cur (\<lambda>s. get fld_region_draw i s)])]) s"

definition visit_hsquare_0 :: "nat \<Rightarrow> nat \<Rightarrow> tm \<Rightarrow> tm" where
  "visit_hsquare_0 n i s = (run_all [
      assign fld_hsquare_draw i (\<lambda>s. hsquare_draw),
      assign fld_hsquare_selfrendersize i (\<lambda>s. hsquare_selfRenderSize),
      for_children n fld_hsquare_child_childs_leftmost_child i (\<lambda>step prev cur. run_all [
        assign fld_node_fixwidth cur (\<lambda>s. get fld_node_fixwidth i s),
        assign fld_node_maxturnout cur (\<lambda>s. get fld_node_maxturnout i s),
        assign fld_node_minturnout cur (\<lambda>s. get fld_node_minturnout i s),
        assign fld_node_showfraud cur (\<lambda>s. get fld_node_showfraud i s),
        assign fld_node_showjavascript cur (\<lambda>s. get fld_node_showjavascript i s),
        assign fld_node_showprojected cur (\<lambda>s. get fld_node_showprojected i s)]),
      for_children n fld_hsquare_child_childs_leftmost_child i (\<lambda>step prev cur. run_all [
        assign fld_node_dorenderinglast cur (\<lambda>s. get fld_hsquare_draw i s)])]) s"

definition visit_vsquare_0 :: "nat \<Rightarrow> nat \<Rightarrow> tm \<Rightarrow> tm" where
  "visit_vsquare_0 n i s = (run_all [
      assign fld_vsquare_draw i (\<lambda>s. vsquare_draw),
      assign fld_vsquare_selfrendersize i (\<lambda>s. vsquare_selfRenderSize),
      for_children n fld_vsquare_child_childs_leftmost_child i (\<lambda>step prev cur. run_all [
        assign fld_node_fixwidth cur (\<lambda>s. get fld_node_fixwidth i s),
        assign fld_node_maxturnout cur (\<lambda>s. get fld_node_maxturnout i s),
        assign fld_node_minturnout cur (\<lambda>s. get fld_node_minturnout i s),
        assign fld_node_showfraud cur (\<lambda>s. get fld_node_showfraud i s),
        assign fld_node_showjavascript cur (\<lambda>s. get fld_node_showjavascript i s),
        assign fld_node_showprojected cur (\<lambda>s. get fld_node_showprojected i s)]),
      for_children n fld_vsquare_child_childs_leftmost_child i (\<lambda>step prev cur. run_all [
        assign fld_node_dorenderinglast cur (\<lambda>s. get fld_vsquare_draw i s)])]) s"

definition visit_countrycontainer_0 :: "nat \<Rightarrow> nat \<Rightarrow> tm \<Rightarrow> tm" where
  "visit_countrycontainer_0 n i s = (run_all [
      for_children n fld_countrycontainer_child_childs_leftmost_child i (\<lambda>step prev cur. run_all [
        assign fld_node_fixwidth cur (\<lambda>s. get fld_node_fixwidth i s),
        assign fld_node_maxturnout cur (\<lambda>s. get fld_node_maxturnout i s),
        assign fld_node_minturnout cur (\<lambda>s. get fld_node_minturnout i s),
        assign fld_node_showfraud cur (\<lambda>s. get fld_node_showfraud i s),
        assign fld_node_showjavascript cur (\<lambda>s. get fld_node_showjavascript i s),
        assign fld_node_showprojected cur (\<lambda>s. get fld_node_showprojected i s)])]) s"

definition visit_0 :: "nat \<Rightarrow> nat \<Rightarrow> tm \<Rightarrow> tm" where
  "visit_0 n i s =
     (if tokens s i = TOK_ROOT then visit_root_0 n i s
      else if tokens s i = TOK_COUNTRYCONTAINER then visit_countrycontainer_0 n i s
      else if tokens s i = TOK_REGION then visit_region_0 n i s
      else if tokens s i = TOK_DISTRICT then visit_district_0 n i s
      else if tokens s i = TOK_VSQUARE then visit_vsquare_0 n i s
      else if tokens s i = TOK_HSQUARE then visit_hsquare_0 n i s
      else if tokens s i = TOK_POLLINGPLACE then visit_pollingplace_0 n i s else s)"

section \<open>Visit 1\<close>

definition visit_root_1 :: "nat \<Rightarrow> nat \<Rightarrow> tm \<Rightarrow> tm" where
  "visit_root_1 n i s = (let c = first_child fld_root_child_childs_leftmost_child i s in run_all [
      assign fld_iroot_totalmag i (\<lambda>s. root_totalMag (get fld_node_totalmag c s)),
      assign fld_node_h c (\<lambda>s. root_childs_h (get fld_iroot_height i s) (get fld_iroot_totalmag i s)),
      assign fld_node_w c (\<lambda>s. root_childs_w (get fld_iroot_totalmag i s) (get fld_iroot_width i s) (get fld_iroot_fixwidth i s)),
      assign fld_iroot_votesur i (\<lambda>s. root_votesUR (get fld_iroot_totalmag i s) (get fld_node_votesur c s))] s)"

definition visit_district_1 :: "nat \<Rightarrow> nat \<Rightarrow> tm \<Rightarrow> tm" where
  "visit_district_1 n i s = (run_all [
      for_children n fld_district_child_childs_leftmost_child i (\<lambda>step prev cur. run_all []),
      assign fld_district_totalmag_init i (\<lambda>s. 0),
      assign fld_node_totalmag i (\<lambda>s. get fld_district_totalmag_init i s),
      assign fld_district_votesur_init i (\<lambda>s. 0),
      assign fld_node_votesur i (\<lambda>s. get fld_district_votesur_init i s),
      for_children n fld_district_child_childs_leftmost_child i (\<lambda>step prev cur. run_all [
        assign fld_node_totalmag i (\<lambda>s. (get fld_node_totalmag i s) + (get fld_node_totalmag cur s)),
        assign fld_node_votesur i (\<lambda>s. (get fld_node_votesur i s) + (get fld_node_votesur cur s))])]) s"

definition visit_pollingplace_1 :: "nat \<Rightarrow> nat \<Rightarrow> tm \<Rightarrow> tm" where
  "visit_pollingplace_1 n i s = s"

definition visit_region_1 :: "nat \<Rightarrow> nat \<Rightarrow> tm \<Rightarrow> tm" where
  "visit_region_1 n i s = (run_all [
      for_children n fld_region_child_childs_leftmost_child i (\<lambda>step prev cur. run_all []),
      assign fld_region_totalmag_init i (\<lambda>s. 0),
      assign fld_node_totalmag i (\<lambda>s. get fld_region_totalmag_init i s),
      assign fld_region_votesur_init i (\<lambda>s. 0),
      assign fld_node_votesur i (\<lambda>s. get fld_region_votesur_init i s),
      for_children n fld_region_child_childs_leftmost_child i (\<lambda>step prev cur. run_all [
        assign fld_node_totalmag i (\<lambda>s. (get fld_node_totalmag i s) + (get fld_node_totalmag cur s)),
        assign fld_node_votesur i (\<lambda>s. (get fld_node_votesur i s) + (get fld_node_votesur cur s))])]) s"

definition visit_hsquare_1 :: "nat \<Rightarrow> nat \<Rightarrow> tm \<Rightarrow> tm" where
  "visit_hsquare_1 n i s = (run_all [
      for_children n fld_hsquare_child_childs_leftmost_child i (\<lambda>step prev cur. run_all []),
      assign fld_hsquare_totalmag_init i (\<lambda>s. 0),
      assign fld_node_totalmag i (\<lambda>s. get fld_hsquare_totalmag_init i s),
      assign fld_hsquare_votesur_init i (\<lambda>s. 0),
      assign fld_node_votesur i (\<lambda>s. get fld_hsquare_votesur_init i s),
      for_children n fld_hsquare_child_childs_leftmost_child i (\<lambda>step prev cur. run_all [
        assign fld_node_totalmag i (\<lambda>s. (get fld_node_totalmag i s) + (get fld_node_totalmag cur s)),
        assign fld_node_votesur i (\<lambda>s. (get fld_node_votesur i s) + (get fld_node_votesur cur s))])]) s"

definition visit_vsquare_1 :: "nat \<Rightarrow> nat \<Rightarrow> tm \<Rightarrow> tm" where
  "visit_vsquare_1 n i s = (run_all [
      for_children n fld_vsquare_child_childs_leftmost_child i (\<lambda>step prev cur. run_all []),
      assign fld_vsquare_totalmag_init i (\<lambda>s. 0),
      assign fld_node_totalmag i (\<lambda>s. get fld_vsquare_totalmag_init i s),
      assign fld_vsquare_votesur_init i (\<lambda>s. 0),
      assign fld_node_votesur i (\<lambda>s. get fld_vsquare_votesur_init i s),
      for_children n fld_vsquare_child_childs_leftmost_child i (\<lambda>step prev cur. run_all [
        assign fld_node_totalmag i (\<lambda>s. (get fld_node_totalmag i s) + (get fld_node_totalmag cur s)),
        assign fld_node_votesur i (\<lambda>s. (get fld_node_votesur i s) + (get fld_node_votesur cur s))])]) s"

definition visit_countrycontainer_1 :: "nat \<Rightarrow> nat \<Rightarrow> tm \<Rightarrow> tm" where
  "visit_countrycontainer_1 n i s = (run_all [
      for_children n fld_countrycontainer_child_childs_leftmost_child i (\<lambda>step prev cur. run_all []),
      assign fld_countrycontainer_totalmag_init i (\<lambda>s. 0),
      assign fld_node_totalmag i (\<lambda>s. get fld_countrycontainer_totalmag_init i s),
      assign fld_countrycontainer_votesur_init i (\<lambda>s. 0),
      assign fld_node_votesur i (\<lambda>s. get fld_countrycontainer_votesur_init i s),
      for_children n fld_countrycontainer_child_childs_leftmost_child i (\<lambda>step prev cur. run_all [
        assign fld_node_totalmag i (\<lambda>s. (get fld_node_totalmag i s) + (get fld_node_totalmag cur s)),
        assign fld_node_votesur i (\<lambda>s. (get fld_node_votesur i s) + (get fld_node_votesur cur s))])]) s"

definition visit_1 :: "nat \<Rightarrow> nat \<Rightarrow> tm \<Rightarrow> tm" where
  "visit_1 n i s =
     (if tokens s i = TOK_ROOT then visit_root_1 n i s
      else if tokens s i = TOK_COUNTRYCONTAINER then visit_countrycontainer_1 n i s
      else if tokens s i = TOK_REGION then visit_region_1 n i s
      else if tokens s i = TOK_DISTRICT then visit_district_1 n i s
      else if tokens s i = TOK_VSQUARE then visit_vsquare_1 n i s
      else if tokens s i = TOK_HSQUARE then visit_hsquare_1 n i s
      else if tokens s i = TOK_POLLINGPLACE then visit_pollingplace_1 n i s else s)"

section \<open>Visit 2\<close>

definition visit_root_2 :: "nat \<Rightarrow> nat \<Rightarrow> tm \<Rightarrow> tm" where
  "visit_root_2 n i s = s"

definition visit_district_2 :: "nat \<Rightarrow> nat \<Rightarrow> tm \<Rightarrow> tm" where
  "visit_district_2 n i s = (run_all [
      assign fld_node_x i (\<lambda>s. district_x (get fld_node_w i s) (get fld_node_rx i s)),
      assign fld_node_y i (\<lambda>s. district_y (get fld_node_by i s) (get fld_node_h i s)),
      assign fld_district_selfrendersize_0 i (\<lambda>s. district_selfRenderSize_0 (get fld_node_w i s) (get fld_node_fixwidth i s) (get
          fld_node_h i s) (get fld_node_y i s) (get fld_node_x i s)),
      for_children n fld_district_child_childs_leftmost_child i (\<lambda>step prev cur. run_all [
        assign fld_node_h cur (\<lambda>s. get fld_node_h i s),
        assign fld_node_w cur (\<lambda>s. ((get fld_node_totalmag cur s) / (get fld_node_totalmag i s)) * (get fld_node_w i s)),
        assign fld_node_by cur (\<lambda>s. (get fld_node_y i s) + (get fld_node_h i s))]),
      assign fld_district_selfrendersize i (\<lambda>s. district_selfRenderSize (get fld_district_selfrendersize_0 i s)),
      assign fld_district_childs_rx_init i (\<lambda>s. get fld_node_x i s),
      assign fld_district_childs_rx_last i (\<lambda>s. get fld_district_childs_rx_init i s),
      for_children n fld_district_child_childs_leftmost_child i (\<lambda>step prev cur. run_all [
        assign fld_node_rx cur (\<lambda>s. (if step = 1 then get fld_district_childs_rx_last i s else get fld_node_rx prev s) + (get
            fld_node_w cur s))])]) s"

definition visit_pollingplace_2 :: "nat \<Rightarrow> nat \<Rightarrow> tm \<Rightarrow> tm" where
  "visit_pollingplace_2 n i s = (run_all [
      assign fld_node_x i (\<lambda>s. pollingplace_x (get fld_node_w i s) (get fld_node_rx i s)),
      assign fld_node_y i (\<lambda>s. pollingplace_y (get fld_node_by i s) (get fld_node_h i s)),
      assign fld_pollingplace_selfrendersize_0 i (\<lambda>s. pollingplace_selfRenderSize_0 (get fld_pollingplace_calcfraudcolor i s) (get
          fld_node_w i s) (get fld_pollingplace_calcvotescolor i s) (get fld_node_h i s) (get fld_node_y i s) (get fld_node_showfraud i s)
          (get fld_node_x i s)),
      assign fld_pollingplace_selfrendersize i (\<lambda>s. pollingplace_selfRenderSize (get fld_pollingplace_selfrendersize_0 i s)),
      assign fld_node_rendersize i (\<lambda>s. pollingplace_renderSize (get fld_pollingplace_selfrendersize i s))]) s"

definition visit_region_2 :: "nat \<Rightarrow> nat \<Rightarrow> tm \<Rightarrow> tm" where
  "visit_region_2 n i s = (run_all [
      assign fld_node_x i (\<lambda>s. region_x (get fld_node_w i s) (get fld_node_rx i s)),
      assign fld_node_y i (\<lambda>s. region_y (get fld_node_by i s) (get fld_node_h i s)),
      assign fld_region_childs_by_init i (\<lambda>s. get fld_node_y i s),
      assign fld_region_childs_by_last i (\<lambda>s. get fld_region_childs_by_init i s),
      for_children n fld_region_child_childs_leftmost_child i (\<lambda>step prev cur. run_all [
        assign fld_node_h cur (\<lambda>s. ((get fld_node_totalmag cur s) / (get fld_node_totalmag i s)) * (get fld_node_h i s)),
        assign fld_node_w cur (\<lambda>s. get fld_node_w i s),
        assign fld_node_by cur (\<lambda>s. (if step = 1 then get fld_region_childs_by_last i s else get fld_node_by prev s) + (get
            fld_node_h cur s))]),
      for_children n fld_region_child_childs_leftmost_child i (\<lambda>step prev cur. run_all [
        assign fld_node_rx cur (\<lambda>s. (get fld_node_x i s) + (get fld_node_w i s))])]) s"

definition visit_hsquare_2 :: "nat \<Rightarrow> nat \<Rightarrow> tm \<Rightarrow> tm" where
  "visit_hsquare_2 n i s = (run_all [
      assign fld_node_x i (\<lambda>s. hsquare_x (get fld_node_w i s) (get fld_node_rx i s)),
      assign fld_node_y i (\<lambda>s. hsquare_y (get fld_node_by i s) (get fld_node_h i s)),
      for_children n fld_hsquare_child_childs_leftmost_child i (\<lambda>step prev cur. run_all [
        assign fld_node_h cur (\<lambda>s. get fld_node_h i s),
        assign fld_node_w cur (\<lambda>s. ((get fld_node_totalmag cur s) / (get fld_node_totalmag i s)) * (get fld_node_w i s)),
        assign fld_node_by cur (\<lambda>s. (get fld_node_y i s) + (get fld_node_h i s))]),
      assign fld_hsquare_childs_rx_init i (\<lambda>s. get fld_node_x i s),
      assign fld_hsquare_childs_rx_last i (\<lambda>s. get fld_hsquare_childs_rx_init i s),
      for_children n fld_hsquare_child_childs_leftmost_child i (\<lambda>step prev cur. run_all [
        assign fld_node_rx cur (\<lambda>s. (if step = 1 then get fld_hsquare_childs_rx_last i s else get fld_node_rx prev s) + (get
            fld_node_w cur s))])]) s"

definition visit_vsquare_2 :: "nat \<Rightarrow> nat \<Rightarrow> tm \<Rightarrow> tm" where
  "visit_vsquare_2 n i s = (run_all [
      assign fld_node_x i (\<lambda>s. vsquare_x (get fld_node_w i s) (get fld_node_rx i s)),
      assign fld_node_y i (\<lambda>s. vsquare_y (get fld_node_by i s) (get fld_node_h i s)),
      assign fld_vsquare_childs_by_init i (\<lambda>s. get fld_node_y i s),
      assign fld_vsquare_childs_by_last i (\<lambda>s. get fld_vsquare_childs_by_init i s),
      for_children n fld_vsquare_child_childs_leftmost_child i (\<lambda>step prev cur. run_all [
        assign fld_node_h cur (\<lambda>s. ((get fld_node_totalmag cur s) / (get fld_node_totalmag i s)) * (get fld_node_h i s)),
        assign fld_node_w cur (\<lambda>s. get fld_node_w i s),
        assign fld_node_by cur (\<lambda>s. (if step = 1 then get fld_vsquare_childs_by_last i s else get fld_node_by prev s) + (get
            fld_node_h cur s))]),
      for_children n fld_vsquare_child_childs_leftmost_child i (\<lambda>step prev cur. run_all [
        assign fld_node_rx cur (\<lambda>s. (get fld_node_x i s) + (get fld_node_w i s))])]) s"

definition visit_countrycontainer_2 :: "nat \<Rightarrow> nat \<Rightarrow> tm \<Rightarrow> tm" where
  "visit_countrycontainer_2 n i s = (run_all [
      assign fld_node_x i (\<lambda>s. countrycontainer_x (get fld_node_w i s) (get fld_node_rx i s)),
      assign fld_node_y i (\<lambda>s. countrycontainer_y (get fld_node_by i s) (get fld_node_h i s)),
      assign fld_countrycontainer_selfrendersize_0 i (\<lambda>s. countrycontainer_selfRenderSize_0 (get fld_node_w i s) (get
          fld_node_fixwidth i s) (get fld_node_h i s) (get fld_node_y i s) (get fld_node_x i s)),
      for_children n fld_countrycontainer_child_childs_leftmost_child i (\<lambda>step prev cur. run_all [
        assign fld_node_h cur (\<lambda>s. get fld_node_h i s),
        assign fld_node_w cur (\<lambda>s. ((get fld_node_totalmag cur s) / (get fld_node_totalmag i s)) * (get fld_node_w i s)),
        assign fld_node_by cur (\<lambda>s. (get fld_node_y i s) + (get fld_node_h i s))]),
      assign fld_countrycontainer_selfrendersize i (\<lambda>s. countrycontainer_selfRenderSize (get fld_countrycontainer_selfrendersize_0 i
          s)),
      assign fld_countrycontainer_childs_rx_init i (\<lambda>s. get fld_node_x i s),
      assign fld_countrycontainer_childs_rx_last i (\<lambda>s. get fld_countrycontainer_childs_rx_init i s),
      for_children n fld_countrycontainer_child_childs_leftmost_child i (\<lambda>step prev cur. run_all [
        assign fld_node_rx cur (\<lambda>s. (if step = 1 then get fld_countrycontainer_childs_rx_last i s else get fld_node_rx prev s) +
            (get fld_node_w cur s))])]) s"

definition visit_2 :: "nat \<Rightarrow> nat \<Rightarrow> tm \<Rightarrow> tm" where
  "visit_2 n i s =
     (if tokens s i = TOK_ROOT then visit_root_2 n i s
      else if tokens s i = TOK_COUNTRYCONTAINER then visit_countrycontainer_2 n i s
      else if tokens s i = TOK_REGION then visit_region_2 n i s
      else if tokens s i = TOK_DISTRICT then visit_district_2 n i s
      else if tokens s i = TOK_VSQUARE then visit_vsquare_2 n i s
      else if tokens s i = TOK_HSQUARE then visit_hsquare_2 n i s
      else if tokens s i = TOK_POLLINGPLACE then visit_pollingplace_2 n i s else s)"

section \<open>Visit 3\<close>

definition visit_root_3 :: "nat \<Rightarrow> nat \<Rightarrow> tm \<Rightarrow> tm" where
  "visit_root_3 n i s = (let c = first_child fld_root_child_childs_leftmost_child i s in run_all [
      assign fld_root_childsrendersize i (\<lambda>s. root_childsRenderSize (get fld_node_rendersize c s)),
      assign fld_iroot_rendersize i (\<lambda>s. root_renderSize (get fld_root_childsrendersize i s) (get fld_root_selfrendersize i s)),
      assign fld_iroot_dorenderinglast i (\<lambda>s. root_doRenderingLast (get fld_iroot_rendersize i s)),
      assign fld_iroot_renderrightoffset i (\<lambda>s. root_renderRightOffset (get fld_iroot_rendersize i s)),
      assign fld_iroot_renderoffset i (\<lambda>s. root_renderOffset (get fld_iroot_renderrightoffset i s) (get fld_iroot_rendersize i s)),
      assign fld_node_renderrightoffset c (\<lambda>s. root_childs_renderRightOffset (get fld_iroot_renderoffset i s) (get
          fld_node_rendersize c s))] s)"

definition visit_district_3 :: "nat \<Rightarrow> nat \<Rightarrow> tm \<Rightarrow> tm" where
  "visit_district_3 n i s = (run_all [
      for_children n fld_district_child_childs_leftmost_child i (\<lambda>step prev cur. run_all []),
      assign fld_district_childsrendersize_init i (\<lambda>s. 0),
      assign fld_district_childsrendersize i (\<lambda>s. get fld_district_childsrendersize_init i s),
      for_children n fld_district_child_childs_leftmost_child i (\<lambda>step prev cur. run_all [
        assign fld_district_childsrendersize i (\<lambda>s. (get fld_district_childsrendersize i s) + (get fld_node_rendersize cur s))]),
      assign fld_node_rendersize i (\<lambda>s. district_renderSize (get fld_district_childsrendersize i s) (get fld_district_selfrendersize
          i s))]) s"

definition visit_pollingplace_3 :: "nat \<Rightarrow> nat \<Rightarrow> tm \<Rightarrow> tm" where
  "visit_pollingplace_3 n i s = s"

definition visit_region_3 :: "nat \<Rightarrow> nat \<Rightarrow> tm \<Rightarrow> tm" where
  "visit_region_3 n i s = (run_all [
      for_children n fld_region_child_childs_leftmost_child i (\<lambda>step prev cur. run_all []),
      assign fld_region_childsrendersize_init i (\<lambda>s. 0),
      assign fld_region_childsrendersize i (\<lambda>s. get fld_region_childsrendersize_init i s),
      for_children n fld_region_child_childs_leftmost_child i (\<lambda>step prev cur. run_all [
        assign fld_region_childsrendersize i (\<lambda>s. (get fld_region_childsrendersize i s) + (get fld_node_rendersize cur s))]),
      assign fld_node_rendersize i (\<lambda>s. region_renderSize (get fld_region_childsrendersize i s) (get fld_region_selfrendersize i
          s))]) s"

definition visit_hsquare_3 :: "nat \<Rightarrow> nat \<Rightarrow> tm \<Rightarrow> tm" where
  "visit_hsquare_3 n i s = (run_all [
      for_children n fld_hsquare_child_childs_leftmost_child i (\<lambda>step prev cur. run_all []),
      assign fld_hsquare_childsrendersize_init i (\<lambda>s. 0),
      assign fld_hsquare_childsrendersize i (\<lambda>s. get fld_hsquare_childsrendersize_init i s),
      for_children n fld_hsquare_child_childs_leftmost_child i (\<lambda>step prev cur. run_all [
        assign fld_hsquare_childsrendersize i (\<lambda>s. (get fld_hsquare_childsrendersize i s) + (get fld_node_rendersize cur s))]),
      assign fld_node_rendersize i (\<lambda>s. hsquare_renderSize (get fld_hsquare_childsrendersize i s) (get fld_hsquare_selfrendersize i
          s))]) s"

definition visit_vsquare_3 :: "nat \<Rightarrow> nat \<Rightarrow> tm \<Rightarrow> tm" where
  "visit_vsquare_3 n i s = (run_all [
      for_children n fld_vsquare_child_childs_leftmost_child i (\<lambda>step prev cur. run_all []),
      assign fld_vsquare_childsrendersize_init i (\<lambda>s. 0),
      assign fld_vsquare_childsrendersize i (\<lambda>s. get fld_vsquare_childsrendersize_init i s),
      for_children n fld_vsquare_child_childs_leftmost_child i (\<lambda>step prev cur. run_all [
        assign fld_vsquare_childsrendersize i (\<lambda>s. (get fld_vsquare_childsrendersize i s) + (get fld_node_rendersize cur s))]),
      assign fld_node_rendersize i (\<lambda>s. vsquare_renderSize (get fld_vsquare_childsrendersize i s) (get fld_vsquare_selfrendersize i
          s))]) s"

definition visit_countrycontainer_3 :: "nat \<Rightarrow> nat \<Rightarrow> tm \<Rightarrow> tm" where
  "visit_countrycontainer_3 n i s = (run_all [
      for_children n fld_countrycontainer_child_childs_leftmost_child i (\<lambda>step prev cur. run_all []),
      assign fld_countrycontainer_childsrendersize_init i (\<lambda>s. 0),
      assign fld_countrycontainer_childsrendersize i (\<lambda>s. get fld_countrycontainer_childsrendersize_init i s),
      for_children n fld_countrycontainer_child_childs_leftmost_child i (\<lambda>step prev cur. run_all [
        assign fld_countrycontainer_childsrendersize i (\<lambda>s. (get fld_countrycontainer_childsrendersize i s) + (get
            fld_node_rendersize cur s))]),
      assign fld_node_rendersize i (\<lambda>s. countrycontainer_renderSize (get fld_countrycontainer_childsrendersize i s) (get
          fld_countrycontainer_selfrendersize i s))]) s"

definition visit_3 :: "nat \<Rightarrow> nat \<Rightarrow> tm \<Rightarrow> tm" where
  "visit_3 n i s =
     (if tokens s i = TOK_ROOT then visit_root_3 n i s
      else if tokens s i = TOK_COUNTRYCONTAINER then visit_countrycontainer_3 n i s
      else if tokens s i = TOK_REGION then visit_region_3 n i s
      else if tokens s i = TOK_DISTRICT then visit_district_3 n i s
      else if tokens s i = TOK_VSQUARE then visit_vsquare_3 n i s
      else if tokens s i = TOK_HSQUARE then visit_hsquare_3 n i s
      else if tokens s i = TOK_POLLINGPLACE then visit_pollingplace_3 n i s else s)"

section \<open>Visit 4\<close>

definition visit_root_4 :: "nat \<Rightarrow> nat \<Rightarrow> tm \<Rightarrow> tm" where
  "visit_root_4 n i s = s"

definition visit_district_4 :: "nat \<Rightarrow> nat \<Rightarrow> tm \<Rightarrow> tm" where
  "visit_district_4 n i s = (run_all [
      assign fld_node_renderoffset i (\<lambda>s. district_renderOffset (get fld_node_renderrightoffset i s) (get fld_node_rendersize i s)),
      paint fld_district_draw_0 i (\<lambda>s. district_draw_0 (get fld_node_w i s) (get fld_district_selfrendersize_0 i s) (get
          fld_node_fixwidth i s) (get fld_node_renderoffset i s) (get fld_node_h i s) (get fld_node_y i s) (get fld_node_x i s)),
      assign fld_district_draw i (\<lambda>s. district_draw (get fld_district_draw_0 i s)),
      assign fld_district_childs_renderrightoffset_init i (\<lambda>s. (get fld_node_renderoffset i s) + (get fld_district_selfrendersize i
          s)),
      assign fld_district_childs_renderrightoffset_last i (\<lambda>s. get fld_district_childs_renderrightoffset_init i s),
      for_children n fld_district_child_childs_leftmost_child i (\<lambda>step prev cur. run_all [
        assign fld_node_renderrightoffset cur (\<lambda>s. (if step = 1 then get fld_district_childs_renderrightoffset_last i s else get
            fld_node_renderrightoffset prev s) + (get fld_node_rendersize cur s))]),
      for_children n fld_district_child_childs_leftmost_child i (\<lambda>step prev cur. run_all [
        assign fld_node_dorenderinglast cur (\<lambda>s. get fld_district_draw i s)])]) s"

definition visit_pollingplace_4 :: "nat \<Rightarrow> nat \<Rightarrow> tm \<Rightarrow> tm" where
  "visit_pollingplace_4 n i s = (run_all [
      assign fld_node_renderoffset i (\<lambda>s. pollingplace_renderOffset (get fld_node_renderrightoffset i s) (get fld_node_rendersize i
          s)),
      paint fld_pollingplace_draw_0 i (\<lambda>s. pollingplace_draw_0 (get fld_pollingplace_calcfraudcolor i s) (get fld_node_w i s) (get
          fld_pollingplace_selfrendersize_0 i s) (get fld_node_renderoffset i s) (get fld_pollingplace_calcvotescolor i s) (get fld_node_h i
          s) (get fld_node_y i s) (get fld_node_showfraud i s) (get fld_node_x i s)),
      assign fld_pollingplace_draw i (\<lambda>s. pollingplace_draw (get fld_pollingplace_draw_0 i s))]) s"

definition visit_region_4 :: "nat \<Rightarrow> nat \<Rightarrow> tm \<Rightarrow> tm" where
  "visit_region_4 n i s = (run_all [
      assign fld_node_renderoffset i (\<lambda>s. region_renderOffset (get fld_node_renderrightoffset i s) (get fld_node_rendersize i s)),
      assign fld_region_childs_renderrightoffset_init i (\<lambda>s. (get fld_node_renderoffset i s) + (get fld_region_selfrendersize i s)),
      assign fld_region_childs_renderrightoffset_last i (\<lambda>s. get fld_region_childs_renderrightoffset_init i s),
      for_children n fld_region_child_childs_leftmost_child i (\<lambda>step prev cur. run_all [
        assign fld_node_renderrightoffset cur (\<lambda>s. (if step = 1 then get fld_region_childs_renderrightoffset_last i s else get
            fld_node_renderrightoffset prev s) + (get fld_node_rendersize cur s))])]) s"

definition visit_hsquare_4 :: "nat \<Rightarrow> nat \<Rightarrow> tm \<Rightarrow> tm" where
  "visit_hsquare_4 n i s = (run_all [
      assign fld_node_renderoffset i (\<lambda>s. hsquare_renderOffset (get fld_node_renderrightoffset i s) (get fld_node_rendersize i s)),
      assign fld_hsquare_childs_renderrightoffset_init i (\<lambda>s. (get fld_node_renderoffset i s) + (get fld_hsquare_selfrendersize i
          s)),
      assign fld_hsquare_childs_renderrightoffset_last i (\<lambda>s. get fld_hsquare_childs_renderrightoffset_init i s),
      for_children n fld_hsquare_child_childs_leftmost_child i (\<lambda>step prev cur. run_all [
        assign fld_node_renderrightoffset cur (\<lambda>s. (if step = 1 then get fld_hsquare_childs_renderrightoffset_last i s else get
            fld_node_renderrightoffset prev s) + (get fld_node_rendersize cur s))])]) s"

definition visit_vsquare_4 :: "nat \<Rightarrow> nat \<Rightarrow> tm \<Rightarrow> tm" where
  "visit_vsquare_4 n i s = (run_all [
      assign fld_node_renderoffset i (\<lambda>s. vsquare_renderOffset (get fld_node_renderrightoffset i s) (get fld_node_rendersize i s)),
      assign fld_vsquare_childs_renderrightoffset_init i (\<lambda>s. (get fld_node_renderoffset i s) + (get fld_vsquare_selfrendersize i
          s)),
      assign fld_vsquare_childs_renderrightoffset_last i (\<lambda>s. get fld_vsquare_childs_renderrightoffset_init i s),
      for_children n fld_vsquare_child_childs_leftmost_child i (\<lambda>step prev cur. run_all [
        assign fld_node_renderrightoffset cur (\<lambda>s. (if step = 1 then get fld_vsquare_childs_renderrightoffset_last i s else get
            fld_node_renderrightoffset prev s) + (get fld_node_rendersize cur s))])]) s"

definition visit_countrycontainer_4 :: "nat \<Rightarrow> nat \<Rightarrow> tm \<Rightarrow> tm" where
  "visit_countrycontainer_4 n i s = (run_all [
      assign fld_node_renderoffset i (\<lambda>s. countrycontainer_renderOffset (get fld_node_renderrightoffset i s) (get
          fld_node_rendersize i s)),
      paint fld_countrycontainer_draw_0 i (\<lambda>s. countrycontainer_draw_0 (get fld_node_w i s) (get
          fld_countrycontainer_selfrendersize_0 i s) (get fld_node_fixwidth i s) (get fld_node_renderoffset i s) (get fld_node_h i s) (get
          fld_node_y i s) (get fld_node_x i s)),
      assign fld_countrycontainer_draw i (\<lambda>s. countrycontainer_draw (get fld_countrycontainer_draw_0 i s)),
      assign fld_countrycontainer_childs_renderrightoffset_init i (\<lambda>s. (get fld_node_renderoffset i s) + (get
          fld_countrycontainer_selfrendersize i s)),
      assign fld_countrycontainer_childs_renderrightoffset_last i (\<lambda>s. get fld_countrycontainer_childs_renderrightoffset_init i s),
      for_children n fld_countrycontainer_child_childs_leftmost_child i (\<lambda>step prev cur. run_all [
        assign fld_node_renderrightoffset cur (\<lambda>s. (if step = 1 then get fld_countrycontainer_childs_renderrightoffset_last i s else
            get fld_node_renderrightoffset prev s) + (get fld_node_rendersize cur s))]),
      for_children n fld_countrycontainer_child_childs_leftmost_child i (\<lambda>step prev cur. run_all [
        assign fld_node_dorenderinglast cur (\<lambda>s. get fld_countrycontainer_draw i s)])]) s"

definition visit_4 :: "nat \<Rightarrow> nat \<Rightarrow> tm \<Rightarrow> tm" where
  "visit_4 n i s =
     (if tokens s i = TOK_ROOT then visit_root_4 n i s
      else if tokens s i = TOK_COUNTRYCONTAINER then visit_countrycontainer_4 n i s
      else if tokens s i = TOK_REGION then visit_region_4 n i s
      else if tokens s i = TOK_DISTRICT then visit_district_4 n i s
      else if tokens s i = TOK_VSQUARE then visit_vsquare_4 n i s
      else if tokens s i = TOK_HSQUARE then visit_hsquare_4 n i s
      else if tokens s i = TOK_POLLINGPLACE then visit_pollingplace_4 n i s else s)"

section \<open>Passes\<close>

definition runTraversals :: "run_cfg \<Rightarrow> (level \<Rightarrow> nat list) \<Rightarrow> nat \<Rightarrow> level list \<Rightarrow> tm \<Rightarrow> pass_error + tm" where
  "runTraversals cfg order n lv s =
     (case topDownTraversal cfg order (visit_0 n) lv s of
        Inl e \<Rightarrow> Inl e
      | Inr s \<Rightarrow>
          (let s = bottomUpTraversal cfg order (visit_1 n) lv s
           in case topDownTraversal cfg order (visit_2 n) lv s of
                Inl e \<Rightarrow> Inl e
              | Inr s \<Rightarrow> Inr (bottomUpTraversal cfg order (visit_3 n) lv s)))"

definition run_visit_4 :: "run_cfg \<Rightarrow> (level \<Rightarrow> nat list) \<Rightarrow> nat \<Rightarrow> level list \<Rightarrow> tm \<Rightarrow> pass_error + tm" where
  "run_visit_4 cfg order n lv s = topDownTraversal cfg order (visit_4 n) lv s"

end
