(* ===== verification/TreemapLayout.thy ===== *)
theory TreemapLayout
  imports TreemapVisits
begin

text \<open>
  What the layout engine of the treemap computes: magnitudes are summed up the tree, and every
  container is cut into its children, side by side or one above the other, in proportion to their
  magnitudes.
\<close>

section \<open>Classes\<close>

definition horizontal :: "nat \<Rightarrow> bool" where
  "horizontal t \<longleftrightarrow> t = TOK_COUNTRYCONTAINER \<or> t = TOK_DISTRICT \<or> t = TOK_HSQUARE"

definition vertical :: "nat \<Rightarrow> bool" where
  "vertical t \<longleftrightarrow> t = TOK_REGION \<or> t = TOK_VSQUARE"

definition container :: "nat \<Rightarrow> bool" where
  "container t \<longleftrightarrow> horizontal t \<or> vertical t"

definition child_list :: "nat \<Rightarrow> nat \<Rightarrow> tm \<Rightarrow> nat list" where
  "child_list n i s =
     (if tokens s i = TOK_ROOT then
        (let c = first_child fld_root_child_childs_leftmost_child i s in if c = 0 then [] else [c])
      else if tokens s i = TOK_COUNTRYCONTAINER then kids_of n fld_countrycontainer_child_childs_leftmost_child i s
      else if tokens s i = TOK_REGION then kids_of n fld_region_child_childs_leftmost_child i s
      else if tokens s i = TOK_DISTRICT then kids_of n fld_district_child_childs_leftmost_child i s
      else if tokens s i = TOK_VSQUARE then kids_of n fld_vsquare_child_childs_leftmost_child i s
      else if tokens s i = TOK_HSQUARE then kids_of n fld_hsquare_child_childs_leftmost_child i s
      else [])"

lemma child_list_links: "keeps_links t s \<Longrightarrow> child_list n i t = child_list n i s"
proof -
  assume l: "keeps_links t s"
  then have "kids_of n f i t = kids_of n f i s" "first_child f i t = first_child f i s" "tokens t = tokens s" for f
    by (simp_all only: keeps_links_kids) (simp_all add: keeps_links_def first_child_def)
  then show ?thesis by (simp add: child_list_def)
qed

lemma child_list_distinct: "distinct (child_list n i s)"
  by (simp add: child_list_def kids_of_def walk_distinct Let_def)

section \<open>Loops\<close>

text \<open>Where the geometry of a node lives.\<close>

definition geometry :: "tfield set" where
  "geometry = {fld_node_w, fld_node_h, fld_node_rx, fld_node_by, fld_node_totalmag}"

lemmas geo_defs = geometry_def fld_node_w_def fld_node_h_def fld_node_rx_def fld_node_by_def fld_node_x_def
  fld_node_y_def fld_node_totalmag_def

lemma convert_node [simp]: "convert fld_node_w v = v" "convert fld_node_h v = v" "convert fld_node_rx v = v"
  "convert fld_node_by v = v" "convert fld_node_x v = v" "convert fld_node_y v = v" "convert fld_node_totalmag v = v"
  by (simp_all add: convert_def geo_defs)

lemma node_fields_differ [simp]: "fld_node_w \<noteq> fld_node_h" "fld_node_w \<noteq> fld_node_rx" "fld_node_w \<noteq> fld_node_by" "fld_node_w \<noteq> fld_node_x"
  "fld_node_w \<noteq> fld_node_y" "fld_node_w \<noteq> fld_node_totalmag" "fld_node_h \<noteq> fld_node_w"
  "fld_node_h \<noteq> fld_node_rx" "fld_node_h \<noteq> fld_node_by" "fld_node_h \<noteq> fld_node_x" "fld_node_h \<noteq> fld_node_y"
  "fld_node_h \<noteq> fld_node_totalmag" "fld_node_rx \<noteq> fld_node_w" "fld_node_rx \<noteq> fld_node_h"
  "fld_node_rx \<noteq> fld_node_by" "fld_node_rx \<noteq> fld_node_x" "fld_node_rx \<noteq> fld_node_y"
  "fld_node_rx \<noteq> fld_node_totalmag" "fld_node_by \<noteq> fld_node_w" "fld_node_by \<noteq> fld_node_h"
  "fld_node_by \<noteq> fld_node_rx" "fld_node_by \<noteq> fld_node_x" "fld_node_by \<noteq> fld_node_y"
  "fld_node_by \<noteq> fld_node_totalmag" "fld_node_x \<noteq> fld_node_w" "fld_node_x \<noteq> fld_node_h"
  "fld_node_x \<noteq> fld_node_rx" "fld_node_x \<noteq> fld_node_by" "fld_node_x \<noteq> fld_node_y"
  "fld_node_x \<noteq> fld_node_totalmag" "fld_node_y \<noteq> fld_node_w" "fld_node_y \<noteq> fld_node_h"
  "fld_node_y \<noteq> fld_node_rx" "fld_node_y \<noteq> fld_node_by" "fld_node_y \<noteq> fld_node_x"
  "fld_node_y \<noteq> fld_node_totalmag" "fld_node_totalmag \<noteq> fld_node_w" "fld_node_totalmag \<noteq> fld_node_h"
  "fld_node_totalmag \<noteq> fld_node_rx" "fld_node_totalmag \<noteq> fld_node_by" "fld_node_totalmag \<noteq> fld_node_x"
  "fld_node_totalmag \<noteq> fld_node_y"
  by (simp_all add: geo_defs)

text \<open>The sizes and places of children side by side, and of children one above the other.\<close>

definition h_sizes :: "nat \<Rightarrow> nat \<Rightarrow> nat \<Rightarrow> nat \<Rightarrow> tm \<Rightarrow> tm" where
  "h_sizes i = (\<lambda>step prev cur. run_all [
     assign fld_node_h cur (\<lambda>s. get fld_node_h i s),
     assign fld_node_w cur (\<lambda>s. ((get fld_node_totalmag cur s) / (get fld_node_totalmag i s)) * (get fld_node_w i s)),
     assign fld_node_by cur (\<lambda>s. (get fld_node_y i s) + (get fld_node_h i s))])"

definition h_places :: "tfield \<Rightarrow> nat \<Rightarrow> nat \<Rightarrow> nat \<Rightarrow> nat \<Rightarrow> tm \<Rightarrow> tm" where
  "h_places lst i = (\<lambda>step prev cur. run_all [
     assign fld_node_rx cur (\<lambda>s. (if step = 1 then get lst i s else get fld_node_rx prev s) + (get fld_node_w cur s))])"

definition v_sizes :: "tfield \<Rightarrow> nat \<Rightarrow> nat \<Rightarrow> nat \<Rightarrow> nat \<Rightarrow> tm \<Rightarrow> tm" where
  "v_sizes lst i = (\<lambda>step prev cur. run_all [
     assign fld_node_h cur (\<lambda>s. ((get fld_node_totalmag cur s) / (get fld_node_totalmag i s)) * (get fld_node_h i s)),
     assign fld_node_w cur (\<lambda>s. get fld_node_w i s),
     assign fld_node_by cur (\<lambda>s. (if step = 1 then get lst i s else get fld_node_by prev s) + (get fld_node_h cur s))])"

definition v_places :: "nat \<Rightarrow> nat \<Rightarrow> nat \<Rightarrow> nat \<Rightarrow> tm \<Rightarrow> tm" where
  "v_places i = (\<lambda>step prev cur. run_all [
     assign fld_node_rx cur (\<lambda>s. (get fld_node_x i s) + (get fld_node_w i s))])"

text \<open>A loop whose body, at a child, stores numbers that depend on the child and on what came before.\<close>

lemma frame_body:
  assumes "keeps_links u t" and "\<And>g j. get g j u = (if j = c \<and> g \<in> G then e g else get g j t)"
  shows "frame {(g, j). j = c \<and> g \<in> G} t u"
  using assms by (auto simp: frame_def)

lemma frame_more:
  assumes "frame {(g, j). j \<in> set dn \<and> g \<in> G} s t" and "frame {(g, j). j = c \<and> g \<in> G} t u"
  shows "frame {(g, j). j \<in> set (dn @ [c]) \<and> g \<in> G} s u"
  by (rule frame_trans [OF frame_mono [OF assms(1)] frame_mono [OF assms(2)]]) auto

lemma loop_prefix:
  assumes step: "\<And>dn c rest t. cs = dn @ c # rest \<Longrightarrow> frame {(g, j). j \<in> set dn \<and> g \<in> G} s t \<Longrightarrow>
      (\<forall>k < length dn. P (take k dn) (dn ! k) t) \<Longrightarrow>
      frame {(g, j). j = c \<and> g \<in> G} t (body (Suc (length dn)) (if dn = [] then 0 else last dn) c t) \<and>
      P dn c (body (Suc (length dn)) (if dn = [] then 0 else last dn) c t)"
    and keep: "\<And>dn c t u b. P dn c t \<Longrightarrow> frame {(g, j). j = b \<and> g \<in> G} t u \<Longrightarrow> b \<notin> set (dn @ [c]) \<Longrightarrow> b \<in> set cs \<Longrightarrow> P dn c u"
    and "distinct cs"
  shows "frame {(g, j). j \<in> set cs \<and> g \<in> G} s (each body 0 0 cs s) \<and>
    (\<forall>k < length cs. P (take k cs) (cs ! k) (each body 0 0 cs s))"
proof (rule each_induct [where I = "\<lambda>dn t. frame {(g, j). j \<in> set dn \<and> g \<in> G} s t \<and> (\<forall>k < length dn. P (take k dn) (dn ! k) t)"])
  fix dn c rest t
  assume cs: "cs = dn @ c # rest" and I: "frame {(g, j). j \<in> set dn \<and> g \<in> G} s t \<and> (\<forall>k < length dn. P (take k dn) (dn ! k) t)"
  let ?u = "body (Suc (length dn)) (if dn = [] then 0 else last dn) c t"
  from step [OF cs] I have u: "frame {(g, j). j = c \<and> g \<in> G} t ?u" "P dn c ?u" by blast+
  have "P (take k (dn @ [c])) ((dn @ [c]) ! k) ?u" if "k < length (dn @ [c])" for k
  proof (cases "k < length dn")
    case True
    then have "set (take k dn @ [dn ! k]) \<subseteq> set dn" using set_take_subset by fastforce
    then have "c \<notin> set (take k dn @ [dn ! k])" using assms(3) cs by auto
    with keep [OF _ u(1), of "take k dn" "dn ! k"] I True cs show ?thesis by (simp add: nth_append)
  qed (use u that in \<open>simp add: nth_append\<close>)
  with frame_more [OF conjunct1 [OF I] u(1)]
  show "frame {(g, j). j \<in> set (dn @ [c]) \<and> g \<in> G} s ?u \<and> (\<forall>k < length (dn @ [c]). P (take k (dn @ [c])) ((dn @ [c]) ! k) ?u)"
    by blast
qed simp

lemma loop_base:
  assumes "frame {(g, j). j \<in> set dn \<and> g \<in> G} s t" and "cs = dn @ c # rest" and "distinct cs" and "i \<notin> set cs"
  shows "get g i t = get g i s" and "get g c t = get g c s" and "c \<noteq> i"
  using assms by (auto intro: frame_get [of _ s t])

lemma h_sizes_loop:
  assumes "i \<notin> set cs" and "distinct cs"
  shows "frame {(g, j). j \<in> set cs \<and> g \<in> {fld_node_h, fld_node_w, fld_node_by}} s (each (h_sizes i) 0 0 cs s) \<and>
    (\<forall>k < length cs. (\<lambda>dn c t. get fld_node_h c t = get fld_node_h i s \<and>
       get fld_node_w c t = get fld_node_totalmag c s / get fld_node_totalmag i s * get fld_node_w i s \<and>
       get fld_node_by c t = get fld_node_y i s + get fld_node_h i s) (take k cs) (cs ! k) (each (h_sizes i) 0 0 cs s))"
proof (rule loop_prefix)
  fix dn c rest t
  assume cs: "cs = dn @ c # rest" and fr: "frame {(g, j). j \<in> set dn \<and> g \<in> {fld_node_h, fld_node_w, fld_node_by}} s t"
  note base = loop_base [OF fr cs assms(2,1)]
  let ?t = "h_sizes i (Suc (length dn)) (if dn = [] then 0 else last dn) c t"
  have g: "get g j ?t = (if j = c \<and> g \<in> {fld_node_h, fld_node_w, fld_node_by}
      then if g = fld_node_h then get fld_node_h i s
        else if g = fld_node_w then get fld_node_totalmag c s / get fld_node_totalmag i s * get fld_node_w i s
        else get fld_node_y i s + get fld_node_h i s
      else get g j t)" for g j
    using base(3) by (cases "j = c"; cases "g = fld_node_h"; cases "g = fld_node_w"; cases "g = fld_node_by")
      (simp_all add: h_sizes_def assign_def base(1,2))
  have "keeps_links ?t t" by (simp add: h_sizes_def assign_def keeps_links_def)
  from frame_body [OF this g] g
  show "frame {(g, j). j = c \<and> g \<in> {fld_node_h, fld_node_w, fld_node_by}} t ?t \<and>
    get fld_node_h c ?t = get fld_node_h i s \<and>
       get fld_node_w c ?t = get fld_node_totalmag c s / get fld_node_totalmag i s * get fld_node_w i s \<and>
       get fld_node_by c ?t = get fld_node_y i s + get fld_node_h i s"
    by simp
qed (use assms in \<open>auto simp: frame_get\<close>)

lemma v_places_loop:
  assumes "i \<notin> set cs" and "distinct cs"
  shows "frame {(g, j). j \<in> set cs \<and> g \<in> {fld_node_rx}} s (each (v_places i) 0 0 cs s) \<and>
    (\<forall>k < length cs. (\<lambda>dn c t. get fld_node_rx c t = get fld_node_x i s + get fld_node_w i s)
       (take k cs) (cs ! k) (each (v_places i) 0 0 cs s))"
proof (rule loop_prefix)
  fix dn c rest t
  assume cs: "cs = dn @ c # rest" and fr: "frame {(g, j). j \<in> set dn \<and> g \<in> {fld_node_rx}} s t"
  note base = loop_base [OF fr cs assms(2,1)]
  let ?t = "v_places i (Suc (length dn)) (if dn = [] then 0 else last dn) c t"
  have g: "get g j ?t = (if j = c \<and> g \<in> {fld_node_rx} then get fld_node_x i s + get fld_node_w i s else get g j t)" for g j
    by (simp add: v_places_def assign_def base(1))
  have "keeps_links ?t t" by (simp add: v_places_def assign_def keeps_links_def)
  from frame_body [OF this g] g
  show "frame {(g, j). j = c \<and> g \<in> {fld_node_rx}} t ?t \<and> get fld_node_rx c ?t = get fld_node_x i s + get fld_node_w i s"
    by simp
qed (use assms in \<open>auto simp: frame_get\<close>)

text \<open>Each child starts where the previous one ends.\<close>

lemma previous_end:
  assumes "\<forall>k < length dn. get g (dn ! k) t = a + sum_list (map e (take k dn)) + e (dn ! k)"
  shows "(if Suc (length dn) = 1 then a else get g (if dn = [] then 0 else last dn) t) = a + sum_list (map e dn)"
proof (cases dn rule: rev_cases)
  case (snoc xs x)
  then show ?thesis using assms [rule_format, of "length xs"] by (simp add: nth_append)
qed simp

lemma h_places_loop:
  assumes "i \<notin> set cs" and "distinct cs"
  shows "frame {(g, j). j \<in> set cs \<and> g \<in> {fld_node_rx}} s (each (h_places lst i) 0 0 cs s) \<and>
    (\<forall>k < length cs. (\<lambda>dn c t. get fld_node_rx c t = get lst i s + sum_list (map (\<lambda>d. get fld_node_w d s) dn) + get fld_node_w c s)
       (take k cs) (cs ! k) (each (h_places lst i) 0 0 cs s))"
proof (rule loop_prefix)
  fix dn c rest t
  assume cs: "cs = dn @ c # rest" and fr: "frame {(g, j). j \<in> set dn \<and> g \<in> {fld_node_rx}} s t"
    and P: "\<forall>k < length dn. get fld_node_rx (dn ! k) t =
      get lst i s + sum_list (map (\<lambda>d. get fld_node_w d s) (take k dn)) + get fld_node_w (dn ! k) s"
  note base = loop_base [OF fr cs assms(2,1)]
  let ?t = "h_places lst i (Suc (length dn)) (if dn = [] then 0 else last dn) c t"
  have g: "get g j ?t = (if j = c \<and> g \<in> {fld_node_rx}
      then get lst i s + sum_list (map (\<lambda>d. get fld_node_w d s) dn) + get fld_node_w c s else get g j t)" for g j
    using previous_end [OF P] by (simp add: h_places_def assign_def base(1,2) split: if_splits)
  have "keeps_links ?t t" by (simp add: h_places_def assign_def keeps_links_def)
  from frame_body [OF this g] g
  show "frame {(g, j). j = c \<and> g \<in> {fld_node_rx}} t ?t \<and>
     get fld_node_rx c ?t = get lst i s + sum_list (map (\<lambda>d. get fld_node_w d s) dn) + get fld_node_w c s"
    by simp
qed (use assms in \<open>auto simp: frame_get\<close>)

lemma v_sizes_loop:
  fixes s :: tm
  assumes "i \<notin> set cs" and "distinct cs"
  defines "e \<equiv> \<lambda>c. get fld_node_totalmag c s / get fld_node_totalmag i s * get fld_node_h i s"
  shows "frame {(g, j). j \<in> set cs \<and> g \<in> {fld_node_h, fld_node_w, fld_node_by}} s (each (v_sizes lst i) 0 0 cs s) \<and>
    (\<forall>k < length cs. (\<lambda>dn c t. get fld_node_h c t = e c \<and> get fld_node_w c t = get fld_node_w i s \<and>
       get fld_node_by c t = get lst i s + sum_list (map e dn) + e c) (take k cs) (cs ! k) (each (v_sizes lst i) 0 0 cs s))"
proof (rule loop_prefix)
  fix dn c rest t
  assume cs: "cs = dn @ c # rest" and fr: "frame {(g, j). j \<in> set dn \<and> g \<in> {fld_node_h, fld_node_w, fld_node_by}} s t"
    and P: "\<forall>k < length dn. get fld_node_h (dn ! k) t = e (dn ! k) \<and> get fld_node_w (dn ! k) t = get fld_node_w i s \<and>
       get fld_node_by (dn ! k) t = get lst i s + sum_list (map e (take k dn)) + e (dn ! k)"
  note base = loop_base [OF fr cs assms(2,1)]
  from P have "\<forall>k < length dn. get fld_node_by (dn ! k) t = get lst i s + sum_list (map e (take k dn)) + e (dn ! k)" by blast
  note pe = previous_end [OF this]
  have prev: "dn \<noteq> [] \<Longrightarrow> last dn \<noteq> c" using cs assms(2) by auto
  let ?t = "v_sizes lst i (Suc (length dn)) (if dn = [] then 0 else last dn) c t"
  have g: "get g j ?t = (if j = c \<and> g \<in> {fld_node_h, fld_node_w, fld_node_by}
      then if g = fld_node_h then e c else if g = fld_node_w then get fld_node_w i s
        else get lst i s + sum_list (map e dn) + e c
      else get g j t)" for g j
    using base(3) pe prev by (cases "j = c"; cases "g = fld_node_h"; cases "g = fld_node_w"; cases "g = fld_node_by"; cases "dn = []")
      (simp_all add: v_sizes_def assign_def base(1,2) e_def)
  have "keeps_links ?t t" by (simp add: v_sizes_def assign_def keeps_links_def)
  from frame_body [OF this g] g
  show "frame {(g, j). j = c \<and> g \<in> {fld_node_h, fld_node_w, fld_node_by}} t ?t \<and>
    get fld_node_h c ?t = e c \<and> get fld_node_w c ?t = get fld_node_w i s \<and>
       get fld_node_by c ?t = get lst i s + sum_list (map e dn) + e c"
    by simp
qed (use assms in \<open>auto simp: frame_get\<close>)

section \<open>A container and its children\<close>

text \<open>The corner of a node; children in a row and in a column, each from where the previous one ends.\<close>

definition corner :: "nat \<Rightarrow> tm \<Rightarrow> bool" where
  "corner i t \<longleftrightarrow> get fld_node_x i t = get fld_node_rx i t - get fld_node_w i t \<and>
     get fld_node_y i t = get fld_node_by i t - get fld_node_h i t"

definition share :: "tfield \<Rightarrow> nat \<Rightarrow> nat \<Rightarrow> tm \<Rightarrow> real" where
  "share g i c t = get fld_node_totalmag c t / get fld_node_totalmag i t * get g i t"

definition row :: "nat list \<Rightarrow> nat \<Rightarrow> tm \<Rightarrow> bool" where
  "row cs i t \<longleftrightarrow> (\<forall>k < length cs.
     get fld_node_w (cs ! k) t = share fld_node_w i (cs ! k) t \<and> get fld_node_h (cs ! k) t = get fld_node_h i t \<and>
     get fld_node_rx (cs ! k) t = get fld_node_x i t + sum_list (map (\<lambda>c. share fld_node_w i c t) (take k cs)) + share fld_node_w i (cs ! k) t \<and>
     get fld_node_by (cs ! k) t = get fld_node_y i t + get fld_node_h i t)"

definition column :: "nat list \<Rightarrow> nat \<Rightarrow> tm \<Rightarrow> bool" where
  "column cs i t \<longleftrightarrow> (\<forall>k < length cs.
     get fld_node_h (cs ! k) t = share fld_node_h i (cs ! k) t \<and> get fld_node_w (cs ! k) t = get fld_node_w i t \<and>
     get fld_node_by (cs ! k) t = get fld_node_y i t + sum_list (map (\<lambda>c. share fld_node_h i c t) (take k cs)) + share fld_node_h i (cs ! k) t \<and>
     get fld_node_rx (cs ! k) t = get fld_node_x i t + get fld_node_w i t)"

text \<open>What a visit may write: at the node all but its sizes, its far corner and its magnitude, at the children all but their
  corner and magnitude.\<close>

definition visit_writes :: "nat \<Rightarrow> nat list \<Rightarrow> (tfield \<times> nat) set" where
  "visit_writes i cs = {(g, j). j = i \<and> g \<notin> geometry} \<union>
     {(g, j). j \<in> set cs \<and> g \<in> {fld_node_h, fld_node_w, fld_node_by, fld_node_rx}}"

definition own :: "nat \<Rightarrow> (tfield \<times> nat) set" where
  "own i = {(g, j). j = i \<and> g \<notin> geometry \<union> {fld_node_x, fld_node_y}}"

lemma own_writes: "own i \<subseteq> visit_writes i cs"
  by (auto simp: own_def visit_writes_def)

lemma share_frame: "(\<And>g. g \<in> geometry \<Longrightarrow> get g i t = get g i s) \<Longrightarrow> get fld_node_totalmag c t = get fld_node_totalmag c s \<Longrightarrow>
    g \<in> geometry \<Longrightarrow> share g i c t = share g i c s"
  by (simp add: share_def geometry_def)

definition h_visit :: "tfield \<Rightarrow> (tm \<Rightarrow> tm) list \<Rightarrow> (tm \<Rightarrow> tm) list \<Rightarrow> tfield \<Rightarrow> tfield \<Rightarrow> nat \<Rightarrow> nat \<Rightarrow> tm \<Rightarrow> tm" where
  "h_visit f A B ini lst n i s = run_all
     ([assign fld_node_x i (\<lambda>s. get fld_node_rx i s - get fld_node_w i s),
       assign fld_node_y i (\<lambda>s. get fld_node_by i s - get fld_node_h i s)] @ A @
      [for_children n f i (h_sizes i)] @ B @
      [assign ini i (\<lambda>s. get fld_node_x i s), assign lst i (\<lambda>s. get ini i s), for_children n f i (h_places lst i)]) s"

definition v_visit :: "tfield \<Rightarrow> tfield \<Rightarrow> tfield \<Rightarrow> nat \<Rightarrow> nat \<Rightarrow> tm \<Rightarrow> tm" where
  "v_visit f ini lst n i s = run_all
     [assign fld_node_x i (\<lambda>s. get fld_node_rx i s - get fld_node_w i s),
      assign fld_node_y i (\<lambda>s. get fld_node_by i s - get fld_node_h i s),
      assign ini i (\<lambda>s. get fld_node_y i s), assign lst i (\<lambda>s. get ini i s),
      for_children n f i (v_sizes lst i), for_children n f i (v_places i)] s"

lemma corner_run:
  assumes "run_all [assign fld_node_x i (\<lambda>s. get fld_node_rx i s - get fld_node_w i s),
      assign fld_node_y i (\<lambda>s. get fld_node_by i s - get fld_node_h i s)] s = t"
  shows "frame {(g, j). j = i \<and> g \<in> {fld_node_x, fld_node_y}} s t" and "corner i t"
  unfolding assms [symmetric] by (auto simp: assign_def frame_def keeps_links_def corner_def)

lemma last_run:
  assumes "run_all [assign ini i (\<lambda>s. get g i s), assign lst i (\<lambda>s. get ini i s)] s = t"
    and "fbuf ini = FloatBuf" and "fbuf lst = FloatBuf" and "(ini, i) \<in> own i" and "(lst, i) \<in> own i"
  shows "frame (own i) s t" and "get lst i t = get g i s"
  unfolding assms(1) [symmetric] using assms(2-5) by (auto simp: assign_def frame_def keeps_links_def convert_def)

lemma visit_writes_corner: "{(g, j). j = i \<and> g \<in> {fld_node_x, fld_node_y}} \<subseteq> visit_writes i cs"
  by (auto simp: visit_writes_def geometry_def)

lemma visit_writes_kids: "G \<subseteq> {fld_node_h, fld_node_w, fld_node_by, fld_node_rx} \<Longrightarrow> {(g, j). j \<in> set cs \<and> g \<in> G} \<subseteq> visit_writes i cs"
  by (auto simp: visit_writes_def)

lemma h_visit_ok:
  assumes A: "\<And>c. c \<in> set A \<Longrightarrow> frames (own i) s c" and B: "\<And>c. c \<in> set B \<Longrightarrow> frames (own i) s c"
    and ini: "fbuf ini = FloatBuf" "fbuf lst = FloatBuf" "(ini, i) \<in> own i" "(lst, i) \<in> own i"
    and cs: "cs = kids_of n f i s" "i \<notin> set cs"
  shows "frame (visit_writes i cs) s (h_visit f A B ini lst n i s) \<and> corner i (h_visit f A B ini lst n i s) \<and>
    row cs i (h_visit f A B ini lst n i s)"
proof -
  have d: "distinct cs" by (simp add: cs kids_of_def walk_distinct)
  obtain s1 where s1: "run_all [assign fld_node_x i (\<lambda>s. get fld_node_rx i s - get fld_node_w i s),
      assign fld_node_y i (\<lambda>s. get fld_node_by i s - get fld_node_h i s)] s = s1" by blast
  obtain s2 where s2: "run_all A s1 = s2" by blast
  obtain s3 where s3: "each (h_sizes i) 0 0 cs s2 = s3" by blast
  obtain s4 where s4: "run_all B s3 = s4" by blast
  obtain s5 where s5: "run_all [assign ini i (\<lambda>s. get fld_node_x i s), assign lst i (\<lambda>s. get ini i s)] s4 = s5" by blast
  obtain s6 where s6: "each (h_places lst i) 0 0 cs s5 = s6" by blast
  note f1 = corner_run [OF s1]
  have "frames (own i) s1 c" if "c \<in> set A" for c
    using A [OF that] frame_links [OF f1(1)] unfolding frames_def by (metis keeps_links_trans)
  then have f2: "frame (own i) s1 s2" using frames_D [OF frames_run] s2 by blast
  from h_sizes_loop [OF cs(2) d, of s2] s3 have f3: "frame {(g, j). j \<in> set cs \<and> g \<in> {fld_node_h, fld_node_w, fld_node_by}} s2 s3"
    and v3: "\<forall>k < length cs. get fld_node_h (cs ! k) s3 = get fld_node_h i s2 \<and>
       get fld_node_w (cs ! k) s3 = get fld_node_totalmag (cs ! k) s2 / get fld_node_totalmag i s2 * get fld_node_w i s2 \<and>
       get fld_node_by (cs ! k) s3 = get fld_node_y i s2 + get fld_node_h i s2" by auto
  have l3: "keeps_links s3 s" using f1(1) f2 f3 frame_links keeps_links_trans by blast
  have "frames (own i) s3 c" if "c \<in> set B" for c
    using B [OF that] l3 unfolding frames_def by (metis keeps_links_trans)
  then have f4: "frame (own i) s3 s4" using frames_D [OF frames_run] s4 by blast
  note f5 = last_run [OF s5 ini]
  from h_places_loop [OF cs(2) d, where lst = lst and s = s5] s6 have f6: "frame {(g, j). j \<in> set cs \<and> g \<in> {fld_node_rx}} s5 s6"
    and v6: "\<forall>k < length cs. get fld_node_rx (cs ! k) s6 =
      get lst i s5 + sum_list (map (\<lambda>d. get fld_node_w d s5) (take k cs)) + get fld_node_w (cs ! k) s5" by auto
  have k: "kids_of n f i s5 = cs" "kids_of n f i s2 = cs"
    using f1(1) f2 f3 f4 f5(1) cs(1) by (simp_all add: frame_kids)
  have r: "h_visit f A B ini lst n i s = s6"
    using s1 s2 s3 s4 s5 s6 k by (simp add: h_visit_def run_all_append for_children_def)
  have fr: "frame (visit_writes i cs) s s6"
    using frame_mono [OF f1(1) visit_writes_corner] frame_mono [OF f2 own_writes] frame_mono [OF f3 visit_writes_kids]
      frame_mono [OF f4 own_writes] frame_mono [OF f5(1) own_writes] frame_mono [OF f6 visit_writes_kids] frame_trans
    by (metis (no_types, lifting) empty_subsetI insert_subset insert_iff)
  have own_i: "get g i s6 = get g i s1" if "g \<in> geometry \<union> {fld_node_x, fld_node_y}" for g
  proof -
    have "(g, i) \<notin> own i" "\<And>G. (g, i) \<notin> {(g, j). j \<in> set cs \<and> g \<in> G}" using that cs(2) by (auto simp: own_def)
    then show ?thesis using f2 f3 f4 f5(1) f6 by (metis frame_get)
  qed
  have mag: "get fld_node_totalmag c s6 = get fld_node_totalmag c s" "get fld_node_totalmag c s2 = get fld_node_totalmag c s" for c
    using frame_get [OF fr] frame_get [OF f1(1)] frame_get [OF f2] by (simp_all add: visit_writes_def own_def geometry_def)
  have s2_i: "get g i s2 = get g i s1" if "g \<in> geometry \<union> {fld_node_x, fld_node_y}" for g
    using that by (intro frame_get [OF f2]) (auto simp: own_def)
  have later: "get g c s6 = get g c s3" "get g c s5 = get g c s3" if "c \<in> set cs" "g \<noteq> fld_node_rx" for g c
    using that cs(2) f4 f5(1) f6 by (auto simp: frame_def own_def)
  have x4: "get fld_node_x i s4 = get fld_node_x i s6"
    using own_i [of fld_node_x] s2_i [of fld_node_x] f3 f4 cs(2) by (auto simp: frame_def own_def)
  have sh: "get fld_node_w c s5 = share fld_node_w i c s6" "get fld_node_w c s6 = share fld_node_w i c s6" if "c \<in> set cs" for c
  proof -
    from that obtain m where "m < length cs" "c = cs ! m" by (metis in_set_conv_nth)
    with v3 later [OF that, of fld_node_w] mag own_i s2_i
    show "get fld_node_w c s5 = share fld_node_w i c s6" "get fld_node_w c s6 = share fld_node_w i c s6"
      by (simp_all add: share_def geometry_def)
  qed
  have "row cs i s6"
    unfolding row_def
  proof (intro allI impI)
    fix k assume k: "k < length cs"
    then have c: "cs ! k \<in> set cs" and t: "d \<in> set (take k cs) \<Longrightarrow> d \<in> set cs" for d by (auto dest: in_set_takeD)
    have "map (\<lambda>d. get fld_node_w d s5) (take k cs) = map (\<lambda>d. share fld_node_w i d s6) (take k cs)"
      using sh(1) t by simp
    then have "get fld_node_rx (cs ! k) s6 = get fld_node_x i s6 +
        sum_list (map (\<lambda>c. share fld_node_w i c s6) (take k cs)) + share fld_node_w i (cs ! k) s6"
      using v6 [rule_format, OF k] by (simp only: f5(2) x4 sh(1) [OF c])
    moreover have "get fld_node_h (cs ! k) s6 = get fld_node_h i s6"
      using v3 [rule_format, OF k] by (simp add: later(1) [OF c] own_i s2_i geometry_def)
    moreover have "get fld_node_by (cs ! k) s6 = get fld_node_y i s6 + get fld_node_h i s6"
      using v3 [rule_format, OF k] by (simp add: later(1) [OF c] own_i s2_i geometry_def)
    ultimately show "get fld_node_w (cs ! k) s6 = share fld_node_w i (cs ! k) s6 \<and> get fld_node_h (cs ! k) s6 = get fld_node_h i s6 \<and>
      get fld_node_rx (cs ! k) s6 = get fld_node_x i s6 + sum_list (map (\<lambda>c. share fld_node_w i c s6) (take k cs)) + share fld_node_w i (cs ! k) s6 \<and>
      get fld_node_by (cs ! k) s6 = get fld_node_y i s6 + get fld_node_h i s6"
      using sh(2) [OF c] by blast
  qed
  moreover have "corner i s6" using f1(2) own_i by (simp add: corner_def geometry_def)
  ultimately show ?thesis using fr r by simp
qed

lemma v_visit_ok:
  assumes ini: "fbuf ini = FloatBuf" "fbuf lst = FloatBuf" "(ini, i) \<in> own i" "(lst, i) \<in> own i"
    and cs: "cs = kids_of n f i s" "i \<notin> set cs"
  shows "frame (visit_writes i cs) s (v_visit f ini lst n i s) \<and> corner i (v_visit f ini lst n i s) \<and>
    column cs i (v_visit f ini lst n i s)"
proof -
  have d: "distinct cs" by (simp add: cs kids_of_def walk_distinct)
  obtain s1 where s1: "run_all [assign fld_node_x i (\<lambda>s. get fld_node_rx i s - get fld_node_w i s),
      assign fld_node_y i (\<lambda>s. get fld_node_by i s - get fld_node_h i s)] s = s1" by blast
  obtain s2 where s2: "run_all [assign ini i (\<lambda>s. get fld_node_y i s), assign lst i (\<lambda>s. get ini i s)] s1 = s2" by blast
  obtain s3 where s3: "each (v_sizes lst i) 0 0 cs s2 = s3" by blast
  obtain s4 where s4: "each (v_places i) 0 0 cs s3 = s4" by blast
  note f1 = corner_run [OF s1] and f2 = last_run [OF s2 ini]
  let ?e = "\<lambda>c. get fld_node_totalmag c s2 / get fld_node_totalmag i s2 * get fld_node_h i s2"
  from v_sizes_loop [OF cs(2) d, where lst = lst and s = s2] s3
  have f3: "frame {(g, j). j \<in> set cs \<and> g \<in> {fld_node_h, fld_node_w, fld_node_by}} s2 s3"
    and v3: "\<forall>k < length cs. get fld_node_h (cs ! k) s3 = ?e (cs ! k) \<and> get fld_node_w (cs ! k) s3 = get fld_node_w i s2 \<and>
       get fld_node_by (cs ! k) s3 = get lst i s2 + sum_list (map ?e (take k cs)) + ?e (cs ! k)" by auto
  from v_places_loop [OF cs(2) d, where s = s3] s4 have f4: "frame {(g, j). j \<in> set cs \<and> g \<in> {fld_node_rx}} s3 s4"
    and v4: "\<forall>k < length cs. get fld_node_rx (cs ! k) s4 = get fld_node_x i s3 + get fld_node_w i s3" by auto
  have k: "kids_of n f i s3 = cs" "kids_of n f i s2 = cs"
    using f1(1) f2(1) f3 cs(1) by (simp_all add: frame_kids)
  have r: "v_visit f ini lst n i s = s4"
    using s1 s2 s3 s4 k by (simp add: v_visit_def for_children_def)
  have fr: "frame (visit_writes i cs) s s4"
    using frame_mono [OF f1(1) visit_writes_corner] frame_mono [OF f2(1) own_writes] frame_mono [OF f3 visit_writes_kids]
      frame_mono [OF f4 visit_writes_kids] frame_trans
    by (metis (no_types, lifting) empty_subsetI insert_subset insert_iff)
  have near: "get g i s4 = get g i s1" "get g i s3 = get g i s1" "get g i s2 = get g i s1" if "g \<in> geometry \<union> {fld_node_x, fld_node_y}" for g
    using that cs(2) f2(1) f3 f4 by (auto simp: frame_def own_def)
  have mag: "get fld_node_totalmag c s4 = get fld_node_totalmag c s" "get fld_node_totalmag c s2 = get fld_node_totalmag c s" for c
    using frame_get [OF fr] frame_get [OF f1(1)] frame_get [OF f2(1)] by (simp_all add: visit_writes_def own_def geometry_def)
  have later: "get g c s4 = get g c s3" if "g \<noteq> fld_node_rx" for g c
    using that f4 by (auto simp: frame_def)
  have e: "?e = (\<lambda>c. share fld_node_h i c s4)"
    by (simp add: share_def mag near geometry_def)
  have "column cs i s4"
    unfolding column_def
  proof (intro allI impI)
    fix k assume k: "k < length cs"
    note v = v3 [rule_format, OF k, unfolded fun_cong [OF e, of "cs ! k"] e] and x = v4 [rule_format, OF k]
    show "get fld_node_h (cs ! k) s4 = share fld_node_h i (cs ! k) s4 \<and> get fld_node_w (cs ! k) s4 = get fld_node_w i s4 \<and>
      get fld_node_by (cs ! k) s4 = get fld_node_y i s4 + sum_list (map (\<lambda>c. share fld_node_h i c s4) (take k cs)) + share fld_node_h i (cs ! k) s4 \<and>
      get fld_node_rx (cs ! k) s4 = get fld_node_x i s4 + get fld_node_w i s4"
      using v x by (simp add: later near geometry_def f2(2))
  qed
  moreover have "corner i s4" using f1(2) near by (simp add: corner_def geometry_def)
  ultimately show ?thesis using fr r by simp
qed

section \<open>The visits of the third pass\<close>

definition cut :: "nat \<Rightarrow> tm \<Rightarrow> nat \<Rightarrow> tm \<Rightarrow> bool" where
  "cut n s i t \<longleftrightarrow> (horizontal (tokens s i) \<longrightarrow> row (child_list n i s) i t) \<and> (vertical (tokens s i) \<longrightarrow> column (child_list n i s) i t)"

lemma countrycontainer_box: "visit_countrycontainer_2 n i = h_visit fld_countrycontainer_child_childs_leftmost_child
    [assign fld_countrycontainer_selfrendersize_0 i (\<lambda>s. countrycontainer_selfRenderSize_0 (get fld_node_w i s) (get
       fld_node_fixwidth i s) (get fld_node_h i s) (get fld_node_y i s) (get fld_node_x i s))]
    [assign fld_countrycontainer_selfrendersize i (\<lambda>s. countrycontainer_selfRenderSize (get fld_countrycontainer_selfrendersize_0 i s))]
    fld_countrycontainer_childs_rx_init fld_countrycontainer_childs_rx_last n i"
  by (intro ext) (simp add: visit_countrycontainer_2_def h_visit_def h_sizes_def h_places_def countrycontainer_x_def countrycontainer_y_def)

lemma district_box: "visit_district_2 n i = h_visit fld_district_child_childs_leftmost_child
    [assign fld_district_selfrendersize_0 i (\<lambda>s. district_selfRenderSize_0 (get fld_node_w i s) (get
       fld_node_fixwidth i s) (get fld_node_h i s) (get fld_node_y i s) (get fld_node_x i s))]
    [assign fld_district_selfrendersize i (\<lambda>s. district_selfRenderSize (get fld_district_selfrendersize_0 i s))]
    fld_district_childs_rx_init fld_district_childs_rx_last n i"
  by (intro ext) (simp add: visit_district_2_def h_visit_def h_sizes_def h_places_def district_x_def district_y_def)

lemma hsquare_box: "visit_hsquare_2 n i = h_visit fld_hsquare_child_childs_leftmost_child [] []
    fld_hsquare_childs_rx_init fld_hsquare_childs_rx_last n i"
  by (intro ext) (simp add: visit_hsquare_2_def h_visit_def h_sizes_def h_places_def hsquare_x_def hsquare_y_def)

lemma region_box: "visit_region_2 n i = v_visit fld_region_child_childs_leftmost_child fld_region_childs_by_init fld_region_childs_by_last n i"
  by (intro ext) (simp add: visit_region_2_def v_visit_def v_sizes_def v_places_def region_x_def region_y_def)

lemma vsquare_box: "visit_vsquare_2 n i = v_visit fld_vsquare_child_childs_leftmost_child fld_vsquare_childs_by_init fld_vsquare_childs_by_last n i"
  by (intro ext) (simp add: visit_vsquare_2_def v_visit_def v_sizes_def v_places_def vsquare_x_def vsquare_y_def)

lemmas box_defs = countrycontainer_box district_box hsquare_box region_box vsquare_box

lemma own_scratch:
  "(fld_countrycontainer_childs_rx_init, i) \<in> own i" "(fld_countrycontainer_childs_rx_last, i) \<in> own i"
  "(fld_countrycontainer_selfrendersize, i) \<in> own i" "(fld_countrycontainer_selfrendersize_0, i) \<in> own i"
  "(fld_district_childs_rx_init, i) \<in> own i" "(fld_district_childs_rx_last, i) \<in> own i"
  "(fld_district_selfrendersize, i) \<in> own i" "(fld_district_selfrendersize_0, i) \<in> own i"
  "(fld_hsquare_childs_rx_init, i) \<in> own i" "(fld_hsquare_childs_rx_last, i) \<in> own i"
  "(fld_region_childs_by_init, i) \<in> own i" "(fld_region_childs_by_last, i) \<in> own i"
  "(fld_vsquare_childs_by_init, i) \<in> own i" "(fld_vsquare_childs_by_last, i) \<in> own i"
  "(fld_pollingplace_selfrendersize, i) \<in> own i" "(fld_pollingplace_selfrendersize_0, i) \<in> own i"
  "(fld_node_rendersize, i) \<in> own i"
  by (simp_all add: own_def geo_defs fld_defs)

lemma pollingplace_corner:
  "frame (visit_writes i cs) s (visit_pollingplace_2 n i s) \<and> corner i (visit_pollingplace_2 n i s)"
proof -
  obtain s1 where s1: "run_all [assign fld_node_x i (\<lambda>s. get fld_node_rx i s - get fld_node_w i s),
      assign fld_node_y i (\<lambda>s. get fld_node_by i s - get fld_node_h i s)] s = s1" by blast
  note f1 = corner_run [OF s1]
  have "frame (own i) s1 (visit_pollingplace_2 n i s)"
    using s1 by (simp add: visit_pollingplace_2_def pollingplace_x_def pollingplace_y_def)
      (intro frame_trans [OF frames_D frame_trans [OF frames_D frames_D]] frames_assign own_scratch)
  moreover have "get g i (visit_pollingplace_2 n i s) = get g i s1" if "g \<in> geometry \<union> {fld_node_x, fld_node_y}" for g
    using that by (intro frame_get [OF calculation]) (auto simp: own_def)
  ultimately show ?thesis
    using frame_trans [OF frame_mono [OF f1(1) visit_writes_corner] frame_mono [OF _ own_writes]] f1(2)
    by (simp add: corner_def geometry_def)
qed

definition lays_out :: "nat \<Rightarrow> nat \<Rightarrow> tm \<Rightarrow> tm \<Rightarrow> bool" where
  "lays_out n i s t \<longleftrightarrow> frame (visit_writes i (child_list n i s)) s t \<and> cut n s i t \<and>
    (container (tokens s i) \<or> tokens s i = TOK_POLLINGPLACE \<longrightarrow> corner i t)"

lemmas class_defs = container_def horizontal_def vertical_def tok_defs

lemma h_class:
  assumes "horizontal (tokens s i)" and "child_list n i s = kids_of n f i s" and "i \<notin> set (child_list n i s)"
    and "\<And>c. c \<in> set A \<Longrightarrow> frames (own i) s c" and "\<And>c. c \<in> set B \<Longrightarrow> frames (own i) s c"
    and "fbuf ini = FloatBuf" "fbuf lst = FloatBuf" "(ini, i) \<in> own i" "(lst, i) \<in> own i"
  shows "lays_out n i s (h_visit f A B ini lst n i s)"
  using h_visit_ok [of A i s B ini lst "child_list n i s" n f] assms
  by (auto simp: lays_out_def cut_def class_defs)

lemma v_class:
  assumes "vertical (tokens s i)" and "child_list n i s = kids_of n f i s" and "i \<notin> set (child_list n i s)"
    and "fbuf ini = FloatBuf" "fbuf lst = FloatBuf" "(ini, i) \<in> own i" "(lst, i) \<in> own i"
  shows "lays_out n i s (v_visit f ini lst n i s)"
  using v_visit_ok [of ini lst i "child_list n i s" n f s] assms
  by (auto simp: lays_out_def cut_def class_defs)

lemma own_frames:
  "frames (own i) s (assign fld_countrycontainer_selfrendersize_0 i e)" "frames (own i) s (assign fld_countrycontainer_selfrendersize i e)"
  "frames (own i) s (assign fld_district_selfrendersize_0 i e)" "frames (own i) s (assign fld_district_selfrendersize i e)"
  by (simp_all add: frames_assign own_scratch)

lemma visit_2_ok:
  assumes i: "i \<notin> set (child_list n i s)"
  shows "lays_out n i s (visit_2 n i s)"
proof -
  have fl: "fbuf fld_countrycontainer_childs_rx_init = FloatBuf" "fbuf fld_countrycontainer_childs_rx_last = FloatBuf"
    "fbuf fld_district_childs_rx_init = FloatBuf" "fbuf fld_district_childs_rx_last = FloatBuf"
    "fbuf fld_hsquare_childs_rx_init = FloatBuf" "fbuf fld_hsquare_childs_rx_last = FloatBuf"
    "fbuf fld_region_childs_by_init = FloatBuf" "fbuf fld_region_childs_by_last = FloatBuf"
    "fbuf fld_vsquare_childs_by_init = FloatBuf" "fbuf fld_vsquare_childs_by_last = FloatBuf"
    by (simp_all add: fld_defs)
  consider "horizontal (tokens s i)" | "vertical (tokens s i)" | "tokens s i = TOK_POLLINGPLACE"
    | "\<not> container (tokens s i)" "tokens s i \<noteq> TOK_POLLINGPLACE"
    by (auto simp: container_def)
  then show ?thesis
  proof cases
    case 1
    with i show ?thesis
      by (auto simp: visit_2_def box_defs class_defs child_list_def own_frames fl own_scratch intro!: h_class)
  next
    case 2
    with i show ?thesis
      by (auto simp: visit_2_def box_defs class_defs child_list_def fl own_scratch intro!: v_class)
  next
    case 3
    then show ?thesis using pollingplace_corner [of i "child_list n i s" s n]
      by (simp add: lays_out_def cut_def visit_2_def class_defs)
  next
    case 4
    then have "visit_2 n i s = s" by (simp add: visit_2_def container_def horizontal_def vertical_def visit_root_2_def)
    with 4 show ?thesis by (simp add: lays_out_def cut_def container_def)
  qed
qed

section \<open>The other passes\<close>

text \<open>The second pass sums the magnitudes of the children.\<close>

definition sum_visit :: "tfield \<Rightarrow> tfield \<Rightarrow> tfield \<Rightarrow> nat \<Rightarrow> nat \<Rightarrow> tm \<Rightarrow> tm" where
  "sum_visit f ini vini n i s = run_all
     [for_children n f i (\<lambda>step prev cur. run_all []),
      assign ini i (\<lambda>s. 0), assign fld_node_totalmag i (\<lambda>s. get ini i s),
      assign vini i (\<lambda>s. 0), assign fld_node_votesur i (\<lambda>s. get vini i s),
      for_children n f i (\<lambda>step prev cur. run_all [
        assign fld_node_totalmag i (\<lambda>s. (get fld_node_totalmag i s) + (get fld_node_totalmag cur s)),
        assign fld_node_votesur i (\<lambda>s. (get fld_node_votesur i s) + (get fld_node_votesur cur s))])] s"

lemma sum_defs: "visit_countrycontainer_1 n i = sum_visit fld_countrycontainer_child_childs_leftmost_child
    fld_countrycontainer_totalmag_init fld_countrycontainer_votesur_init n i"
  "visit_region_1 n i = sum_visit fld_region_child_childs_leftmost_child fld_region_totalmag_init fld_region_votesur_init n i"
  "visit_district_1 n i = sum_visit fld_district_child_childs_leftmost_child fld_district_totalmag_init fld_district_votesur_init n i"
  "visit_vsquare_1 n i = sum_visit fld_vsquare_child_childs_leftmost_child fld_vsquare_totalmag_init fld_vsquare_votesur_init n i"
  "visit_hsquare_1 n i = sum_visit fld_hsquare_child_childs_leftmost_child fld_hsquare_totalmag_init fld_hsquare_votesur_init n i"
  by (intro ext, simp add: visit_countrycontainer_1_def visit_region_1_def visit_district_1_def visit_vsquare_1_def
      visit_hsquare_1_def sum_visit_def)+

definition mag_fields :: "nat \<Rightarrow> (tfield \<times> nat) set" where
  "mag_fields i = {(g, j). j = i \<and> (g = fld_node_totalmag \<or> g \<notin> geometry)}"

lemma empty_loop: "for_children n f i (\<lambda>step prev cur. run_all []) s = s"
proof -
  have "each (\<lambda>step prev cur. run_all []) st p cs s = s" for st p cs by (induction cs arbitrary: st p) simp_all
  then show ?thesis by (simp add: for_children_def)
qed

lemma sum_visit_ok:
  assumes "(ini, i) \<in> mag_fields i" "(vini, i) \<in> mag_fields i" "fbuf ini = FloatBuf" "ini \<noteq> fld_node_totalmag" "vini \<noteq> fld_node_totalmag"
    and cs: "cs = kids_of n f i s" "i \<notin> set cs"
  shows "frame (mag_fields i) s (sum_visit f ini vini n i s) \<and>
    get fld_node_totalmag i (sum_visit f ini vini n i s) = sum_list (map (\<lambda>c. get fld_node_totalmag c s) cs)"
proof -
  have v: "(fld_node_votesur, i) \<in> mag_fields i" "fld_node_votesur \<noteq> fld_node_totalmag" "(fld_node_totalmag, i) \<in> mag_fields i"
    by (simp_all add: mag_fields_def geometry_def fld_defs)
  let ?pre = "[for_children n f i (\<lambda>step prev cur. run_all []), assign ini i (\<lambda>s. 0), assign fld_node_totalmag i (\<lambda>s. get ini i s),
      assign vini i (\<lambda>s. 0), assign fld_node_votesur i (\<lambda>s. get vini i s)]"
  let ?body = "\<lambda>step prev cur. run_all [
        assign fld_node_totalmag i (\<lambda>s. (get fld_node_totalmag i s) + (get fld_node_totalmag cur s)),
        assign fld_node_votesur i (\<lambda>s. (get fld_node_votesur i s) + (get fld_node_votesur cur s))]"
  obtain s1 where s1: "run_all ?pre s = s1" by blast
  have "frames (mag_fields i) s (run_all ?pre)" using assms(1,2) v by (intro frames_intros)
  then have f1: "frame (mag_fields i) s s1" using s1 frames_D by blast
  have "convert ini 0 = 0" using assms(3) by (simp add: convert_def)
  then have z: "get fld_node_totalmag i s1 = 0"
    unfolding s1 [symmetric] using assms(4,5) v(2) by (simp add: empty_loop assign_def)
  have "frame (mag_fields i) s (each ?body 0 0 cs s1) \<and>
    get fld_node_totalmag i (each ?body 0 0 cs s1) = sum_list (map (\<lambda>c. get fld_node_totalmag c s) cs)"
  proof (rule each_induct [where I = "\<lambda>dn t. frame (mag_fields i) s t \<and>
      get fld_node_totalmag i t = sum_list (map (\<lambda>c. get fld_node_totalmag c s) dn)"])
    fix dn c rest t
    assume d: "cs = dn @ c # rest" and I: "frame (mag_fields i) s t \<and> get fld_node_totalmag i t = sum_list (map (\<lambda>c. get fld_node_totalmag c s) dn)"
    then have "get fld_node_totalmag c t = get fld_node_totalmag c s" using cs(2)
      by (intro frame_get [of "mag_fields i" s t]) (auto simp: mag_fields_def)
    moreover have "frame (mag_fields i) t (?body (Suc (length dn)) (if dn = [] then 0 else last dn) c t)"
      using v by (intro frames_D frames_intros)
    ultimately show "frame (mag_fields i) s (?body (Suc (length dn)) (if dn = [] then 0 else last dn) c t) \<and>
      get fld_node_totalmag i (?body (Suc (length dn)) (if dn = [] then 0 else last dn) c t) = sum_list (map (\<lambda>c. get fld_node_totalmag c s) (dn @ [c]))"
      using I frame_trans v(2) by (auto simp: assign_def)
  qed (use f1 z in simp)
  moreover have "sum_visit f ini vini n i s = each ?body 0 0 cs s1"
    using s1 frame_kids [OF f1] cs(1) by (simp add: sum_visit_def for_children_def)
  ultimately show ?thesis by simp
qed

lemma visit_1_ok:
  assumes "i \<notin> set (child_list n i s)"
  shows "keeps_links (visit_1 n i s) s \<and> (\<forall>j. j \<noteq> i \<longrightarrow> get fld_node_totalmag j (visit_1 n i s) = get fld_node_totalmag j s) \<and>
    (container (tokens s i) \<longrightarrow> get fld_node_totalmag i (visit_1 n i s) = sum_list (map (\<lambda>c. get fld_node_totalmag c s) (child_list n i s)))"
proof (cases "container (tokens s i)")
  case True
  then have "\<exists>f ini vini. visit_1 n i s = sum_visit f ini vini n i s \<and> child_list n i s = kids_of n f i s \<and>
      (ini, i) \<in> mag_fields i \<and> (vini, i) \<in> mag_fields i \<and> fbuf ini = FloatBuf \<and> ini \<noteq> fld_node_totalmag \<and> vini \<noteq> fld_node_totalmag"
    unfolding container_def horizontal_def vertical_def
    by (elim disjE) (simp_all add: visit_1_def sum_defs child_list_def tok_defs, (rule exI, rule exI, rule exI, rule conjI, rule refl,
      simp add: mag_fields_def geometry_def fld_defs)+)
  then obtain f ini vini where o: "visit_1 n i s = sum_visit f ini vini n i s" "child_list n i s = kids_of n f i s"
      "(ini, i) \<in> mag_fields i" "(vini, i) \<in> mag_fields i" "fbuf ini = FloatBuf" "ini \<noteq> fld_node_totalmag" "vini \<noteq> fld_node_totalmag"
    by blast
  from sum_visit_ok [OF o(3-7) o(2) assms] o(1)
  have "frame (mag_fields i) s (visit_1 n i s)"
    "get fld_node_totalmag i (visit_1 n i s) = sum_list (map (\<lambda>c. get fld_node_totalmag c s) (child_list n i s))" by simp_all
  then show ?thesis by (auto simp: frame_def mag_fields_def)
next
  case False
  have "keeps_links (visit_root_1 n i s) s" "get fld_node_totalmag j (visit_root_1 n i s) = get fld_node_totalmag j s" for j
    by (simp_all add: visit_root_1_def Let_def assign_def keeps_links_def fld_defs)
  with False show ?thesis by (simp add: visit_1_def container_def horizontal_def vertical_def visit_pollingplace_1_def)
qed

text \<open>The last pass computes sizes for the device only.\<close>

definition render_fields :: "(tfield \<times> nat) set" where
  "render_fields = {(g, j). g \<notin> geometry \<union> {fld_node_x, fld_node_y}}"

lemma render_mem: "(f, i) \<in> render_fields \<longleftrightarrow> f \<notin> geometry \<union> {fld_node_x, fld_node_y}"
  by (simp add: render_fields_def)

lemma frame_start: "frames W s (run_all cs) \<Longrightarrow> frame W s (run_all cs s)"
  by (rule frames_D)

lemma frame_if: "(b \<Longrightarrow> frame W s t) \<Longrightarrow> (\<not> b \<Longrightarrow> frame W s u) \<Longrightarrow> frame W s (if b then t else u)"
  by simp

lemma visit_3_frame: "frame render_fields s (visit_3 n i s)"
  unfolding visit_3_def visit_root_3_def visit_countrycontainer_3_def visit_region_3_def visit_district_3_def
    visit_vsquare_3_def visit_hsquare_3_def visit_pollingplace_3_def Let_def
  by (intro frame_if frame_start frames_intros frame_refl) (simp_all add: render_mem geo_defs fld_defs)

section \<open>Trees\<close>

text \<open>
  What the flattening of a tree promises of the links: the levels are the nodes in order, children
  are in the next level, and no two nodes share one.
\<close>

definition treemap_tree :: "nat \<Rightarrow> level list \<Rightarrow> tm \<Rightarrow> bool" where
  "treemap_tree n lv s \<longleftrightarrow> concat (map level_range lv) = [0..<n] \<and>
     (\<forall>k \<in> {..<length lv}. \<forall>i \<in> set (level_range (lv ! k)). \<forall>c \<in> set (child_list n i s).
        Suc k < length lv \<and> c \<in> set (level_range (lv ! Suc k)) \<and> (container (tokens s c) \<or> tokens s c = TOK_POLLINGPLACE)) \<and>
     (\<forall>i \<in> {..<n}. \<forall>j \<in> {..<n}. i \<noteq> j \<longrightarrow> set (child_list n i s) \<inter> set (child_list n j s) = {})"

lemma treemap_tree_links: "keeps_links t s \<Longrightarrow> treemap_tree n lv t = treemap_tree n lv s"
  by (simp add: treemap_tree_def child_list_links) (simp add: keeps_links_def)

lemma concat_before:
  assumes "concat ls = A @ x # B" and "distinct (concat ls)" and "i \<in> set A" and "i \<in> set (ls ! k)" and "x \<in> set (ls ! m)"
    and "k < length ls" and "m < length ls"
  shows "k \<le> m"
proof (rule ccontr)
  assume "\<not> k \<le> m"
  then have mk: "m < k" by simp
  have "ls = take k ls @ ls ! k # drop (Suc k) ls" by (rule id_take_nth_drop [OF assms(6)])
  then have e: "concat ls = concat (take k ls) @ concat (ls ! k # drop (Suc k) ls)" by (metis concat_append)
  have "ls ! m \<in> set (take k ls)" using mk assms(6) by (metis in_set_conv_nth length_take min.absorb4 nth_take)
  with assms(5) have x: "x \<in> set (concat (take k ls))" by auto
  have i: "i \<in> set (concat (ls ! k # drop (Suc k) ls))" using assms(4) by simp
  from e assms(1) have "concat (take k ls) @ concat (ls ! k # drop (Suc k) ls) = A @ x # B" by simp
  then consider us where "concat (take k ls) = A @ us" "us @ concat (ls ! k # drop (Suc k) ls) = x # B"
    | us where "concat (take k ls) @ us = A" "concat (ls ! k # drop (Suc k) ls) = us @ x # B"
    by (auto simp: append_eq_append_conv2)
  then show False
  proof cases
    case 1
    with assms(3) i e assms(2) show False by auto
  next
    case 2
    with x assms(1,2) show False by auto
  qed
qed

lemma level_of:
  assumes "concat (map level_range lv) = [0..<n]"
  shows "i < n \<longleftrightarrow> (\<exists>k < length lv. i \<in> set (level_range (lv ! k)))"
proof -
  have "i < n \<longleftrightarrow> i \<in> set (concat (map level_range lv))" using assms by simp
  also have "\<dots> \<longleftrightarrow> (\<exists>l \<in> set lv. i \<in> set (level_range l))" by simp
  finally show ?thesis by (metis in_set_conv_nth)
qed

lemma treemap_child:
  assumes "treemap_tree n lv s" and "i < n" and "c \<in> set (child_list n i s)"
  shows "c < n" and "container (tokens s c) \<or> tokens s c = TOK_POLLINGPLACE"
    and "\<exists>k. Suc k < length lv \<and> i \<in> set (level_range (lv ! k)) \<and> c \<in> set (level_range (lv ! Suc k))"
proof -
  from assms(1) have e: "concat (map level_range lv) = [0..<n]" by (simp add: treemap_tree_def)
  obtain k where k: "k < length lv" "i \<in> set (level_range (lv ! k))" using level_of [OF e] assms(2) by blast
  with assms(1,3) have c: "Suc k < length lv" "c \<in> set (level_range (lv ! Suc k))"
    "container (tokens s c) \<or> tokens s c = TOK_POLLINGPLACE" by (auto simp: treemap_tree_def)
  then show "c < n" using level_of [OF e] by blast
  show "container (tokens s c) \<or> tokens s c = TOK_POLLINGPLACE" by (rule c(3))
  show "\<exists>k. Suc k < length lv \<and> i \<in> set (level_range (lv ! k)) \<and> c \<in> set (level_range (lv ! Suc k))" using k c by blast
qed

text \<open>Going down, a node is visited before its children; going up, after them.\<close>

lemma child_greater:
  assumes t: "treemap_tree n lv s" and "i < n" and "c \<in> set (child_list n i s)"
  shows "i < c"
proof -
  from t have e: "concat (map level_range lv) = [0..<n]" by (simp add: treemap_tree_def)
  from treemap_child(3) [OF assms] obtain k where k: "Suc k < length lv" "i \<in> set (level_range (lv ! k))"
    "c \<in> set (level_range (lv ! Suc k))" by blast
  let ?ls = "map level_range lv"
  have "?ls = take (Suc k) ?ls @ ?ls ! Suc k # drop (Suc (Suc k)) ?ls" using k(1) by (intro id_take_nth_drop) simp
  then have "concat ?ls = concat (take (Suc k) ?ls) @ concat (?ls ! Suc k # drop (Suc (Suc k)) ?ls)" by (metis concat_append)
  moreover have "sorted_wrt (<) (concat ?ls)" by (simp add: e)
  moreover have "i \<in> set (concat (take (Suc k) ?ls))"
    using k(1,2) by (simp add: take_Suc_conv_app_nth)
  moreover have "c \<in> set (concat (?ls ! Suc k # drop (Suc (Suc k)) ?ls))" using k by simp
  ultimately show ?thesis by (metis sorted_wrt_append)
qed

lemma child_before:
  assumes t: "treemap_tree n lv s" and "i < n" and "x \<in> set (child_list n i s)"
    and xs: "concat (map level_range (rev lv)) = A @ x # B" and "i \<in> set A"
  shows False
proof -
  from t have e: "concat (map level_range lv) = [0..<n]" by (simp add: treemap_tree_def)
  from treemap_child(3) [OF assms(1-3)] obtain k where k: "Suc k < length lv" "i \<in> set (level_range (lv ! k))"
    "x \<in> set (level_range (lv ! Suc k))" by blast
  let ?ls = "map level_range (rev lv)"
  have "mset (concat ?ls) = mset (concat (map level_range lv))" by (simp add: mset_concat rev_map [symmetric])
  then have "distinct (concat ?ls)" using e by (metis distinct_upt mset_eq_imp_distinct_iff)
  moreover have "i \<in> set (?ls ! (length lv - Suc k))" "x \<in> set (?ls ! (length lv - Suc (Suc k)))"
    using k by (simp_all add: rev_nth Suc_diff_Suc)
  ultimately have "length lv - Suc k \<le> length lv - Suc (Suc k)"
    using concat_before [OF xs _ assms(5)] k(1) by simp
  with k(1) show False by simp
qed

section \<open>What the passes establish\<close>

lemma sums_pass:
  assumes t: "treemap_tree n lv s" and xs: "xs = concat (map level_range (rev lv))"
  shows "keeps_links (fold (visit_1 n) xs s) s \<and> (\<forall>i \<in> set xs. container (tokens s i) \<longrightarrow>
    get fld_node_totalmag i (fold (visit_1 n) xs s) =
      sum_list (map (\<lambda>c. get fld_node_totalmag c (fold (visit_1 n) xs s)) (child_list n i s)))"
proof (rule fold_induct [where I = "\<lambda>dn u. keeps_links u s \<and> (\<forall>i \<in> set dn. container (tokens s i) \<longrightarrow>
    get fld_node_totalmag i u = sum_list (map (\<lambda>c. get fld_node_totalmag c u) (child_list n i s)))"])
  fix dn x rest u
  assume d: "xs = dn @ x # rest" and I: "keeps_links u s \<and> (\<forall>i \<in> set dn. container (tokens s i) \<longrightarrow>
    get fld_node_totalmag i u = sum_list (map (\<lambda>c. get fld_node_totalmag c u) (child_list n i s)))"
  from t have e: "concat (map level_range lv) = [0..<n]" by (simp add: treemap_tree_def)
  have "mset xs = mset [0..<n]" using xs e by (simp add: mset_concat rev_map [symmetric] flip: e)
  then have set_xs: "set xs = {..<n}" and dist: "distinct xs" by (metis atLeast_upt set_upt mset_eq_setD) (metis \<open>mset xs = mset [0..<n]\<close> distinct_upt mset_eq_imp_distinct_iff)
  have x: "x < n" "\<And>i. i \<in> set dn \<Longrightarrow> i < n \<and> i \<noteq> x" using set_xs dist d by auto
  from I have lk: "child_list n i u = child_list n i s" "tokens u = tokens s" for i
    by (simp_all add: child_list_links) (simp add: keeps_links_def)
  have nx: "x \<notin> set (child_list n x u)" using child_greater [OF t x(1)] lk by auto
  note v = visit_1_ok [OF nx]
  have "get fld_node_totalmag i (visit_1 n x u) = sum_list (map (\<lambda>c. get fld_node_totalmag c (visit_1 n x u)) (child_list n i s))"
    if i: "i \<in> set (dn @ [x])" and "container (tokens s i)" for i
  proof -
    have "x \<notin> set (child_list n i s)"
    proof (cases "i = x")
      case False
      with i have "i \<in> set dn" by simp
      with child_before [OF t, of i x dn rest] x d xs show ?thesis by auto
    qed (use nx lk in simp)
    then have "map (\<lambda>c. get fld_node_totalmag c (visit_1 n x u)) (child_list n i s) = map (\<lambda>c. get fld_node_totalmag c u) (child_list n i s)"
      using v by (auto intro!: map_cong)
    note sums = arg_cong [OF this, of sum_list]
    have "get fld_node_totalmag i (visit_1 n x u) = sum_list (map (\<lambda>c. get fld_node_totalmag c u) (child_list n i s))"
      using v I that lk by (cases "i = x") simp_all
    then show ?thesis by (simp only: sums)
  qed
  with v I show "keeps_links (visit_1 n x u) s \<and> (\<forall>i \<in> set (dn @ [x]). container (tokens s i) \<longrightarrow>
    get fld_node_totalmag i (visit_1 n x u) = sum_list (map (\<lambda>c. get fld_node_totalmag c (visit_1 n x u)) (child_list n i s)))"
    using keeps_links_trans by blast
qed simp

text \<open>What is true of a visited container, and of its children when they are visited, stays true.\<close>

lemma corner_keep:
  assumes "frame (visit_writes x cs) t u" and "corner i t" and "i \<noteq> x" and "i \<notin> set cs"
  shows "corner i u"
  using assms by (auto simp: corner_def frame_def visit_writes_def)

lemma cut_keep:
  assumes f: "frame (visit_writes x cs) t u" and "cut n s i t" and "i \<noteq> x" and "i \<notin> set cs" and d: "set (child_list n i s) \<inter> set cs = {}"
  shows "cut n s i u"
proof -
  have i: "get g i u = get g i t" for g using assms(3,4) by (intro frame_get [OF f]) (auto simp: visit_writes_def)
  have c: "get g c u = get g c t" if "c \<in> set (child_list n i s)" "g \<in> geometry" for g c
    using d that by (intro frame_get [OF f]) (auto simp: visit_writes_def)
  have sh: "share g i c u = share g i c t" if "c \<in> set (child_list n i s)" for g c
    using c [OF that] i by (simp add: share_def geometry_def)
  have "map (\<lambda>c. share g i c u) (take k (child_list n i s)) = map (\<lambda>c. share g i c t) (take k (child_list n i s))" for g k
    using sh by (auto dest: in_set_takeD)
  note sums = arg_cong [OF this, of sum_list]
  from assms(2) show ?thesis by (simp add: cut_def row_def column_def i c sh sums geometry_def)
qed

lemma cuts_pass:
  assumes t: "treemap_tree n lv s"
  defines "u \<equiv> fold (visit_2 n) [0..<n] s"
  shows "keeps_links u s \<and> (\<forall>c. get fld_node_totalmag c u = get fld_node_totalmag c s) \<and>
    (\<forall>i \<in> set [0..<n]. cut n s i u \<and> (container (tokens s i) \<or> tokens s i = TOK_POLLINGPLACE \<longrightarrow> corner i u))"
  unfolding u_def
proof (rule fold_induct [where I = "\<lambda>dn u. keeps_links u s \<and> (\<forall>c. get fld_node_totalmag c u = get fld_node_totalmag c s) \<and>
    (\<forall>i \<in> set dn. cut n s i u \<and> (container (tokens s i) \<or> tokens s i = TOK_POLLINGPLACE \<longrightarrow> corner i u))"])
  fix dn x rest u
  assume d: "[0..<n] = dn @ x # rest" and I: "keeps_links u s \<and> (\<forall>c. get fld_node_totalmag c u = get fld_node_totalmag c s) \<and>
    (\<forall>i \<in> set dn. cut n s i u \<and> (container (tokens s i) \<or> tokens s i = TOK_POLLINGPLACE \<longrightarrow> corner i u))"
  have "x \<in> set [0..<n]" "sorted_wrt (<) (dn @ x # rest)" using d by (simp, metis sorted_wrt_upt)
  then have x: "x < n" "i \<in> set dn \<Longrightarrow> i < x" for i by (simp_all add: sorted_wrt_append)
  from I have lk: "child_list n i u = child_list n i s" "tokens u = tokens s" for i
    by (simp_all add: child_list_links) (simp add: keeps_links_def)
  have below: "i \<notin> set (child_list n x s)" if "i \<le> x" for i using child_greater [OF t x(1), of i] that by auto
  have "lays_out n x u (visit_2 n x u)" using below [of x] lk by (intro visit_2_ok) simp
  then have f: "frame (visit_writes x (child_list n x s)) u (visit_2 n x u)" and c: "cut n s x (visit_2 n x u)"
    and k: "container (tokens s x) \<or> tokens s x = TOK_POLLINGPLACE \<longrightarrow> corner x (visit_2 n x u)"
    by (simp_all add: lays_out_def cut_def lk)
  have m: "get fld_node_totalmag c (visit_2 n x u) = get fld_node_totalmag c s" for c
    using frame_get [OF f, of fld_node_totalmag c] I by (simp add: visit_writes_def geometry_def)
  have keep: "cut n s i (visit_2 n x u) \<and> (container (tokens s i) \<or> tokens s i = TOK_POLLINGPLACE \<longrightarrow> corner i (visit_2 n x u))"
    if i: "i \<in> set dn" for i
  proof -
    have n: "i \<noteq> x" "i \<notin> set (child_list n x s)" using x(2) [OF i] below [of i] by auto
    have dj: "set (child_list n i s) \<inter> set (child_list n x s) = {}"
      using t x(1) x(2) [OF i] n(1) by (simp add: treemap_tree_def)
    show ?thesis using cut_keep [OF f _ n dj] corner_keep [OF f _ n] I i by blast
  qed
  show "keeps_links (visit_2 n x u) s \<and> (\<forall>c. get fld_node_totalmag c (visit_2 n x u) = get fld_node_totalmag c s) \<and>
    (\<forall>i \<in> set (dn @ [x]). cut n s i (visit_2 n x u) \<and>
       (container (tokens s i) \<or> tokens s i = TOK_POLLINGPLACE \<longrightarrow> corner i (visit_2 n x u)))"
    using keep c k m keeps_links_trans [OF frame_links [OF f]] I by auto
qed simp

lemma visit_0_links: "keeps_links (visit_0 n i s) s"
proof -
  have "frame UNIV s (visit_0 n i s)"
    unfolding visit_0_def visit_root_0_def visit_countrycontainer_0_def visit_region_0_def visit_district_0_def
      visit_vsquare_0_def visit_hsquare_0_def visit_pollingplace_0_def Let_def
    by (intro frame_if frame_start frames_intros UNIV_I frame_refl)
  then show ?thesis by (rule frame_links)
qed

lemma fold_frame: "(\<And>x u. frame W u (v x u)) \<Longrightarrow> frame W s (fold v xs s)"
proof (induction xs arbitrary: s)
  case (Cons x xs)
  then show ?case using frame_trans by (metis fold_simps(2))
qed simp

lemma frame_UNIV: "frame UNIV s t \<longleftrightarrow> keeps_links t s"
  by (simp add: frame_def)

lemma runTraversals_passes:
  assumes "ignoreCL cfg" and "runTraversals cfg order n lv s = Inr t" and "concat (map level_range lv) = [0..<n]"
  shows "t = fold (visit_3 n) (concat (map level_range (rev lv))) (fold (visit_2 n) [0..<n]
    (fold (visit_1 n) (concat (map level_range (rev lv))) (fold (visit_0 n) [0..<n] s)))"
  using assms by (simp add: runTraversals_def topDownTraversal_def bottomUpTraversal_def fold_levels split: if_splits)

text \<open>The state after the four passes.\<close>

lemma layout_result:
  assumes cpu: "ignoreCL cfg" and r: "runTraversals cfg order n lv s = Inr t" and tree: "treemap_tree n lv s"
  shows "keeps_links t s \<and> (\<forall>i < n. cut n s i t \<and> (container (tokens s i) \<or> tokens s i = TOK_POLLINGPLACE \<longrightarrow> corner i t) \<and>
    (container (tokens s i) \<longrightarrow> get fld_node_totalmag i t = sum_list (map (\<lambda>c. get fld_node_totalmag c t) (child_list n i s))))"
proof -
  from tree have e: "concat (map level_range lv) = [0..<n]" by (simp add: treemap_tree_def)
  define s0 where "s0 = fold (visit_0 n) [0..<n] s"
  define s1 where "s1 = fold (visit_1 n) (concat (map level_range (rev lv))) s0"
  define s2 where "s2 = fold (visit_2 n) [0..<n] s1"
  have t: "t = fold (visit_3 n) (concat (map level_range (rev lv))) s2"
    using runTraversals_passes [OF cpu r e] by (simp only: s0_def s1_def s2_def)
  have l0: "keeps_links s0 s"
    using fold_frame [of UNIV "visit_0 n" s "[0..<n]"] visit_0_links by (simp add: frame_UNIV s0_def)
  then have t0: "treemap_tree n lv s0" using tree treemap_tree_links by blast
  note p1 = sums_pass [OF t0 refl, folded s1_def]
  have l1: "keeps_links s1 s" using p1 l0 keeps_links_trans by blast
  then have t1: "treemap_tree n lv s1" using tree treemap_tree_links by blast
  note p2 = cuts_pass [OF t1, folded s2_def]
  have l2: "keeps_links s2 s" using p2 l1 keeps_links_trans by blast
  have f3: "frame render_fields s2 t" unfolding t by (rule fold_frame) (rule visit_3_frame)
  have l3: "keeps_links t s" using frame_links [OF f3] l2 keeps_links_trans by blast
  have g: "get g c t = get g c s2" if "g \<in> geometry \<union> {fld_node_x, fld_node_y}" for g c
    using that by (intro frame_get [OF f3]) (simp add: render_fields_def)
  have lk: "child_list n i s1 = child_list n i s" "child_list n i s0 = child_list n i s" "tokens s1 = tokens s" "tokens s0 = tokens s" for i
    using child_list_links [OF l0] child_list_links [OF l1] l0 l1 by (simp_all add: keeps_links_def)
  have "set (concat (map level_range (rev lv))) = set (concat (map level_range lv))" by simp
  then have all: "i \<in> set (concat (map level_range (rev lv)))" if "i < n" for i using that e by simp
  have "cut n s i t \<and> (container (tokens s i) \<or> tokens s i = TOK_POLLINGPLACE \<longrightarrow> corner i t) \<and>
    (container (tokens s i) \<longrightarrow> get fld_node_totalmag i t = sum_list (map (\<lambda>c. get fld_node_totalmag c t) (child_list n i s)))"
    if i: "i < n" for i
  proof -
    have "cut n s i t" "container (tokens s i) \<or> tokens s i = TOK_POLLINGPLACE \<longrightarrow> corner i t"
      using p2 i by (simp_all add: cut_def row_def column_def corner_def share_def lk g geometry_def)
    moreover have "container (tokens s i) \<longrightarrow> get fld_node_totalmag i t = sum_list (map (\<lambda>c. get fld_node_totalmag c t) (child_list n i s))"
      using bspec [OF conjunct2 [OF p1] all [OF i]] p2 by (simp add: lk g geometry_def)
    ultimately show ?thesis by blast
  qed
  with l3 show ?thesis by blast
qed

section \<open>Tiles\<close>

lemma row_tiles:
  assumes "row cs i t" and "\<forall>c \<in> set cs. corner c t" and "k < length cs"
  shows "get fld_node_x (cs ! k) t = get fld_node_x i t + sum_list (map (\<lambda>c. get fld_node_w c t) (take k cs)) \<and>
    get fld_node_y (cs ! k) t = get fld_node_y i t \<and> get fld_node_h (cs ! k) t = get fld_node_h i t \<and>
    get fld_node_w (cs ! k) t = get fld_node_totalmag (cs ! k) t / get fld_node_totalmag i t * get fld_node_w i t"
proof -
  have w: "get fld_node_w c t = share fld_node_w i c t" if "c \<in> set cs" for c
    using assms(1) that by (auto simp: row_def in_set_conv_nth)
  have "map (\<lambda>c. share fld_node_w i c t) (take k cs) = map (\<lambda>c. get fld_node_w c t) (take k cs)"
    using w by (auto dest: in_set_takeD)
  note sums = arg_cong [OF this, of sum_list]
  have "corner (cs ! k) t" using assms(2,3) by simp
  with assms(1) [unfolded row_def, rule_format, OF assms(3), unfolded sums] show ?thesis by (simp add: corner_def share_def)
qed

lemma column_tiles:
  assumes "column cs i t" and "\<forall>c \<in> set cs. corner c t" and "k < length cs"
  shows "get fld_node_y (cs ! k) t = get fld_node_y i t + sum_list (map (\<lambda>c. get fld_node_h c t) (take k cs)) \<and>
    get fld_node_x (cs ! k) t = get fld_node_x i t \<and> get fld_node_w (cs ! k) t = get fld_node_w i t \<and>
    get fld_node_h (cs ! k) t = get fld_node_totalmag (cs ! k) t / get fld_node_totalmag i t * get fld_node_h i t"
proof -
  have h: "get fld_node_h c t = share fld_node_h i c t" if "c \<in> set cs" for c
    using assms(1) that by (auto simp: column_def in_set_conv_nth)
  have "map (\<lambda>c. share fld_node_h i c t) (take k cs) = map (\<lambda>c. get fld_node_h c t) (take k cs)"
    using h by (auto dest: in_set_takeD)
  note sums = arg_cong [OF this, of sum_list]
  have "corner (cs ! k) t" using assms(2,3) by simp
  with assms(1) [unfolded column_def, rule_format, OF assms(3), unfolded sums] show ?thesis by (simp add: corner_def share_def)
qed

lemma shares_sum:
  assumes "get fld_node_totalmag i t = sum_list (map (\<lambda>c. get fld_node_totalmag c t) cs)" and "get fld_node_totalmag i t \<noteq> 0"
    and "\<And>c. c \<in> set cs \<Longrightarrow> get g c t = get fld_node_totalmag c t / get fld_node_totalmag i t * get g i t"
  shows "sum_list (map (\<lambda>c. get g c t) cs) = get g i t"
proof -
  have "map (\<lambda>c. get g c t) cs = map (\<lambda>c. get fld_node_totalmag c t * (get g i t / get fld_node_totalmag i t)) cs"
    using assms(3) by simp
  then have "sum_list (map (\<lambda>c. get g c t) cs) =
      sum_list (map (\<lambda>c. get fld_node_totalmag c t) cs) * (get g i t / get fld_node_totalmag i t)"
    by (simp only: sum_list_mult_const)
  then show ?thesis using assms(1,2) by simp
qed

text \<open>
  A node divides by the magnitude of the container it is in, and its tile is computed from the
  container's.  JavaScript divides 0 by 0 to NaN, which a tile then passes on to all tiles below it, and a
  quotient of reals by 0 is not that: the tiles of the children of a node are those of the code if
  no container from the root down to that node has magnitude 0.
\<close>

definition child_of :: "nat \<Rightarrow> tm \<Rightarrow> nat \<Rightarrow> nat \<Rightarrow> bool" where
  "child_of n s j c \<longleftrightarrow> j < n \<and> c \<in> set (child_list n j s)"

definition divides :: "nat \<Rightarrow> tm \<Rightarrow> tm \<Rightarrow> nat \<Rightarrow> bool" where
  "divides n s t i \<longleftrightarrow>
     (\<forall>j. (child_of n s)\<^sup>*\<^sup>* j i \<and> container (tokens s j) \<longrightarrow> get fld_node_totalmag j t \<noteq> 0)"

lemma divides_self: "divides n s t i \<Longrightarrow> container (tokens s i) \<Longrightarrow> get fld_node_totalmag i t \<noteq> 0"
  by (simp add: divides_def)

lemma child_of_le: "(child_of n s)\<^sup>*\<^sup>* j i \<Longrightarrow> treemap_tree n lv s \<Longrightarrow> j \<le> i"
  by (induction rule: rtranclp_induct) (auto simp: child_of_def dest!: child_greater)

text \<open>
  C9.  The treemap is a tiling: after the four passes of the layout on the CPU, over a tree with the links a
  flattening gives, the magnitude of every container is the sum of those of its children.  Where no
  division by 0 happens, that is, where no container from the root down to this one has magnitude 0,
  the children of a horizontal container stand side by side from its left edge, each where the one
  before it ends, with its top and height and widths in proportion to their magnitudes, and the
  widths add up to the container's; and the children of a vertical container stand one above the
  other in the same way.
\<close>

theorem treemap_tiles:
  assumes "ignoreCL cfg" and "runTraversals cfg order n lv s = Inr t" and "treemap_tree n lv s"
    and "i < n" and "cs = child_list n i s" and "container (tokens s i)"
  shows "get fld_node_totalmag i t = sum_list (map (\<lambda>c. get fld_node_totalmag c t) cs) \<and>
    (divides n s t i \<and> horizontal (tokens s i) \<longrightarrow> (\<forall>k < length cs.
       get fld_node_x (cs ! k) t = get fld_node_x i t + sum_list (map (\<lambda>c. get fld_node_w c t) (take k cs)) \<and>
       get fld_node_y (cs ! k) t = get fld_node_y i t \<and> get fld_node_h (cs ! k) t = get fld_node_h i t \<and>
       get fld_node_w (cs ! k) t = get fld_node_totalmag (cs ! k) t / get fld_node_totalmag i t * get fld_node_w i t) \<and>
       sum_list (map (\<lambda>c. get fld_node_w c t) cs) = get fld_node_w i t) \<and>
    (divides n s t i \<and> vertical (tokens s i) \<longrightarrow> (\<forall>k < length cs.
       get fld_node_y (cs ! k) t = get fld_node_y i t + sum_list (map (\<lambda>c. get fld_node_h c t) (take k cs)) \<and>
       get fld_node_x (cs ! k) t = get fld_node_x i t \<and> get fld_node_w (cs ! k) t = get fld_node_w i t \<and>
       get fld_node_h (cs ! k) t = get fld_node_totalmag (cs ! k) t / get fld_node_totalmag i t * get fld_node_h i t) \<and>
       sum_list (map (\<lambda>c. get fld_node_h c t) cs) = get fld_node_h i t)"
proof -
  note r = layout_result [OF assms(1-3)]
  have m: "get fld_node_totalmag i t = sum_list (map (\<lambda>c. get fld_node_totalmag c t) cs)" using r assms(4-6) by blast
  have c: "\<forall>c \<in> set cs. corner c t" using r treemap_child(1,2) [OF assms(3,4)] assms(5) by blast
  have h: "horizontal (tokens s i) \<Longrightarrow> row cs i t" and v: "vertical (tokens s i) \<Longrightarrow> column cs i t"
    using r assms(4,5) by (auto simp: cut_def)
  have ws: "sum_list (map (\<lambda>c. get fld_node_w c t) cs) = get fld_node_w i t"
    if "horizontal (tokens s i)" "divides n s t i"
    using row_tiles [OF h [OF that(1)] c] divides_self [OF that(2) assms(6)]
    by (intro shares_sum [OF m]) (auto simp: in_set_conv_nth)
  have hs: "sum_list (map (\<lambda>c. get fld_node_h c t) cs) = get fld_node_h i t"
    if "vertical (tokens s i)" "divides n s t i"
    using column_tiles [OF v [OF that(1)] c] divides_self [OF that(2) assms(6)]
    by (intro shares_sum [OF m]) (auto simp: in_set_conv_nth)
  from m row_tiles [OF h c] column_tiles [OF v c] ws hs show ?thesis by blast
qed

text \<open>An example: a country with two districts of one and two polling places.\<close>

definition demo_map_levels :: "level list" where
  "demo_map_levels = [\<lparr>start_idx = 0, llength = 1\<rparr>, \<lparr>start_idx = 1, llength = 1\<rparr>, \<lparr>start_idx = 2, llength = 2\<rparr>,
     \<lparr>start_idx = 4, llength = 3\<rparr>]"

definition demo_map :: tm where
  "demo_map = \<lparr>vals = (\<lambda>f i. if f = fld_iroot_width \<or> f = fld_iroot_height then 300
       else if f = fld_iroot_maxturnout \<or> f = fld_pollingplace_injavascript then 1
       else if f = fld_pollingplace_turnout then 1 / 2
       else if f = fld_pollingplace_totalvotes then of_nat i * 100 else 0),
     nodeix = (\<lambda>f i. if f = right_siblings_fld then [0, 0, 1, 0, 0, 1, 0] ! i
       else if f = fld_root_child_childs_leftmost_child \<or> f = fld_countrycontainer_child_childs_leftmost_child then 1
       else if f = fld_district_child_childs_leftmost_child then 2 else 0),
     tokens = (\<lambda>i. [TOK_ROOT, TOK_COUNTRYCONTAINER, TOK_DISTRICT, TOK_DISTRICT, TOK_POLLINGPLACE, TOK_POLLINGPLACE, TOK_POLLINGPLACE] ! i),
     screen = \<lparr>c_height = 300, scale_x = 1, scale_y = -1, trans_x = 0, trans_y = 300, fillStyle = CssRgba 0 0 0 1, strokeStyle = CssRgba 0 0 0 1,
       lineWidth = 1, display = []\<rparr>\<rparr>"

lemma demo_children:
  "child_list 7 0 demo_map = [1]" "child_list 7 1 demo_map = [2, 3]" "child_list 7 2 demo_map = [4]"
  "child_list 7 3 demo_map = [5, 6]" "child_list 7 4 demo_map = []" "child_list 7 5 demo_map = []" "child_list 7 6 demo_map = []"
  by (simp_all add: child_list_def demo_map_def tok_defs kids_of_def first_child_def next_sibling_def GetAbsoluteIndex_def
      numeral_eq_Suc right_siblings_fld_def fld_defs)

lemma demo_map_tree: "treemap_tree 7 demo_map_levels demo_map"
proof -
  have r: "{..<7} = {0, 1, 2, 3, 4, 5, 6 :: nat}" "{..<4} = {0, 1, 2, 3 :: nat}" by auto
  have l: "level_range \<lparr>start_idx = 0, llength = 1\<rparr> = [0]" "level_range \<lparr>start_idx = 1, llength = 1\<rparr> = [1]"
    "level_range \<lparr>start_idx = 2, llength = 2\<rparr> = [2, 3]" "level_range \<lparr>start_idx = 4, llength = 3\<rparr> = [4, 5, 6]"
    by (simp_all add: level_range_def upt_rec)
  have t: "tokens demo_map 1 = TOK_COUNTRYCONTAINER" "tokens demo_map 2 = TOK_DISTRICT" "tokens demo_map 3 = TOK_DISTRICT"
    "tokens demo_map 4 = TOK_POLLINGPLACE" "tokens demo_map 5 = TOK_POLLINGPLACE" "tokens demo_map 6 = TOK_POLLINGPLACE"
    by (simp_all add: demo_map_def numeral_eq_Suc)
  note l = l l [unfolded One_nat_def]
  have n: "length demo_map_levels = 4" "demo_map_levels ! 0 = \<lparr>start_idx = 0, llength = 1\<rparr>"
    "demo_map_levels ! 1 = \<lparr>start_idx = 1, llength = 1\<rparr>" "demo_map_levels ! 2 = \<lparr>start_idx = 2, llength = 2\<rparr>"
    "demo_map_levels ! 3 = \<lparr>start_idx = 4, llength = 3\<rparr>" "demo_map_levels ! Suc 0 = \<lparr>start_idx = 1, llength = 1\<rparr>"
    "demo_map_levels ! Suc (Suc 0) = \<lparr>start_idx = 2, llength = 2\<rparr>" "demo_map_levels ! Suc (Suc (Suc 0)) = \<lparr>start_idx = 4, llength = 3\<rparr>"
    by (simp_all add: demo_map_levels_def numeral_eq_Suc)
  have s: "Suc 1 = 2" "Suc 2 = 3" "Suc 3 = 4" by simp_all
  have "concat (map level_range demo_map_levels) = [0..<7]" by (simp add: demo_map_levels_def l upt_rec)
  moreover have "\<forall>k \<in> {..<4}. \<forall>i \<in> set (level_range (demo_map_levels ! k)). \<forall>c \<in> set (child_list 7 i demo_map).
      Suc k < 4 \<and> c \<in> set (level_range (demo_map_levels ! Suc k)) \<and>
      (container (tokens demo_map c) \<or> tokens demo_map c = TOK_POLLINGPLACE)"
    unfolding r by (simp add: n l s demo_children demo_children [unfolded One_nat_def] t t [unfolded One_nat_def] container_def horizontal_def)
  moreover have "\<forall>i \<in> {..<7}. \<forall>j \<in> {..<7}. i \<noteq> j \<longrightarrow> set (child_list 7 i demo_map) \<inter> set (child_list 7 j demo_map) = {}"
    unfolding r by (simp add: demo_children demo_children [unfolded One_nat_def])
  ultimately show ?thesis unfolding treemap_tree_def n by blast
qed

definition cpu_cfg :: run_cfg where
  "cpu_cfg = \<lparr>ignoreCL = True, webworkerLayout = False\<rparr>"

lemma runTraversals_cpu: "\<exists>t. runTraversals cpu_cfg order n lv s = Inr t"
  by (simp add: runTraversals_def topDownTraversal_def bottomUpTraversal_def cpu_cfg_def Let_def)

section \<open>Painting\<close>

text \<open>What the last traversal adds to the drawing at a node.\<close>

definition shapes :: "tm \<Rightarrow> nat \<Rightarrow> painted list" where
  "shapes s i =
     (let x = get fld_node_x i s; y = get fld_node_y i s; w = get fld_node_w i s; h = get fld_node_h i s
      in if tokens s i = TOK_POLLINGPLACE then
           [Filled x (- y) w (- h) (style_of \<lfloor>255 * 256 * 256 * 256 + lerp_number (get fld_pollingplace_calcvotescolor i s)
              (get fld_pollingplace_calcfraudcolor i s) (get fld_node_showfraud i s)\<rfloor>)]
         else if tokens s i \<in> {TOK_COUNTRYCONTAINER, TOK_DISTRICT} \<and> get fld_node_fixwidth i s \<noteq> 0 then
           [Stroked x (- y) w (- h) (style_of \<lfloor>rgb_number 0 0 0\<rfloor>) 3]
         else [])"

text \<open>It writes none of the fields it draws from.\<close>

definition draw_reads :: "tfield set" where
  "draw_reads = {fld_node_x, fld_node_y, fld_node_w, fld_node_h, fld_node_fixwidth, fld_node_showfraud,
     fld_pollingplace_calcvotescolor, fld_pollingplace_calcfraudcolor}"

definition draw_writes :: "(tfield \<times> nat) set" where
  "draw_writes = {(g, j). g \<notin> draw_reads}"

lemma draw_mem: "(f, i) \<in> draw_writes \<longleftrightarrow> f \<notin> draw_reads"
  by (simp add: draw_writes_def)

lemma visit_4_frame: "frame draw_writes s (visit_4 n i s)"
  unfolding visit_4_def visit_root_4_def visit_countrycontainer_4_def visit_region_4_def visit_district_4_def
    visit_vsquare_4_def visit_hsquare_4_def visit_pollingplace_4_def Let_def
  by (intro frame_if frame_start frames_intros frame_refl) (simp_all add: draw_mem draw_reads_def fld_defs)

lemma screen_assign [simp]: "screen (assign f i e s) = screen s"
  by (simp add: assign_def)

lemma screen_each: "(\<And>st p c s. screen (body st p c s) = screen s) \<Longrightarrow> screen (each body st p cs s) = screen s"
  by (induction cs arbitrary: st p s) simp_all

lemma screen_for_children: "(\<And>st p c s. screen (body st p c s) = screen s) \<Longrightarrow> screen (for_children n f i body s) = screen s"
  by (simp add: for_children_def screen_each)

lemma screen_paint: "screen (paint f i e s) = snd (e s (screen s))"
  by (simp add: paint_def split: prod.split)

lemma visit_4_paints: "display (screen (visit_4 n i s)) = display (screen s) @ shapes s i"
proof -
  have fw: "fbuf fld_node_renderoffset = IntBuf" "f \<in> draw_reads \<Longrightarrow> f \<noteq> fld_node_renderoffset" for f
    by (auto simp: draw_reads_def fld_defs)
  have g: "get f i (assign fld_node_renderoffset i e s) = get f i s" if "f \<in> draw_reads" for f e
    using fw(2) [OF that] by (simp add: assign_def)
  show ?thesis
    by (simp add: visit_4_def visit_root_4_def visit_countrycontainer_4_def visit_region_4_def visit_district_4_def
      visit_vsquare_4_def visit_hsquare_4_def visit_pollingplace_4_def screen_for_children screen_paint shapes_def Let_def g
      draw_reads_def pollingplace_draw_0_def district_draw_0_def countrycontainer_draw_0_def draw_rectangle_def draw_outline_def
      Rectangle_draw_def RectangleOutline_draw_def tok_defs)
qed

lemma shapes_frame: "frame draw_writes s t \<Longrightarrow> shapes t i = shapes s i"
proof -
  assume f: "frame draw_writes s t"
  have "get g i t = get g i s" if "g \<in> draw_reads" for g using that by (intro frame_get [OF f]) (simp add: draw_mem)
  moreover have "tokens t = tokens s" using frame_links [OF f] by (simp add: keeps_links_def)
  ultimately show ?thesis by (simp add: shapes_def draw_reads_def Let_def)
qed

text \<open>
  C17.  The drawing shows the layout: the painting traversal of the CPU adds, in the order of the nodes, one filled
  rectangle for every polling place, at its tile and in its colour, and with a fixed width one outline
  for the country and for every district, and it leaves the tiles as they are.
\<close>

theorem treemap_painted:
  assumes "ignoreCL cfg" and "run_visit_4 cfg order n lv t = Inr u" and "concat (map level_range lv) = [0..<n]"
  shows "display (screen u) = display (screen t) @ concat (map (shapes t) [0..<n]) \<and>
    get fld_node_x i u = get fld_node_x i t \<and> get fld_node_y i u = get fld_node_y i t \<and>
    get fld_node_w i u = get fld_node_w i t \<and> get fld_node_h i u = get fld_node_h i t"
proof -
  have u: "u = fold (visit_4 n) [0..<n] t"
    using assms by (simp add: run_visit_4_def topDownTraversal_def fold_levels split: if_splits)
  have "frame draw_writes t u \<and> display (screen u) = display (screen t) @ concat (map (shapes t) [0..<n])"
    unfolding u
  proof (rule fold_induct [where I = "\<lambda>dn u. frame draw_writes t u \<and> display (screen u) = display (screen t) @ concat (map (shapes t) dn)"])
    fix dn x rest u
    assume "frame draw_writes t u \<and> display (screen u) = display (screen t) @ concat (map (shapes t) dn)"
    then show "frame draw_writes t (visit_4 n x u) \<and>
        display (screen (visit_4 n x u)) = display (screen t) @ concat (map (shapes t) (dn @ [x]))"
      using frame_trans [OF _ visit_4_frame] by (simp add: visit_4_paints shapes_frame)
  qed simp
  then show ?thesis by (simp add: frame_def draw_mem draw_reads_def)
qed

theorem treemap_painted_witness:
  "\<exists>u. run_visit_4 cpu_cfg level_range 7 demo_map_levels demo_map = Inr u \<and> length (display (screen u)) = 3"
proof -
  obtain u where u: "run_visit_4 cpu_cfg level_range 7 demo_map_levels demo_map = Inr u"
    by (simp add: run_visit_4_def topDownTraversal_def cpu_cfg_def)
  have "concat (map level_range demo_map_levels) = [0..<7]" using demo_map_tree by (simp add: treemap_tree_def)
  moreover have "ignoreCL cpu_cfg" by (simp add: cpu_cfg_def)
  ultimately have "display (screen u) = display (screen demo_map) @ concat (map (shapes demo_map) [0..<7])"
    using treemap_painted [OF _ u] by blast
  moreover have "[0..<7] = [0, 1, 2, 3, 4, 5, 6]" by (simp add: upt_rec)
  then have "concat (map (shapes demo_map) [0..<7]) = concat (map (shapes demo_map) [0, 1, 2, 3, 4, 5, 6])" by (simp only:)
  moreover have "length (display (screen demo_map) @ concat (map (shapes demo_map) [0, 1, 2, 3, 4, 5, 6])) = 3"
    by (simp add: shapes_def Let_def demo_map_def tok_defs numeral_eq_Suc get_def fld_defs)
  ultimately have "length (display (screen u)) = 3" by metis
  with u show ?thesis by blast
qed

end
