(* ===== verification/TreemapVotes.thy ===== *)
theory TreemapVotes
  imports TreemapLayout
begin

text \<open>
  What the treemap shows of the votes: the settings of the root reach every node, a polling place
  counts when its turnout is in the selected range, and its tile has an area in proportion.
\<close>

section \<open>Settings\<close>

definition settings :: "tfield set" where
  "settings = {fld_node_maxturnout, fld_node_minturnout, fld_node_showfraud, fld_node_showjavascript, fld_node_showprojected}"

definition inputs :: "tfield set" where
  "inputs = {fld_pollingplace_injavascript, fld_pollingplace_totalvotes, fld_pollingplace_turnout}"

text \<open>The setting of the root that a setting of the other nodes comes from.\<close>

definition root_setting :: "tfield \<Rightarrow> tfield" where
  "root_setting g = (if g = fld_node_maxturnout then fld_iroot_maxturnout else if g = fld_node_minturnout then fld_iroot_minturnout
     else if g = fld_node_showfraud then fld_iroot_showfraud else if g = fld_node_showjavascript then fld_iroot_showjavascript
     else fld_iroot_showprojected)"

definition handed :: "nat \<Rightarrow> nat \<Rightarrow> nat \<Rightarrow> nat \<Rightarrow> tm \<Rightarrow> tm" where
  "handed i = (\<lambda>step prev cur. run_all [
     assign fld_node_fixwidth cur (\<lambda>s. get fld_node_fixwidth i s),
     assign fld_node_maxturnout cur (\<lambda>s. get fld_node_maxturnout i s),
     assign fld_node_minturnout cur (\<lambda>s. get fld_node_minturnout i s),
     assign fld_node_showfraud cur (\<lambda>s. get fld_node_showfraud i s),
     assign fld_node_showjavascript cur (\<lambda>s. get fld_node_showjavascript i s),
     assign fld_node_showprojected cur (\<lambda>s. get fld_node_showprojected i s)])"

lemma handed_loop:
  assumes "i \<notin> set cs" and "distinct cs"
  shows "frame {(g, j). j \<in> set cs \<and> g \<in> insert fld_node_fixwidth settings} s (each (handed i) 0 0 cs s) \<and>
    (\<forall>k < length cs. (\<lambda>dn c t. \<forall>g \<in> settings. get g c t = get g i s) (take k cs) (cs ! k) (each (handed i) 0 0 cs s))"
proof (rule loop_prefix)
  fix dn c rest t
  assume cs: "cs = dn @ c # rest" and fr: "frame {(g, j). j \<in> set dn \<and> g \<in> insert fld_node_fixwidth settings} s t"
  note base = loop_base [OF fr cs assms(2,1)]
  let ?t = "handed i (Suc (length dn)) (if dn = [] then 0 else last dn) c t"
  have f: "frame {(g, j). j = c \<and> g \<in> insert fld_node_fixwidth settings} t ?t"
    unfolding handed_def by (intro frame_start frames_intros) (simp_all add: settings_def)
  have "get g c ?t = get g i s" if "g \<in> settings" for g
    using that base(3) by (auto simp: handed_def assign_def base(1,2) settings_def convert_def fld_defs)
  with f show "frame {(g, j). j = c \<and> g \<in> insert fld_node_fixwidth settings} t ?t \<and> (\<forall>g \<in> settings. get g c ?t = get g i s)"
    by blast
qed (use assms in \<open>auto simp: frame_get\<close>)

text \<open>What the first traversal may write at a node and at its children.\<close>

definition first_writes :: "nat \<Rightarrow> nat list \<Rightarrow> (tfield \<times> nat) set" where
  "first_writes i cs = {(g, j). j = i \<and> g \<notin> settings \<union> inputs \<union> root_setting ` settings} \<union>
     {(g, j). j \<in> set cs \<and> g \<notin> inputs \<union> {fld_node_totalmag} \<union> root_setting ` settings}"

definition handing :: "tfield \<Rightarrow> (tm \<Rightarrow> tm) list \<Rightarrow> (tm \<Rightarrow> tm) list \<Rightarrow> nat \<Rightarrow> nat \<Rightarrow> tm \<Rightarrow> tm" where
  "handing f A B n i s = run_all (A @ [for_children n f i (handed i)] @ B) s"

definition side_writes :: "nat \<Rightarrow> nat list \<Rightarrow> (tfield \<times> nat) set" where
  "side_writes i cs = {(g, j). j \<in> insert i (set cs) \<and>
     g \<notin> inputs \<union> settings \<union> {fld_node_totalmag} \<union> root_setting ` settings}"

lemma root_settings: "root_setting ` settings = {fld_iroot_maxturnout, fld_iroot_minturnout, fld_iroot_showfraud, fld_iroot_showjavascript,
    fld_iroot_showprojected}"
  unfolding settings_def root_setting_def by (simp add: fld_defs insert_commute)

lemma settings_apart:
  assumes "g \<in> insert fld_node_fixwidth settings"
  shows "g \<notin> inputs" and "g \<noteq> fld_node_totalmag" and "g \<notin> root_setting ` settings"
  using assms unfolding root_settings by (auto simp: settings_def inputs_def fld_defs)

lemma handing_ok:
  assumes A: "\<And>c. c \<in> set A \<Longrightarrow> frames (side_writes i cs) s c" and B: "\<And>c. c \<in> set B \<Longrightarrow> frames (side_writes i cs) s c"
    and cs: "cs = kids_of n f i s" "i \<notin> set cs"
  shows "frame (first_writes i cs) s (handing f A B n i s) \<and>
    (\<forall>c \<in> set cs. \<forall>g \<in> settings. get g c (handing f A B n i s) = get g i (handing f A B n i s))"
proof -
  have d: "distinct cs" by (simp add: cs kids_of_def walk_distinct)
  obtain s1 where s1: "run_all A s = s1" by blast
  obtain s2 where s2: "each (handed i) 0 0 cs s1 = s2" by blast
  obtain s3 where s3: "run_all B s2 = s3" by blast
  have f1: "frame (side_writes i cs) s s1" using frames_D [OF frames_run [OF A]] s1 by blast
  from handed_loop [OF cs(2) d, of s1] s2 have f2: "frame {(g, j). j \<in> set cs \<and> g \<in> insert fld_node_fixwidth settings} s1 s2"
    and v: "\<forall>k < length cs. \<forall>g \<in> settings. get g (cs ! k) s2 = get g i s1" by auto
  have l: "keeps_links s2 s" using f1 f2 frame_links keeps_links_trans by blast
  have "frames (side_writes i cs) s2 c" if "c \<in> set B" for c
    using B [OF that] l unfolding frames_def by (metis keeps_links_trans)
  then have f3: "frame (side_writes i cs) s2 s3" using frames_D [OF frames_run] s3 by blast
  have r: "handing f A B n i s = s3"
    using s1 s2 s3 frame_kids [OF f1] cs(1) by (simp add: handing_def run_all_append for_children_def)
  have sub: "side_writes i cs \<subseteq> first_writes i cs" by (auto simp: side_writes_def first_writes_def)
  have sub2: "{(g, j). j \<in> set cs \<and> g \<in> insert fld_node_fixwidth settings} \<subseteq> first_writes i cs"
    using settings_apart by (auto simp: first_writes_def)
  have fr: "frame (first_writes i cs) s s3"
    by (rule frame_trans [OF frame_mono [OF f1 sub] frame_trans [OF frame_mono [OF f2 sub2] frame_mono [OF f3 sub]]])
  have "get g c s3 = get g i s3" if c: "c \<in> set cs" and g: "g \<in> settings" for c g
  proof -
    from c obtain k where "k < length cs" "c = cs ! k" by (metis in_set_conv_nth)
    with v g have "get g c s2 = get g i s1" by blast
    moreover have "get g c s3 = get g c s2" "get g i s3 = get g i s2" "get g i s2 = get g i s1"
      using c g cs(2) f2 f3 by (auto simp: frame_def side_writes_def)
    ultimately show ?thesis by simp
  qed
  with fr r show ?thesis by simp
qed

section \<open>The first traversal\<close>

definition inherits :: "nat \<Rightarrow> tm \<Rightarrow> nat \<Rightarrow> tm \<Rightarrow> bool" where
  "inherits n s i t \<longleftrightarrow>
     (container (tokens s i) \<longrightarrow> (\<forall>c \<in> set (child_list n i s). \<forall>g \<in> settings. get g c t = get g i t)) \<and>
     (tokens s i = TOK_ROOT \<longrightarrow> (\<forall>c \<in> set (child_list n i s). \<forall>g \<in> settings. get g c t = get (root_setting g) i t))"

definition measured :: "tm \<Rightarrow> nat \<Rightarrow> tm \<Rightarrow> bool" where
  "measured s i t \<longleftrightarrow> (tokens s i = TOK_POLLINGPLACE \<longrightarrow> get fld_node_totalmag i t =
     pollingplace_totalMag (get fld_pollingplace_injavascript i t)
       (pollingplace_magnitude (get fld_node_minturnout i t) (get fld_pollingplace_totalvotes i t)
         (get fld_node_maxturnout i t) (get fld_pollingplace_turnout i t))
       (get fld_node_showjavascript i t))"

definition prepares :: "nat \<Rightarrow> nat \<Rightarrow> tm \<Rightarrow> tm \<Rightarrow> bool" where
  "prepares n i s t \<longleftrightarrow> frame (first_writes i (child_list n i s)) s t \<and> inherits n s i t \<and> measured s i t"

lemma handing_defs:
  "visit_countrycontainer_0 n i = handing fld_countrycontainer_child_childs_leftmost_child [] [] n i"
  "visit_district_0 n i = handing fld_district_child_childs_leftmost_child [] [] n i"
  "visit_region_0 n i = handing fld_region_child_childs_leftmost_child
     [assign fld_region_draw i (\<lambda>s. region_draw), assign fld_region_selfrendersize i (\<lambda>s. region_selfRenderSize)]
     [for_children n fld_region_child_childs_leftmost_child i (\<lambda>step prev cur. run_all [
        assign fld_node_dorenderinglast cur (\<lambda>s. get fld_region_draw i s)])] n i"
  "visit_hsquare_0 n i = handing fld_hsquare_child_childs_leftmost_child
     [assign fld_hsquare_draw i (\<lambda>s. hsquare_draw), assign fld_hsquare_selfrendersize i (\<lambda>s. hsquare_selfRenderSize)]
     [for_children n fld_hsquare_child_childs_leftmost_child i (\<lambda>step prev cur. run_all [
        assign fld_node_dorenderinglast cur (\<lambda>s. get fld_hsquare_draw i s)])] n i"
  "visit_vsquare_0 n i = handing fld_vsquare_child_childs_leftmost_child
     [assign fld_vsquare_draw i (\<lambda>s. vsquare_draw), assign fld_vsquare_selfrendersize i (\<lambda>s. vsquare_selfRenderSize)]
     [for_children n fld_vsquare_child_childs_leftmost_child i (\<lambda>step prev cur. run_all [
        assign fld_node_dorenderinglast cur (\<lambda>s. get fld_vsquare_draw i s)])] n i"
  by (intro ext, simp add: visit_countrycontainer_0_def visit_district_0_def visit_region_0_def visit_hsquare_0_def
      visit_vsquare_0_def handing_def handed_def)+

lemma prepares_container:
  assumes "container (tokens s i)" and "child_list n i s = kids_of n f i s" and "i \<notin> set (child_list n i s)"
    and "\<And>c. c \<in> set A \<Longrightarrow> frames (side_writes i (child_list n i s)) s c"
    and "\<And>c. c \<in> set B \<Longrightarrow> frames (side_writes i (child_list n i s)) s c"
  shows "prepares n i s (handing f A B n i s)"
  using handing_ok [OF assms(4,5,2,3)] assms(1)
  by (auto simp: prepares_def inherits_def measured_def class_defs)

lemma side_mem:
  "(f, j) \<in> side_writes i cs \<longleftrightarrow> j \<in> insert i (set cs) \<and>
     f \<notin> inputs \<union> settings \<union> {fld_node_totalmag} \<union> {fld_iroot_maxturnout, fld_iroot_minturnout, fld_iroot_showfraud,
       fld_iroot_showjavascript, fld_iroot_showprojected}"
  by (simp add: side_writes_def root_settings)

lemma side_fields:
  "(fld_region_draw, i) \<in> side_writes i cs" "(fld_region_selfrendersize, i) \<in> side_writes i cs"
  "(fld_vsquare_draw, i) \<in> side_writes i cs" "(fld_vsquare_selfrendersize, i) \<in> side_writes i cs"
  "(fld_hsquare_draw, i) \<in> side_writes i cs" "(fld_hsquare_selfrendersize, i) \<in> side_writes i cs"
  "c \<in> set cs \<Longrightarrow> (fld_node_dorenderinglast, c) \<in> side_writes i cs"
  by (simp_all add: side_mem inputs_def settings_def fld_defs)

lemma side_frames:
  "frames (side_writes i cs) s (assign fld_region_draw i e)" "frames (side_writes i cs) s (assign fld_region_selfrendersize i e)"
  "frames (side_writes i cs) s (assign fld_vsquare_draw i e)" "frames (side_writes i cs) s (assign fld_vsquare_selfrendersize i e)"
  "frames (side_writes i cs) s (assign fld_hsquare_draw i e)" "frames (side_writes i cs) s (assign fld_hsquare_selfrendersize i e)"
  by (rule frames_assign, rule side_fields)+

lemma side_loop:
  "cs = kids_of n f i s \<Longrightarrow> frames (side_writes i cs) s
     (for_children n f i (\<lambda>step prev cur. run_all [assign fld_node_dorenderinglast cur (d cur)]))"
  by (intro frames_intros side_fields) simp

lemma first_mem:
  "(f, j) \<in> first_writes i cs \<longleftrightarrow>
     (j = i \<and> f \<notin> settings \<union> inputs \<union> {fld_iroot_maxturnout, fld_iroot_minturnout, fld_iroot_showfraud,
       fld_iroot_showjavascript, fld_iroot_showprojected}) \<or>
     (j \<in> set cs \<and> f \<notin> inputs \<union> {fld_node_totalmag} \<union> {fld_iroot_maxturnout, fld_iroot_minturnout, fld_iroot_showfraud,
       fld_iroot_showjavascript, fld_iroot_showprojected})"
  by (simp add: first_writes_def root_settings)

lemma prepares_pollingplace:
  assumes "tokens s i = TOK_POLLINGPLACE"
  shows "prepares n i s (visit_pollingplace_0 n i s)"
proof -
  have c: "child_list n i s = []" using assms by (simp add: child_list_def tok_defs)
  have "frame (first_writes i []) s (visit_pollingplace_0 n i s)"
    unfolding visit_pollingplace_0_def
    by (intro frame_start frames_intros) (simp_all add: first_mem settings_def inputs_def fld_defs)
  moreover have "measured s i (visit_pollingplace_0 n i s)"
    by (simp add: measured_def visit_pollingplace_0_def assign_def convert_def fld_defs)
  ultimately show ?thesis using assms c by (simp add: prepares_def inherits_def)
qed

lemma prepares_root:
  assumes t: "tokens s i = TOK_ROOT" and ne: "child_list n i s \<noteq> []" and i: "i \<notin> set (child_list n i s)"
  shows "prepares n i s (visit_root_0 n i s)"
proof -
  let ?c = "first_child fld_root_child_childs_leftmost_child i s"
  have c: "child_list n i s = [?c]" using t ne by (simp add: child_list_def tok_defs Let_def split: if_splits)
  have "frame (first_writes i [?c]) s (visit_root_0 n i s)"
    unfolding visit_root_0_def Let_def
    by (intro frame_start frames_intros) (simp_all add: first_mem settings_def inputs_def fld_defs)
  moreover have "get g ?c (visit_root_0 n i s) = get (root_setting g) i (visit_root_0 n i s)" if "g \<in> settings" for g
    using that i unfolding c
    by (auto simp: settings_def root_setting_def visit_root_0_def Let_def assign_def convert_def grammar_defs fld_defs)
  ultimately show ?thesis using t by (simp add: prepares_def inherits_def measured_def c class_defs)
qed

lemma visit_0_ok:
  assumes i: "i \<notin> set (child_list n i s)" and "tokens s i = TOK_ROOT \<longrightarrow> child_list n i s \<noteq> []"
  shows "prepares n i s (visit_0 n i s)"
proof -
  consider "tokens s i = TOK_ROOT" | "container (tokens s i)" | "tokens s i = TOK_POLLINGPLACE"
    | "\<not> container (tokens s i)" "tokens s i \<noteq> TOK_ROOT" "tokens s i \<noteq> TOK_POLLINGPLACE"
    by blast
  then show ?thesis
  proof cases
    case 1
    then show ?thesis using prepares_root i assms(2) by (simp add: visit_0_def)
  next
    case 2
    note k = prepares_container [OF 2 _ i]
    from 2 consider "tokens s i = TOK_COUNTRYCONTAINER" | "tokens s i = TOK_DISTRICT" | "tokens s i = TOK_REGION"
      | "tokens s i = TOK_VSQUARE" | "tokens s i = TOK_HSQUARE"
      by (auto simp: container_def horizontal_def vertical_def)
    then show ?thesis
      by cases (simp_all add: visit_0_def handing_defs tok_defs, (rule k, simp add: child_list_def tok_defs,
        auto simp: child_list_def tok_defs intro: side_frames side_loop)+)
  next
    case 3
    then show ?thesis using prepares_pollingplace by (simp add: visit_0_def tok_defs)
  next
    case 4
    then have "visit_0 n i s = s" by (simp add: visit_0_def container_def horizontal_def vertical_def)
    with 4 show ?thesis by (simp add: prepares_def inherits_def measured_def)
  qed
qed

section \<open>The settings after the four passes\<close>

lemma inherits_keep:
  assumes f: "frame (first_writes x cs) t u" and "inherits n s i t" and i: "i \<noteq> x" "i \<notin> set cs"
    and d: "set (child_list n i s) \<inter> set cs = {}"
  shows "inherits n s i u"
proof -
  have "get g i u = get g i t" "get (root_setting g) i u = get (root_setting g) i t" if "g \<in> settings" for g
    using i that by (auto intro!: frame_get [OF f] simp: first_writes_def)
  moreover have "get g c u = get g c t" if "c \<in> set (child_list n i s)" "g \<in> settings" for g c
    using d that by (intro frame_get [OF f]) (auto simp: first_writes_def)
  ultimately show ?thesis using assms(2) by (auto simp: inherits_def)
qed

lemma measured_keep:
  assumes f: "frame (first_writes x cs) t u" and "measured s i t" and i: "i \<noteq> x" "i \<notin> set cs"
  shows "measured s i u"
proof -
  have "get g i u = get g i t" if "g \<in> settings \<union> inputs \<union> {fld_node_totalmag}" for g
    using i by (intro frame_get [OF f]) (auto simp: first_writes_def)
  with assms(2) show ?thesis by (simp add: measured_def settings_def inputs_def)
qed

lemma prepares_pass:
  assumes t: "treemap_tree n lv s" and roots: "\<forall>i < n. tokens s i = TOK_ROOT \<longrightarrow> child_list n i s \<noteq> []"
  defines "u \<equiv> fold (visit_0 n) [0..<n] s"
  shows "(keeps_links u s \<and> (\<forall>g \<in> inputs \<union> root_setting ` settings. \<forall>j. get g j u = get g j s)) \<and>
    (\<forall>i \<in> set [0..<n]. inherits n s i u \<and> measured s i u)"
  unfolding u_def
proof (rule fold_induct [where I = "\<lambda>dn u. (keeps_links u s \<and> (\<forall>g \<in> inputs \<union> root_setting ` settings. \<forall>j. get g j u = get g j s)) \<and>
    (\<forall>i \<in> set dn. inherits n s i u \<and> measured s i u)"])
  fix dn x rest u
  assume d: "[0..<n] = dn @ x # rest" and I: "(keeps_links u s \<and> (\<forall>g \<in> inputs \<union> root_setting ` settings. \<forall>j. get g j u = get g j s)) \<and>
    (\<forall>i \<in> set dn. inherits n s i u \<and> measured s i u)"
  have "x \<in> set [0..<n]" "sorted_wrt (<) (dn @ x # rest)" using d by (simp, metis sorted_wrt_upt)
  then have x: "x < n" "i \<in> set dn \<Longrightarrow> i < x" for i by (simp_all add: sorted_wrt_append)
  from I have l: "keeps_links u s" by blast
  have lk: "child_list n i u = child_list n i s" "tokens u = tokens s" for i
    using child_list_links [OF l] l by (simp_all add: keeps_links_def)
  have below: "i \<notin> set (child_list n x s)" if "i \<le> x" for i using child_greater [OF t x(1), of i] that by auto
  have "prepares n x u (visit_0 n x u)" using below [of x] roots x(1) lk by (intro visit_0_ok) simp_all
  then have f: "frame (first_writes x (child_list n x s)) u (visit_0 n x u)"
    and p: "inherits n s x (visit_0 n x u)" "measured s x (visit_0 n x u)"
    by (simp_all add: prepares_def inherits_def measured_def lk)
  have "inherits n s i (visit_0 n x u) \<and> measured s i (visit_0 n x u)" if i: "i \<in> set dn" for i
  proof -
    have ne: "i \<noteq> x" "i \<notin> set (child_list n x s)" using x(2) [OF i] below [of i] by auto
    have dj: "set (child_list n i s) \<inter> set (child_list n x s) = {}"
      using t x(1) x(2) [OF i] ne(1) by (simp add: treemap_tree_def)
    show ?thesis using inherits_keep [OF f _ ne dj] measured_keep [OF f _ ne] I i by blast
  qed
  moreover have "get g j (visit_0 n x u) = get g j s" if "g \<in> inputs \<union> root_setting ` settings" for g j
  proof -
    have "get g j (visit_0 n x u) = get g j u" using that by (intro frame_get [OF f]) (auto simp: first_writes_def)
    moreover have "\<forall>g \<in> inputs \<union> root_setting ` settings. \<forall>j. get g j u = get g j s" using I by (rule conjunct2 [OF conjunct1])
    ultimately show ?thesis using that by simp
  qed
  ultimately show "(keeps_links (visit_0 n x u) s \<and> (\<forall>g \<in> inputs \<union> root_setting ` settings. \<forall>j. get g j (visit_0 n x u) = get g j s)) \<and>
    (\<forall>i \<in> set (dn @ [x]). inherits n s i (visit_0 n x u) \<and> measured s i (visit_0 n x u))"
    using p keeps_links_trans [OF frame_links [OF f] l] by simp
qed simp

text \<open>The later traversals write neither settings nor inputs, and magnitudes of containers only.\<close>

definition later_writes :: "(nat \<Rightarrow> nat) \<Rightarrow> (tfield \<times> nat) set" where
  "later_writes tok = {(g, j). g \<notin> settings \<union> inputs \<union> root_setting ` settings \<and> (g = fld_node_totalmag \<longrightarrow> container (tok j))}"

lemma later_mem: "(f, j) \<in> later_writes tok \<longleftrightarrow> f \<notin> settings \<union> inputs \<union> {fld_iroot_maxturnout, fld_iroot_minturnout, fld_iroot_showfraud,
    fld_iroot_showjavascript, fld_iroot_showprojected} \<and> (f = fld_node_totalmag \<longrightarrow> container (tok j))"
  by (simp add: later_writes_def root_settings)

lemma later_1: "frame (later_writes (tokens s)) s (visit_1 n i s)"
  unfolding visit_1_def visit_root_1_def visit_countrycontainer_1_def visit_region_1_def visit_district_1_def
    visit_vsquare_1_def visit_hsquare_1_def visit_pollingplace_1_def Let_def
  by (intro frame_if frame_start frames_intros frame_refl)
    (simp_all add: later_mem settings_def inputs_def fld_defs class_defs)

lemma later_2: "frame (later_writes (tokens s)) s (visit_2 n i s)"
  unfolding visit_2_def visit_root_2_def visit_countrycontainer_2_def visit_region_2_def visit_district_2_def
    visit_vsquare_2_def visit_hsquare_2_def visit_pollingplace_2_def Let_def
  by (intro frame_if frame_start frames_intros frame_refl) (simp_all add: later_mem settings_def inputs_def fld_defs)

lemma later_3: "frame (later_writes (tokens s)) s (visit_3 n i s)"
  unfolding visit_3_def visit_root_3_def visit_countrycontainer_3_def visit_region_3_def visit_district_3_def
    visit_vsquare_3_def visit_hsquare_3_def visit_pollingplace_3_def Let_def
  by (intro frame_if frame_start frames_intros frame_refl) (simp_all add: later_mem settings_def inputs_def fld_defs)

lemma later_fold:
  assumes "\<And>x u. frame (later_writes (tokens u)) u (v x u)"
  shows "frame (later_writes (tokens s)) s (fold v xs s)"
proof (induction xs arbitrary: s)
  case (Cons x xs)
  have "tokens (v x s) = tokens s" using frame_links [OF assms] by (simp add: keeps_links_def)
  then show ?case using frame_trans [OF assms [of s x]] Cons.IH [of "v x s"] by simp
qed simp

lemma settings_result:
  assumes cpu: "ignoreCL cfg" and r: "runTraversals cfg order n lv s = Inr t" and tree: "treemap_tree n lv s"
    and roots: "\<forall>i < n. tokens s i = TOK_ROOT \<longrightarrow> child_list n i s \<noteq> []"
  shows "(\<forall>i < n. inherits n s i t \<and> measured s i t) \<and> (\<forall>g \<in> inputs \<union> root_setting ` settings. \<forall>j. get g j t = get g j s)"
proof -
  from tree have e: "concat (map level_range lv) = [0..<n]" by (simp add: treemap_tree_def)
  let ?up = "concat (map level_range (rev lv))"
  define s0 where "s0 = fold (visit_0 n) [0..<n] s"
  note p = prepares_pass [OF tree roots, folded s0_def]
  define s1 where "s1 = fold (visit_1 n) ?up s0"
  define s2 where "s2 = fold (visit_2 n) [0..<n] s1"
  have t: "t = fold (visit_3 n) ?up s2"
    using runTraversals_passes [OF cpu r e] by (simp only: s0_def s1_def s2_def)
  have f1: "frame (later_writes (tokens s0)) s0 s1" unfolding s1_def by (rule later_fold) (rule later_1)
  have f2: "frame (later_writes (tokens s1)) s1 s2" unfolding s2_def by (rule later_fold) (rule later_2)
  have f3: "frame (later_writes (tokens s2)) s2 t" unfolding t by (rule later_fold) (rule later_3)
  have tk: "tokens s0 = tokens s" "tokens s1 = tokens s" "tokens s2 = tokens s"
    using p frame_links [OF f1] frame_links [OF f2] by (simp_all add: keeps_links_def)
  have f: "frame (later_writes (tokens s)) s0 t"
    by (metis f1 f2 f3 frame_trans tk)
  have g: "get g j t = get g j s0" if "g \<in> settings \<union> inputs \<union> root_setting ` settings" for g j
    using that by (intro frame_get [OF f]) (auto simp: later_writes_def)
  have m: "tokens s i = TOK_POLLINGPLACE \<Longrightarrow> get fld_node_totalmag i t = get fld_node_totalmag i s0" for i
    by (intro frame_get [OF f]) (simp add: later_writes_def class_defs)
  have "inherits n s i t \<and> measured s i t" if "i < n" for i
  proof -
    have i: "inherits n s i s0" "measured s i s0" using p that by simp_all
    have "inherits n s i t" using i(1) g by (simp add: inherits_def)
    moreover have "measured s i t" using i(2) m by (simp add: measured_def g settings_def inputs_def)
    ultimately show ?thesis ..
  qed
  moreover have "get g j t = get g j s" if "g \<in> inputs \<union> root_setting ` settings" for g j
    using that p g [of g j] by auto
  ultimately show ?thesis by blast
qed

definition parent_of :: "nat \<Rightarrow> tm \<Rightarrow> nat \<Rightarrow> nat \<Rightarrow> bool" where
  "parent_of n s j c \<longleftrightarrow> j < n \<and> c \<in> set (child_list n j s)"

lemma magnitude_result:
  assumes "ignoreCL cfg" and "runTraversals cfg order n lv s = Inr t" and "treemap_tree n lv s"
    and "\<forall>i < n. tokens s i = TOK_ROOT \<longrightarrow> child_list n i s \<noteq> []"
    and "tokens s r = TOK_ROOT" and "(parent_of n s)\<^sup>*\<^sup>* r i" and "tokens s i = TOK_POLLINGPLACE"
  defines "m \<equiv> if get fld_iroot_minturnout r s < get fld_pollingplace_turnout i s \<and>
      get fld_pollingplace_turnout i s \<le> get fld_iroot_maxturnout r s then get fld_pollingplace_totalvotes i s else 0"
  shows "get fld_node_totalmag i t =
    (if get fld_pollingplace_injavascript i s \<noteq> 0 then m else get fld_iroot_showjavascript r s * m)"
proof -
  note R = settings_result [OF assms(1-4)]
  have reach: "(j = r \<or> (j < n \<and> (container (tokens s j) \<or> tokens s j = TOK_POLLINGPLACE) \<and>
      (\<forall>g \<in> settings. get g j t = get (root_setting g) r t)))" if "(parent_of n s)\<^sup>*\<^sup>* r j" for j
    using that
  proof (induction rule: rtranclp_induct)
    case (step j c)
    then have j: "j < n" "c \<in> set (child_list n j s)" by (simp_all add: parent_of_def)
    note c = treemap_child(1,2) [OF assms(3) j]
    have "\<forall>g \<in> settings. get g c t = get (root_setting g) r t"
    proof (cases "j = r")
      case True
      then show ?thesis using R j assms(5) by (simp add: inherits_def)
    next
      case False
      with step.IH have "container (tokens s j) \<or> tokens s j = TOK_POLLINGPLACE"
        and eq: "\<forall>g \<in> settings. get g j t = get (root_setting g) r t" by auto
      moreover have "tokens s j \<noteq> TOK_POLLINGPLACE" using j(2) by (auto simp: child_list_def tok_defs)
      ultimately show ?thesis using R j by (simp add: inherits_def)
    qed
    with c show ?case by blast
  qed simp
  have "i \<noteq> r" using assms(5,7) by (auto simp: tok_defs)
  with reach [OF assms(6)] have i: "i < n" "\<forall>g \<in> settings. get g i t = get (root_setting g) r t" by blast+
  have k: "\<forall>g \<in> inputs \<union> root_setting ` settings. \<forall>j. get g j t = get g j s" using R by blast
  have "get fld_node_minturnout i t = get fld_iroot_minturnout r s" "get fld_node_maxturnout i t = get fld_iroot_maxturnout r s"
    "get fld_node_showjavascript i t = get fld_iroot_showjavascript r s"
    using i(2) k unfolding root_settings by (simp_all add: settings_def root_setting_def fld_defs)
  moreover have "get g i t = get g i s" if "g \<in> inputs" for g using k that by blast
  moreover have "measured s i t" using R i(1) by blast
  ultimately show ?thesis using assms(7)
    by (simp add: measured_def pollingplace_totalMag_def pollingplace_magnitude_def inputs_def m_def)
qed

text \<open>
  C15.  The settings of the root decide what counts: after the four passes, every polling place below a root has
  the magnitude that the sliders of the root select, its number of votes when its turnout is above
  the least and not above the greatest turnout, and nothing otherwise; a polling place that the
  data marks for the device only is scaled by the setting for it.
\<close>

theorem treemap_magnitude:
  assumes "ignoreCL cfg" and "runTraversals cfg order n lv s = Inr t" and "treemap_tree n lv s"
    and "\<forall>i < n. tokens s i = TOK_ROOT \<longrightarrow> child_list n i s \<noteq> []"
    and "tokens s r = TOK_ROOT" and "(parent_of n s)\<^sup>*\<^sup>* r i" and "tokens s i = TOK_POLLINGPLACE"
  defines "m \<equiv> if get fld_iroot_minturnout r s < get fld_pollingplace_turnout i s \<and>
      get fld_pollingplace_turnout i s \<le> get fld_iroot_maxturnout r s then get fld_pollingplace_totalvotes i s else 0"
  shows "get fld_node_totalmag i t =
    (if get fld_pollingplace_injavascript i s \<noteq> 0 then m else get fld_iroot_showjavascript r s * m)"
  using magnitude_result [OF assms(1-7)] by (simp add: m_def)

lemma demo_below: "(parent_of 7 demo_map)\<^sup>*\<^sup>* 0 4" "(parent_of 7 demo_map)\<^sup>*\<^sup>* 0 5" "(parent_of 7 demo_map)\<^sup>*\<^sup>* 0 6"
proof -
  have p: "parent_of 7 demo_map 0 1" "parent_of 7 demo_map 1 2" "parent_of 7 demo_map 1 3" "parent_of 7 demo_map 2 4"
    "parent_of 7 demo_map 3 5" "parent_of 7 demo_map 3 6"
    by (simp_all add: parent_of_def demo_children demo_children [unfolded One_nat_def])
  show "(parent_of 7 demo_map)\<^sup>*\<^sup>* 0 4" using p by (meson converse_rtranclp_into_rtranclp rtranclp.rtrancl_refl)
  show "(parent_of 7 demo_map)\<^sup>*\<^sup>* 0 5" using p by (meson converse_rtranclp_into_rtranclp rtranclp.rtrancl_refl)
  show "(parent_of 7 demo_map)\<^sup>*\<^sup>* 0 6" using p by (meson converse_rtranclp_into_rtranclp rtranclp.rtrancl_refl)
qed

lemma demo_token_list: "tokens demo_map 0 = TOK_ROOT" "tokens demo_map 1 = TOK_COUNTRYCONTAINER" "tokens demo_map 2 = TOK_DISTRICT"
  "tokens demo_map 3 = TOK_DISTRICT" "tokens demo_map 4 = TOK_POLLINGPLACE" "tokens demo_map 5 = TOK_POLLINGPLACE"
  "tokens demo_map 6 = TOK_POLLINGPLACE"
  by (simp_all add: demo_map_def numeral_eq_Suc)

lemma demo_tokens: "tokens demo_map 0 = TOK_ROOT"
  and demo_containers: "i \<in> {1, 2, 3} \<Longrightarrow> container (tokens demo_map i)"
  and demo_leaves: "i \<in> {4, 5, 6} \<Longrightarrow> tokens demo_map i = TOK_POLLINGPLACE"
proof -
  show "tokens demo_map 0 = TOK_ROOT" by (rule demo_token_list(1))
  show "container (tokens demo_map i)" if "i \<in> {1, 2, 3}"
    using that by (elim insertE emptyE; simp only: demo_token_list container_def horizontal_def simp_thms)
  show "tokens demo_map i = TOK_POLLINGPLACE" if "i \<in> {4, 5, 6}"
    using that by (elim insertE emptyE; simp only: demo_token_list)
qed

lemma demo_roots: "\<forall>i < 7. tokens demo_map i = TOK_ROOT \<longrightarrow> child_list 7 i demo_map \<noteq> []"
proof (intro allI impI)
  fix i :: nat assume "i < 7" "tokens demo_map i = TOK_ROOT"
  moreover have "i = 0 \<or> i \<in> {1, 2, 3} \<or> i \<in> {4, 5, 6}" using \<open>i < 7\<close> by auto
  moreover have "\<not> container TOK_ROOT" "TOK_POLLINGPLACE \<noteq> TOK_ROOT" by (simp_all add: class_defs)
  ultimately have "i = 0" using demo_containers [of i] demo_leaves [of i] by metis
  then show "child_list 7 i demo_map \<noteq> []" by (simp add: demo_children)
qed

lemma demo_values: "get fld_iroot_minturnout 0 demo_map = 0" "get fld_iroot_maxturnout 0 demo_map = 1"
  "get fld_pollingplace_turnout i demo_map = 1 / 2" "get fld_pollingplace_injavascript i demo_map = 1"
  "get fld_pollingplace_totalvotes i demo_map = of_nat i * 100"
  by (simp_all add: demo_map_def get_def fld_defs)

theorem treemap_magnitude_witness:
  "\<exists>t. runTraversals cpu_cfg level_range 7 demo_map_levels demo_map = Inr t \<and> get fld_node_totalmag 6 t = 600"
proof -
  obtain t where r: "runTraversals cpu_cfg level_range 7 demo_map_levels demo_map = Inr t" using runTraversals_cpu by blast
  have "ignoreCL cpu_cfg" by (simp add: cpu_cfg_def)
  from treemap_magnitude [OF this r demo_map_tree demo_roots demo_tokens demo_below(3) demo_leaves] r
  show ?thesis by (simp add: demo_values)
qed

text \<open>The magnitudes of the example, and the witness of the tiling.\<close>

lemma demo_magnitudes:
  assumes r: "runTraversals cpu_cfg level_range 7 demo_map_levels demo_map = Inr t"
  shows "get fld_node_totalmag 6 t = 600" "get fld_node_totalmag 2 t = 400" "get fld_node_totalmag 3 t = 1100"
    "get fld_node_totalmag 1 t = 1500"
proof -
  have cpu: "ignoreCL cpu_cfg" by (simp add: cpu_cfg_def)
  note m = magnitude_result [OF cpu r demo_map_tree demo_roots demo_tokens]
  have leaf: "get fld_node_totalmag 4 t = 400" "get fld_node_totalmag 5 t = 500" "get fld_node_totalmag 6 t = 600"
    using m [OF demo_below(1)] m [OF demo_below(2)] m [OF demo_below(3)] demo_leaves by (simp_all add: demo_values)
  from layout_result [OF cpu r demo_map_tree]
  have sum: "get fld_node_totalmag i t = sum_list (map (\<lambda>c. get fld_node_totalmag c t) (child_list 7 i demo_map))"
    if "i \<in> {1, 2, 3}" for i
    using that demo_containers [OF that] by auto
  show two: "get fld_node_totalmag 2 t = 400" using sum [of 2] leaf by (simp add: demo_children)
  show three: "get fld_node_totalmag 3 t = 1100" using sum [of 3] leaf by (simp add: demo_children)
  show "get fld_node_totalmag 1 t = 1500" using sum [of 1] two three unfolding demo_children(2) by simp
  show "get fld_node_totalmag 6 t = 600" by (rule leaf(3))
qed

theorem treemap_tiles_witness:
  "\<exists>t. runTraversals cpu_cfg level_range 7 demo_map_levels demo_map = Inr t \<and>
     get fld_node_totalmag 1 t = 1500 \<and> get fld_node_w 2 t = 400 / 1500 * get fld_node_w 1 t \<and>
     get fld_node_x 2 t = get fld_node_x 1 t \<and> get fld_node_x 3 t = get fld_node_x 1 t + get fld_node_w 2 t \<and>
     get fld_node_h 3 t = get fld_node_h 1 t \<and> get fld_node_w 2 t + get fld_node_w 3 t = get fld_node_w 1 t"
proof -
  obtain t where r: "runTraversals cpu_cfg level_range 7 demo_map_levels demo_map = Inr t" using runTraversals_cpu by blast
  note m = demo_magnitudes [OF r]
  have c: "horizontal (tokens demo_map 1)" "container (tokens demo_map 1)" "\<not> container (tokens demo_map 0)"
    by (simp_all add: demo_map_def class_defs)
  have d: "divides 7 demo_map t 1"
    unfolding divides_def
  proof (intro allI impI)
    fix j assume j: "(child_of 7 demo_map)\<^sup>*\<^sup>* j 1 \<and> container (tokens demo_map j)"
    then have "j \<le> 1" using child_of_le demo_map_tree by blast
    with j c(3) have "j = 1" by (cases "j = 0") auto
    then show "get fld_node_totalmag j t \<noteq> 0" using m(4) by simp
  qed
  have "ignoreCL cpu_cfg" by (simp add: cpu_cfg_def)
  from treemap_tiles [OF this r demo_map_tree, of 1 "[2, 3]"] c d demo_children(2)
  have k: "\<forall>k < 2. get fld_node_x ([2, 3] ! k) t = get fld_node_x 1 t + sum_list (map (\<lambda>c. get fld_node_w c t) (take k [2, 3])) \<and>
       get fld_node_y ([2, 3] ! k) t = get fld_node_y 1 t \<and> get fld_node_h ([2, 3] ! k) t = get fld_node_h 1 t \<and>
       get fld_node_w ([2, 3] ! k) t = get fld_node_totalmag ([2, 3] ! k) t / get fld_node_totalmag 1 t * get fld_node_w 1 t"
    and w: "get fld_node_w 2 t + get fld_node_w 3 t = get fld_node_w 1 t"
    by simp_all
  from r m w k [rule_format, of 0] k [rule_format, of 1] show ?thesis by simp
qed

text \<open>
  C0.  Area is magnitude: under a container whose magnitude, like that of every container on the way,
  is not 0, a node gets the fraction of the container's area that its magnitude is of the
  container's, whichever way the containers between them are cut.
\<close>

definition feeds :: "nat \<Rightarrow> tm \<Rightarrow> tm \<Rightarrow> nat \<Rightarrow> nat \<Rightarrow> bool" where
  "feeds n s t j c \<longleftrightarrow> j < n \<and> container (tokens s j) \<and> get fld_node_totalmag j t \<noteq> 0 \<and> c \<in> set (child_list n j s)"

theorem treemap_areas:
  assumes "ignoreCL cfg" and "runTraversals cfg order n lv s = Inr t" and "treemap_tree n lv s"
    and "(feeds n s t)\<^sup>*\<^sup>* i c"
  shows "get fld_node_w c t * get fld_node_h c t * get fld_node_totalmag i t =
    get fld_node_totalmag c t * (get fld_node_w i t * get fld_node_h i t)"
  using assms(4)
proof (induction rule: rtranclp_induct)
  case (step j c)
  note r = layout_result [OF assms(1-3)]
  from step.hyps(2) have j: "j < n" "container (tokens s j)" "get fld_node_totalmag j t \<noteq> 0" "c \<in> set (child_list n j s)"
    by (simp_all add: feeds_def)
  have "cut n s j t" using r j(1) by blast
  with j(2,4) have "get fld_node_w c t * get fld_node_h c t = get fld_node_totalmag c t / get fld_node_totalmag j t * (get fld_node_w j t * get fld_node_h j t)"
    by (auto simp: cut_def container_def row_def column_def share_def in_set_conv_nth)
  then have "get fld_node_w c t * get fld_node_h c t * get fld_node_totalmag i t =
      get fld_node_totalmag c t / get fld_node_totalmag j t * (get fld_node_w j t * get fld_node_h j t * get fld_node_totalmag i t)"
    by (simp only: mult.assoc)
  then show ?case unfolding step.IH using j(3) by simp
qed simp

theorem treemap_areas_witness:
  "\<exists>t. runTraversals cpu_cfg level_range 7 demo_map_levels demo_map = Inr t \<and>
     get fld_node_w 6 t * get fld_node_h 6 t * 1500 = 600 * (get fld_node_w 1 t * get fld_node_h 1 t)"
proof -
  obtain t where r: "runTraversals cpu_cfg level_range 7 demo_map_levels demo_map = Inr t" using runTraversals_cpu by blast
  have cpu: "ignoreCL cpu_cfg" by (simp add: cpu_cfg_def)
  note m = demo_magnitudes [OF r]
  have "feeds 7 demo_map t 1 3" "feeds 7 demo_map t 3 6"
    using m demo_containers by (simp_all add: feeds_def demo_children demo_children [unfolded One_nat_def])
  then have "(feeds 7 demo_map t)\<^sup>*\<^sup>* 1 6" by (meson converse_rtranclp_into_rtranclp rtranclp.rtrancl_refl)
  from treemap_areas [OF cpu r demo_map_tree this] m r show ?thesis by auto
qed

end
