(* ===== verification/Compress.thy ===== *)
theory Compress
  imports FlatLoad
begin

text \<open>
  \<open>compress\<close> of \<open>src/jzlib.js\<close>, which flattens a tree before it is served, and the command line
  \<open>src/flattener.js\<close>.  The flattened runner is an argument, FlatTree holds the flattening; the
  result is the files written, by name, or the exception.  The theorems join this writer with the
  loader of FlatLoad and ParallelLoad: what \<open>sparseMT\<close> writes, \<open>loadDataFlatMt\<close> restores in every
  interleaving of its workers.
\<close>

section \<open>Options and buffers\<close>

text \<open>A size of 0 takes the default, as a missing one does.\<close>

record copts =
  o_minBlockSize :: "nat option"
  o_minFileSize :: "nat option"

definition minBlockSize :: "copts \<Rightarrow> nat" where
  "minBlockSize opts = js_default 2048 (o_minBlockSize opts)"

definition minFileSize :: "copts \<Rightarrow> nat" where
  "minFileSize opts = js_default (100 * 1024) (o_minFileSize opts)"

definition useSparseMT :: "string \<Rightarrow> bool" where
  "useSparseMT mode \<longleftrightarrow> mode = ''sparseMT''"

definition useSparse :: "string \<Rightarrow> bool" where
  "useSparse mode \<longleftrightarrow> mode = ''sparse'' \<or> mode = ''sparseMT''"

text \<open>The runner after \<open>loadData\<close>: its arrays in enumeration order, with the names of their constructors.\<close>

record 'a flattener =
  fl_tree_size :: nat
  fl_levels :: "level list"
  fl_tokens :: "string list"
  fl_fields :: "(string \<times> 'a list \<times> string option) list"

definition getBuffers :: "'a flattener \<Rightarrow> string list" where
  "getBuffers fl = filter (\<lambda>i. str_index ''_buffer_1'' i \<noteq> None) (map fst (fl_fields fl))"

definition buffer_fields :: "'a flattener \<Rightarrow> (string \<times> 'a list \<times> string option) list" where
  "buffer_fields fl = filter (\<lambda>f. str_index ''_buffer_1'' (fst f) \<noteq> None) (fl_fields fl)"

lemma getBuffers_fields: "getBuffers fl = map fst (buffer_fields fl)"
  by (simp add: getBuffers_def buffer_fields_def filter_map o_def)

section \<open>Files\<close>

record file_nfo =
  f_bufferLabel :: string
  f_fileIdx :: nat
  f_uniqueID :: nat
  f_nFiles :: nat

record 'a buf_info = "'a sparr" +
  startID :: nat
  numFiles :: nat

record 'a splitting =
  dataID :: nat
  sp_summary :: "file_nfo list"
  sp_info :: "string \<rightharpoonup> 'a buf_info"
  sp_files :: "(string \<times> 'a nfile) list"

definition file_name :: "string \<Rightarrow> nat \<Rightarrow> string" where
  "file_name outputFileJSON n = split_first ''.json'' outputFileJSON @ nat_digits n @ ''.json''"

text \<open>Of the \<open>nfo\<close> of a file the loader reads the label.\<close>

definition with_nfo :: "string \<Rightarrow> 'a chunk \<Rightarrow> 'a nfile" where
  "with_nfo lbl file = chunk.extend file (nfile.fields lbl)"

definition number_file :: "string \<Rightarrow> string \<Rightarrow> nat \<Rightarrow> 'a splitting \<Rightarrow> nat \<times> 'a chunk \<Rightarrow> 'a splitting" where
  "number_file out lbl nFiles s e = (case e of (fileIdx, file) \<Rightarrow>
     let n = dataID s + 1
     in s\<lparr>dataID := n,
          sp_summary := sp_summary s @ [\<lparr>f_bufferLabel = lbl, f_fileIdx = fileIdx, f_uniqueID = n, f_nFiles = nFiles\<rparr>],
          sp_info := (if fileIdx = 0
            then (sp_info s)(lbl \<mapsto> \<lparr>dense = [], zeros = None, len = len file, optTypeName = optTypeName file,
              startID = n, numFiles = nFiles\<rparr>)
            else sp_info s),
          sp_files := sp_files s @ [(file_name out n, with_nfo lbl file)]\<rparr>)"

definition split_buffer :: "string \<Rightarrow> 'a splitting \<Rightarrow> string \<times> 'a chunk list \<Rightarrow> 'a splitting" where
  "split_buffer out s e = (case e of (lbl, buffMT) \<Rightarrow>
     foldl (number_file out lbl (length buffMT)) s (enumerate 0 buffMT))"

definition split_buffers :: "string \<Rightarrow> (string \<times> 'a chunk list) list \<Rightarrow> 'a splitting" where
  "split_buffers out bufs =
     foldl (split_buffer out) \<lparr>dataID = 0, sp_summary = [], sp_info = Map.empty, sp_files = []\<rparr> bufs"

section \<open>The writer\<close>

text \<open>The value of a buffer in the output, by mode.\<close>

datatype 'a encoded = Dense "'a list" | Sparse "'a sparr" | Split "'a chunk list"

definition encode_buffer :: "string \<Rightarrow> copts \<Rightarrow> 'a::zero list \<times> string option \<Rightarrow> 'a encoded" where
  "encode_buffer mode opts b = (case b of (buff, ty) \<Rightarrow>
     if useSparseMT mode then Split (deflateMT buff ty (Some (minBlockSize opts)) (Some (minFileSize opts)))
     else if useSparse mode then Sparse (deflate buff ty (Some (minBlockSize opts)))
     else Dense buff)"

record 'a flat_json =
  j_tree_size :: nat
  j_levels :: "level list"
  j_tokens :: "string list"
  j_buffers :: "(string \<times> 'a encoded) list"

definition flatJSON :: "string \<Rightarrow> copts \<Rightarrow> 'a::zero flattener \<Rightarrow> 'a flat_json" where
  "flatJSON mode opts fl =
     \<lparr>j_tree_size = fl_tree_size fl, j_levels = fl_levels fl, j_tokens = fl_tokens fl,
      j_buffers = map (\<lambda>(lbl, b). (lbl, encode_buffer mode opts b)) (buffer_fields fl)\<rparr>"

definition split_of :: "string \<times> 'a encoded \<Rightarrow> string \<times> 'a chunk list" where
  "split_of e = (fst e, case snd e of Split cs \<Rightarrow> cs | _ \<Rightarrow> [])"

text \<open>The digest: the labels, the information on each, the summary and the tree, without the buffers.\<close>

definition digest_of :: "'a flat_json \<Rightarrow> 'a splitting \<Rightarrow> 'a digest_data" where
  "digest_of j s =
     \<lparr>bufferLabels = map fst (j_buffers j), buffersInfo = (\<lambda>lbl. map_option sparr.truncate (sp_info s lbl)),
      summary = map (\<lambda>n. nat_digits (f_uniqueID n)) (sp_summary s),
      dg_tree_size = Some (j_tree_size j), dg_levels = Some (j_levels j), dg_tokens = Some (j_tokens j), has_summary = True\<rparr>"

text \<open>
  The files when every write succeeds.  With no file to split the continuation is never called, so
  that not even the digest is written (see \<open>answers_none\<close>).
\<close>

datatype 'a written = DataFile "'a nfile" | DigestFile "'a digest_data" | FlatFile "'a flat_json"

definition compress :: "string \<Rightarrow> string \<Rightarrow> string \<Rightarrow> copts \<Rightarrow> string \<Rightarrow> 'a::zero flattener
    \<Rightarrow> string + (string \<times> 'a written) list" where
  "compress jsonFilePath kbindingsFilePath mode opts outputFileJSON fl =
     (if jsonFilePath = [] \<or> kbindingsFilePath = [] \<or> outputFileJSON = [] then Inl ''Missing args''
      else
        let j = flatJSON mode opts fl
        in if useSparseMT mode
           then let s = split_buffers outputFileJSON (map split_of (j_buffers j))
                in if sp_files s = [] then Inr []
                   else Inr (map (\<lambda>(name, f). (name, DataFile f)) (sp_files s) @ [(outputFileJSON, DigestFile (digest_of j s))])
           else Inr [(outputFileJSON, FlatFile j)])"

text \<open>The command line: \<open>parse_opts\<close> is \<open>JSON.parse\<close>, which throws on a missing argument; \<open>[]\<close> is a missing argument.\<close>

definition flattener_main :: "(string \<Rightarrow> copts option) \<Rightarrow> string list \<Rightarrow> 'a::zero flattener \<Rightarrow> string + (string \<times> 'a written) list" where
  "flattener_main parse_opts argv fl =
     (let a = (\<lambda>i. if i < length argv then argv ! i else [])
      in case parse_opts (a 5) of
           None \<Rightarrow> Inl ''SyntaxError''
         | Some opts \<Rightarrow>
             if a 2 = [] \<or> a 3 = [] \<or> a 4 = [] \<or> a 6 = []
             then Inl ''node flattener.js inputJsonPath.json kbindings.js mode opts out.json''
             else compress (a 2) (a 3) (a 4) opts (a 6) fl)"

section \<open>The answers of the file system\<close>

text \<open>
  The files of a split are written at once; every write calls back with or without an error, in
  any order.  \<open>Proceed\<close> and \<open>Abort\<close> are the calls of the continuation.
\<close>

datatype cont_call = Proceed | Abort

record writing =
  w_done :: int
  conts :: "cont_call list"

definition write_answer :: "nat \<Rightarrow> writing \<Rightarrow> bool \<Rightarrow> writing" where
  "write_answer outgoing s err =
     (if err \<and> w_done s \<noteq> -1 then s\<lparr>w_done := -1, conts := conts s @ [Abort]\<rparr>
      else if err then s
      else let d = w_done s + 1
           in s\<lparr>w_done := d, conts := conts s @ (if d = int outgoing then [Proceed] else [])\<rparr>)"

definition answers :: "nat \<Rightarrow> bool list \<Rightarrow> writing" where
  "answers outgoing errs = foldl (write_answer outgoing) \<lparr>w_done = 0, conts = []\<rparr> errs"

lemma answers_none: "conts (answers 0 []) = []"
  by (simp add: answers_def)

text \<open>The maximal runs of failed writes.\<close>

fun failure_runs :: "bool \<Rightarrow> bool list \<Rightarrow> nat" where
  "failure_runs failed [] = 0"
| "failure_runs failed (e # es) = (if e \<and> \<not> failed then 1 else 0) + failure_runs e es"

lemma failure_runs_0: "failure_runs False errs = 0 \<longleftrightarrow> True \<notin> set errs"
  by (induction errs) auto

lemma answers_ok:
  assumes "True \<notin> set errs" and "int (length errs) + d \<le> int n" and "0 \<le> d" and "d < int n"
  shows "foldl (write_answer n) \<lparr>w_done = d, conts = cs\<rparr> errs =
    \<lparr>w_done = d + int (length errs), conts = cs @ (if d + int (length errs) = int n then [Proceed] else [])\<rparr>"
  using assms
proof (induction errs arbitrary: d cs)
  case (Cons e es)
  then have e: "\<not> e" by simp
  show ?case
  proof (cases "d + 1 = int n")
    case True
    with Cons.prems(2) have "es = []" by (cases es) auto
    then show ?thesis using e True Cons.prems by (simp add: write_answer_def)
  next
    case False
    then show ?thesis using Cons.IH [of "d + 1" cs] Cons.prems e by (simp add: write_answer_def Let_def algebra_simps)
  qed
qed simp

text \<open>Once a write has failed the count stays below the number of files.\<close>

lemma answers_failed:
  assumes "if failed then d = -1 else 0 \<le> d" and "int (length errs) + d < int n"
  shows "conts (foldl (write_answer n) \<lparr>w_done = d, conts = cs\<rparr> errs) = cs @ replicate (failure_runs failed errs) Abort"
  using assms
proof (induction errs arbitrary: d cs failed)
  case (Cons e es)
  show ?case
  proof (cases e)
    case True
    then show ?thesis
      using Cons.prems Cons.IH [of True "-1" "if failed then cs else cs @ [Abort]"]
      by (cases failed) (auto simp: write_answer_def)
  next
    case False
    then show ?thesis
      using Cons.prems Cons.IH [of False "d + 1" cs] by (auto simp: write_answer_def Let_def split: if_splits)
  qed
qed simp

lemma failure_runs_append: "failure_runs b (xs @ ys) = failure_runs b xs + failure_runs (if xs = [] then b else last xs) ys"
  by (induction xs arbitrary: b) auto

lemma answers_continue:
  assumes "length errs \<le> n" and "0 < n"
  shows "conts (answers n errs) =
    (if True \<in> set errs then replicate (failure_runs False errs) Abort
     else if length errs = n then [Proceed] else [])"
proof (cases "True \<in> set errs")
  case False
  then show ?thesis using answers_ok [of errs 0 n "[]"] assms by (simp add: answers_def)
next
  case True
  then obtain xs ys where e: "errs = xs @ True # ys" "True \<notin> set xs" by (meson split_list_first)
  have l: "int (length xs) < int n" using assms(1) e(1) by simp
  have "answers n errs = foldl (write_answer n) \<lparr>w_done = int (length xs), conts = []\<rparr> (True # ys)"
    using answers_ok [OF e(2), of 0 n "[]"] l assms(2) by (simp add: answers_def e(1))
  also have "\<dots> = foldl (write_answer n) \<lparr>w_done = -1, conts = [Abort]\<rparr> ys"
    by (simp add: write_answer_def)
  finally have "conts (answers n errs) = [Abort] @ replicate (failure_runs True ys) Abort"
    using answers_failed [of True "-1" ys n "[Abort]"] assms(1) e(1) by simp
  moreover have "failure_runs False errs = Suc (failure_runs True ys)"
    using e failure_runs_0 [of xs] by (auto simp: failure_runs_append dest: last_in_set)
  ultimately show ?thesis using True by simp
qed

text \<open>
  C19.  Writing a split: when every write succeeds the continuation is called exactly once, after the
  last answer and never before; when some fail it is called with an error once for every run of
  failures, so possibly more than once, and never without an error.
\<close>

theorem compress_writes_continue:
  assumes "0 < n" and "length errs = n"
  shows "(True \<notin> set errs \<longrightarrow> conts (answers n errs) = [Proceed] \<and> conts (answers n (take k errs)) = (if n \<le> k then [Proceed] else [])) \<and>
    (True \<in> set errs \<longrightarrow> conts (answers n errs) = replicate (failure_runs False errs) Abort \<and> 0 < failure_runs False errs)"
proof -
  have "True \<notin> set errs \<Longrightarrow> True \<notin> set (take k errs)" by (meson in_set_takeD)
  then show ?thesis
    using answers_continue [of errs n] answers_continue [of "take k errs" n] failure_runs_0 [of errs] assms by auto
qed

theorem compress_writes_continue_witness:
  "conts (answers 3 [True, False, True]) = [Abort, Abort] \<and> conts (answers 2 [False, False]) = [Proceed]"
  using compress_writes_continue [of 3 "[True, False, True]" 0] compress_writes_continue [of 2 "[False, False]" 0]
  by (simp add: numeral_eq_Suc)

section \<open>Numbering\<close>

text \<open>A file of the split in closed form: the \<open>k\<close>-th chunk of all buffers is file \<open>k + 1\<close>.\<close>

definition chunk_list :: "(string \<times> 'a chunk list) list \<Rightarrow> (string \<times> 'a chunk) list" where
  "chunk_list bufs = concat (map (\<lambda>(lbl, cs). map (Pair lbl) cs) bufs)"

definition numbered :: "string \<Rightarrow> nat \<Rightarrow> (string \<times> 'a chunk) list \<Rightarrow> (string \<times> 'a nfile) list" where
  "numbered out m items = map (\<lambda>(k, lbl, c). (file_name out (Suc k), with_nfo lbl c)) (enumerate m items)"

lemma numbered_append: "numbered out m (xs @ ys) = numbered out m xs @ numbered out (m + length xs) ys"
  by (simp add: numbered_def enumerate_append_eq)

lemma numbered_Nil [simp]: "numbered out m [] = []"
  by (simp add: numbered_def)

lemma numbered_Cons [simp]: "numbered out m ((lbl, c) # xs) = (file_name out (Suc m), with_nfo lbl c) # numbered out (Suc m) xs"
  by (simp add: numbered_def)

lemma number_file_pair: "number_file out lbl nf s (j, c) =
    s\<lparr>dataID := Suc (dataID s),
      sp_summary := sp_summary s @ [\<lparr>f_bufferLabel = lbl, f_fileIdx = j, f_uniqueID = Suc (dataID s), f_nFiles = nf\<rparr>],
      sp_info := (if j = 0 then (sp_info s)(lbl \<mapsto> \<lparr>dense = [], zeros = None, len = len c, optTypeName = optTypeName c,
        startID = Suc (dataID s), numFiles = nf\<rparr>) else sp_info s),
      sp_files := sp_files s @ [(file_name out (Suc (dataID s)), with_nfo lbl c)]\<rparr>"
  by (simp add: number_file_def)

lemma map_Suc_shift: "map (\<lambda>k. Suc (d + k)) [0..<n] = map Suc [d..<d + n]"
  by (rule nth_equalityI) simp_all

lemma number_files:
  "foldl (number_file out lbl nf) s (enumerate j cs) =
     \<lparr>dataID = dataID s + length cs,
      sp_summary = sp_summary s @ map (\<lambda>k. \<lparr>f_bufferLabel = lbl, f_fileIdx = j + k, f_uniqueID = Suc (dataID s + k), f_nFiles = nf\<rparr>) [0..<length cs],
      sp_info = (if j = 0 \<and> cs \<noteq> [] then (sp_info s)(lbl \<mapsto> \<lparr>dense = [], zeros = None, len = len (hd cs), optTypeName = optTypeName (hd cs),
        startID = Suc (dataID s), numFiles = nf\<rparr>) else sp_info s),
      sp_files = sp_files s @ numbered out (dataID s) (map (Pair lbl) cs)\<rparr>"
proof (induction cs arbitrary: s j)
  case Nil
  show ?case by (simp add: numbered_def)
next
  case (Cons c cs)
  have "[0..<Suc (length cs)] = 0 # map Suc [0..<length cs]" by (simp add: upt_conv_Cons map_Suc_upt del: upt_Suc)
  then show ?case by (simp add: Cons.IH number_file_pair o_def del: upt_Suc)
qed

lemma chunk_list_Nil [simp]: "chunk_list [] = []"
  by (simp add: chunk_list_def)

lemma chunk_list_Cons: "chunk_list ((lbl, cs) # bufs) = map (Pair lbl) cs @ chunk_list bufs"
  by (simp add: chunk_list_def)

lemma split_buffers_run:
  "dataID (foldl (split_buffer out) s bufs) = dataID s + length (chunk_list bufs) \<and>
   sp_files (foldl (split_buffer out) s bufs) = sp_files s @ numbered out (dataID s) (chunk_list bufs) \<and>
   map f_uniqueID (sp_summary (foldl (split_buffer out) s bufs)) =
     map f_uniqueID (sp_summary s) @ map Suc [dataID s ..< dataID s + length (chunk_list bufs)]"
proof (induction bufs arbitrary: s)
  case Nil
  show ?case by (simp add: chunk_list_def numbered_def)
next
  case (Cons b bufs)
  obtain lbl cs where b: "b = (lbl, cs)" by (cases b)
  have u: "map f_uniqueID (sp_summary (split_buffer out s b)) = map f_uniqueID (sp_summary s) @ map Suc [dataID s ..< dataID s + length cs]"
    by (simp add: b split_buffer_def number_files o_def map_Suc_shift del: map_Suc_upt)
  have d: "dataID (split_buffer out s b) = dataID s + length cs"
    "sp_files (split_buffer out s b) = sp_files s @ numbered out (dataID s) (map (Pair lbl) cs)"
    by (simp_all add: b split_buffer_def number_files)
  have "[dataID s ..< dataID s + (length cs + length (chunk_list bufs))] =
      [dataID s ..< dataID s + length cs] @ [dataID s + length cs ..< dataID s + length cs + length (chunk_list bufs)]"
    using upt_add_eq_append [of "dataID s" "dataID s + length cs" "length (chunk_list bufs)"] by (simp only: add.assoc le_add1 simp_thms)
  with Cons.IH [of "split_buffer out s b"] show ?case
    by (simp add: u [unfolded b] d [unfolded b] b chunk_list_Cons numbered_append)
qed

lemma split_files: "sp_files (split_buffers out bufs) = numbered out 0 (chunk_list bufs)"
  using split_buffers_run [of out "\<lparr>dataID = 0, sp_summary = [], sp_info = Map.empty, sp_files = []\<rparr>" bufs]
  by (simp add: split_buffers_def)

lemma numbered_empty: "numbered out m items = [] \<Longrightarrow> items = []"
  by (cases items) auto

lemma split_info:
  assumes "\<And>cs. (lbl, cs) \<in> set bufs \<Longrightarrow> cs \<noteq> [] \<and> len (hd cs) = ln \<and> optTypeName (hd cs) = ty"
  shows "if lbl \<in> fst ` set bufs
    then \<exists>i. sp_info (foldl (split_buffer out) s bufs) lbl = Some i \<and> len i = ln \<and> optTypeName i = ty
    else sp_info (foldl (split_buffer out) s bufs) lbl = sp_info s lbl"
  using assms
proof (induction bufs arbitrary: s)
  case (Cons b bufs)
  obtain l cs where b: "b = (l, cs)" by (cases b)
  have i: "sp_info (split_buffer out s b) lbl = (if l = lbl \<and> cs \<noteq> [] then Some \<lparr>dense = [], zeros = None, len = len (hd cs),
      optTypeName = optTypeName (hd cs), startID = Suc (dataID s), numFiles = length cs\<rparr> else sp_info s lbl)"
    by (simp add: b split_buffer_def number_files)
  have IH: "if lbl \<in> fst ` set bufs
    then \<exists>i. sp_info (foldl (split_buffer out) (split_buffer out s b) bufs) lbl = Some i \<and> len i = ln \<and> optTypeName i = ty
    else sp_info (foldl (split_buffer out) (split_buffer out s b) bufs) lbl = sp_info (split_buffer out s b) lbl"
    using Cons.prems by (intro Cons.IH) simp
  show ?case
  proof (cases "lbl \<in> fst ` set bufs")
    case True
    with IH show ?thesis by simp
  next
    case False
    with IH i show ?thesis using Cons.prems [of cs] by (auto simp: b)
  qed
qed simp

section \<open>Names\<close>

lemma nat_digits_digit: "c \<in> set (nat_digits n) \<Longrightarrow> c \<noteq> CHR ''.''"
proof (induction n rule: nat_digits.induct)
  case (1 n)
  have d: "char_of (48 + k) \<noteq> CHR ''.''" if "k < 10" for k :: nat
  proof
    assume "char_of (48 + k) = CHR ''.''"
    then have "of_char (char_of (48 + k) :: char) = (of_char (CHR ''.'') :: nat)" by simp
    with that show False by simp
  qed
  show ?case
  proof (cases "n < 10")
    case True
    with 1(2) d show ?thesis by (subst (asm) nat_digits.simps) simp
  next
    case False
    with 1(2) consider "c \<in> set (nat_digits (n div 10))" | "c = char_of (48 + n mod 10)"
      by (subst (asm) nat_digits.simps) auto
    then show ?thesis using 1(1) [OF False] d [of "n mod 10"] by cases simp_all
  qed
qed

lemma nat_digits_ne: "nat_digits n \<noteq> []"
  by (subst nat_digits.simps) simp

lemma digit_inj: "char_of (48 + i) = (char_of (48 + j) :: char) \<Longrightarrow> i < 10 \<Longrightarrow> j < 10 \<Longrightarrow> i = (j :: nat)"
proof -
  assume a: "char_of (48 + i) = (char_of (48 + j) :: char)" and "i < 10" "j < 10"
  then have "of_char (char_of (48 + i) :: char) = (of_char (char_of (48 + j) :: char) :: nat)" by simp
  with \<open>i < 10\<close> \<open>j < 10\<close> show ?thesis by simp
qed

lemma nat_digits_inj: "nat_digits m = nat_digits n \<Longrightarrow> m = n"
proof (induction m arbitrary: n rule: nat_digits.induct)
  case (1 m)
  have small: "k < 10 \<Longrightarrow> nat_digits k = [char_of (48 + k)]" for k by (subst nat_digits.simps) simp
  have big: "\<not> k < 10 \<Longrightarrow> nat_digits k = nat_digits (k div 10) @ [char_of (48 + k mod 10)]" for k
    by (subst nat_digits.simps) simp
  have ne: "nat_digits k @ [c] \<noteq> [d]" for k c d using nat_digits_ne by simp
  show ?case
  proof (cases "m < 10"; cases "n < 10")
    assume c: "\<not> m < 10" "\<not> n < 10"
    have e: "nat_digits (m div 10) = nat_digits (n div 10) \<and> char_of (48 + m mod 10) = (char_of (48 + n mod 10) :: char)"
      using 1(2) unfolding big [OF c(1)] big [OF c(2)] by (simp only: append1_eq_conv)
    have "m div 10 = n div 10" by (rule 1(1) [OF c(1) conjunct1 [OF e]])
    moreover have "m mod 10 = n mod 10" by (rule digit_inj [OF conjunct2 [OF e]]) simp_all
    ultimately show ?thesis by (metis div_mult_mod_eq)
  next
    assume c: "m < 10" "n < 10"
    then have "char_of (48 + m) = (char_of (48 + n) :: char)" using 1(2) by (simp only: small list.inject)
    then show ?thesis using c by (rule digit_inj)
  next
    assume c: "m < 10" "\<not> n < 10"
    with 1(2) ne show ?thesis unfolding small [OF c(1)] big [OF c(2)] by metis
  next
    assume c: "\<not> m < 10" "n < 10"
    with 1(2) ne show ?thesis unfolding small [OF c(2)] big [OF c(1)] by metis
  qed
qed

lemma file_name_inj: "file_name out m = file_name out n \<longleftrightarrow> m = n"
  using nat_digits_inj by (auto simp: file_name_def)

lemma file_name_out: "file_name out n \<noteq> out"
proof
  assume e: "file_name out n = out"
  show False
  proof (cases "str_index ''.json'' out")
    case None
    then show False using e by (simp add: file_name_def split_first_def)
  next
    case (Some k)
    then have "prefix ''.json'' (drop k out)" "k \<le> length out" using str_index_prefix [OF Some] by simp_all
    moreover have "drop k out = nat_digits n @ ''.json''"
      using e Some \<open>k \<le> length out\<close> by (simp add: file_name_def split_first_def) (metis append_eq_conv_conj append_take_drop_id same_append_eq)
    ultimately have "hd (nat_digits n) = CHR ''.''" using nat_digits_ne [of n] by (cases "nat_digits n") auto
    then show False using nat_digits_digit [of "hd (nat_digits n)" n] nat_digits_ne [of n] by simp
  qed
qed

section \<open>Writing and loading\<close>

lemma mt_loop_hd:
  "mt_loop mfs ty c prev ch q \<noteq> [] \<and> len (hd (mt_loop mfs ty c prev ch q)) = len (hd (prev @ [ch]))"
proof (induction mfs ty c prev ch q rule: mt_loop.induct)
  case (3 mfs ty c prev ch s b others q)
  consider "c + length b < mfs" | "\<not> c + length b < mfs" "c < mfs" | "\<not> c + length b < mfs" "\<not> c < mfs" by blast
  then show ?case
  proof cases
    case 1
    then show ?thesis using "3.IH"(1) [OF refl 1] by (subst (1 2) mt_loop.simps(3)) (simp add: hd_append del: mt_loop.simps)
  next
    case 2
    then show ?thesis using "3.IH"(2) [OF refl 2 refl refl refl]
      by (subst (1 2) mt_loop.simps(3)) (simp add: Let_def hd_append del: mt_loop.simps)
  next
    case 3
    then show ?thesis by (simp add: hd_append)
  qed
qed (simp_all add: hd_append)

lemma deflateMT_hd:
  "deflateMT arr ty mb mf \<noteq> [] \<and> len (hd (deflateMT arr ty mb mf)) = Some (length arr) \<and> optTypeName (hd (deflateMT arr ty mb mf)) = ty"
proof -
  note h = mt_loop_hd [of "js_default 1000 mf" ty 0 "[]" "deflate arr ty mb\<lparr>dense := []\<rparr>" "[dense (deflate arr ty mb)]"]
  have ne: "deflateMT arr ty mb mf \<noteq> []" using h by (simp add: deflateMT_def Let_def)
  moreover have "len (deflate arr ty mb) = Some (length arr)"
    using deflate_encodes [of mb arr ty] by (simp add: encodes_upto_def)
  then have "len (hd (deflateMT arr ty mb mf)) = Some (length arr)" using h by (simp add: deflateMT_def Let_def hd_map)
  moreover have "optTypeName (hd (deflateMT arr ty mb mf)) = ty" using deflateMT_type ne hd_in_set by blast
  ultimately show ?thesis by blast
qed

text \<open>The server of the written files; the last write of a name counts, and the digest is a script, not JSON.\<close>

definition server :: "(string \<times> 'a written) list \<Rightarrow> string \<Rightarrow> 'a nfile response" where
  "server W u = (case map_of (rev W) u of Some (DataFile f) \<Rightarrow> Parsed f | Some _ \<Rightarrow> Unparsable | None \<Rightarrow> Failed)"

lemma with_nfo_sel [simp]: "chunk.truncate (with_nfo lbl c) = c" "nfo (with_nfo lbl c) = lbl"
  by (simp_all add: with_nfo_def chunk.defs nfile.defs)

lemma toUrl_name: "toUrl out (nat_digits n) = file_name out n"
  by (simp add: toUrl_def file_name_def)

lemma numbered_names: "map fst (numbered out 0 items) = map (\<lambda>k. file_name out (Suc k)) [0..<length items]"
  by (rule nth_equalityI) (simp_all add: numbered_def nth_enumerate_eq case_prod_beta)

lemma numbered_nth: "k < length items \<Longrightarrow> numbered out 0 items ! k = (file_name out (Suc k), with_nfo (fst (items ! k)) (snd (items ! k)))"
  by (simp add: numbered_def nth_enumerate_eq case_prod_beta)

lemma server_file:
  assumes W: "W = map (\<lambda>(name, f). (name, DataFile f)) (numbered out 0 items) @ [(out, d)]" and k: "k < length items"
  shows "server W (file_name out (Suc k)) = Parsed (with_nfo (fst (items ! k)) (snd (items ! k)))"
proof -
  have f: "map fst W = map (\<lambda>k. file_name out (Suc k)) [0..<length items] @ [out]"
    by (simp add: W o_def case_prod_beta numbered_names [symmetric])
  have "distinct (map fst W)"
    unfolding f using file_name_out [of out, THEN not_sym] by (auto simp: distinct_map inj_on_def file_name_inj)
  then have dis: "distinct (map fst (rev W))" by (simp add: rev_map [symmetric])
  have "numbered out 0 items ! k \<in> set (numbered out 0 items)" using k by (intro nth_mem) (simp add: numbered_def)
  then have "(file_name out (Suc k), DataFile (with_nfo (fst (items ! k)) (snd (items ! k)))) \<in> set (rev W)"
    unfolding W numbered_nth [OF k] by force
  from map_of_is_SomeI [OF dis this] show ?thesis by (simp add: server_def)
qed

text \<open>What \<open>compress\<close> writes in the mode \<open>sparseMT\<close>, in closed form.\<close>

definition mt_buffers :: "copts \<Rightarrow> 'a::zero flattener \<Rightarrow> (string \<times> 'a chunk list) list" where
  "mt_buffers opts fl = map (\<lambda>(lbl, arr, ty). (lbl, deflateMT arr ty (Some (minBlockSize opts)) (Some (minFileSize opts)))) (buffer_fields fl)"

lemma split_of_mt: "map split_of (j_buffers (flatJSON ''sparseMT'' opts fl)) = mt_buffers opts fl"
  by (auto simp: flatJSON_def mt_buffers_def split_of_def encode_buffer_def useSparseMT_def)

lemma compress_mt:
  assumes "compress jp kp ''sparseMT'' opts out fl = Inr W" and "W \<noteq> []"
  defines "s \<equiv> split_buffers out (mt_buffers opts fl)"
  shows "W = map (\<lambda>(name, f). (name, DataFile f)) (numbered out 0 (chunk_list (mt_buffers opts fl))) @
      [(out, DigestFile (digest_of (flatJSON ''sparseMT'' opts fl) s))]"
    and "summary (digest_of (flatJSON ''sparseMT'' opts fl) s) =
      map (\<lambda>k. nat_digits (Suc k)) [0..<length (chunk_list (mt_buffers opts fl))]"
proof -
  note m = split_of_mt [of opts fl]
  note r = split_buffers_run [of out "\<lparr>dataID = 0, sp_summary = [], sp_info = Map.empty, sp_files = []\<rparr>" "mt_buffers opts fl",
      folded split_buffers_def, folded s_def]
  show "W = map (\<lambda>(name, f). (name, DataFile f)) (numbered out 0 (chunk_list (mt_buffers opts fl))) @
      [(out, DigestFile (digest_of (flatJSON ''sparseMT'' opts fl) s))]"
    using assms(1,2) m r by (simp add: compress_def Let_def useSparseMT_def s_def split: if_splits)
  have "summary (digest_of (flatJSON ''sparseMT'' opts fl) s) = map nat_digits (map f_uniqueID (sp_summary s))"
    by (simp add: digest_of_def)
  also have "\<dots> = map nat_digits (map Suc [0..<length (chunk_list (mt_buffers opts fl))])" using r by simp
  finally show "summary (digest_of (flatJSON ''sparseMT'' opts fl) s) =
      map (\<lambda>k. nat_digits (Suc k)) [0..<length (chunk_list (mt_buffers opts fl))]" by (simp add: o_def del: map_Suc_upt)
qed

lemma compress_served:
  assumes W: "compress jp kp ''sparseMT'' opts out fl = Inr W" and d: "(out, DigestFile data) \<in> set W"
    and dis: "distinct (getBuffers fl)"
    and types: "\<forall>(lbl, arr, ty) \<in> set (buffer_fields fl). \<exists>t. ty = Some t \<and> t \<in> set worker_types \<and> t \<in> set ctors"
  defines "arrs \<equiv> \<lambda>lbl. fst (the (map_of (buffer_fields fl) lbl))" and "tys \<equiv> \<lambda>lbl. the (snd (the (map_of (buffer_fields fl) lbl)))"
  shows "served (server W) out (digest.truncate data) ctors arrs tys (Some (minBlockSize opts)) (Some (minFileSize opts))"
    and "bufferLabels data = getBuffers fl"
    and "dg_tree_size data = Some (fl_tree_size fl) \<and> dg_levels data = Some (fl_levels fl) \<and> dg_tokens data = Some (fl_tokens fl) \<and> has_summary data"
    and "getBuffers fl \<noteq> [] \<Longrightarrow> summary data \<noteq> []"
proof -
  let ?items = "chunk_list (mt_buffers opts fl)" and ?s = "split_buffers out (mt_buffers opts fl)"
  let ?mt = "\<lambda>arr ty. deflateMT arr ty (Some (minBlockSize opts)) (Some (minFileSize opts))"
  have "W \<noteq> []" using d by auto
  note c = compress_mt [OF W this]
  have data: "data = digest_of (flatJSON ''sparseMT'' opts fl) ?s"
    using d unfolding c(1) by auto
  note srv = server_file [OF c(1)]
  show labels: "bufferLabels data = getBuffers fl"
    by (simp add: data digest_of_def flatJSON_def getBuffers_fields o_def case_prod_beta)
  show "dg_tree_size data = Some (fl_tree_size fl) \<and> dg_levels data = Some (fl_levels fl) \<and> dg_tokens data = Some (fl_tokens fl) \<and> has_summary data"
    by (simp add: data digest_of_def flatJSON_def)
  have sum: "summary data = map (\<lambda>k. nat_digits (Suc k)) [0..<length ?items]" unfolding data by (rule c(2))
  have dd: "distinct (map fst (buffer_fields fl))" using dis by (simp add: getBuffers_fields)
  have field: "arrs lbl = arr \<and> Some (tys lbl) = ty \<and> tys lbl \<in> set worker_types \<and> tys lbl \<in> set ctors"
    if "(lbl, arr, ty) \<in> set (buffer_fields fl)" for lbl arr ty
    using types that map_of_is_SomeI [OF dd that] by (auto simp: arrs_def tys_def)
  have fields: "(lbl, arrs lbl, Some (tys lbl)) \<in> set (buffer_fields fl)" if "lbl \<in> set (getBuffers fl)" for lbl
    using that field by (force simp: getBuffers_fields)
  have item: "(lbl, ch) \<in> set ?items \<longleftrightarrow> lbl \<in> set (getBuffers fl) \<and> ch \<in> set (?mt (arrs lbl) (Some (tys lbl)))" for lbl ch
    using field fields by (force simp: chunk_list_def mt_buffers_def getBuffers_fields)
  have info: "\<exists>nf. sp_info ?s lbl = Some nf \<and> len nf = Some (length (arrs lbl)) \<and> optTypeName nf = Some (tys lbl)"
    if "lbl \<in> set (getBuffers fl)" for lbl
  proof -
    have "lbl \<in> fst ` set (mt_buffers opts fl)" using that by (force simp: mt_buffers_def getBuffers_fields)
    moreover have "cs \<noteq> [] \<and> len (hd cs) = Some (length (arrs lbl)) \<and> optTypeName (hd cs) = Some (tys lbl)"
      if "(lbl, cs) \<in> set (mt_buffers opts fl)" for cs
      using that field deflateMT_hd by (force simp: mt_buffers_def)
    ultimately show ?thesis using split_info [of lbl "mt_buffers opts fl"] by (simp add: split_buffers_def)
  qed
  show "summary data \<noteq> []" if ne: "getBuffers fl \<noteq> []"
  proof -
    from ne obtain lbl where "lbl \<in> set (getBuffers fl)" by (cases "getBuffers fl") auto
    moreover have "hd (?mt (arrs lbl) (Some (tys lbl))) \<in> set (?mt (arrs lbl) (Some (tys lbl)))"
      by (rule hd_in_set) (simp add: deflateMT_hd)
    ultimately have "(lbl, hd (?mt (arrs lbl) (Some (tys lbl)))) \<in> set ?items" by (simp add: item)
    then show ?thesis unfolding sum by (cases ?items) auto
  qed
  have chunk_file: "\<exists>ident \<in> set (summary data). \<exists>f. server W (toUrl out ident) = Parsed f \<and> chunk.truncate f = ch \<and> nfo f = lbl"
    if i: "(lbl, ch) \<in> set ?items" for lbl ch
  proof -
    from i obtain k where k: "k < length ?items" "?items ! k = (lbl, ch)" by (metis in_set_conv_nth)
    then have "nat_digits (Suc k) \<in> set (summary data)" by (simp add: sum)
    moreover have "server W (toUrl out (nat_digits (Suc k))) = Parsed (with_nfo lbl ch)"
      using srv [OF k(1)] k(2) by (simp add: toUrl_name)
    ultimately show ?thesis by (metis with_nfo_sel)
  qed
  have ident: "\<exists>f. server W (toUrl out ident) = Parsed f \<and> nfo f \<in> set (getBuffers fl) \<and>
      chunk.truncate f \<in> set (?mt (arrs (nfo f)) (Some (tys (nfo f))))" if "ident \<in> set (summary data)" for ident
  proof -
    from that obtain k where k: "k < length ?items" "ident = nat_digits (Suc k)" by (auto simp: sum)
    obtain lbl ch where i: "?items ! k = (lbl, ch)" by (cases "?items ! k")
    then have "(lbl, ch) \<in> set ?items" using k(1) by (metis nth_mem)
    then show ?thesis using srv [OF k(1)] by (simp add: k(2) toUrl_name item i)
  qed
  show "served (server W) out (digest.truncate data) ctors arrs tys (Some (minBlockSize opts)) (Some (minFileSize opts))"
    unfolding served_def
  proof (intro conjI ballI)
    fix lbl assume "lbl \<in> set (bufferLabels (digest.truncate data))"
    then have l: "lbl \<in> set (getBuffers fl)" by (simp add: digest.defs labels)
    show "tys lbl \<in> set worker_types" "tys lbl \<in> set ctors" using field fields [OF l] by blast+
    show "\<exists>nf. buffersInfo (digest.truncate data) lbl = Some nf \<and> len nf = Some (length (arrs lbl)) \<and> optTypeName nf = Some (tys lbl)"
      using info [OF l] by (auto simp: digest.defs data digest_of_def sparr.defs)
    show "\<exists>ident \<in> set (summary (digest.truncate data)). \<exists>f. server W (toUrl out ident) = Parsed f \<and> chunk.truncate f = ch \<and> nfo f = lbl"
      if "ch \<in> set (?mt (arrs lbl) (Some (tys lbl)))" for ch
      using chunk_file [of lbl ch] that l by (simp add: item digest.defs)
  next
    fix ident assume "ident \<in> set (summary (digest.truncate data))"
    then show "\<exists>f. server W (toUrl out ident) = Parsed f \<and> nfo f \<in> set (bufferLabels (digest.truncate data)) \<and>
        chunk.truncate f \<in> set (?mt (arrs (nfo f)) (Some (tys (nfo f))))"
      using ident [of ident] by (simp add: digest.defs labels)
  qed
qed

text \<open>
  C2.  Compressing and loading are inverse: for a runner with at least one buffer, all with distinct names and of
  types the workers know, the files that \<open>compress\<close> writes in the mode \<open>sparseMT\<close>, served back,
  give the tree size, the levels and the tokens of the runner, and every interleaving of the loading
  workers ends, after as many messages as files, with one call of the callback and every buffer the
  original array.
\<close>

theorem compress_load_roundtrip:
  assumes "compress jp kp ''sparseMT'' opts out fl = Inr W" and "(out, DigestFile data) \<in> set W"
    and "distinct (getBuffers fl)" and "getBuffers fl \<noteq> []" and "0 < fl_tree_size fl"
    and "\<forall>(lbl, arr, ty) \<in> set (buffer_fields fl). \<exists>t. ty = Some t \<and> t \<in> set worker_types \<and> t \<in> set (getArrayConstructors window)"
  shows "\<exists>r1 st0. loadDataFlatMt out window data mw intoGPU r = Inr (r1, st0) \<and>
    tree_size r1 = fl_tree_size fl \<and> levels r1 = fl_levels fl \<and> tokens r1 = fl_tokens fl \<and>
    (\<forall>k st. (pool_step (server W) out intoGPU True (length (summary data)) ^^ k) st0 st \<longrightarrow>
       k \<le> length (summary data) \<and>
       (k < length (summary data) \<longrightarrow> called st = 0 \<and>
          (\<exists>st'. pool_step (server W) out intoGPU True (length (summary data)) st st')) \<and>
       (k = length (summary data) \<longrightarrow> called st = 1 \<and>
          (\<forall>(lbl, arr, ty) \<in> set (buffer_fields fl). hostbufs (loadDataFlatMt_done st r1) lbl = Some (TypedArr, arr))))"
proof -
  note c = compress_served [OF assms(1,2,3,6)]
  have tr: "summary (digest.truncate data) = summary data" "bufferLabels (digest.truncate data) = bufferLabels data"
    by (simp_all add: digest.defs)
  from pool_result [OF c(1), unfolded tr, OF c(4) [OF assms(4)], of mw "hostbufs r" intoGPU]
  obtain st0 where st0: "inflateMt out (digest.truncate data) (getArrayConstructors window) mw (hostbufs r) = Some st0"
    and run: "\<And>k st. (pool_step (server W) out intoGPU True (length (summary data)) ^^ k) st0 st \<Longrightarrow>
       k \<le> length (summary data) \<and>
       (k < length (summary data) \<longrightarrow> called st = 0 \<and>
          (\<exists>st'. pool_step (server W) out intoGPU True (length (summary data)) st st')) \<and>
       (k = length (summary data) \<longrightarrow> called st = 1 \<and>
          (\<forall>lbl \<in> set (bufferLabels data). arrays st lbl = Some (TypedArr, fst (the (map_of (buffer_fields fl) lbl)))))"
    by blast
  have dd: "distinct (map fst (buffer_fields fl))" using assms(3) by (simp add: getBuffers_fields)
  have ld: "loadDataFlatMt out window data mw intoGPU r =
      Inr (r\<lparr>tree_size := fl_tree_size fl, levels := fl_levels fl, tokens := fl_tokens fl, hostbufs := arrays st0,
        calls := calls r @ (if intoGPU then [AllocateClBuffers] else [])\<rparr>, st0)"
    using c(2,3) assms(4,5) st0 by (auto simp: loadDataFlatMt_def flat_check_def Let_def)
  have fin: "\<forall>(lbl, arr, ty) \<in> set (buffer_fields fl). hostbufs (loadDataFlatMt_done st r1) lbl = Some (TypedArr, arr)"
    if "\<forall>lbl \<in> set (bufferLabels data). arrays st lbl = Some (TypedArr, fst (the (map_of (buffer_fields fl) lbl)))" for st and r1 :: "'a runner"
    using that map_of_is_SomeI [OF dd] by (force simp: loadDataFlatMt_done_def loadDataFlatFinish_def c(2) getBuffers_fields)
  let ?r1 = "r\<lparr>tree_size := fl_tree_size fl, levels := fl_levels fl, tokens := fl_tokens fl, hostbufs := arrays st0,
        calls := calls r @ (if intoGPU then [AllocateClBuffers] else [])\<rparr>"
  have "tree_size ?r1 = fl_tree_size fl \<and> levels ?r1 = fl_levels fl \<and> tokens ?r1 = fl_tokens fl" by simp
  moreover have "k \<le> length (summary data) \<and>
       (k < length (summary data) \<longrightarrow> called st = 0 \<and>
          (\<exists>st'. pool_step (server W) out intoGPU True (length (summary data)) st st')) \<and>
       (k = length (summary data) \<longrightarrow> called st = 1 \<and>
          (\<forall>(lbl, arr, ty) \<in> set (buffer_fields fl). hostbufs (loadDataFlatMt_done st ?r1) lbl = Some (TypedArr, arr)))"
    if k: "(pool_step (server W) out intoGPU True (length (summary data)) ^^ k) st0 st" for k st
    by (intro conjI impI; (use run [OF k] in \<open>elim conjE\<close>)?; (rule fin)?; simp)
  ultimately show ?thesis using ld by (intro exI [of _ ?r1] exI [of _ st0]) blast
qed

text \<open>Witness: the arrays of a small runner; the layout field is not a buffer.\<close>

definition small_flattener :: "int flattener" where
  "small_flattener = \<lparr>fl_tree_size = 3, fl_levels = [\<lparr>start_idx = 0, llength = 1\<rparr>, \<lparr>start_idx = 1, llength = 2\<rparr>], fl_tokens = [''a''],
     fl_fields = [(''int_buffer_1'', [4, 0, 5], Some ''Int32Array''), (''fields'', [1], None),
       (''float_buffer_1'', [0, 0, 7], Some ''Float32Array'')]\<rparr>"

theorem compress_load_roundtrip_witness:
  "\<exists>W data r1 st0. compress ''t.json'' ''k.js'' ''sparseMT'' \<lparr>o_minBlockSize = Some 1, o_minFileSize = Some 2\<rparr> ''out.json'' small_flattener = Inr W \<and>
     (''out.json'', DigestFile data) \<in> set W \<and>
     loadDataFlatMt ''out.json'' [''Int32Array'', ''Float32Array''] data None False
       \<lparr>ignoreCL = True, tree_size = 0, levels = [], tokens = [], hostbufs = Map.empty, calls = []\<rparr> = Inr (r1, st0) \<and>
     tree_size r1 = 3 \<and> tokens r1 = [''a'']"
proof -
  let ?o = "\<lparr>o_minBlockSize = Some 1, o_minFileSize = Some 2\<rparr>"
  have "\<exists>W. compress ''t.json'' ''k.js'' ''sparseMT'' ?o ''out.json'' small_flattener = Inr W"
    unfolding compress_def Let_def useSparseMT_def by (auto split: if_split)
  then obtain W where W1: "compress ''t.json'' ''k.js'' ''sparseMT'' ?o ''out.json'' small_flattener = Inr W" by blast
  have "W \<noteq> []"
  proof
    assume "W = []"
    with W1 have "sp_files (split_buffers ''out.json'' (mt_buffers ?o small_flattener)) = []"
      by (simp add: compress_def Let_def split_of_mt split: if_splits)
    then have "numbered ''out.json'' 0 (chunk_list (mt_buffers ?o small_flattener)) = []" by (simp only: split_files)
    then have "chunk_list (mt_buffers ?o small_flattener) = []" by (rule numbered_empty)
    then show False
      by (simp add: mt_buffers_def buffer_fields_def small_flattener_def chunk_list_Cons deflateMT_hd)
  qed
  then obtain data where "(''out.json'', DigestFile data) \<in> set W" using compress_mt(1) [OF W1] by auto
  note W = W1 this
  have b: "buffer_fields small_flattener = [(''int_buffer_1'', [4, 0, 5], Some ''Int32Array''), (''float_buffer_1'', [0, 0, 7], Some ''Float32Array'')]"
    by (simp add: buffer_fields_def small_flattener_def)
  have h: "distinct (getBuffers small_flattener)" "getBuffers small_flattener \<noteq> []" "0 < fl_tree_size small_flattener"
    by (simp_all add: getBuffers_fields b) (simp add: small_flattener_def)
  have t: "\<forall>(lbl, arr, ty) \<in> set (buffer_fields small_flattener). \<exists>t. ty = Some t \<and> t \<in> set worker_types \<and>
      t \<in> set (getArrayConstructors [''Int32Array'', ''Float32Array''])"
    by (simp add: b worker_types_def getArrayConstructors_def)
  from compress_load_roundtrip [OF W h t, of None False
      "\<lparr>ignoreCL = True, tree_size = 0, levels = [], tokens = [], hostbufs = Map.empty, calls = []\<rparr>"] W
  show ?thesis by (auto simp: small_flattener_def)
qed

text \<open>Loading the plain arrays of the mode \<open>flat\<close>: an array has none of the fields the loader reads.\<close>

definition as_sparse :: "'a::zero encoded \<Rightarrow> 'a sparr" where
  "as_sparse e = (case e of Sparse sp \<Rightarrow> sp | _ \<Rightarrow> \<lparr>dense = [], zeros = None, len = None, optTypeName = None\<rparr>)"

definition flat_file_data :: "'a::zero flat_json \<Rightarrow> 'a flat_data" where
  "flat_file_data j = \<lparr>entries = map (\<lambda>(lbl, e). (lbl, as_sparse e)) (j_buffers j),
     d_tree_size = Some (j_tree_size j), d_levels = Some (j_levels j), d_tokens = Some (j_tokens j)\<rparr>"

lemma flat_mode_lost: "inflate hole (as_sparse (encode_buffer ''flat'' opts (arr, ty))) ctors = (PlainArr, [hole])"
  by (simp add: encode_buffer_def useSparseMT_def useSparse_def as_sparse_def inflate_def allocArray_def inflateChunk_def)

text \<open>
  C30.  A single file: what the mode \<open>sparse\<close> writes, \<open>loadDataFlat\<close> restores; what the mode \<open>flat\<close> writes it
  takes without complaint, and every buffer becomes a plain array of one missing value.
\<close>

theorem flat_file_modes:
  assumes "compress jp kp mode opts out fl = Inr [(out, FlatFile j)]"
    and "distinct (getBuffers fl)" and "(lbl, arr, Some ty) \<in> set (buffer_fields fl)" and "0 < fl_tree_size fl"
    and "ty \<in> set (getArrayConstructors window)" and "\<not> ignoreCL r"
  shows "\<exists>r'. loadDataFlat hole window (flat_file_data j) r = Inr r' \<and> tree_size r' = fl_tree_size fl \<and>
    (mode = ''sparse'' \<longrightarrow> hostbufs r' lbl = Some (TypedArr, arr)) \<and>
    (mode = ''flat'' \<longrightarrow> hostbufs r' lbl = Some (PlainArr, [hole]))"
proof -
  have j: "j = flatJSON mode opts fl"
    using assms(1) by (auto simp: compress_def Let_def split: if_splits)
  let ?e = "entries (flat_file_data j)"
  have names: "map fst ?e = getBuffers fl"
    by (simp add: flat_file_data_def j flatJSON_def getBuffers_fields o_def case_prod_beta)
  have b: "str_index ''_buffer_1'' lbl \<noteq> None" using assms(3) by (simp add: buffer_fields_def)
  have "lbl \<in> set (map fst ?e)" using assms(3) unfolding names by (force simp: getBuffers_fields)
  then have "getBufferNames ?e \<noteq> []" using b by (auto simp: getBufferNames_def filter_empty_conv)
  then have ck: "flat_check (ignoreCL r) (getBufferNames ?e) (d_tree_size (flat_file_data j)) (d_levels (flat_file_data j)) (d_tokens (flat_file_data j)) = None"
    using assms(4,6) by (simp add: flat_check_None flat_file_data_def j flatJSON_def)
  have dis: "distinct (map fst ?e)" using assms(2) by (simp add: names)
  have "(lbl, as_sparse (encode_buffer mode opts (arr, Some ty))) \<in> set ?e"
    using assms(3) by (force simp: flat_file_data_def j flatJSON_def)
  then have mo: "map_of ?e lbl = Some (as_sparse (encode_buffer mode opts (arr, Some ty)))" using dis by simp
  have sp: "inflate hole (as_sparse (encode_buffer ''sparse'' opts (arr, Some ty))) (getArrayConstructors window) = (TypedArr, arr)"
    using assms(5) by (simp add: encode_buffer_def useSparseMT_def useSparse_def as_sparse_def inflate_of_deflate)
  obtain r' where r': "loadDataFlat hole window (flat_file_data j) r = Inr r'" "tree_size r' = fl_tree_size fl"
    "hostbufs r' lbl = Some (inflate hole (as_sparse (encode_buffer mode opts (arr, Some ty))) (getArrayConstructors window))"
    using ck b by (auto simp: loadDataFlat_def Let_def loadDataFlatFinish_def inflate_entries_fields [OF dis] mo)
      (auto simp: flat_file_data_def j flatJSON_def)
  then show ?thesis using sp flat_mode_lost by auto
qed

theorem flat_file_modes_witness:
  "\<exists>j r'. compress ''t.json'' ''k.js'' ''flat'' \<lparr>o_minBlockSize = None, o_minFileSize = None\<rparr> ''out.json'' small_flattener = Inr [(''out.json'', FlatFile j)] \<and>
     loadDataFlat 0 [''Int32Array''] (flat_file_data j)
       \<lparr>ignoreCL = False, tree_size = 0, levels = [], tokens = [], hostbufs = Map.empty, calls = []\<rparr> = Inr r' \<and>
     hostbufs r' ''int_buffer_1'' = Some (PlainArr, [0])"
proof -
  let ?o = "\<lparr>o_minBlockSize = None, o_minFileSize = None\<rparr>"
  have c: "compress ''t.json'' ''k.js'' ''flat'' ?o ''out.json'' small_flattener = Inr [(''out.json'', FlatFile (flatJSON ''flat'' ?o small_flattener))]"
    by (simp add: compress_def Let_def useSparseMT_def)
  have b: "distinct (getBuffers small_flattener)" "(''int_buffer_1'', [4, 0, 5], Some ''Int32Array'') \<in> set (buffer_fields small_flattener)"
    "0 < fl_tree_size small_flattener" "''Int32Array'' \<in> set (getArrayConstructors [''Int32Array''])"
    by (simp_all add: getBuffers_fields buffer_fields_def small_flattener_def getArrayConstructors_def)
  from flat_file_modes [OF c b(1-4), of "\<lparr>ignoreCL = False, tree_size = 0, levels = [], tokens = [], hostbufs = Map.empty, calls = []\<rparr>" 0] c
  show ?thesis by auto
qed

end
