(* ===== verification/Facade.thy ===== *)
theory Facade
  imports GL FlatLoad
begin

text \<open>
  The object a page works with, \<open>main.js\<close>, and the parts of \<open>CLRunner.js\<close> it drives: setting up
  WebCL, loading the layout engine, loading data, laying out and rendering, the keyboard, and the
  asynchronous rendering with its lock.  The layout engine, which \<open>eval\<close> installs, is an argument:
  what its traversals and visits do to the runner, with the exception they end with, if any; so are
  the answers of WebCL and of the network.
\<close>

section \<open>Exceptions\<close>

text \<open>The state after a call, and the exception it ended with.\<close>

type_synonym 's js_outcome = "'s \<times> string option"

definition and_then :: "'s js_outcome \<Rightarrow> ('s \<Rightarrow> 's js_outcome) \<Rightarrow> 's js_outcome" where
  "and_then r f = (case r of (s, None) \<Rightarrow> f s | (s, Some e) \<Rightarrow> (s, Some e))"

lemma and_then_simps [simp]: "and_then (s, None) f = f s" "and_then (s, Some e) f = (s, Some e)"
  by (simp_all add: and_then_def)

section \<open>WebCL\<close>

text \<open>The devices of each platform, and whether the calls answer with an object.\<close>

record webcl =
  platform_devices :: "nat list"
  sharing_extension :: "bool option"
  gives_context :: bool
  gives_queue :: bool

text \<open>
  The constructor of \<open>CLRunner\<close>.  \<open>None\<close> is a browser that does not declare \<open>webcl\<close>, where reading
  it throws; \<open>Some None\<close> one that declares it without a value.
\<close>

definition cl_setup :: "webcl option option \<Rightarrow> string option" where
  "cl_setup w = (case w of
     None \<Rightarrow> Some ''ReferenceError''
   | Some None \<Rightarrow> Some ''WebCL does not appear to be supported in your browser''
   | Some (Some cl) \<Rightarrow>
       if platform_devices cl = [] then Some ''No platforms available''
       else if hd (platform_devices cl) = 0 then Some ''No devices available''
       else if sharing_extension cl = Some False
         then Some ''Could not create a shared CL/GL context using the WebCL extension system''
       else if \<not> gives_context cl then Some ''Could not create a shared WebCL context''
       else if \<not> gives_queue cl then Some ''Could not create a WebCL command queue''
       else None)"

section \<open>Pages\<close>

text \<open>
  What the source of a visualization installs in the runner.  \<open>async_defined\<close> says whether that includes
  \<open>_gen_runTraversalsAsync\<close>, and \<open>calls_back_after\<close> after which passes of an asynchronous render it
  runs the callback it is given; no engine of the repository defines the function, and their
  \<open>_gen_run_visit_4\<close> has no parameter for a callback.
\<close>

datatype async_pass = TraversalsAsync | RenderAsync

record 'a vis_engine =
  kernelSource :: "string list"
  gen_traversals :: "'a runner \<Rightarrow> 'a runner js_outcome"
  gen_visits :: "(nat option \<Rightarrow> 'a runner \<Rightarrow> 'a runner js_outcome) list"
  gen_size :: "'a runner \<Rightarrow> int"
  async_defined :: bool
  calls_back_after :: "async_pass set"

text \<open>What WebCL answers: whether a program builds and whether a vertex buffer can be shared.\<close>

record cl_env =
  kernelHeaders :: "string list"
  builds :: "string \<Rightarrow> bool"
  can_share :: "nat option \<Rightarrow> bool"

text \<open>
  \<open>acquired\<close> are the buffers WebCL holds, \<open>drawn\<close> the frames drawn, each with the renderer and the
  buffers held at that time.
\<close>

record 'a page =
  clr :: "'a runner"
  layout_engine :: "'a vis_engine option"
  program :: "string option"
  has_kernels :: bool
  glr :: glrunner
  clVBO :: "nat option"
  acquired :: "nat option list"
  drawn :: "(glrunner \<times> nat option list) list"
  canvas_resets :: nat
  has_data :: bool
  interactive :: bool
  console :: "string list"

definition log_error :: "string \<Rightarrow> 'a page \<Rightarrow> 'a page" where
  "log_error msg p = p\<lparr>console := console p @ [msg]\<rparr>"

text \<open>\<open>try { ... } catch (e) { console.error(...) }\<close>.\<close>

definition caught :: "'a page js_outcome \<Rightarrow> 'a page js_outcome" where
  "caught r = (case r of (p, None) \<Rightarrow> (p, None) | (p, Some e) \<Rightarrow> (log_error e p, None))"

definition on_clr :: "('a runner \<Rightarrow> 'a runner js_outcome) \<Rightarrow> 'a page \<Rightarrow> 'a page js_outcome" where
  "on_clr f p = (case f (clr p) of (r, e) \<Rightarrow> (p\<lparr>clr := r\<rparr>, e))"

definition readyToRender :: "'a page \<Rightarrow> bool" where
  "readyToRender p \<longleftrightarrow> True"

text \<open>A tree size of 0 is a runner without data: every tree has a node.\<close>

definition readyToLayout :: "'a page \<Rightarrow> bool" where
  "readyToLayout p \<longleftrightarrow> (ignoreCL (clr p) \<or> program p \<noteq> None) \<and> tree_size (clr p) \<noteq> 0"

definition readyToStart :: "'a page \<Rightarrow> bool" where
  "readyToStart p \<longleftrightarrow> readyToRender p \<and> readyToLayout p"

section \<open>Loading the layout engine\<close>

definition buildKernels :: "cl_env \<Rightarrow> string list \<Rightarrow> 'a page \<Rightarrow> 'a page js_outcome" where
  "buildKernels env src p =
     (if ignoreCL (clr p) then (p, Some ''Function only for CL-enabled use'')
      else let kernels = concat (kernelHeaders env) @ concat src;
               p1 = p\<lparr>program := Some kernels\<rparr>
           in if builds env kernels then (p1\<lparr>has_kernels := True\<rparr>, None)
              else (log_error ''Error loading WebCL kernels'' p1, None))"

definition loadLayoutEngine :: "cl_env \<Rightarrow> 'a vis_engine \<Rightarrow> 'a page \<Rightarrow> 'a page js_outcome" where
  "loadLayoutEngine env e p =
     (let p1 = p\<lparr>layout_engine := Some e\<rparr>
      in if ignoreCL (clr p1) then (p1, None) else buildKernels env (kernelSource e) p1)"

text \<open>The constructor: \<open>engine\<close> is what the visualization's source installs, \<open>None\<close> a failed request.\<close>

definition new_page :: "bool \<Rightarrow> real \<Rightarrow> real \<Rightarrow> 'a page" where
  "new_page ignore cw ch =
     \<lparr>clr = \<lparr>ignoreCL = ignore, tree_size = 0, levels = [], tokens = [], hostbufs = Map.empty, calls = []\<rparr>,
      layout_engine = None, program = None, has_kernels = False, glr = GLRunner cw ch, clVBO = None,
      acquired = [], drawn = [], canvas_resets = 0, has_data = False, interactive = False, console = []\<rparr>"

definition loadVisualization :: "cl_env \<Rightarrow> 'a vis_engine option \<Rightarrow> 'a page \<Rightarrow> 'a page js_outcome" where
  "loadVisualization env response p = (case response of None \<Rightarrow> (p, None) | Some e \<Rightarrow> loadLayoutEngine env e p)"

definition Superconductor :: "cl_env \<Rightarrow> webcl option option \<Rightarrow> bool \<Rightarrow> real \<Rightarrow> real \<Rightarrow> 'a vis_engine option
    \<Rightarrow> string + 'a page" where
  "Superconductor env w ignore cw ch response =
     (case if ignore then None else cl_setup w of
        Some e \<Rightarrow> Inl e
      | None \<Rightarrow> (case loadVisualization env response (new_page ignore cw ch) of
            (p, None) \<Rightarrow> Inr p
          | (p, Some e) \<Rightarrow> Inl e))"

section \<open>Layout and rendering\<close>

text \<open>The search for the render pass among the numbered visits.\<close>

function visit_search :: "nat \<Rightarrow> nat \<Rightarrow> nat \<Rightarrow> nat" where
  "visit_search n i cur = (if i < n then visit_search n (i + 1) i else cur)"
  by pat_completeness auto
termination by (relation "measure (\<lambda>(n, i, _). n - i)") auto

declare visit_search.simps [simp del]

definition render_pass :: "'a page \<Rightarrow> nat option \<Rightarrow> 'a runner \<Rightarrow> 'a runner js_outcome" where
  "render_pass p v r =
     (let vs = (case layout_engine p of None \<Rightarrow> [] | Some e \<Rightarrow> gen_visits e);
          i = visit_search (length vs) 1 0
      in if i < length vs then (vs ! i) v r else (r, Some ''TypeError''))"

definition engine_traversals :: "'a page \<Rightarrow> 'a runner \<Rightarrow> 'a runner js_outcome" where
  "engine_traversals p r = (case layout_engine p of None \<Rightarrow> (r, Some ''TypeError'') | Some e \<Rightarrow> gen_traversals e r)"

definition clr_runTraversals :: "'a page \<Rightarrow> 'a page js_outcome" where
  "clr_runTraversals p =
     (if ignoreCL (clr p) then (p, Some ''Function only for CL-enabled use'')
      else caught (on_clr (engine_traversals p) p))"

definition runRenderTraversal :: "'a page \<Rightarrow> 'a page js_outcome" where
  "runRenderTraversal p =
     (if ignoreCL (clr p) then on_clr (render_pass p None) p
      else caught (and_then (on_clr (render_pass p (clVBO p)) (p\<lparr>acquired := clVBO p # acquired p\<rparr>))
        (\<lambda>p. (p\<lparr>acquired := remove1 (clVBO p) (acquired p)\<rparr>, None))))"

text \<open>A buffer that cannot be shared leaves the old one in place.\<close>

definition setVBO :: "cl_env \<Rightarrow> nat option \<Rightarrow> 'a page \<Rightarrow> 'a page js_outcome" where
  "setVBO env glVBO p =
     (if ignoreCL (clr p) then (p, Some ''Function only for CL-enabled use'')
      else if can_share env glVBO then (p\<lparr>clVBO := glVBO\<rparr>, None)
      else (log_error ''Error creating a shared OpenCL buffer from a WebGL buffer'' p, None))"

definition resize_vbo :: "cl_env \<Rightarrow> 'a page \<Rightarrow> 'a page js_outcome" where
  "resize_vbo env p = (case layout_engine p of
     None \<Rightarrow> (p, Some ''TypeError'')
   | Some e \<Rightarrow> (case reallocateVBO (gen_size e (clr p)) (glr p) of
         Inl _ \<Rightarrow> (p, Some ''Error: GLRunner asked to reallocateVBO'')
       | Inr g \<Rightarrow> setVBO env (vbo g) (p\<lparr>glr := g\<rparr>)))"

definition layout :: "cl_env \<Rightarrow> 'a page \<Rightarrow> 'a page js_outcome" where
  "layout env p =
     (if \<not> readyToLayout p then (p, None)
      else and_then (and_then (clr_runTraversals p)
        (\<lambda>p. if ignoreCL (clr p) then (p, None) else resize_vbo env p)) runRenderTraversal)"

text \<open>A frame: the \<open>num_vertices\<close> vertices of the linked buffer.\<close>

definition renderFrame :: "'a page \<Rightarrow> 'a page" where
  "renderFrame p =
     (if \<not> readyToRender p then log_error ''not yet ready to render'' p
      else if ignoreCL (clr p) then p
      else p\<lparr>drawn := drawn p @ [(glr p, acquired p)]\<rparr>)"

definition layoutAndRender :: "cl_env \<Rightarrow> 'a page \<Rightarrow> 'a page js_outcome" where
  "layoutAndRender env p =
     (if ignoreCL (clr p)
      then and_then (on_clr (engine_traversals p) (p\<lparr>canvas_resets := canvas_resets p + 1\<rparr>)) runRenderTraversal
      else and_then (layout env p) (\<lambda>p. (renderFrame p, None)))"

definition setupInteraction :: "'a page \<Rightarrow> 'a page" where
  "setupInteraction p = p\<lparr>interactive := True\<rparr>"

definition startVisualization :: "cl_env \<Rightarrow> 'a page \<Rightarrow> 'a page js_outcome" where
  "startVisualization env p =
     (if \<not> readyToStart p then (p, None)
      else and_then (layoutAndRender env p) (\<lambda>p. (setupInteraction p, None)))"

section \<open>Keys\<close>

definition scroll_amount :: real where "scroll_amount = 1 / 10"

definition key_move :: "nat \<Rightarrow> vec3 option" where
  "key_move code =
     (if code = 187 then Some (0, 0, scroll_amount)
      else if code = 189 then Some (0, 0, - scroll_amount)
      else if code = 37 then Some (- scroll_amount, 0, 0)
      else if code = 39 then Some (scroll_amount, 0, 0)
      else if code = 38 then Some (0, scroll_amount, 0)
      else if code = 40 then Some (0, - scroll_amount, 0)
      else None)"

definition onkeydown :: "nat \<Rightarrow> 'a page \<Rightarrow> 'a page" where
  "onkeydown code p =
     (if \<not> interactive p then p
      else renderFrame (case key_move code of None \<Rightarrow> p | Some d \<Rightarrow> p\<lparr>glr := movePosition d (glr p)\<rparr>))"

section \<open>Loading data\<close>

text \<open>
  A failed request does nothing.  \<open>flatten\<close> is \<open>loadData\<close> of the runner (FlatTree), with the state it
  leaves when it throws; the value of a response comes from \<open>JSON.parse\<close> or else from \<open>eval\<close>.
\<close>

definition loaded_with :: "('a runner \<Rightarrow> 'a runner js_outcome) \<Rightarrow> 'a page \<Rightarrow> 'a page js_outcome" where
  "loaded_with f p = and_then (on_clr f p) (\<lambda>p. (p\<lparr>has_data := True\<rparr>, None))"

definition page_loadData :: "('j \<Rightarrow> 'a runner \<Rightarrow> 'a runner js_outcome) \<Rightarrow> (string \<Rightarrow> 'j option) \<Rightarrow> (string \<Rightarrow> 'j option)
    \<Rightarrow> string option \<Rightarrow> 'a page \<Rightarrow> 'a page js_outcome" where
  "page_loadData flatten json_parse js_eval response p = (case response of
     None \<Rightarrow> (log_error ''Empty response'' p, None)
   | Some txt \<Rightarrow> (case json_parse txt of
         Some j \<Rightarrow> loaded_with (flatten j) p
       | None \<Rightarrow> (case js_eval txt of
             Some j \<Rightarrow> loaded_with (flatten j) (log_error ''JSON parse err (trying eval instead)'' p)
           | None \<Rightarrow> (log_error ''eval failed'' (log_error ''JSON parse err (trying eval instead)'' p), Some ''eval failed''))))"

definition page_loadDataObj :: "('j \<Rightarrow> 'a runner \<Rightarrow> 'a runner js_outcome) \<Rightarrow> 'j \<Rightarrow> 'a page \<Rightarrow> 'a page js_outcome" where
  "page_loadDataObj flatten j p = loaded_with (flatten j) p"

text \<open>The flat loader checks its data before it changes the runner.\<close>

definition page_loadDataFlat :: "'a::zero \<Rightarrow> string list \<Rightarrow> 'a flat_data option \<Rightarrow> 'a page \<Rightarrow> 'a page js_outcome" where
  "page_loadDataFlat hole window response p = (case response of
     None \<Rightarrow> (p, None)
   | Some data \<Rightarrow> loaded_with (\<lambda>r. case loadDataFlat hole window data r of Inl e \<Rightarrow> (r, Some e) | Inr r' \<Rightarrow> (r', None)) p)"

text \<open>
  A split load, up to the start of the workers, and its callback.  The fields set before the digest
  turns out to lack the information on a buffer are not followed.
\<close>

definition page_loadDataFlatMt :: "string \<Rightarrow> string list \<Rightarrow> ('a::zero) digest_data option \<Rightarrow> nat option \<Rightarrow> nat option
    \<Rightarrow> 'a page \<Rightarrow> 'a page js_outcome \<times> 'a pool option" where
  "page_loadDataFlatMt url window response own_max optNumMaxWorkers p = (case response of
     None \<Rightarrow> ((p, None), None)
   | Some data \<Rightarrow>
       let mw = (case optNumMaxWorkers of None \<Rightarrow> own_max | Some n \<Rightarrow> if n = 0 then own_max else Some n)
       in case loadDataFlatMt url window data mw (\<not> ignoreCL (clr p)) (clr p) of
            Inl e \<Rightarrow> ((p, Some e), None)
          | Inr (r, pl) \<Rightarrow> ((p\<lparr>clr := r\<rparr>, None), Some pl))"

definition page_loadDataFlatMt_done :: "'a pool \<Rightarrow> 'a page \<Rightarrow> 'a page" where
  "page_loadDataFlatMt_done pl p = p\<lparr>clr := loadDataFlatMt_done pl (clr p), has_data := True\<rparr>"

section \<open>One frame\<close>

lemma visit_search_last: "i \<le> n \<Longrightarrow> visit_search n i (i - 1) = n - 1"
proof (induction "n - i" arbitrary: i)
  case 0
  then show ?case by (simp add: visit_search.simps)
next
  case (Suc k)
  then have "i < n" by simp
  then have "visit_search n i (i - 1) = visit_search n (i + 1) i" by (subst visit_search.simps) simp
  also have "\<dots> = n - 1" using Suc.hyps(1) [of "i + 1"] Suc.hyps(2) \<open>i < n\<close> by simp
  finally show ?case .
qed

lemma render_pass_last:
  "layout_engine p = Some e \<Longrightarrow> gen_visits e \<noteq> [] \<Longrightarrow> render_pass p v r = last (gen_visits e) v r"
  using visit_search_last [of 1 "length (gen_visits e)"]
  by (cases "gen_visits e") (auto simp: render_pass_def Let_def last_conv_nth)

lemma reallocateVBO_total: "0 < n \<Longrightarrow> \<exists>g'. reallocateVBO n g = Inr g'"
  by (auto simp: reallocateVBO_def Let_def)

lemma reallocateVBO_vbo: "vbo_inv g \<Longrightarrow> reallocateVBO n g = Inr g' \<Longrightarrow> \<exists>v. vbo g' = Some v"
  using reallocateVBO_inv [of g n g'] reallocateVBO_num [of n g g']
  by (cases "vbo g'") (auto simp: vbo_inv_def reallocateVBO_def split: if_splits)

lemmas page_defs = and_then_def caught_def on_clr_def log_error_def

lemma start_run:
  assumes "readyToStart p" and "\<not> ignoreCL (clr p)" and "layout_engine p = Some e" and "vbo_inv (glr p)"
    and "acquired p = []" and "\<And>v. can_share env v"
    and "gen_traversals e (clr p) = (r1, None)" and "\<not> ignoreCL r1" and "0 < gen_size e r1"
    and "gen_visits e \<noteq> []" and "\<And>v. last (gen_visits e) v r1 = (r2 v, None)" and "\<And>v. \<not> ignoreCL (r2 v)"
  shows "\<exists>p' g v. startVisualization env p = (p', None) \<and> drawn p' = drawn p @ [(g, [])] \<and>
    vbo g = Some v \<and> clVBO p' = Some v \<and> clr p' = r2 (Some v) \<and>
    num_vertices g = nat (gen_size e r1) \<and> draw_in_bounds g \<and> acquired p' = [] \<and> interactive p'"
proof -
  from reallocateVBO_total [OF assms(9)] obtain g where g: "reallocateVBO (gen_size e r1) (glr p) = Inr g" by blast
  from reallocateVBO_vbo [OF assms(4) g] obtain v where v: "vbo g = Some v" by blast
  have ready: "readyToLayout p" using assms(1) by (simp add: readyToStart_def)
  have t: "clr_runTraversals p = (p\<lparr>clr := r1\<rparr>, None)"
    using assms(2,3,7) by (simp add: clr_runTraversals_def engine_traversals_def page_defs)
  let ?p2 = "p\<lparr>clr := r1, glr := g, clVBO := Some v\<rparr>"
  have z: "resize_vbo env (p\<lparr>clr := r1\<rparr>) = (?p2, None)"
    using assms(3,6,8) g v by (simp add: resize_vbo_def setVBO_def)
  have rp: "render_pass (q\<lparr>clr := c, glr := gg, clVBO := x\<rparr>) w r1 = (r2 w, None)" if "layout_engine q = Some e" for q c gg x w
    using render_pass_last [of "q\<lparr>clr := c, glr := gg, clVBO := x\<rparr>" e w r1] assms(10,11) that by simp
  have rr: "runRenderTraversal ?p2 = (?p2\<lparr>clr := r2 (Some v)\<rparr>, None)"
    using assms(3,5,8) rp [OF assms(3)] by (simp add: runRenderTraversal_def page_defs)
  have "layoutAndRender env p = (renderFrame (?p2\<lparr>clr := r2 (Some v)\<rparr>), None)"
    using assms(2,8) ready by (simp add: layoutAndRender_def layout_def t z rr)
  then have "startVisualization env p = (setupInteraction (renderFrame (?p2\<lparr>clr := r2 (Some v)\<rparr>)), None)"
    using assms(1) by (simp add: startVisualization_def)
  moreover have "draw_in_bounds g" using reallocateVBO_inv [OF assms(4) g] by (rule vbo_inv_draw)
  ultimately show ?thesis
    using assms(5,12) v reallocateVBO_num [OF g]
    by (simp add: setupInteraction_def renderFrame_def readyToRender_def)
qed

text \<open>
  C7.  Starting a page: when the data and the kernels are loaded, the traversals and the render pass do not
  throw and the layout asks for at least one vertex, the render pass runs once, after the
  traversals, on exactly the vertex buffer that is then drawn; the frame has the number of vertices
  the traversals computed and lies inside the buffer, WebCL has released it, and the keys are set up.
\<close>

theorem start_draws_layout:
  assumes "readyToStart p" and "\<not> ignoreCL (clr p)" and "layout_engine p = Some e" and "vbo_inv (glr p)"
    and "acquired p = []" and "\<And>v. can_share env v"
    and "gen_traversals e (clr p) = (r1, None)" and "\<not> ignoreCL r1" and "0 < gen_size e r1"
    and "gen_visits e \<noteq> []" and "\<And>v. last (gen_visits e) v r1 = (r2 v, None)" and "\<And>v. \<not> ignoreCL (r2 v)"
  shows "\<exists>p' g v. startVisualization env p = (p', None) \<and> drawn p' = drawn p @ [(g, [])] \<and>
    vbo g = Some v \<and> clVBO p' = Some v \<and> clr p' = r2 (Some v) \<and>
    num_vertices g = nat (gen_size e r1) \<and> draw_in_bounds g \<and> acquired p' = [] \<and> interactive p'"
  using assms by (rule start_run)

text \<open>Witness: an engine of one traversal and two visits, of which the last is the render pass.\<close>

definition demo_engine :: "int vis_engine" where
  "demo_engine = \<lparr>kernelSource = [''k''], gen_traversals = (\<lambda>r. (r\<lparr>tokens := [''laid out'']\<rparr>, None)),
     gen_visits = [\<lambda>_ r. (r, Some ''TypeError''), \<lambda>_ r. (r\<lparr>tokens := tokens r @ [''rendered'']\<rparr>, None)], gen_size = (\<lambda>_. 4),
     async_defined = True, calls_back_after = {TraversalsAsync, RenderAsync}\<rparr>"

definition demo_env :: cl_env where
  "demo_env = \<lparr>kernelHeaders = [''h''], builds = (\<lambda>_. True), can_share = (\<lambda>_. True)\<rparr>"

definition demo_page :: "int page" where
  "demo_page = (new_page False 800 600)\<lparr>layout_engine := Some demo_engine, program := Some ''hk'', has_kernels := True, has_data := True,
     clr := \<lparr>ignoreCL = False, tree_size = 3, levels = [], tokens = [], hostbufs = Map.empty, calls = []\<rparr>\<rparr>"

definition laid_out :: "int runner" where
  "laid_out = (clr demo_page)\<lparr>tokens := [''laid out'']\<rparr>"

lemma demo_hyps:
  "readyToStart demo_page" "\<not> ignoreCL (clr demo_page)" "layout_engine demo_page = Some demo_engine"
  "vbo_inv (glr demo_page)" "acquired demo_page = []" "can_share demo_env v"
  "gen_traversals demo_engine (clr demo_page) = (laid_out, None)" "\<not> ignoreCL laid_out" "0 < gen_size demo_engine laid_out"
  "gen_visits demo_engine \<noteq> []" "last (gen_visits demo_engine) v laid_out = (laid_out\<lparr>tokens := [''laid out'', ''rendered'']\<rparr>, None)"
  "\<not> ignoreCL (laid_out\<lparr>tokens := [''laid out'', ''rendered'']\<rparr>)"
  by (simp_all add: laid_out_def readyToStart_def readyToRender_def readyToLayout_def demo_page_def new_page_def demo_engine_def
      demo_env_def GLRunner_inv)

theorem start_draws_layout_witness:
  "\<exists>p' g. startVisualization demo_env demo_page = (p', None) \<and> drawn p' = [(g, [])] \<and> num_vertices g = 4 \<and>
     tokens (clr p') = [''laid out'', ''rendered''] \<and> draw_in_bounds g"
  using start_draws_layout [OF demo_hyps] by (auto simp: demo_page_def new_page_def demo_engine_def)

lemma demo_run: "\<exists>p' g. startVisualization demo_env demo_page = (p', None) \<and> drawn p' = [(g, [])] \<and> num_vertices g = 4"
  using start_run [OF demo_hyps] by (auto simp: demo_page_def new_page_def demo_engine_def)

section \<open>Sessions\<close>

text \<open>
  What happens to a page.  \<open>Load\<close> is a load of any kind that runs at once, by what it does to the
  runner.  On a page without WebCL only the position of the renderer is in use.
\<close>

datatype 'a page_event =
    Start
  | Relayout
  | Press nat
  | Load "'a runner \<Rightarrow> 'a runner js_outcome"
  | SplitLoad string "string list" "'a digest_data option" "nat option" "nat option"
  | SplitDone "'a pool"

fun page_apply :: "cl_env \<Rightarrow> ('a::zero) page_event \<Rightarrow> 'a page \<Rightarrow> 'a page" where
  "page_apply env Start p = fst (startVisualization env p)"
| "page_apply env Relayout p = fst (layoutAndRender env p)"
| "page_apply env (Press code) p = onkeydown code p"
| "page_apply env (Load f) p = fst (loaded_with f p)"
| "page_apply env (SplitLoad url window response own mw) p = fst (fst (page_loadDataFlatMt url window response own mw p))"
| "page_apply env (SplitDone pl) p = page_loadDataFlatMt_done pl p"

inductive page_reach :: "cl_env \<Rightarrow> ('a::zero) page \<Rightarrow> bool" for env where
  create: "Superconductor env w ignore cw ch response = Inr p \<Longrightarrow> page_reach env p"
| event: "page_reach env p \<Longrightarrow> page_reach env (page_apply env ev p)"

text \<open>The visits of the engine do not throw, and there is one.\<close>

definition visits_safe :: "'a page \<Rightarrow> bool" where
  "visits_safe p \<longleftrightarrow> (\<forall>e. layout_engine p = Some e \<longrightarrow> gen_visits e \<noteq> [] \<and> (\<forall>v \<in> set (gen_visits e). \<forall>b r. snd (v b r) = None))"

definition page_inv :: "'a page \<Rightarrow> bool" where
  "page_inv p \<longleftrightarrow> gl_reachable (glr p) \<and> (\<forall>f \<in> set (drawn p). gl_reachable (fst f)) \<and>
     (program p \<noteq> None \<longrightarrow> layout_engine p \<noteq> None) \<and>
     (visits_safe p \<longrightarrow> acquired p = [] \<and> (\<forall>f \<in> set (drawn p). snd f = []))"

text \<open>What a step that neither draws nor touches the vertex buffer leaves alone.\<close>

definition same_view :: "'a page \<Rightarrow> 'a page \<Rightarrow> bool" where
  "same_view p q \<longleftrightarrow> glr q = glr p \<and> drawn q = drawn p \<and> program q = program p \<and> layout_engine q = layout_engine p \<and> acquired q = acquired p"

lemma same_view_inv: "page_inv p \<Longrightarrow> same_view p q \<Longrightarrow> page_inv q"
  by (simp add: page_inv_def same_view_def visits_safe_def)

lemma same_view_refl [simp]: "same_view p p"
  by (simp add: same_view_def)

lemma same_view_runTraversals: "same_view p (fst (clr_runTraversals p))"
  by (auto simp: clr_runTraversals_def same_view_def page_defs split: prod.split option.split)

lemma same_view_updates [simp]:
  "same_view p (p\<lparr>clr := r\<rparr>)" "same_view p (p\<lparr>clr := r, has_data := b\<rparr>)" "same_view p (setupInteraction p)"
  "same_view p (log_error m p)" "same_view p (p\<lparr>canvas_resets := n\<rparr>)" "same_view p (p\<lparr>clVBO := c\<rparr>)"
  by (simp_all add: same_view_def setupInteraction_def log_error_def)

lemma and_then_inv:
  "(\<And>s. page_inv (fst r) \<Longrightarrow> r = (s, None) \<Longrightarrow> page_inv (fst (f s))) \<Longrightarrow> page_inv (fst r) \<Longrightarrow> page_inv (fst (and_then r f))"
  by (cases r; cases "snd r") (auto simp: and_then_def)

lemma on_clr_inv: "page_inv p \<Longrightarrow> page_inv (fst (on_clr f p))"
  by (auto simp: on_clr_def split: prod.split intro: same_view_inv)

lemma visit_search_less: "0 < n \<Longrightarrow> visit_search n 1 0 < n"
  using visit_search_last [of 1 n] by simp

lemma render_pass_safe: "visits_safe p \<Longrightarrow> layout_engine p \<noteq> None \<Longrightarrow> snd (render_pass p b r) = None"
  by (auto simp: visits_safe_def render_pass_def Let_def visit_search_less [unfolded One_nat_def])

lemma runRenderTraversal_inv:
  assumes "page_inv p" and "layout_engine p \<noteq> None \<or> ignoreCL (clr p)"
  shows "page_inv (fst (runRenderTraversal p))"
proof (cases "ignoreCL (clr p)")
  case True
  then show ?thesis using on_clr_inv [OF assms(1)] by (simp add: runRenderTraversal_def)
next
  case False
  obtain r x where r: "render_pass p (clVBO p) (clr p) = (r, x)" by fastforce
  have rp: "render_pass (p\<lparr>acquired := a\<rparr>) = render_pass p" for a by (intro ext) (simp add: render_pass_def)
  let ?acq = "if x = None then acquired p else clVBO p # acquired p"
  have "\<exists>c. fst (runRenderTraversal p) = p\<lparr>clr := r, acquired := ?acq, console := c\<rparr>"
  proof (cases x)
    case None
    with False r show ?thesis by (intro exI [of _ "console p"]) (simp add: runRenderTraversal_def page_defs rp)
  next
    case (Some a)
    with False r show ?thesis by (intro exI [of _ "console p @ [a]"]) (simp add: runRenderTraversal_def page_defs rp)
  qed
  then obtain c where f: "fst (runRenderTraversal p) = p\<lparr>clr := r, acquired := ?acq, console := c\<rparr>" by blast
  have "x = None" if "visits_safe p" using render_pass_safe [OF that, of "clVBO p" "clr p"] assms(2) False r by auto
  then show ?thesis using assms(1) unfolding f by (simp add: page_inv_def visits_safe_def)
qed

lemma resize_vbo_inv: "page_inv p \<Longrightarrow> page_inv (fst (resize_vbo env p))"
proof -
  assume i: "page_inv p"
  have k: "page_inv (p\<lparr>glr := g\<rparr>)" if "reallocateVBO n (glr p) = Inr g" for n g
  proof -
    have "gl_reachable g" using i that gl_reachable.call [of "glr p" "ReallocateVBO n" g] by (simp add: page_inv_def)
    with i show ?thesis by (simp add: page_inv_def visits_safe_def)
  qed
  show ?thesis
    using i by (auto simp: resize_vbo_def setVBO_def split: option.split sum.split
        intro: same_view_inv [OF k same_view_updates(6)] same_view_inv [OF k same_view_updates(4)] k)
qed

lemma layout_engine_keeps:
  "layout_engine (fst (clr_runTraversals p)) = layout_engine p" "layout_engine (fst (resize_vbo env p)) = layout_engine p"
  by (auto simp: clr_runTraversals_def resize_vbo_def setVBO_def page_defs split: prod.split option.split sum.split)

lemma fst_and_then: "fst (and_then r f) = (if snd r = None then fst (f (fst r)) else fst r)"
  by (cases r; cases "snd r") (auto simp: and_then_def)

lemma snd_and_then: "snd (and_then r f) = (if snd r = None then snd (f (fst r)) else snd r)"
  by (cases r; cases "snd r") (auto simp: and_then_def)

lemma layout_inv: "page_inv p \<Longrightarrow> page_inv (fst (layout env p))"
proof -
  assume i: "page_inv p"
  show ?thesis
  proof (cases "readyToLayout p")
    case True
    let ?t = "fst (clr_runTraversals p)"
    let ?z = "if ignoreCL (clr ?t) then (?t, None) else resize_vbo env ?t"
    have t: "page_inv ?t" by (rule same_view_inv [OF i same_view_runTraversals])
    have z: "page_inv (fst ?z)" using resize_vbo_inv [OF t] t by simp
    have e: "layout_engine (fst ?z) \<noteq> None \<or> ignoreCL (clr (fst ?z))" if "snd (clr_runTraversals p) = None"
    proof -
      have "\<not> ignoreCL (clr p)" using that by (auto simp: clr_runTraversals_def)
      then have "layout_engine p \<noteq> None" using True i by (auto simp: readyToLayout_def page_inv_def)
      then show ?thesis by (simp add: layout_engine_keeps)
    qed
    show ?thesis
      using True t z runRenderTraversal_inv [OF z] e by (auto simp: layout_def fst_and_then snd_and_then)
  next
    case False
    with i show ?thesis by (simp add: layout_def)
  qed
qed

lemma renderFrame_inv: "page_inv p \<Longrightarrow> page_inv (renderFrame p)"
  by (auto simp: renderFrame_def readyToRender_def page_inv_def visits_safe_def)

lemma layoutAndRender_inv: "page_inv p \<Longrightarrow> page_inv (fst (layoutAndRender env p))"
proof -
  assume i: "page_inv p"
  let ?p1 = "p\<lparr>canvas_resets := canvas_resets p + 1\<rparr>"
  have p1: "page_inv ?p1" by (rule same_view_inv [OF i]) simp
  let ?r = "on_clr (engine_traversals p) ?p1"
  have r: "page_inv (fst ?r)" by (rule on_clr_inv [OF p1])
  have "page_inv (fst (runRenderTraversal (fst ?r)))" if "snd ?r = None"
  proof -
    have "layout_engine (fst ?r) \<noteq> None"
      using that by (auto simp: on_clr_def engine_traversals_def split: prod.splits option.splits)
    then show ?thesis using runRenderTraversal_inv [OF r] by blast
  qed
  then show ?thesis
    using r layout_inv [OF i, of env] renderFrame_inv by (auto simp: layoutAndRender_def fst_and_then)
qed

lemma onkeydown_inv: "page_inv p \<Longrightarrow> page_inv (onkeydown code p)"
proof -
  assume i: "page_inv p"
  have "page_inv (p\<lparr>glr := movePosition d (glr p)\<rparr>)" for d
  proof -
    have "gl_reachable (movePosition d (glr p))"
      using i gl_reachable.call [of "glr p" "MovePosition d"] by (simp add: page_inv_def)
    with i show ?thesis by (simp add: page_inv_def visits_safe_def)
  qed
  with i show ?thesis by (auto simp: onkeydown_def intro: renderFrame_inv split: option.split)
qed

lemma create_inv:
  assumes "Superconductor env w ignore cw ch response = Inr p"
  shows "page_inv p"
proof -
  have n: "page_inv ((new_page ignore cw ch)\<lparr>layout_engine := le, program := pr, has_kernels := k, console := c\<rparr>)"
    if "pr \<noteq> None \<longrightarrow> le \<noteq> None" for le pr k c
    using that by (auto simp: page_inv_def new_page_def intro: gl_reachable.start)
  have "\<exists>le pr k c. p = (new_page ignore cw ch)\<lparr>layout_engine := le, program := pr, has_kernels := k, console := c\<rparr> \<and> (pr \<noteq> None \<longrightarrow> le \<noteq> None)"
    using assms
    by (auto simp: Superconductor_def loadVisualization_def loadLayoutEngine_def buildKernels_def Let_def log_error_def
        new_page_def split: option.splits prod.splits if_splits)
  then show ?thesis using n by blast
qed

lemma page_apply_inv: "page_inv p \<Longrightarrow> page_inv (page_apply env ev p)"
proof (cases ev)
  case Start
  assume i: "page_inv p"
  from layoutAndRender_inv [OF i, of env] show ?thesis
    using i by (auto simp: Start startVisualization_def fst_and_then intro: same_view_inv)
next
  case (SplitLoad url window response own mw)
  assume i: "page_inv p"
  have "same_view p (fst (fst (page_loadDataFlatMt url window response own mw p)))"
    by (auto simp: page_loadDataFlatMt_def Let_def split: option.split sum.split prod.split)
  with i show ?thesis unfolding SplitLoad page_apply.simps by (rule same_view_inv)
next
  case (Load f)
  assume i: "page_inv p"
  have "same_view p (fst (loaded_with f p))"
    by (auto simp: loaded_with_def fst_and_then on_clr_def same_view_def split: prod.split)
  with i show ?thesis unfolding Load page_apply.simps by (rule same_view_inv)
qed (auto simp: page_loadDataFlatMt_done_def
    intro: layoutAndRender_inv onkeydown_inv same_view_inv)

lemma page_reach_inv: "page_reach env p \<Longrightarrow> page_inv p"
  by (induction rule: page_reach.induct) (auto intro: create_inv page_apply_inv)

text \<open>
  C5.  Whatever happens to a page, with whatever engine and data, every frame it draws reads its
  vertices inside the buffer it draws from, with uniforms that match the position; and if the
  visits of the engine do not throw, WebCL holds no buffer while a frame is drawn.
\<close>

theorem session_frames:
  assumes "page_reach env p" and "(g, held) \<in> set (drawn p)"
  shows "draw_in_bounds g \<and> uniforms_inv g \<and> (visits_safe p \<longrightarrow> held = [])"
  using page_reach_inv [OF assms(1)] assms(2) gl_reachable_inv vbo_inv_draw gl_reachable_uniforms
  by (fastforce simp: page_inv_def)

definition demo_cl :: webcl where
  "demo_cl = \<lparr>platform_devices = [1], sharing_extension = None, gives_context = True, gives_queue = True\<rparr>"

lemma demo_reach: "page_reach demo_env demo_page"
proof -
  have c: "Superconductor demo_env (Some (Some demo_cl)) False 800 600 (Some demo_engine) =
      Inr ((new_page False 800 600)\<lparr>layout_engine := Some demo_engine, program := Some ''hk'', has_kernels := True\<rparr>)"
    by (simp add: Superconductor_def cl_setup_def demo_cl_def loadVisualization_def loadLayoutEngine_def buildKernels_def
        new_page_def demo_env_def demo_engine_def Let_def)
  have "page_apply demo_env (Load (\<lambda>r. (r\<lparr>tree_size := 3\<rparr>, None)))
      ((new_page False 800 600)\<lparr>layout_engine := Some demo_engine, program := Some ''hk'', has_kernels := True\<rparr>) = demo_page"
    by (simp add: loaded_with_def on_clr_def demo_page_def new_page_def)
  with page_reach.event [OF page_reach.create [OF c]] show ?thesis by metis
qed

theorem session_frames_witness:
  "\<exists>p g. page_reach demo_env (p :: int page) \<and> drawn p = [(g, [])] \<and> num_vertices g = 4 \<and> draw_in_bounds g \<and> uniforms_inv g"
proof -
  obtain p' g where s: "startVisualization demo_env demo_page = (p', None)" "drawn p' = [(g, [])]" "num_vertices g = 4"
    using demo_run by blast
  then have r: "page_reach demo_env p'" using page_reach.event [OF demo_reach, of Start] by simp
  from session_frames [OF r, of g "[]"] s r show ?thesis by auto
qed

section \<open>Asynchronous rendering\<close>

text \<open>
  \<open>layoutAsync\<close>, of the device: without data it returns and calls nothing back, else it throws, for
  no file defines \<open>runTraversalsAsync\<close>.
\<close>

definition layoutAsync :: "'a page \<Rightarrow> string option" where
  "layoutAsync p = (if \<not> readyToLayout p then None else Some ''TypeError'')"

text \<open>
  The requests, by their callbacks: the ones waiting for a timer, the one in flight with the pass it is
  in, and the ones called back.
\<close>

record 'q async =
  outstandingRender :: bool
  timers :: "'q list"
  in_flight :: "('q \<times> async_pass) option"
  called_back :: "'q list"
  async_resets :: nat

definition async_start :: "'q async" where
  "async_start = \<lparr>outstandingRender = False, timers = [], in_flight = None, called_back = [], async_resets = 0\<rparr>"

definition async_engine :: "'a page \<Rightarrow> bool" where
  "async_engine p = (case layout_engine p of None \<Rightarrow> False | Some e \<Rightarrow> async_defined e)"

text \<open>Without any visit the last pass does not exist and the call of it throws.\<close>

definition returns_after :: "async_pass \<Rightarrow> 'a page \<Rightarrow> bool" where
  "returns_after ps p = (case layout_engine p of
     None \<Rightarrow> False
   | Some e \<Rightarrow> ps \<in> calls_back_after e \<and> (ps = TraversalsAsync \<or> gen_visits e \<noteq> []))"

definition layoutAndRenderAsync :: "'a page \<Rightarrow> 'q \<Rightarrow> 'q async \<Rightarrow> 'q async js_outcome" where
  "layoutAndRenderAsync p cb s =
     (if outstandingRender s then (s\<lparr>timers := timers s @ [cb]\<rparr>, None)
      else let s1 = s\<lparr>outstandingRender := True\<rparr>
           in if ignoreCL (clr p)
              then let s2 = s1\<lparr>async_resets := async_resets s1 + 1\<rparr>
                   in if async_engine p then (s2\<lparr>in_flight := Some (cb, TraversalsAsync)\<rparr>, None)
                      else (s2, Some ''TypeError'')
              else (s1, layoutAsync p))"

definition finish :: "'q \<Rightarrow> 'q async \<Rightarrow> 'q async" where
  "finish cb s = s\<lparr>outstandingRender := False, in_flight := None, called_back := called_back s @ [cb]\<rparr>"

text \<open>
  A step takes a new request, runs one of the timers, or is the callback of the engine, if it has one,
  after its traversals or after the render pass.
\<close>

inductive async_step :: "'a page \<Rightarrow> 'q option \<Rightarrow> 'q async \<Rightarrow> 'q async \<Rightarrow> bool" for p where
  request: "async_step p (Some cb) s (fst (layoutAndRenderAsync p cb s))"
| timer: "timers s = us @ cb # vs \<Longrightarrow>
    async_step p None s (fst (layoutAndRenderAsync p cb (s\<lparr>timers := us @ vs\<rparr>)))"
| traversed: "in_flight s = Some (cb, TraversalsAsync) \<Longrightarrow> returns_after TraversalsAsync p \<Longrightarrow>
    async_step p None s (s\<lparr>in_flight := Some (cb, RenderAsync)\<rparr>)"
| rendered: "in_flight s = Some (cb, RenderAsync) \<Longrightarrow> returns_after RenderAsync p \<Longrightarrow> async_step p None s (finish cb s)"

inductive async_run :: "'a page \<Rightarrow> 'q list \<Rightarrow> 'q async \<Rightarrow> bool" for p where
  start: "async_run p [] async_start"
| step: "async_run p qs s \<Longrightarrow> async_step p l s s' \<Longrightarrow>
    async_run p (qs @ (case l of None \<Rightarrow> [] | Some q \<Rightarrow> [q])) s'"

definition flying :: "'q async \<Rightarrow> 'q list" where
  "flying s = (case in_flight s of None \<Rightarrow> [] | Some (q, _) \<Rightarrow> [q])"

definition async_inv :: "'q list \<Rightarrow> 'q async \<Rightarrow> bool" where
  "async_inv qs s \<longleftrightarrow> mset qs = mset (timers s) + mset (flying s) + mset (called_back s) \<and>
     (outstandingRender s \<longleftrightarrow> flying s \<noteq> []) \<and> async_resets s = length (called_back s) + length (flying s)"

text \<open>An engine that serves requests: it has the function and calls back after both passes.\<close>

definition serves :: "'a page \<Rightarrow> bool" where
  "serves p \<longleftrightarrow> async_engine p \<and> returns_after TraversalsAsync p \<and> returns_after RenderAsync p"

lemmas async_defs = layoutAndRenderAsync_def layoutAsync_def finish_def flying_def async_start_def Let_def

lemma async_step_inv:
  assumes "async_step p l s s'" and "ignoreCL (clr p)" and "serves p" and "async_inv qs s"
  shows "async_inv (qs @ (case l of None \<Rightarrow> [] | Some q \<Rightarrow> [q])) s'"
  using assms by (cases rule: async_step.cases) (auto simp: async_inv_def async_defs serves_def split: option.splits)

lemma async_run_inv: "async_run p qs s \<Longrightarrow> ignoreCL (clr p) \<Longrightarrow> serves p \<Longrightarrow> async_inv qs s"
proof (induction rule: async_run.induct)
  case start
  show ?case by (simp add: async_inv_def async_defs)
next
  case (step qs s l s')
  then show ?case using async_step_inv by blast
qed

text \<open>Two steps end the request in flight.\<close>

lemma async_land:
  assumes "in_flight s = Some (q, ph)" and "serves p"
  shows "(async_step p None)\<^sup>*\<^sup>* s (finish q s)"
proof -
  have r: "(async_step p None)\<^sup>*\<^sup>* t (finish q t)" if "in_flight t = Some (q, RenderAsync)" for t
    using async_step.rendered [OF that] assms(2) by (auto simp: serves_def)
  show ?thesis
  proof (cases ph)
    case TraversalsAsync
    then have "async_step p None s (s\<lparr>in_flight := Some (q, RenderAsync)\<rparr>)"
      using assms by (auto simp: serves_def intro: async_step.traversed)
    moreover have "finish q (s\<lparr>in_flight := Some (q, RenderAsync)\<rparr>) = finish q s" by (simp add: finish_def)
    ultimately show ?thesis using r [of "s\<lparr>in_flight := Some (q, RenderAsync)\<rparr>"]
      by (metis (no_types, lifting) async.select_convs(3) async.surjective async.update_convs(3) converse_rtranclp_into_rtranclp)
  next
    case RenderAsync
    then show ?thesis using r [of s] assms by simp
  qed
qed

lemma async_drain:
  assumes "ignoreCL (clr p)" and "serves p" and "in_flight s = None" and "\<not> outstandingRender s"
  shows "\<exists>s'. (async_step p None)\<^sup>*\<^sup>* s s' \<and> timers s' = [] \<and> in_flight s' = None \<and> called_back s' = called_back s @ timers s"
  using assms(3,4)
proof (induction "timers s" arbitrary: s)
  case Nil
  then show ?case by (intro exI [of _ s]) simp
next
  case (Cons q ts)
  let ?t = "fst (layoutAndRenderAsync p q (s\<lparr>timers := [] @ ts\<rparr>))"
  have st: "async_step p None s ?t" by (rule async_step.timer) (simp add: Cons.hyps(2) [symmetric])
  have f: "in_flight ?t = Some (q, TraversalsAsync)" "timers ?t = ts" "called_back ?t = called_back s"
    using Cons.prems assms(1,2) by (simp_all add: async_defs serves_def)
  have "ts = timers (finish q ?t)" "in_flight (finish q ?t) = None" "\<not> outstandingRender (finish q ?t)"
    using f by (simp_all add: finish_def)
  from Cons.hyps(1) [OF this] obtain s' where s': "(async_step p None)\<^sup>*\<^sup>* (finish q ?t) s'" "timers s' = []"
    "in_flight s' = None" "called_back s' = called_back (finish q ?t) @ timers (finish q ?t)" by blast
  have "(async_step p None)\<^sup>*\<^sup>* s s'"
    using st async_land [OF f(1) assms(2)] s'(1) by (meson converse_rtranclp_into_rtranclp rtranclp_trans)
  then show ?case using s'(2-4) f Cons.hyps(2) by (intro exI [of _ s']) (simp add: finish_def)
qed

lemma async_served:
  assumes "async_run p qs s" and "ignoreCL (clr p)" and "serves p"
  shows "mset qs = mset (timers s) + mset (flying s) + mset (called_back s) \<and> length (flying s) \<le> 1 \<and>
    async_resets s = length (called_back s) + length (flying s) \<and>
    (\<exists>s'. (async_step p None)\<^sup>*\<^sup>* s s' \<and> timers s' = [] \<and> flying s' = [] \<and>
       called_back s' = called_back s @ flying s @ timers s)"
proof -
  from async_run_inv [OF assms] have i: "async_inv qs s" .
  have "\<exists>s'. (async_step p None)\<^sup>*\<^sup>* s s' \<and> timers s' = [] \<and> flying s' = [] \<and>
      called_back s' = called_back s @ flying s @ timers s"
  proof (cases "in_flight s")
    case None
    with i async_drain [OF assms(2,3) None] show ?thesis by (auto simp: async_inv_def flying_def)
  next
    case (Some f)
    then obtain q ph where f: "in_flight s = Some (q, ph)" by (cases f) auto
    from async_drain [OF assms(2,3), of "finish q s"] obtain s' where "(async_step p None)\<^sup>*\<^sup>* (finish q s) s'"
      "timers s' = []" "in_flight s' = None" "called_back s' = called_back (finish q s) @ timers (finish q s)"
      by (auto simp: finish_def)
    with async_land [OF f assms(3)] show ?thesis
      by (intro exI [of _ s']) (auto simp: f flying_def finish_def)
  qed
  moreover have "length (flying s) \<le> 1" by (simp add: flying_def split: option.split prod.split)
  ultimately show ?thesis using i by (simp add: async_inv_def)
qed

text \<open>A request in flight got as far as the callbacks of the engine carry it.\<close>

lemma async_lost:
  assumes "async_run p qs s" and "ignoreCL (clr p)" and "\<not> serves p"
  shows "called_back s = [] \<and> (outstandingRender s \<longleftrightarrow> qs \<noteq> []) \<and> mset (timers s) = mset (tl qs) \<and>
    flying s = (if async_engine p then take 1 qs else []) \<and>
    (\<forall>q. in_flight s = Some (q, RenderAsync) \<longrightarrow> returns_after TraversalsAsync p)"
  using assms(1)
proof (induction rule: async_run.induct)
  case start
  show ?case by (simp add: async_defs)
next
  case (step rs s l s')
  note a = step.IH assms(2,3)
  from step.hyps(2) show ?case
  proof (cases rule: async_step.cases)
    case (rendered cb)
    with a have "serves p" by (auto simp: serves_def flying_def split: if_splits)
    with assms(3) show ?thesis by simp
  qed (use a in \<open>cases rs; auto simp: async_defs split: if_splits option.splits\<close>)+
qed

text \<open>
  C13.  Asynchronous rendering without WebCL.  With an engine that defines \<open>_gen_runTraversalsAsync\<close> and
  calls back after the traversals and after the render pass, in any order of requests, timers and
  callbacks every request is exactly one of waiting, in flight or called back, at most one is in
  flight, the canvas is reset once for each that started, and from every state the timers and the
  engine can bring every request to its callback, without a second call for those called back.  With
  any other engine, and those of the repository are others, nothing is served: no request is ever
  called back, the first one keeps the lock, after a \<open>TypeError\<close> if the function is missing and else in
  flight, and all later ones wait for their timers without end.
\<close>

theorem async_requests_served:
  assumes "async_run p qs s" and "ignoreCL (clr p)"
  shows "(serves p \<longrightarrow>
     mset qs = mset (timers s) + mset (flying s) + mset (called_back s) \<and> length (flying s) \<le> 1 \<and>
     async_resets s = length (called_back s) + length (flying s) \<and>
     (\<exists>s'. (async_step p None)\<^sup>*\<^sup>* s s' \<and> timers s' = [] \<and> flying s' = [] \<and>
        called_back s' = called_back s @ flying s @ timers s)) \<and>
   (\<not> serves p \<longrightarrow>
     called_back s = [] \<and> (outstandingRender s \<longleftrightarrow> qs \<noteq> []) \<and> mset (timers s) = mset (tl qs) \<and>
     flying s = (if async_engine p then take 1 qs else []) \<and>
     (\<forall>q. snd (layoutAndRenderAsync p q async_start) = (if async_engine p then None else Some ''TypeError'')))"
  using async_served [OF assms] async_lost [OF assms] assms(2) by (simp add: async_defs)

text \<open>
  C23.  Asynchronous rendering with WebCL does not work: whatever the page and its engine, once a render has
  been requested the lock is held for ever, no request is called back, and every later one waits for
  its timer without end; on a page that is ready the first one throws.
\<close>

theorem async_device_stuck:
  assumes "async_run p (q # qs) s" and "\<not> ignoreCL (clr p)"
  shows "outstandingRender s \<and> called_back s = [] \<and> flying s = [] \<and> mset (timers s) = mset qs \<and>
    snd (layoutAndRenderAsync p q async_start) = (if readyToLayout p then Some ''TypeError'' else None)"
proof -
  have "outstandingRender s = (rs \<noteq> []) \<and> called_back s = [] \<and> in_flight s = None \<and> mset (timers s) = mset (tl rs)"
    if "async_run p rs s" for rs s
    using that
  proof (induction rule: async_run.induct)
    case start
    show ?case by (simp add: async_defs)
  next
    case (step rs s l s')
    from step.hyps(2) step.IH show ?case
      by (cases rule: async_step.cases; cases rs) (use assms(2) in \<open>auto simp: async_defs split: if_splits\<close>)
  qed
  from this [OF assms(1)] assms(2) show ?thesis by (simp add: async_defs)
qed

text \<open>
  Witnesses: two requests, the second while the first holds the lock; with an engine that serves
  them, and with one like those of the repository.
\<close>

definition two_requests :: "'a page \<Rightarrow> nat async" where
  "two_requests p = fst (layoutAndRenderAsync p 2 (fst (layoutAndRenderAsync p 1 async_start)))"

lemma two_requests_run: "async_run p [1, 2] (two_requests p)"
proof -
  from async_run.step [OF async_run.start async_step.request, of p 1]
  have "async_run p [1] (fst (layoutAndRenderAsync p 1 async_start))" by simp
  from async_run.step [OF this async_step.request, of 2] show ?thesis by (simp add: two_requests_def del: One_nat_def)
qed

definition cpu_page :: "int vis_engine \<Rightarrow> int page" where
  "cpu_page e = (new_page True 8 6)\<lparr>layout_engine := Some e\<rparr>"

definition plain_engine :: "int vis_engine" where
  "plain_engine = demo_engine\<lparr>async_defined := False, calls_back_after := {}\<rparr>"

theorem async_requests_served_witness:
  "(\<exists>s s'. async_run (cpu_page demo_engine) [1, 2 :: nat] s \<and> timers s = [2] \<and> flying s = [1] \<and>
     (async_step (cpu_page demo_engine) None)\<^sup>*\<^sup>* s s' \<and> called_back s' = [1, 2]) \<and>
   (\<exists>s. async_run (cpu_page plain_engine) [1, 2 :: nat] s \<and> called_back s = [] \<and> outstandingRender s \<and> timers s = [2] \<and>
     snd (layoutAndRenderAsync (cpu_page plain_engine) (1 :: nat) async_start) = Some ''TypeError'')"
proof
  let ?p = "cpu_page demo_engine"
  have s: "timers (two_requests ?p) = [2]" "flying (two_requests ?p) = [1]" "called_back (two_requests ?p) = []"
    by (simp_all add: two_requests_def async_defs new_page_def cpu_page_def async_engine_def demo_engine_def)
  have c: "ignoreCL (clr ?p)" "serves ?p"
    by (simp_all add: new_page_def cpu_page_def serves_def async_engine_def returns_after_def demo_engine_def)
  from async_requests_served [OF two_requests_run [of ?p] c(1)] c(2)
  obtain s' where "(async_step ?p None)\<^sup>*\<^sup>* (two_requests ?p) s'" "called_back s' = [1, 2]"
    unfolding s by auto
  with s two_requests_run [of ?p]
  show "\<exists>s s'. async_run ?p [1, 2 :: nat] s \<and> timers s = [2] \<and> flying s = [1] \<and> (async_step ?p None)\<^sup>*\<^sup>* s s' \<and> called_back s' = [1, 2]"
    by blast
next
  let ?p = "cpu_page plain_engine"
  have c: "ignoreCL (clr ?p)" "\<not> serves ?p" "\<not> async_engine ?p"
    by (simp_all add: new_page_def cpu_page_def serves_def async_engine_def plain_engine_def)
  from async_requests_served [OF two_requests_run [of ?p] c(1)] c(2,3) two_requests_run [of ?p]
  show "\<exists>s. async_run ?p [1, 2 :: nat] s \<and> called_back s = [] \<and> outstandingRender s \<and> timers s = [2] \<and>
     snd (layoutAndRenderAsync ?p (1 :: nat) async_start) = Some ''TypeError''"
    by (intro exI [of _ "two_requests ?p"]) auto
qed

theorem async_device_stuck_witness:
  "\<exists>s. async_run demo_page [1, 2 :: nat] s \<and> outstandingRender s \<and> called_back s = [] \<and> timers s = [2] \<and>
     snd (layoutAndRenderAsync demo_page (1 :: nat) async_start) = Some ''TypeError''"
  using async_device_stuck [OF two_requests_run [of demo_page]] two_requests_run [of demo_page]
  by (intro exI [of _ "two_requests demo_page"])
    (auto simp: demo_page_def new_page_def readyToLayout_def two_requests_def async_defs)

section \<open>Faults\<close>

text \<open>A render pass that throws leaves its buffer with WebCL, and the frame is drawn from it all the same.\<close>

lemma throwing_visit_keeps_buffer:
  assumes "render_pass p (clVBO p) (clr p) = (r, Some x)" and "\<not> ignoreCL (clr p)" and "acquired p = []"
  shows "runRenderTraversal p = (log_error x (p\<lparr>clr := r, acquired := [clVBO p]\<rparr>), None)"
proof -
  have "render_pass (p\<lparr>acquired := a\<rparr>) = render_pass p" for a by (intro ext) (simp add: render_pass_def)
  then show ?thesis using assms by (simp add: runRenderTraversal_def page_defs)
qed

text \<open>A program that does not build still counts as loaded kernels.\<close>

lemma failed_build_ready:
  assumes "\<not> ignoreCL (clr p)" and "\<not> builds env (concat (kernelHeaders env) @ concat src)" and "tree_size (clr p) \<noteq> 0"
  shows "\<exists>p'. buildKernels env src p = (p', None) \<and> readyToStart p' \<and> has_kernels p' = has_kernels p"
  using assms by (simp add: buildKernels_def readyToStart_def readyToRender_def readyToLayout_def log_error_def Let_def)

text \<open>A split load makes the page ready before the first file has arrived.\<close>

lemma ready_before_data:
  assumes "page_loadDataFlatMt url window response own mw p = ((p', None), Some pl)" and "ignoreCL (clr p) \<or> program p \<noteq> None"
  shows "readyToStart p' \<and> ready pl = 0 \<and> has_data p' = has_data p"
  using assms
  by (auto simp: page_loadDataFlatMt_def loadDataFlatMt_def inflateMt_def flat_check_None readyToStart_def readyToRender_def
      readyToLayout_def Let_def split: option.splits sum.splits prod.splits if_splits)

text \<open>A load that throws after it has set the tree size leaves a page that counts as ready.\<close>

lemma failed_load_ready:
  assumes "flatten j (clr p) = (r, Some x)" and "tree_size r \<noteq> 0" and "ignoreCL r"
  shows "snd (page_loadDataObj flatten j p) = Some x \<and> readyToStart (fst (page_loadDataObj flatten j p)) \<and>
    has_data (fst (page_loadDataObj flatten j p)) = has_data p"
  using assms by (simp add: page_loadDataObj_def loaded_with_def on_clr_def readyToStart_def readyToRender_def readyToLayout_def)

text \<open>Opposite keys undo each other.\<close>

lemma keys_inverse:
  assumes "interactive p" and "(k, k') \<in> {(187, 189), (189, 187), (37, 39), (39, 37), (38, 40), (40, 38)}"
  shows "position (glr (onkeydown k' (onkeydown k p))) = position (glr p)"
  using assms
  by (cases "position (glr p)")
    (auto simp: onkeydown_def key_move_def scroll_amount_def renderFrame_def readyToRender_def movePosition_def setPosition_def
      updateModelView_def)

end
