(* ===== verification/KernelChunks.thy ===== *)
theory KernelChunks
  imports Facade
begin

text \<open>
  \<open>tools/kernel-chunker.js\<close>: cutting the kernel sources into the strings that the layout engine
  carries as its \<open>kernelSource\<close>, and that \<open>buildKernels\<close> joins again.  The loop is a partial
  function: with a chunk length that is not positive it has no end.
\<close>

text \<open>\<open>substring\<close>: both ends clamped to the string, and swapped when they are out of order.\<close>

definition clamp :: "string \<Rightarrow> int \<Rightarrow> nat" where
  "clamp s i = (if i < 0 then 0 else min (nat i) (length s))"

definition substring :: "string \<Rightarrow> int \<Rightarrow> int \<Rightarrow> string" where
  "substring s a b =
     (let x = min (clamp s a) (clamp s b); y = max (clamp s a) (clamp s b) in take (y - x) (drop x s))"

text \<open>The contents of the files, or of the standard input when none is named, each with a line end.\<close>

definition inputContents :: "string \<Rightarrow> string list \<Rightarrow> string" where
  "inputContents stdin inputFiles = concat (map (\<lambda>f. f @ [CHR 0x0A]) (if inputFiles = [] then [stdin] else inputFiles))"

partial_function (option) chunk_loop :: "int \<Rightarrow> string \<Rightarrow> int \<Rightarrow> string list \<Rightarrow> string list option" where
  "chunk_loop l s cursor subStrings =
     (if cursor < int (length s) then chunk_loop l s (cursor + l) (subStrings @ [substring s cursor (cursor + l)])
      else Some subStrings)"

declare chunk_loop.simps [code]

definition kernel_chunks :: "int \<Rightarrow> string \<Rightarrow> string list \<Rightarrow> string list option" where
  "kernel_chunks l stdin inputFiles = chunk_loop l (inputContents stdin inputFiles) 0 []"

lemma inputContents_pos: "0 < length (inputContents stdin inputFiles)"
  by (cases inputFiles) (auto simp: inputContents_def)

lemma substring_step: "n < length s \<Longrightarrow> substring s (int n) (int n + int L) = take L (drop n s)"
  by (auto simp: substring_def clamp_def Let_def nat_add_distrib min_def max_def)

lemma chunk_loop_pos:
  assumes "0 < L"
  shows "\<exists>cs. chunk_loop (int L) s (int n) acc = Some (acc @ cs) \<and> concat cs = drop n s \<and>
    (\<forall>c \<in> set cs. c \<noteq> [] \<and> length c \<le> L) \<and> (\<forall>c \<in> set (butlast cs). length c = L)"
proof (induction "length s - n" arbitrary: n acc rule: less_induct)
  case less
  show ?case
  proof (cases "n < length s")
    case True
    let ?c = "take L (drop n s)"
    from True assms have "length s - (n + L) < length s - n" by simp
    from less [OF this, of "acc @ [?c]"] obtain cs where cs:
      "chunk_loop (int L) s (int (n + L)) (acc @ [?c]) = Some ((acc @ [?c]) @ cs)" "concat cs = drop (n + L) s"
      "\<forall>c \<in> set cs. c \<noteq> [] \<and> length c \<le> L" "\<forall>c \<in> set (butlast cs). length c = L" by blast
    have "chunk_loop (int L) s (int n) acc = Some (acc @ ?c # cs)"
      using True cs(1) by (subst chunk_loop.simps) (simp add: substring_step)
    moreover have "concat (?c # cs) = drop n s" using cs(2) by (metis append_take_drop_id concat.simps(2) drop_drop add.commute)
    moreover have "length ?c = L" if "cs \<noteq> []"
    proof -
      have "last cs \<in> set cs" "last cs \<noteq> []" using that cs(3) by simp_all
      then have "drop (n + L) s \<noteq> []" using cs(2) by auto
      then show ?thesis by simp
    qed
    ultimately show ?thesis using cs(3,4) True assms by (intro exI [of _ "?c # cs"]) auto
  next
    case False
    then show ?thesis by (intro exI [of _ "[]"]) (subst chunk_loop.simps, simp)
  qed
qed

lemma chunk_loop_ends: "chunk_loop l s cursor acc = Some r \<Longrightarrow> l \<le> 0 \<Longrightarrow> int (length s) \<le> cursor"
proof (induction l s cursor acc r rule: chunk_loop.raw_induct [rotated -1, consumes 1, case_names 1])
  case (1 chunk_loop l s cursor acc r)
  then show ?case by (fastforce split: if_splits)
qed

text \<open>
  C21.  Cutting and joining the kernels: for every positive chunk length the chunks are non-empty and
  no longer than it, all but the last exactly as long, and the program that is built from them is
  the headers followed by the sources, each with a line end, whatever the length; for a length that
  is not positive the tool does not end.
\<close>

theorem kernel_program:
  assumes "\<not> ignoreCL (clr p)"
  shows "if 0 < l
    then \<exists>cs. kernel_chunks l stdin inputFiles = Some cs \<and> (\<forall>c \<in> set cs. c \<noteq> [] \<and> int (length c) \<le> l) \<and>
      (\<forall>c \<in> set (butlast cs). int (length c) = l) \<and>
      program (fst (buildKernels env cs p)) = Some (concat (kernelHeaders env) @ inputContents stdin inputFiles)
    else kernel_chunks l stdin inputFiles = None"
proof (cases "0 < l")
  case True
  then obtain L where L: "l = int L" "0 < L" by (metis of_nat_0_less_iff zero_le_imp_eq_int less_imp_le)
  from chunk_loop_pos [OF L(2), of "inputContents stdin inputFiles" 0 "[]"] obtain cs where
    "kernel_chunks l stdin inputFiles = Some cs" "concat cs = inputContents stdin inputFiles"
    "\<forall>c \<in> set cs. c \<noteq> [] \<and> length c \<le> L" "\<forall>c \<in> set (butlast cs). length c = L"
    by (auto simp: kernel_chunks_def L(1))
  with assms True L show ?thesis by (auto simp: buildKernels_def Let_def log_error_def)
next
  case False
  then show ?thesis
    using chunk_loop_ends [of l "inputContents stdin inputFiles" 0 "[]"] inputContents_pos [of stdin inputFiles]
    by (cases "kernel_chunks l stdin inputFiles") (auto simp: kernel_chunks_def)
qed

theorem kernel_program_witness:
  "\<exists>cs. kernel_chunks 4 ''unused'' [''float'', ''x''] = Some cs \<and> concat cs = ''float'' @ [CHR 0x0A] @ ''x'' @ [CHR 0x0A] \<and>
     program (fst (buildKernels demo_env cs demo_page)) = Some (''hfloat'' @ [CHR 0x0A] @ ''x'' @ [CHR 0x0A])"
proof -
  have d: "\<not> ignoreCL (clr demo_page)" by (rule demo_hyps(2))
  from kernel_program [OF d, of 4 "''unused''" "[''float'', ''x'']" demo_env] obtain cs where
    c: "kernel_chunks 4 ''unused'' [''float'', ''x''] = Some cs"
    "program (fst (buildKernels demo_env cs demo_page)) = Some (concat (kernelHeaders demo_env) @ inputContents ''unused'' [''float'', ''x''])"
    by auto
  have "concat cs = inputContents ''unused'' [''float'', ''x'']"
    using c(2) d by (auto simp: buildKernels_def Let_def log_error_def split: if_splits)
  with c show ?thesis by (auto simp: inputContents_def demo_env_def)
qed

end
