(* ===== verification/Generators.thy ===== *)
theory Generators
  imports Grammars Compress Complex_Main
begin

text \<open>
  The programs that make the data of the examples: the line graph of \<open>src/genExamples.js\<close> and the
  random trees of \<open>examples/sunburst/data-gen.js\<close>.  The draws of \<open>Math.random\<close> are an argument, a
  sequence of reals, read in order; \<open>num\<close> is the JSON value of a real number.
\<close>

section \<open>The line graph\<close>

definition js_clamp :: "real \<Rightarrow> real" where
  "js_clamp v = max 0 (min 1 v)"

text \<open>\<open>val ? val : Math.random()\<close>: a value of 0 is replaced as well.\<close>

definition makeSpike :: "(real \<Rightarrow> jval) \<Rightarrow> (nat \<Rightarrow> real) \<Rightarrow> real \<Rightarrow> nat \<Rightarrow> jnode \<times> nat" where
  "makeSpike num rnd val k =
     (let (v, k') = (if val \<noteq> 0 then (val, k) else (rnd k, k + 1))
      in (JNode [(''class'', JStr ''Spike''), (''val'', num v)] None, k'))"

definition spike_step :: "(real \<Rightarrow> jval) \<Rightarrow> (nat \<Rightarrow> real) \<Rightarrow> real \<times> jnode list \<times> nat \<Rightarrow> real \<times> jnode list \<times> nat" where
  "spike_step num rnd s = (case s of (roll, childs, k) \<Rightarrow>
     let roll1 = js_clamp (roll + (3 / 100 * rnd k - 3 / 100 / 2));
         (spike, k') = makeSpike num rnd roll1 (k + 1)
     in (roll1, childs @ [spike], k'))"

definition makeGenerator :: "(real \<Rightarrow> jval) \<Rightarrow> (nat \<Rightarrow> real) \<Rightarrow> nat \<Rightarrow> nat \<Rightarrow> jnode \<times> nat" where
  "makeGenerator num rnd m k =
     (let (roll, childs, k') = (spike_step num rnd ^^ m) (rnd k, [], k + 1)
      in (JNode [(''class'', JStr ''Generator'')] (Some [(''childs'', Many childs)]), k'))"

definition generator_step :: "(real \<Rightarrow> jval) \<Rightarrow> (nat \<Rightarrow> real) \<Rightarrow> nat \<Rightarrow> jnode list \<times> nat \<Rightarrow> jnode list \<times> nat" where
  "generator_step num rnd numSpikes s = (case s of (childs, k) \<Rightarrow>
     let (g, k') = makeGenerator num rnd numSpikes k in (childs @ [g], k'))"

definition makeRoot :: "(real \<Rightarrow> jval) \<Rightarrow> (nat \<Rightarrow> real) \<Rightarrow> nat \<Rightarrow> nat \<Rightarrow> jnode" where
  "makeRoot num rnd numGenerators numSpikes =
     (let childs = fst ((generator_step num rnd numSpikes ^^ numGenerators) ([], 0))
      in JNode [(''class'', JStr ''Root''), (''xOffset'', num 28), (''yOffset'', num (- 24 / 10 * 28)),
           (''tweenMin'', num (0 / 100)), (''tweenMax'', num (100 / 100)), (''height'', num 15), (''radius'', num 28),
           (''minRadius'', num (1 / 2))]
         (Some [(''child'', One (JNode [(''class'', JStr ''Second'')] (Some [(''childs'', Many childs)])))]))"

definition geSC2 :: "(real \<Rightarrow> jval) \<Rightarrow> (nat \<Rightarrow> real) \<Rightarrow> jnode" where
  "geSC2 num rnd = makeRoot num rnd 200 500"

text \<open>
  The three files made of an example, and the call that makes each: the name of the file is passed
  in the place of the options, so that \<open>compress\<close> finds none.
\<close>

definition expandIntoConfigs :: "(string \<times> string \<times> copts option) list" where
  "expandIntoConfigs =
     [(''flat'', ''data.flat.json'', None),
      (''sparse'', ''data.sparse.json'', Some \<lparr>o_minBlockSize = Some 2048, o_minFileSize = None\<rparr>),
      (''sparseMT'', ''data.sparse.mt.json'', Some \<lparr>o_minBlockSize = Some 2048, o_minFileSize = Some (100 * 1024)\<rparr>)]"

definition handleExample :: "string \<Rightarrow> string \<Rightarrow> string \<Rightarrow> 'a::zero flattener \<Rightarrow> string \<times> string \<times> copts option
    \<Rightarrow> string + (string \<times> 'a written) list" where
  "handleExample data dirName kb fl cfg = (case cfg of (mode, baseName, opts) \<Rightarrow>
     compress data (dirName @ ''kbindings.js'') mode \<lparr>o_minBlockSize = None, o_minFileSize = None\<rparr> (dirName @ baseName) fl)"

text \<open>The options of the configurations are the defaults, so that the lost options do no harm.\<close>

lemma handleExample_opts:
  assumes "(mode, baseName, opts) \<in> set expandIntoConfigs"
  shows "handleExample data dirName kb fl (mode, baseName, opts) =
    compress data (dirName @ ''kbindings.js'') mode
      (case opts of None \<Rightarrow> \<lparr>o_minBlockSize = None, o_minFileSize = None\<rparr> | Some opt \<Rightarrow> opt) (dirName @ baseName) fl"
proof -
  have e: "encode_buffer m o1 = (encode_buffer m o2 :: 'a list \<times> string option \<Rightarrow> 'a encoded)"
    if "minBlockSize o1 = minBlockSize o2" "minFileSize o1 = minFileSize o2" for o1 o2 m
    using that by (intro ext) (simp add: encode_buffer_def split: prod.split)
  have ce: "compress data k m o1 out fl = compress data k m o2 out fl"
    if "minBlockSize o1 = minBlockSize o2" "minFileSize o1 = minFileSize o2" for o1 o2 k m out
    by (simp add: compress_def flatJSON_def e [OF that])
  let ?none = "\<lparr>o_minBlockSize = None, o_minFileSize = None\<rparr>" and ?o = "case opts of None \<Rightarrow> \<lparr>o_minBlockSize = None, o_minFileSize = None\<rparr> | Some opt \<Rightarrow> opt"
  have "minBlockSize ?none = minBlockSize ?o" "minFileSize ?none = minFileSize ?o"
    using assms by (auto simp: expandIntoConfigs_def minBlockSize_def minFileSize_def js_default_def)
  then show ?thesis unfolding handleExample_def prod.case by (rule ce)
qed

text \<open>The draws are in \<open>[0, 1)\<close>.\<close>

definition draws_ok :: "(nat \<Rightarrow> real) \<Rightarrow> bool" where
  "draws_ok rnd \<longleftrightarrow> (\<forall>k. 0 \<le> rnd k \<and> rnd k < 1)"

text \<open>A generated spike, with its value.\<close>

definition spike_ok :: "(real \<Rightarrow> jval) \<Rightarrow> jnode \<Rightarrow> bool" where
  "spike_ok num n \<longleftrightarrow> (\<exists>v. n = JNode [(''class'', JStr ''Spike''), (''val'', num v)] None \<and> 0 \<le> v \<and> v \<le> 1)"

definition generator_ok :: "(real \<Rightarrow> jval) \<Rightarrow> nat \<Rightarrow> jnode \<Rightarrow> bool" where
  "generator_ok num m n \<longleftrightarrow> (\<exists>cs. n = JNode [(''class'', JStr ''Generator'')] (Some [(''childs'', Many cs)]) \<and>
     length cs = m \<and> (\<forall>c \<in> set cs. spike_ok num c))"

lemma makeSpike_ok:
  assumes "draws_ok rnd" and "0 \<le> v" and "v \<le> 1"
  shows "spike_ok num (fst (makeSpike num rnd v k))"
proof -
  have "fst (makeSpike num rnd v k) = JNode [(''class'', JStr ''Spike''), (''val'', num (if v \<noteq> 0 then v else rnd k))] None"
    by (simp add: makeSpike_def)
  moreover have "0 \<le> (if v \<noteq> 0 then v else rnd k) \<and> (if v \<noteq> 0 then v else rnd k) \<le> 1"
    using assms by (cases "v = 0") (auto simp: draws_ok_def intro: less_imp_le)
  ultimately show ?thesis unfolding spike_ok_def by blast
qed

lemma spikes_ok:
  assumes "draws_ok rnd"
  shows "\<exists>r cs k'. (spike_step num rnd ^^ n) (roll, [], k) = (r, cs, k') \<and> length cs = n \<and> (\<forall>c \<in> set cs. spike_ok num c)"
proof (induction n)
  case (Suc n)
  then obtain r cs k' where c: "(spike_step num rnd ^^ n) (roll, [], k) = (r, cs, k')" "length cs = n" "\<forall>c \<in> set cs. spike_ok num c"
    by blast
  let ?v = "js_clamp (r + (3 / 100 * rnd k' - 3 / 100 / 2))"
  obtain sp k'' where m: "makeSpike num rnd ?v (k' + 1) = (sp, k'')" by fastforce
  have "spike_ok num sp" using makeSpike_ok [OF assms, where v = ?v and num = num and k = "k' + 1"] m by (simp add: js_clamp_def)
  moreover have "(spike_step num rnd ^^ Suc n) (roll, [], k) = (?v, cs @ [sp], k'')"
    using m by (simp add: c(1) spike_step_def Let_def)
  ultimately show ?case using c by auto
qed simp

lemma makeGenerator_ok:
  assumes "draws_ok rnd"
  shows "generator_ok num m (fst (makeGenerator num rnd m k))"
  using spikes_ok [OF assms, where n = m and num = num and roll = "rnd k" and k = "k + 1"] by (auto simp: makeGenerator_def generator_ok_def)

lemma generators_ok:
  assumes "draws_ok rnd"
  shows "\<exists>cs k'. (generator_step num rnd m ^^ n) ([], 0) = (cs, k') \<and> length cs = n \<and> (\<forall>c \<in> set cs. generator_ok num m c)"
proof (induction n)
  case (Suc n)
  then obtain cs k' where c: "(generator_step num rnd m ^^ n) ([], 0) = (cs, k')" "length cs = n" "\<forall>c \<in> set cs. generator_ok num m c"
    by blast
  obtain g k'' where gk: "makeGenerator num rnd m k' = (g, k'')" by fastforce
  have "generator_ok num m g" using makeGenerator_ok [OF assms, where num = num and m = m and k = k'] gk by simp
  moreover have "(generator_step num rnd m ^^ Suc n) ([], 0) = (cs @ [g], k'')"
    by (simp add: c(1)) (simp add: generator_step_def gk)
  ultimately show ?case using c by auto
qed simp

text \<open>The fields and tokens the tree needs, in the tables of the grammar.\<close>

lemma field_declared: "(f, p) \<in> set (bviews b) \<Longrightarrow> prefix ''fld_'' f \<Longrightarrow> f \<in> grammar_fields b"
  by (force simp: grammar_fields_def slot_of_def map_of_eq_None_iff)

lemma linegraph_child_fields:
  "''fld_root_child_child_leftmost_child'' \<in> grammar_fields linegraph"
  "''fld_second_child_childs_leftmost_child'' \<in> grammar_fields linegraph"
  "''fld_generator_child_childs_leftmost_child'' \<in> grammar_fields linegraph"
proof -
  have v: "e \<in> set linegraph_views_1 \<Longrightarrow> e \<in> set (bviews linegraph)" for e by (simp add: linegraph_def)
  have "linegraph_views_1 ! 102 = (''fld_root_child_child_leftmost_child'', NodeBuf, 0)"
    "linegraph_views_1 ! 107 = (''fld_second_child_childs_leftmost_child'', NodeBuf, 1)"
    "linegraph_views_1 ! 3 = (''fld_generator_child_childs_leftmost_child'', NodeBuf, 2)" "length linegraph_views_1 = 120"
    by (simp_all add: linegraph_views_1_def)
  then have m: "(''fld_root_child_child_leftmost_child'', NodeBuf, 0) \<in> set linegraph_views_1"
    "(''fld_second_child_childs_leftmost_child'', NodeBuf, 1) \<in> set linegraph_views_1"
    "(''fld_generator_child_childs_leftmost_child'', NodeBuf, 2) \<in> set linegraph_views_1"
    using nth_mem [of 102 linegraph_views_1] nth_mem [of 107 linegraph_views_1] nth_mem [of 3 linegraph_views_1] by simp_all
  show "''fld_root_child_child_leftmost_child'' \<in> grammar_fields linegraph" by (rule field_declared [OF v [OF m(1)]]) simp
  show "''fld_second_child_childs_leftmost_child'' \<in> grammar_fields linegraph" by (rule field_declared [OF v [OF m(2)]]) simp
  show "''fld_generator_child_childs_leftmost_child'' \<in> grammar_fields linegraph" by (rule field_declared [OF v [OF m(3)]]) simp
qed

lemma child_fields:
  "child_field ''Root'' ''child'' = ''fld_root_child_child_leftmost_child''"
  "child_field ''Second'' ''childs'' = ''fld_second_child_childs_leftmost_child''"
  "child_field ''Generator'' ''childs'' = ''fld_generator_child_childs_leftmost_child''"
  by code_simp+

lemma linegraph_classes:
  "class_token linegraph ''Root'' = Some 9" "class_token linegraph ''Second'' = Some 10"
  "class_token linegraph ''Generator'' = Some 7" "class_token linegraph ''Spike'' = Some 11"
proof -
  have "upper_case ''Root'' = ''ROOT''" "upper_case ''Second'' = ''SECOND''"
    "upper_case ''Generator'' = ''GENERATOR''" "upper_case ''Spike'' = ''SPIKE''" by code_simp+
  then show "class_token linegraph ''Root'' = Some 9" "class_token linegraph ''Second'' = Some 10"
    "class_token linegraph ''Generator'' = Some 7" "class_token linegraph ''Spike'' = Some 11"
    by (simp_all add: class_token_def linegraph_def linegraph_tokens_def)
qed

lemmas node_ok_defs = node_ok_def groups_def node_class_def props_ok_def prop_ok_def grammar_schema_def

lemma spike_node_ok: "spike_ok num n \<Longrightarrow> node_ok (grammar_schema linegraph co) (grammar_fields linegraph) n \<and> kids n = []"
  by (auto simp: spike_ok_def node_ok_defs kids_def linegraph_classes)

lemma generator_node_ok:
  "generator_ok num m n \<Longrightarrow> node_ok (grammar_schema linegraph co) (grammar_fields linegraph) n \<and>
    length (kids n) = m \<and> (\<forall>c \<in> set (kids n). spike_ok num c) \<and> node_class n = Some ''Generator''"
  by (auto simp: generator_ok_def node_ok_defs kids_def linegraph_classes child_fields linegraph_child_fields)

lemma levels_of_Cons: "lvl \<noteq> [] \<Longrightarrow> levels_of lvl = lvl # levels_of (concat (map kids lvl))"
  by (subst levels_of.simps) simp

lemma makeRoot_levels:
  assumes "draws_ok rnd"
  shows "\<exists>sec gs sps. levels_of [makeRoot num rnd nG nS] = [[makeRoot num rnd nG nS], [sec]] @ filter (\<lambda>l. l \<noteq> []) [gs, sps] \<and>
    length gs = nG \<and> length sps = nG * nS \<and> (\<forall>g \<in> set gs. generator_ok num nS g) \<and> (\<forall>c \<in> set sps. spike_ok num c) \<and>
    sec = JNode [(''class'', JStr ''Second'')] (Some [(''childs'', Many gs)]) \<and>
    (\<forall>n \<in> {makeRoot num rnd nG nS, sec}. node_ok (grammar_schema linegraph co) (grammar_fields linegraph) n \<and> node_class n \<noteq> Some ''Spike'')"
proof -
  from generators_ok [OF assms, where num = num and m = nS and n = nG] obtain gs k' where gs:
    "(generator_step num rnd nS ^^ nG) ([], 0) = (gs, k')" "length gs = nG" "\<forall>g \<in> set gs. generator_ok num nS g" by blast
  let ?root = "makeRoot num rnd nG nS" and ?sec = "JNode [(''class'', JStr ''Second'')] (Some [(''childs'', Many gs)])"
  let ?sps = "concat (map kids gs)"
  have k: "kids ?root = [?sec]" "kids ?sec = gs" by (simp_all add: makeRoot_def gs(1) kids_def groups_def)
  have sp: "\<forall>c \<in> set ?sps. spike_ok num c" using gs(3) generator_node_ok by fastforce
  have "map (\<lambda>g. length (kids g)) gs = map (\<lambda>g. nS) gs"
    using gs(3) generator_node_ok [of num nS] by (intro map_cong) blast+
  then have "length ?sps = sum_list (map (\<lambda>g. nS) gs)" by (simp only: length_concat map_map o_def)
  then have l: "length ?sps = nG * nS" by (simp add: gs(2) sum_list_triv)
  have e: "concat (map kids ?sps) = []" using sp spike_node_ok by fastforce
  have s: "levels_of ?sps = filter (\<lambda>l. l \<noteq> []) [?sps]"
  proof (cases "?sps = []")
    case False
    then show ?thesis by (subst levels_of_Cons) (simp_all only: e levels_of_Nil filter.simps if_True simp_thms)
  qed (simp only: levels_of_Nil filter.simps if_False simp_thms)
  have g: "levels_of gs = filter (\<lambda>l. l \<noteq> []) [gs, ?sps]"
  proof (cases "gs = []")
    case False
    then show ?thesis by (subst levels_of_Cons) (simp_all only: s filter.simps if_True simp_thms)
  qed simp
  have "levels_of [?root] = [[?root], [?sec]] @ filter (\<lambda>l. l \<noteq> []) [gs, ?sps]"
    by (subst levels_of_Cons, simp, subst levels_of_Cons) (simp_all add: k g del: concat_eq_Nil_conv filter.simps)
  moreover have "\<forall>n \<in> {?root, ?sec}. node_ok (grammar_schema linegraph co) (grammar_fields linegraph) n \<and> node_class n \<noteq> Some ''Spike''"
    by (auto simp: makeRoot_def gs(1) node_ok_defs linegraph_classes child_fields linegraph_child_fields)
  ultimately show ?thesis using gs(2,3) sp l
    by (intro exI [of _ ?sec] exI [of _ gs] exI [of _ ?sps]) blast
qed

text \<open>
  C36.  The line graph example is data for its grammar: for any draws, the generated tree has one root, one
  second node, the generators and for each the spikes, the value of every spike lies between 0 and
  1, and loading it with the bindings of the line graph succeeds, with these levels and this size.
\<close>

theorem generated_tree_loads:
  assumes "draws_ok rnd"
  shows "\<exists>lv st' cs. loadData (grammar_schema linegraph co) (alloc_flat linegraph) noCL skip (makeRoot num rnd nG nS) st =
      Inr (2 + nG + nG * nS, lv, st', cs) \<and>
    map llength lv = [1, 1] @ filter (\<lambda>k. k \<noteq> 0) [nG, nG * nS] \<and>
    (\<forall>n \<in> set (bfs (makeRoot num rnd nG nS)). node_class n = Some ''Spike'' \<longrightarrow> spike_ok num n)"
proof -
  let ?root = "makeRoot num rnd nG nS"
  from makeRoot_levels [OF assms, where num = num and nG = nG and nS = nS and co = co] obtain sec gs sps where
    lv: "levels_of [?root] = [[?root], [sec]] @ filter (\<lambda>l. l \<noteq> []) [gs, sps]" and
    n: "length gs = nG" "length sps = nG * nS" and ok: "\<forall>g \<in> set gs. generator_ok num nS g" "\<forall>c \<in> set sps. spike_ok num c" and
    top: "\<forall>n \<in> {?root, sec}. node_ok (grammar_schema linegraph co) (grammar_fields linegraph) n \<and> node_class n \<noteq> Some ''Spike''"
    by blast
  have b: "bfs ?root = ?root # sec # gs @ sps" by (auto simp: bfs_def lv)
  have gn: "\<forall>g \<in> set gs. node_ok (grammar_schema linegraph co) (grammar_fields linegraph) g \<and> node_class g = Some ''Generator''"
    using ok(1) generator_node_ok by blast
  have sn: "\<forall>c \<in> set sps. node_ok (grammar_schema linegraph co) (grammar_fields linegraph) c"
    using ok(2) spike_node_ok by blast
  have "\<forall>n \<in> set (bfs ?root). node_ok (grammar_schema linegraph co) (grammar_fields linegraph) n"
    using top gn sn by (auto simp: b)
  then obtain r where r: "loadData (grammar_schema linegraph co) (alloc_flat linegraph) noCL skip ?root st = Inr r"
    using grammar_loadData_accepts [of linegraph co noCL skip ?root st] by blast
  obtain k ls st' cs where e: "r = (k, ls, st', cs)" by (cases r)
  note run = grammar_alloc.loadData_runs [OF r [unfolded e]]
  have "length (bfs ?root) = 2 + nG + nG * nS" by (simp add: b n)
  then have "k = 2 + nG + nG * nS" using run(1) by (simp add: length_bfs)
  moreover have "map llength ls = [1, 1] @ filter (\<lambda>k. k \<noteq> 0) [nG, nG * nS]"
    unfolding run(3) level_table_lens lv using n by (auto simp flip: length_greater_0_conv)
  moreover have "\<forall>n \<in> set (bfs ?root). node_class n = Some ''Spike'' \<longrightarrow> spike_ok num n"
    using top ok(2) gn by (auto simp: b)
  ultimately show ?thesis using r e by blast
qed

theorem generated_tree_loads_witness:
  "\<exists>lv st' cs. loadData (grammar_schema linegraph (\<lambda>_ _. 0 :: int)) (alloc_flat linegraph) True True
      (geSC2 (\<lambda>_. JNull) (\<lambda>_. 1 / 2)) demo_flat = Inr (100202, lv, st', cs) \<and> map llength lv = [1, 1, 200, 100000]"
proof -
  have "draws_ok (\<lambda>_. 1 / 2)" by (simp add: draws_ok_def)
  from generated_tree_loads [OF this, of "\<lambda>_ _. 0 :: int" True True "\<lambda>_. JNull" 200 500 demo_flat] show ?thesis
    by (auto simp: geSC2_def)
qed

text \<open>A spike whose walk has reached 0 gets a random value instead.\<close>

lemma zero_spike_random: "makeSpike num rnd 0 k = (JNode [(''class'', JStr ''Spike''), (''val'', num (rnd k))] None, k + 1)"
  by (simp add: makeSpike_def)

end
