(* ===== verification/RandomTrees.thy ===== *)
theory RandomTrees
  imports Generators "HOL-Library.Multiset"
begin

text \<open>
  \<open>examples/sunburst/data-gen.js\<close>: random trees of about a given size.  The tree is built in place;
  the model keeps its nodes in the order of their creation, with the children of each, and reads
  the tree off in the end.  The search for the branching factor is a partial function.
\<close>

section \<open>The branching factor\<close>

definition CumulativeExp :: "int \<Rightarrow> int \<Rightarrow> int" where
  "CumulativeExp growth steps = foldl (\<lambda>total i. total + growth ^ nat i) 0 [1..steps]"

partial_function (option) branch_search :: "int \<Rightarrow> int \<Rightarrow> int \<Rightarrow> int option" where
  "branch_search targetCount depth branching =
     (if CumulativeExp (branching + 1) depth \<le> targetCount then branch_search targetCount depth (branching + 1)
      else Some branching)"

declare branch_search.simps [code]

definition FindBranchingFactor :: "int \<Rightarrow> int \<Rightarrow> int option" where
  "FindBranchingFactor targetCount depth = branch_search targetCount depth 1"

lemma cumulative_sum: "foldl (\<lambda>total i. total + growth ^ nat i) a xs = a + (\<Sum>i\<leftarrow>xs. (growth :: int) ^ nat i)"
  by (induction xs arbitrary: a) simp_all

lemma CumulativeExp_ge: "0 < depth \<Longrightarrow> 0 \<le> growth \<Longrightarrow> growth \<le> CumulativeExp growth depth"
proof -
  assume d: "0 < depth" and g: "0 \<le> growth"
  have "[1..depth] = 1 # [2..depth]" using d upto_rec1 [of 1 depth] by simp
  moreover have "0 \<le> (\<Sum>i\<leftarrow>[2..depth]. growth ^ nat i)" using g by (intro sum_list_nonneg) auto
  ultimately show ?thesis by (simp add: CumulativeExp_def cumulative_sum)
qed

lemma CumulativeExp_mono: "0 \<le> a \<Longrightarrow> a \<le> b \<Longrightarrow> CumulativeExp a depth \<le> CumulativeExp b depth"
  unfolding CumulativeExp_def cumulative_sum by (simp add: power_mono sum_list_mono)

lemma CumulativeExp_none: "depth \<le> 0 \<Longrightarrow> CumulativeExp growth depth = 0"
  by (simp add: CumulativeExp_def)

lemma branch_search_ends:
  assumes "0 < depth" and "1 \<le> b" and "b = 1 \<or> CumulativeExp b depth \<le> target"
  shows "\<exists>r. branch_search target depth b = Some r \<and> b \<le> r \<and> target < CumulativeExp (r + 1) depth \<and>
    (r = 1 \<or> CumulativeExp r depth \<le> target)"
  using assms(2,3)
proof (induction "nat (target - b)" arbitrary: b rule: less_induct)
  case less
  show ?case
  proof (cases "CumulativeExp (b + 1) depth \<le> target")
    case True
    have "b + 1 \<le> CumulativeExp (b + 1) depth" using assms(1) less.prems(1) by (intro CumulativeExp_ge) simp_all
    then have "nat (target - (b + 1)) < nat (target - b)" using True by linarith
    from less.hyps [OF this] True less.prems(1) show ?thesis
      by (subst branch_search.simps) auto
  next
    case False
    with less.prems show ?thesis by (subst branch_search.simps) auto
  qed
qed

lemma branch_search_stuck: "branch_search target depth b = Some r \<Longrightarrow> depth \<le> 0 \<Longrightarrow> target < 0"
proof (induction target depth b r rule: branch_search.raw_induct [rotated -1, consumes 1, case_names 1])
  case (1 branch_search target depth b r)
  then show ?case by (fastforce simp: CumulativeExp_none split: if_splits)
qed

text \<open>
  C38.  The branching factor: below the first levels, the search ends, for every target, with the largest
  factor from 1 on whose complete tree does not exceed the target, or 1 when there is none; with no
  level it does not end, for any size that is not negative.
\<close>

theorem branching_factor:
  "if 0 < depth
   then \<exists>b. FindBranchingFactor target depth = Some b \<and> 1 \<le> b \<and> (b = 1 \<or> CumulativeExp b depth \<le> target) \<and>
     (\<forall>c > b. target < CumulativeExp c depth)
   else 0 \<le> target \<longrightarrow> FindBranchingFactor target depth = None"
proof (cases "0 < depth")
  case True
  from branch_search_ends [OF True, of 1 target] obtain r where r: "branch_search target depth 1 = Some r" "1 \<le> r"
    "target < CumulativeExp (r + 1) depth" "r = 1 \<or> CumulativeExp r depth \<le> target" by auto
  have "target < CumulativeExp c depth" if "r < c" for c
    using r(2,3) that CumulativeExp_mono [of "r + 1" c depth] by simp
  with r True show ?thesis by (auto simp: FindBranchingFactor_def)
next
  case False
  then show ?thesis
    using branch_search_stuck [of target depth 1] by (cases "branch_search target depth 1") (auto simp: FindBranchingFactor_def)
qed

theorem branching_factor_witness: "FindBranchingFactor 100 0 = None \<and> (\<exists>b. FindBranchingFactor 100 2 = Some b \<and> 1 \<le> b)"
  using branching_factor [of 0 100] branching_factor [of 2 100] by auto

section \<open>Building the tree\<close>

text \<open>\<open>nrand\<close> with its three arguments; \<open>rnd\<close> from draw \<open>k\<close> on.\<close>

definition nrand :: "(nat \<Rightarrow> real) \<Rightarrow> nat \<Rightarrow> real \<Rightarrow> real \<Rightarrow> nat \<Rightarrow> real \<times> nat" where
  "nrand rnd k mn mx spread =
     (let spread = (if spread < 1 then 4 else spread);
          rand = foldl (\<lambda>r j. r + rnd (k + j)) 0 [0..<spread] * (1 / real spread)
      in (if mx > mn then (mx - mn) * rand + mn else rand, k + spread))"

definition js_round :: "real \<Rightarrow> int" where
  "js_round x = \<lfloor>x + 1 / 2\<rfloor>"

definition brewerColors1 :: "int list" where
  "brewerColors1 = [0xA50026, 0xD73027, 0xF46D43, 0xFDAE61, 0xFEE090, 0xFFFFBF, 0xE0F3F8, 0xABD9E9, 0x74ADD1, 0x4575B4, 0x313695]"

definition getPalette :: "int list \<Rightarrow> int \<Rightarrow> int \<times> int" where
  "getPalette colors idx =
     (let i = (if idx + 1 \<ge> int (length colors) then 0 else idx + 1) in (0xFF000000 + colors ! nat i, i))"

record rtree =
  rt_colors :: "int list"
  rt_kids :: "nat list list"
  rt_idx :: int
  rt_draw :: nat

definition RandomRadial :: "rtree \<Rightarrow> nat \<times> rtree" where
  "RandomRadial t = (case getPalette brewerColors1 (rt_idx t) of (c, i) \<Rightarrow>
     (length (rt_colors t), t\<lparr>rt_colors := rt_colors t @ [c], rt_kids := rt_kids t @ [[]], rt_idx := i\<rparr>))"

definition add_child :: "nat \<Rightarrow> rtree \<times> nat list \<Rightarrow> rtree \<times> nat list" where
  "add_child curNode s = (case s of (t, nodesOnNextLevel) \<Rightarrow> (case RandomRadial t of (newChild, t1) \<Rightarrow>
     (t1\<lparr>rt_kids := (rt_kids t1)[curNode := rt_kids t1 ! curNode @ [newChild]]\<rparr>, nodesOnNextLevel @ [newChild])))"

definition branch_bounds :: "int \<Rightarrow> int \<Rightarrow> int \<Rightarrow> real \<times> real" where
  "branch_bounds sz branching extra =
     (let b = real_of_int branching;
          lo = b / 2;
          hi = b + b / 2
      in if extra > 0 then (lo, hi + b / 2 * (real_of_int extra / real_of_int sz))
         else if extra < 0 then (lo - b / 2 * (real_of_int sz / real_of_int extra), hi)
         else (lo, hi))"

definition expand_node :: "(nat \<Rightarrow> real) \<Rightarrow> real \<times> real \<Rightarrow> rtree \<times> nat list \<Rightarrow> nat \<Rightarrow> rtree \<times> nat list" where
  "expand_node rnd bounds s curNode = (case s of (t, nodesOnNextLevel) \<Rightarrow>
     (case nrand rnd (rt_draw t) (fst bounds) (snd bounds) 3 of (r, k) \<Rightarrow>
        (add_child curNode ^^ nat (js_round r)) (t\<lparr>rt_draw := k\<rparr>, nodesOnNextLevel)))"

text \<open>The nodes of a level are taken from the end.\<close>

definition grow_level :: "(nat \<Rightarrow> real) \<Rightarrow> real \<times> real \<Rightarrow> rtree \<times> nat list \<Rightarrow> rtree \<times> nat list" where
  "grow_level rnd bounds s = (case s of (t, nodesOnCurrentLevel) \<Rightarrow> foldl (expand_node rnd bounds) (t, []) (rev nodesOnCurrentLevel))"

text \<open>The nodes as objects, children before their parents.\<close>

definition radial_node :: "rtree \<Rightarrow> (nat \<Rightarrow> jnode) \<Rightarrow> nat \<Rightarrow> jnode" where
  "radial_node t f i = JNode [(''class'', JStr ''Radial''), (''open'', JNum 1), (''bgcolor'', JNum (rt_colors t ! i))]
     (Some [(''child'', Many (map f (rt_kids t ! i)))])"

definition radial_trees :: "rtree \<Rightarrow> nat \<Rightarrow> nat \<Rightarrow> jnode" where
  "radial_trees t j = foldl (\<lambda>f i. f(i := radial_node t f i)) (\<lambda>_. JNode [] None) (rev [j..<length (rt_colors t)])"

definition radial_root :: "jnode \<Rightarrow> jnode" where
  "radial_root c = JNode [(''class'', JStr ''Root''), (''radius'', JStr ''282''), (''centerRadius'', JStr ''282''),
     (''centerAlpha'', JStr ''45''), (''w'', JStr ''900''), (''h'', JStr ''700'')] (Some [(''child'', One c)])"

definition build_tree :: "(nat \<Rightarrow> real) \<Rightarrow> int \<Rightarrow> int \<Rightarrow> int \<Rightarrow> rtree" where
  "build_tree rnd sz depth branching =
     (let (c, t) = RandomRadial \<lparr>rt_colors = [], rt_kids = [], rt_idx = -1, rt_draw = 0\<rparr>;
          extra = sz - CumulativeExp branching depth
      in fst ((grow_level rnd (branch_bounds sz branching extra) ^^ nat depth) (t, [c])))"

text \<open>The tree, and the count that is reported: the root, the first node and one for every child.\<close>

definition RandomTree :: "(nat \<Rightarrow> real) \<Rightarrow> int \<Rightarrow> int \<Rightarrow> (jnode \<times> nat) option" where
  "RandomTree rnd sz depth =
     (let d = depth - 2
      in map_option (\<lambda>branching.
           let t = build_tree rnd sz d branching
           in (radial_root (radial_trees t 0 0), 2 + sum_list (map length (rt_kids t))))
         (FindBranchingFactor sz d))"

section \<open>The shape of the tree\<close>

text \<open>
  \<open>rk\<close> is the level of a node: after \<open>k\<close> levels every node but the first is the child of one node
  of the level above, created before it.
\<close>

definition rt_ok :: "(nat \<Rightarrow> nat) \<Rightarrow> nat \<Rightarrow> rtree \<Rightarrow> bool" where
  "rt_ok rk k t \<longleftrightarrow> length (rt_kids t) = length (rt_colors t) \<and> 0 < length (rt_colors t) \<and> rk 0 = 0 \<and>
     mset (concat (rt_kids t)) = mset [1..<length (rt_colors t)] \<and>
     (\<forall>i < length (rt_kids t). rk i \<le> k \<and> (\<forall>c \<in> set (rt_kids t ! i). i < c \<and> rk c = Suc (rk i)))"

definition level_ok :: "(nat \<Rightarrow> nat) \<Rightarrow> nat \<Rightarrow> rtree \<Rightarrow> nat list \<Rightarrow> bool" where
  "level_ok rk k t cur \<longleftrightarrow> (\<forall>i \<in> set cur. i < length (rt_colors t) \<and> rk i = k)"

lemma mset_concat_update:
  "i < length xss \<Longrightarrow> mset (concat (xss[i := xss ! i @ [c]])) = mset (concat xss) + {#c#}"
  by (induction xss arbitrary: i) (auto split: nat.split)

lemma add_child_ok:
  assumes "rt_ok rk (Suc k) t" and "level_ok rk (Suc k) t nxt" and "cur < length (rt_colors t)" and "rk cur = k"
    and "add_child cur (t, nxt) = (t', nxt')"
  shows "\<exists>rk'. (\<forall>i < length (rt_colors t). rk' i = rk i) \<and> rt_ok rk' (Suc k) t' \<and> level_ok rk' (Suc k) t' nxt' \<and>
    length (rt_colors t) \<le> length (rt_colors t')"
proof -
  let ?n = "length (rt_colors t)"
  obtain c i where p: "getPalette brewerColors1 (rt_idx t) = (c, i)" by fastforce
  have l: "length (rt_kids t) = ?n" using assms(1) by (simp add: rt_ok_def)
  have t': "rt_kids t' = (rt_kids t)[cur := rt_kids t ! cur @ [?n]] @ [[]]" "rt_colors t' = rt_colors t @ [c]" "nxt' = nxt @ [?n]"
    using assms(3,5) l by (auto simp: add_child_def RandomRadial_def p list_update_append nth_append)
  let ?rk = "rk(?n := Suc k)"
  have m: "mset (concat (rt_kids t')) = mset [1..<length (rt_colors t')]"
    using assms(1,3) l mset_concat_update [of cur "rt_kids t" ?n] by (simp add: t' rt_ok_def)
  have below: "c < ?n" if "i < length (rt_kids t)" "c \<in> set (rt_kids t ! i)" for i c
  proof -
    have "c \<in> set (concat (rt_kids t))" using that by (auto intro: nth_mem)
    then have "c \<in># mset [1..<?n]" using assms(1) by (simp only: rt_ok_def set_mset_mset [symmetric])
    then show ?thesis by simp
  qed
  have "rt_ok ?rk (Suc k) t'"
    unfolding rt_ok_def
  proof (intro conjI allI impI)
    show "?rk 0 = 0" "0 < length (rt_colors t')" using assms(1) by (auto simp: rt_ok_def t')
    show "mset (concat (rt_kids t')) = mset [1..<length (rt_colors t')]" by (rule m)
    fix i assume i: "i < length (rt_kids t')"
    show "?rk i \<le> Suc k" using i assms(1) l by (auto simp: rt_ok_def t')
    have kids: "rt_kids t' ! i = (if i = ?n then [] else if i = cur then rt_kids t ! cur @ [?n] else rt_kids t ! i)"
      using i l by (simp add: t' nth_append nth_list_update)
    have old: "i < c \<and> rk c = Suc (rk i) \<and> c < ?n" if "i < ?n" "c \<in> set (rt_kids t ! i)" for c
      using that assms(1) l below [of i c] by (simp add: rt_ok_def)
    show "\<forall>c \<in> set (rt_kids t' ! i). i < c \<and> ?rk c = Suc (?rk i)"
    proof (cases "i = ?n")
      case False
      then have n: "i < ?n" using i l by (simp add: t')
      show ?thesis
      proof
        fix c assume "c \<in> set (rt_kids t' ! i)"
        then consider "c \<in> set (rt_kids t ! i)" | "c = ?n" "i = cur" unfolding kids using False by (auto split: if_splits)
        then show "i < c \<and> ?rk c = Suc (?rk i)"
        proof cases
          case 1
          with old [OF n 1] n show ?thesis by simp
        next
          case 2
          with n assms(4) show ?thesis by simp
        qed
      qed
    next
      case True
      then have "rt_kids t' ! i = []" unfolding kids by simp
      then show ?thesis by simp
    qed
  qed (simp add: t' l)
  moreover have "level_ok ?rk (Suc k) t' nxt'" using assms(2) by (auto simp: level_ok_def t')
  ultimately show ?thesis by (intro exI [of _ ?rk]) (simp add: t')
qed


text \<open>What growing a node, and then a level, keeps: the earlier levels.\<close>

definition rt_grows :: "nat \<Rightarrow> (nat \<Rightarrow> nat) \<Rightarrow> rtree \<Rightarrow> nat list \<Rightarrow> (nat \<Rightarrow> nat) \<Rightarrow> rtree \<Rightarrow> nat list \<Rightarrow> bool" where
  "rt_grows k rk t nxt rk' t' nxt' \<longleftrightarrow> rt_ok rk (Suc k) t \<and> level_ok rk (Suc k) t nxt \<longrightarrow>
     (\<forall>i < length (rt_colors t). rk' i = rk i) \<and> rt_ok rk' (Suc k) t' \<and> level_ok rk' (Suc k) t' nxt' \<and>
     length (rt_colors t) \<le> length (rt_colors t')"

lemma rt_grows_trans: "rt_grows k rk t n rk1 t1 n1 \<Longrightarrow> rt_grows k rk1 t1 n1 rk2 t2 n2 \<Longrightarrow> rt_grows k rk t n rk2 t2 n2"
  unfolding rt_grows_def by (metis order.strict_trans2 order.trans)

lemma add_children_grow:
  assumes "cur < length (rt_colors t)" and "rk cur = k"
  shows "\<exists>rk'. rt_grows k rk t nxt rk' (fst ((add_child cur ^^ m) (t, nxt))) (snd ((add_child cur ^^ m) (t, nxt)))"
proof (cases "rt_ok rk (Suc k) t \<and> level_ok rk (Suc k) t nxt")
  case ok: True
  show ?thesis
  proof (induction m)
    case 0
    show ?case by (intro exI [of _ rk]) (simp add: rt_grows_def)
  next
    case (Suc m)
    obtain t1 n1 where r: "(add_child cur ^^ m) (t, nxt) = (t1, n1)" by fastforce
    obtain t2 n2 where a: "add_child cur (t1, n1) = (t2, n2)" by fastforce
    from Suc obtain rk1 where g: "rt_grows k rk t nxt rk1 t1 n1" by (auto simp: r)
    then have i: "rt_ok rk1 (Suc k) t1" "level_ok rk1 (Suc k) t1 n1" "cur < length (rt_colors t1)" "rk1 cur = k"
      using ok assms by (auto simp: rt_grows_def)
    from add_child_ok [OF i a] obtain rk2 where "rt_grows k rk1 t1 n1 rk2 t2 n2" unfolding rt_grows_def by blast
    with rt_grows_trans [OF g] show ?case by (auto simp: r a)
  qed
next
  case False
  then show ?thesis unfolding rt_grows_def by blast
qed

lemma rt_draw_ok [simp]: "rt_ok rk k (t\<lparr>rt_draw := d\<rparr>) = rt_ok rk k t" "level_ok rk k (t\<lparr>rt_draw := d\<rparr>) cur = level_ok rk k t cur"
  by (simp_all add: rt_ok_def level_ok_def)

lemma expand_node_grows:
  assumes "cur < length (rt_colors t)" and "rk cur = k" and "expand_node rnd bounds (t, nxt) cur = (t', nxt')"
  shows "\<exists>rk'. rt_grows k rk t nxt rk' t' nxt'"
proof -
  obtain r d where "nrand rnd (rt_draw t) (fst bounds) (snd bounds) 3 = (r, d)" by fastforce
  with assms(3) have e: "(add_child cur ^^ nat (js_round r)) (t\<lparr>rt_draw := d\<rparr>, nxt) = (t', nxt')" by (simp add: expand_node_def)
  have "cur < length (rt_colors (t\<lparr>rt_draw := d\<rparr>))" using assms(1) by simp
  from add_children_grow [of cur "t\<lparr>rt_draw := d\<rparr>" rk k nxt "nat (js_round r)", OF this assms(2)] show ?thesis
    unfolding e by (simp add: rt_grows_def)
qed

lemma expand_nodes_grow:
  assumes "\<forall>c \<in> set cs. c < length (rt_colors t) \<and> rk c = k" and "rt_ok rk (Suc k) t" and "level_ok rk (Suc k) t nxt"
  shows "\<exists>rk'. rt_grows k rk t nxt rk' (fst (foldl (expand_node rnd bounds) (t, nxt) cs)) (snd (foldl (expand_node rnd bounds) (t, nxt) cs))"
  using assms
proof (induction cs arbitrary: t nxt rk)
  case Nil
  show ?case by (intro exI [of _ rk]) (simp add: rt_grows_def)
next
  case (Cons c cs)
  obtain t1 n1 where e: "expand_node rnd bounds (t, nxt) c = (t1, n1)" by fastforce
  have "c < length (rt_colors t)" "rk c = k" using Cons.prems(1) by simp_all
  from expand_node_grows [of c t rk k rnd bounds nxt t1 n1, OF this e] obtain rk1 where g: "rt_grows k rk t nxt rk1 t1 n1" by blast
  have "\<forall>c \<in> set cs. c < length (rt_colors t1) \<and> rk1 c = k" "rt_ok rk1 (Suc k) t1" "level_ok rk1 (Suc k) t1 n1"
    using g Cons.prems unfolding rt_grows_def by auto
  from Cons.IH [OF this] obtain rk2 where
    "rt_grows k rk1 t1 n1 rk2 (fst (foldl (expand_node rnd bounds) (t1, n1) cs)) (snd (foldl (expand_node rnd bounds) (t1, n1) cs))"
    by blast
  with rt_grows_trans [OF g] show ?case by (auto simp: e)
qed

lemma rt_ok_Suc: "rt_ok rk k t \<Longrightarrow> rt_ok rk (Suc k) t"
  by (auto simp: rt_ok_def intro: le_SucI)

lemma grow_level_ok:
  assumes "rt_ok rk k t" and "level_ok rk k t cur"
  shows "\<exists>rk'. rt_ok rk' (Suc k) (fst (grow_level rnd bounds (t, cur))) \<and>
    level_ok rk' (Suc k) (fst (grow_level rnd bounds (t, cur))) (snd (grow_level rnd bounds (t, cur)))"
proof -
  have n: "level_ok rk (Suc k) t []" by (simp add: level_ok_def)
  have "\<forall>c \<in> set (rev cur). c < length (rt_colors t) \<and> rk c = k" using assms(2) by (simp add: level_ok_def)
  from expand_nodes_grow [OF this rt_ok_Suc [OF assms(1)] n, of rnd bounds] rt_ok_Suc [OF assms(1)] n show ?thesis
    unfolding rt_grows_def grow_level_def prod.case by blast
qed

lemma grow_levels_ok:
  assumes "rt_ok rk 0 t" and "level_ok rk 0 t cur"
  shows "\<exists>rk'. rt_ok rk' n (fst ((grow_level rnd bounds ^^ n) (t, cur))) \<and>
    level_ok rk' n (fst ((grow_level rnd bounds ^^ n) (t, cur))) (snd ((grow_level rnd bounds ^^ n) (t, cur)))"
proof (induction n)
  case 0
  then show ?case using assms by auto
next
  case (Suc n)
  obtain t1 c1 where e: "(grow_level rnd bounds ^^ n) (t, cur) = (t1, c1)" by fastforce
  with Suc obtain rk1 where "rt_ok rk1 n t1" "level_ok rk1 n t1 c1" by auto
  from grow_level_ok [OF this, of rnd bounds] show ?case by (simp add: e)
qed

lemma build_tree_ok: "\<exists>rk. rt_ok rk (nat depth) (build_tree rnd sz depth branching)"
proof -
  let ?t = "\<lparr>rt_colors = [], rt_kids = [], rt_idx = -1, rt_draw = 0\<rparr>"
  obtain c i where p: "getPalette brewerColors1 (-1) = (c, i)" by fastforce
  have r: "RandomRadial ?t = (0, \<lparr>rt_colors = [c], rt_kids = [[]], rt_idx = i, rt_draw = 0\<rparr>)" by (simp add: RandomRadial_def p)
  have "rt_ok (\<lambda>_. 0) 0 (snd (RandomRadial ?t))" "level_ok (\<lambda>_. 0) 0 (snd (RandomRadial ?t)) [0]"
    by (simp_all add: r rt_ok_def level_ok_def)
  from grow_levels_ok [OF this] show ?thesis by (simp add: build_tree_def r Let_def) blast
qed

section \<open>Reading the tree\<close>

lemma radial_trees_step:
  "j < length (rt_colors t) \<Longrightarrow> radial_trees t j = (radial_trees t (Suc j))(j := radial_node t (radial_trees t (Suc j)) j)"
  by (simp add: radial_trees_def upt_rec [of j])

lemma radial_trees_later: "j \<le> i \<Longrightarrow> i < length (rt_colors t) \<Longrightarrow> radial_trees t j i = radial_trees t i i"
proof (induction "i - j" arbitrary: j)
  case (Suc d)
  then have "radial_trees t j i = radial_trees t (Suc j) i" using radial_trees_step [of j t] by simp
  also have "\<dots> = radial_trees t i i" using Suc by (intro Suc.hyps(1)) simp_all
  finally show ?case .
qed simp

lemma rt_ok_kids:
  assumes "rt_ok rk k t" and "i < length (rt_colors t)" and "c \<in> set (rt_kids t ! i)"
  shows "i < c \<and> c < length (rt_colors t) \<and> rk c = Suc (rk i)"
proof -
  have l: "length (rt_kids t) = length (rt_colors t)" using assms(1) by (simp add: rt_ok_def)
  then have "c \<in> set (concat (rt_kids t))" using assms(2,3) by (auto intro: nth_mem)
  then have "c \<in># mset [1..<length (rt_colors t)]" using assms(1) by (simp only: rt_ok_def set_mset_mset [symmetric])
  then show ?thesis using assms l by (simp add: rt_ok_def)
qed

lemma radial_tree:
  assumes "rt_ok rk k t" and "i < length (rt_colors t)"
  shows "radial_trees t 0 i = radial_node t (radial_trees t 0) i"
proof -
  have "radial_trees t (Suc i) c = radial_trees t 0 c" if "c \<in> set (rt_kids t ! i)" for c
    using rt_ok_kids [OF assms that] radial_trees_later [of 0 c t] radial_trees_later [of "Suc i" c t] by simp
  then have "radial_node t (radial_trees t (Suc i)) i = radial_node t (radial_trees t 0) i" by (simp add: radial_node_def)
  moreover have "radial_trees t 0 i = radial_trees t i i" using radial_trees_later [of 0 i t] assms(2) by simp
  ultimately show ?thesis using radial_trees_step [OF assms(2)] by simp
qed

lemma sum_list_nth: "sum_list (map f xs) = (\<Sum>i<length xs. f (xs ! i))"
  by (simp add: sum_list_sum_nth atLeast0LessThan)

lemma sum_list_concat_map: "sum_list (map (\<lambda>xs. sum_list (map f xs)) xss) = (sum_list (map f (concat xss)) :: nat)"
  by (induction xss) simp_all

text \<open>The size of the tree: every node but the first is counted at its parent.\<close>

lemma radial_size:
  assumes "rt_ok rk k t"
  shows "treeSize (radial_trees t 0 0) = length (rt_colors t)"
proof -
  let ?n = "length (rt_colors t)" and ?T = "\<lambda>i. treeSize (radial_trees t 0 i)"
  have l: "length (rt_kids t) = ?n" "0 < ?n" using assms by (simp_all add: rt_ok_def)
  have T: "?T i = 1 + sum_list (map ?T (rt_kids t ! i))" if "i < ?n" for i
    unfolding radial_tree [OF assms that] by (subst treeSize_kids) (simp add: radial_node_def kids_def groups_def o_def)
  have "(\<Sum>i<?n. ?T i) = (\<Sum>i<?n. 1 + sum_list (map ?T (rt_kids t ! i)))" using T by (intro sum.cong) simp_all
  also have "\<dots> = ?n + (\<Sum>i<?n. sum_list (map ?T (rt_kids t ! i)))" by (simp only: sum.distrib) simp
  also have "(\<Sum>i<?n. sum_list (map ?T (rt_kids t ! i))) = sum_list (map (\<lambda>xs. sum_list (map ?T xs)) (rt_kids t))"
    by (simp add: sum_list_nth [of "\<lambda>xs. sum_list (map ?T xs)"] l)
  also have "\<dots> = sum_list (map ?T (concat (rt_kids t)))" by (rule sum_list_concat_map)
  also have "\<dots> = sum_mset (image_mset ?T (mset (concat (rt_kids t))))" by (metis mset_map sum_mset_sum_list)
  also have "\<dots> = sum_mset (image_mset ?T (mset [1..<?n]))" using assms by (simp only: rt_ok_def)
  also have "\<dots> = sum_list (map ?T [1..<?n])" by (metis mset_map sum_mset_sum_list)
  also have "\<dots> = sum ?T {1..<?n}" by (simp add: interv_sum_list_conv_sum_set_nat)
  finally have s: "(\<Sum>i<?n. ?T i) = ?n + sum ?T {1..<?n}" .
  have "(\<Sum>i<?n. ?T i) = ?T 0 + sum ?T {1..<?n}"
    using l(2) sum.atLeast_Suc_lessThan [of 0 ?n ?T] by (simp add: atLeast0LessThan)
  with s show ?thesis by simp
qed

lemma rt_count: "rt_ok rk k t \<Longrightarrow> Suc (sum_list (map length (rt_kids t))) = length (rt_colors t)"
proof -
  assume a: "rt_ok rk k t"
  then have "length (concat (rt_kids t)) = length [1..<length (rt_colors t)]" by (metis rt_ok_def mset_eq_length)
  with a show ?thesis by (simp add: length_concat rt_ok_def)
qed

text \<open>The levels: the nodes below the first by \<open>n\<close> have the rank \<open>n\<close>.\<close>

lemma levels_of_bound: "((\<lambda>l. concat (map kids l)) ^^ n) lvl = [] \<Longrightarrow> length (levels_of lvl) \<le> n"
proof (induction n arbitrary: lvl)
  case (Suc n)
  show ?case
  proof (cases "lvl = []")
    case False
    then have "levels_of lvl = lvl # levels_of (concat (map kids lvl))" by (rule levels_of_Cons)
    moreover have "length (levels_of (concat (map kids lvl))) \<le> n"
      using Suc.prems unfolding funpow_Suc_right o_def by (rule Suc.IH)
    ultimately show ?thesis by simp
  qed simp
qed simp

lemma radial_ranks:
  assumes "rt_ok rk k t"
  shows "\<exists>ix. ((\<lambda>l. concat (map kids l)) ^^ n) [radial_trees t 0 0] = map (radial_trees t 0) ix \<and>
    (\<forall>i \<in> set ix. i < length (rt_colors t) \<and> rk i = n)"
proof (induction n)
  case 0
  show ?case using assms by (intro exI [of _ "[0]"]) (simp add: rt_ok_def)
next
  case (Suc n)
  then obtain ix where ix: "((\<lambda>l. concat (map kids l)) ^^ n) [radial_trees t 0 0] = map (radial_trees t 0) ix"
    "\<forall>i \<in> set ix. i < length (rt_colors t) \<and> rk i = n" by blast
  have below: "\<forall>c \<in> set (concat (map (\<lambda>i. rt_kids t ! i) ix)). c < length (rt_colors t) \<and> rk c = Suc n"
  proof
    fix c assume "c \<in> set (concat (map (\<lambda>i. rt_kids t ! i) ix))"
    then obtain i where i: "i \<in> set ix" "c \<in> set (rt_kids t ! i)" by (auto simp only: set_concat set_map UN_iff image_iff)
    with ix(2) rt_ok_kids [OF assms, of i c] show "c < length (rt_colors t) \<and> rk c = Suc n" by simp
  qed
  have k: "kids (radial_trees t 0 i) = map (radial_trees t 0) (rt_kids t ! i)" if "i \<in> set ix" for i
  proof -
    have "i < length (rt_colors t)" using ix(2) that by blast
    from radial_tree [OF assms this] have "radial_trees t 0 i = radial_node t (radial_trees t 0) i" .
    moreover have "kids (radial_node t f i) = map f (rt_kids t ! i)" for f by (simp add: radial_node_def kids_def groups_def)
    ultimately show ?thesis by simp
  qed
  have "concat (map kids (map (radial_trees t 0) ix)) = concat (map (\<lambda>i. map (radial_trees t 0) (rt_kids t ! i)) ix)"
    using k by (auto intro!: arg_cong [of _ _ concat])
  also have "\<dots> = map (radial_trees t 0) (concat (map (\<lambda>i. rt_kids t ! i) ix))" by (simp add: map_concat o_def)
  finally show ?case
    using ix(1) by (intro exI [of _ "concat (map (\<lambda>i. rt_kids t ! i) ix)"] conjI below) simp
qed

section \<open>The generated tree\<close>

lemma sunburst_child_fields:
  "''fld_root_child_child_leftmost_child'' \<in> grammar_fields sunburst"
  "''fld_radial_child_child_leftmost_child'' \<in> grammar_fields sunburst"
proof -
  have v: "e \<in> set sunburst_views \<Longrightarrow> e \<in> set (bviews sunburst)" for e by (simp add: sunburst_def)
  have "sunburst_views ! 52 = (''fld_root_child_child_leftmost_child'', NodeBuf, 1)"
    "sunburst_views ! 22 = (''fld_radial_child_child_leftmost_child'', NodeBuf, 0)" "length sunburst_views = 64"
    by (simp_all add: sunburst_views_def)
  then have m: "(''fld_root_child_child_leftmost_child'', NodeBuf, 1) \<in> set sunburst_views"
    "(''fld_radial_child_child_leftmost_child'', NodeBuf, 0) \<in> set sunburst_views"
    using nth_mem [of 52 sunburst_views] nth_mem [of 22 sunburst_views] by simp_all
  show "''fld_root_child_child_leftmost_child'' \<in> grammar_fields sunburst" by (rule field_declared [OF v [OF m(1)]]) simp
  show "''fld_radial_child_child_leftmost_child'' \<in> grammar_fields sunburst" by (rule field_declared [OF v [OF m(2)]]) simp
qed

lemma sunburst_classes: "class_token sunburst ''Root'' = Some 8" "class_token sunburst ''Radial'' = Some 7"
proof -
  have "upper_case ''Root'' = ''ROOT''" "upper_case ''Radial'' = ''RADIAL''" by code_simp+
  then show "class_token sunburst ''Root'' = Some 8" "class_token sunburst ''Radial'' = Some 7"
    by (simp_all add: class_token_def sunburst_def sunburst_tokens_def)
qed

lemma radial_child_field: "child_field ''Radial'' ''child'' = ''fld_radial_child_child_leftmost_child''"
  by code_simp

lemma radial_node_ok: "node_ok (grammar_schema sunburst co) (grammar_fields sunburst) (radial_node t f i)"
  by (auto simp: radial_node_def node_ok_defs sunburst_classes radial_child_field sunburst_child_fields)

lemma radial_root_ok: "node_ok (grammar_schema sunburst co) (grammar_fields sunburst) (radial_root c)"
  by (auto simp: radial_root_def node_ok_defs sunburst_classes child_fields sunburst_child_fields)

lemma levels_of_pow: "l \<in> set (levels_of lvl) \<Longrightarrow> \<exists>n. l = ((\<lambda>l. concat (map kids l)) ^^ n) lvl"
proof (induction lvl rule: levels_of.induct)
  case (1 lvl)
  show ?case
  proof (cases "lvl = []")
    case False
    from "1.prems" consider "l = lvl" | "l \<in> set (levels_of (concat (map kids lvl)))"
      unfolding levels_of_Cons [OF False] by auto
    then show ?thesis
    proof cases
      case 2
      from "1.IH" [OF False 2] obtain n where "l = ((\<lambda>l. concat (map kids l)) ^^ n) (concat (map kids lvl))" by blast
      then have "l = ((\<lambda>l. concat (map kids l)) ^^ Suc n) lvl" unfolding funpow_Suc_right o_def .
      then show ?thesis by blast
    qed (intro exI [of _ 0], simp)
  qed (use "1.prems" in simp)
qed

text \<open>
  C37.  The random trees are data for their grammar: from depth 3 on and for any size and any draws the
  generator ends, the count it reports is the size of the tree it returns, the tree has at most as
  many levels as asked for, and loading it with the bindings of the sunburst succeeds.
\<close>

theorem random_tree_loads:
  assumes "3 \<le> depth"
  shows "\<exists>tree. RandomTree rnd n depth = Some (tree, treeSize tree) \<and> length (levels_of [tree]) \<le> nat depth \<and>
    (\<exists>r. loadData (grammar_schema sunburst co) (alloc_flat sunburst) noCL skip tree st = Inr r)"
proof -
  have "0 < depth - 2" using assms by simp
  from branch_search_ends [OF this, of 1 n] obtain b where b: "FindBranchingFactor n (depth - 2) = Some b"
    by (auto simp: FindBranchingFactor_def)
  let ?t = "build_tree rnd n (depth - 2) b"
  let ?first = "radial_trees ?t 0 0" and ?F = "\<lambda>l. concat (map kids l)"
  obtain rk where ok: "rt_ok rk (nat (depth - 2)) ?t" using build_tree_ok by blast
  have k: "kids (radial_root ?first) = [?first]" by (simp add: radial_root_def kids_def groups_def)
  have sz: "treeSize (radial_root ?first) = 2 + sum_list (map length (rt_kids ?t))"
    using radial_size [OF ok] rt_count [OF ok] by (subst treeSize_kids) (simp add: k)
  have lv: "levels_of [radial_root ?first] = [radial_root ?first] # levels_of [?first]"
    by (subst levels_of_Cons) (simp_all add: k)
  have "(?F ^^ (Suc (nat (depth - 2)))) [?first] = []"
  proof -
    from radial_ranks [OF ok, of "Suc (nat (depth - 2))"] obtain ix where
      ix: "(?F ^^ Suc (nat (depth - 2))) [?first] = map (radial_trees ?t 0) ix"
      "\<forall>i \<in> set ix. i < length (rt_colors ?t) \<and> rk i = Suc (nat (depth - 2))" by blast
    have "ix = []" using ix(2) ok by (cases ix) (auto simp: rt_ok_def)
    with ix(1) show ?thesis by (simp only: list.map)
  qed
  then have "length (levels_of [?first]) \<le> Suc (nat (depth - 2))" by (rule levels_of_bound)
  then have le: "length (levels_of [radial_root ?first]) \<le> nat depth" using assms by (simp add: lv)
  have "\<forall>x \<in> set (bfs (radial_root ?first)). node_ok (grammar_schema sunburst co) (grammar_fields sunburst) x"
  proof
    fix x assume "x \<in> set (bfs (radial_root ?first))"
    then consider "x = radial_root ?first" | l where "l \<in> set (levels_of [?first])" "x \<in> set l"
      by (auto simp: bfs_def lv)
    then show "node_ok (grammar_schema sunburst co) (grammar_fields sunburst) x"
    proof cases
      case 1
      then show ?thesis by (simp only: radial_root_ok)
    next
      case (2 l)
      from levels_of_pow [OF 2(1)] obtain m where "l = (?F ^^ m) [?first]" by blast
      with radial_ranks [OF ok, of m] obtain ix where "l = map (radial_trees ?t 0) ix" "\<forall>i \<in> set ix. i < length (rt_colors ?t)"
        by blast
      with 2(2) obtain i where "x = radial_trees ?t 0 i" "i < length (rt_colors ?t)" by auto
      then show ?thesis using radial_tree [OF ok] radial_node_ok by simp
    qed
  qed
  then have "\<exists>r. loadData (grammar_schema sunburst co) (alloc_flat sunburst) noCL skip (radial_root ?first) st = Inr r"
    using grammar_loadData_accepts by blast
  moreover have "RandomTree rnd n depth = Some (radial_root ?first, treeSize (radial_root ?first))"
    by (simp add: RandomTree_def b Let_def sz)
  ultimately show ?thesis using le by blast
qed

theorem random_tree_loads_witness:
  "\<exists>tree r. RandomTree (\<lambda>_. 1 / 2) 100 5 = Some (tree, treeSize tree) \<and> length (levels_of [tree]) \<le> 5 \<and>
     loadData (grammar_schema sunburst (\<lambda>_ _. 0 :: int)) (alloc_flat sunburst) True True tree demo_flat = Inr r"
  using random_tree_loads [of 5 "\<lambda>_. 1 / 2" 100 "\<lambda>_ _. 0 :: int" True True demo_flat] by auto

end
