(* ===== verification/Rounding.thy ===== *)
theory Rounding
  imports Complex_Main
begin

text \<open>
  Rounding of binary floating point: a number is an integer multiple of some fixed power of two, and
  \<open>rnd p\<close> takes it to the nearest number of \<open>p\<close> significant bits, ties to the even one, as a double
  (53 bits) or the store into a \<open>Float32Array\<close> (24 bits) does while no exponent leaves its range.
\<close>

function bit_length :: "int \<Rightarrow> nat" where
  "bit_length n = (if n \<le> 0 then 0 else Suc (bit_length (n div 2)))"
  by auto
termination by (relation "measure nat") auto

declare bit_length.simps [simp del]

definition rnd_pos :: "nat \<Rightarrow> int \<Rightarrow> int" where
  "rnd_pos p m =
     (let k = bit_length m - p; q = m div 2 ^ k; r = m mod 2 ^ k
      in (if 2 * r < 2 ^ k \<or> 2 * r = 2 ^ k \<and> even q then q else q + 1) * 2 ^ k)"

definition rnd :: "nat \<Rightarrow> int \<Rightarrow> int" where
  "rnd p m = (if m < 0 then - rnd_pos p (- m) else rnd_pos p m)"

abbreviation to_double :: "int \<Rightarrow> int" where
  "to_double \<equiv> rnd 53"

abbreviation to_single :: "int \<Rightarrow> int" where
  "to_single \<equiv> rnd 24"

lemma bit_length_le: "m < 2 ^ j \<Longrightarrow> bit_length m \<le> j"
proof (induction j arbitrary: m)
  case (Suc j)
  then have "bit_length (m div 2) \<le> j" by (intro Suc.IH) simp
  then show ?case by (subst bit_length.simps) simp
qed (simp add: bit_length.simps)

lemma bit_length_pow: "bit_length (2 ^ j) = Suc j"
proof (induction j)
  case (Suc j)
  then show ?case by (subst bit_length.simps) simp
qed (simp add: bit_length.simps)

text \<open>For evaluation by rewriting.\<close>

lemma bit_length_step: "0 < n \<Longrightarrow> bit_length n = Suc (bit_length (n div 2))" "bit_length 0 = 0"
  by (subst bit_length.simps, simp) (subst bit_length.simps, simp)

lemmas rnd_eval = rnd_def rnd_pos_def bit_length_step Let_def

text \<open>A power of two bounds what is rounded below it, since it needs one bit only.\<close>

lemma rnd_pos_le:
  assumes "0 < p" and "m \<le> 2 ^ j"
  shows "rnd_pos p m \<le> 2 ^ j"
proof (cases "m = 2 ^ j")
  case True
  have k: "bit_length m - p \<le> j" using assms(1) by (simp add: True bit_length_pow)
  then have "(2 :: int) ^ (bit_length m - p) dvd m" by (simp add: True le_imp_power_dvd)
  then show ?thesis by (simp add: rnd_pos_def Let_def True)
next
  case False
  with assms(2) have m: "m < 2 ^ j" by simp
  define k where "k = bit_length m - p"
  have k: "k \<le> j" using bit_length_le [OF m] by (simp add: k_def)
  then have j: "(2 :: int) ^ j = 2 ^ (j - k) * 2 ^ k" by (simp flip: power_add)
  have "0 \<le> m mod 2 ^ k" by simp
  then have "m div 2 ^ k * 2 ^ k \<le> m" using div_mult_mod_eq [of m "2 ^ k"] by linarith
  with m j have "m div 2 ^ k * 2 ^ k < 2 ^ (j - k) * 2 ^ k" by (simp only: le_less_trans)
  then have "m div 2 ^ k < 2 ^ (j - k)" by (rule mult_right_less_imp_less [of _ "2 ^ k"]) simp
  then have "(if b then m div 2 ^ k else m div 2 ^ k + 1) * 2 ^ k \<le> 2 ^ (j - k) * 2 ^ k" for b
    by (intro mult_right_mono) auto
  then show ?thesis by (simp add: rnd_pos_def k_def [symmetric] Let_def j)
qed

lemma rnd_le: "0 < p \<Longrightarrow> 0 \<le> m \<Longrightarrow> m \<le> 2 ^ j \<Longrightarrow> rnd p m \<le> 2 ^ j"
  using rnd_pos_le by (simp add: rnd_def)

lemma rnd_nonneg: "0 \<le> m \<Longrightarrow> 0 \<le> rnd p m"
  by (auto simp: rnd_def rnd_pos_def Let_def pos_imp_zdiv_nonneg_iff)

end
