(* ===== verification/TreemapDemo.thy ===== *)
theory TreemapDemo
  imports Rounding
begin

text \<open>
  The data switch of the treemap page, \<open>examples/treemap/demo.js\<close>: \<open>onDataChange\<close> starts an interval
  timer that moves the settings \<open>showfraud\<close> and \<open>showprojected\<close> of the root step by step and lays
  the map out after each.  The settings are slots of a \<open>Float32Array\<close>: a number is counted in units of
  2 to the power of -57, a sum is rounded to a double and a store to single precision.  The slider and
  the error box are not modelled.
\<close>

datatype tween = Suspect | Projection

text \<open>
  \<open>intervals\<close> are the timers that run, by their identifiers; \<open>tweener\<close> is the variable of the page,
  \<open>layouts\<close> counts the calls of \<open>layoutAndRender\<close>.
\<close>

record switch =
  showfraud :: int
  showprojected :: int
  intervals :: "nat \<rightharpoonup> tween"
  next_interval :: nat
  tweener :: "nat option"
  layouts :: nat

text \<open>The number 1, and the double nearest to \<open>1.0 / 20\<close>.\<close>

definition unity :: int where "unity = 2 ^ 57"

definition delta :: int where "delta = 7205759403792794"

lemma delta_nearest: "2 ^ 52 \<le> delta" "delta < 2 ^ 53" "2 * \<bar>20 * delta - unity\<bar> \<le> 20"
  by (simp_all add: delta_def unity_def)

definition setInterval :: "tween \<Rightarrow> switch \<Rightarrow> switch" where
  "setInterval f s = s\<lparr>intervals := (intervals s)(next_interval s \<mapsto> f), tweener := Some (next_interval s),
     next_interval := next_interval s + 1\<rparr>"

text \<open>\<open>clearInterval(tweener); tweener = null\<close>: an identifier of no timer is ignored.\<close>

definition clear_tweener :: "switch \<Rightarrow> switch" where
  "clear_tweener s = s\<lparr>intervals := (case tweener s of None \<Rightarrow> intervals s | Some i \<Rightarrow> (intervals s)(i := None)), tweener := None\<rparr>"

definition relayout :: "switch \<Rightarrow> switch" where
  "relayout s = s\<lparr>layouts := layouts s + 1\<rparr>"

definition tween_suspect :: "switch \<Rightarrow> switch" where
  "tween_suspect s =
     (let nxt = to_double (showfraud s + delta)
      in relayout (if nxt < 0 \<or> nxt > unity then clear_tweener (s\<lparr>showfraud := unity\<rparr>) else s\<lparr>showfraud := to_single nxt\<rparr>))"

text \<open>The projection lays out twice, the second time in \<open>updateDisplay\<close>.\<close>

definition tween_projection :: "switch \<Rightarrow> switch" where
  "tween_projection s =
     relayout (relayout
       (if showfraud s > 0
        then let nextFraud = to_double (showfraud s - to_double (delta * 2))
             in s\<lparr>showfraud := if nextFraud < 0 \<or> nextFraud > unity then 0 else to_single nextFraud\<rparr>
        else let nextProj = to_double (showprojected s + to_double (delta * 2))
             in if nextProj < 0 \<or> nextProj > unity then clear_tweener (s\<lparr>showprojected := unity\<rparr>)
                else s\<lparr>showprojected := to_single nextProj\<rparr>))"

text \<open>
  The choice of the select element.  The test \<open>!tweener == null\<close> compares a boolean with \<open>null\<close> and is
  never true, so that a running timer is not cleared.
\<close>

definition onDataChange :: "string \<Rightarrow> switch \<Rightarrow> switch" where
  "onDataChange v s =
     (if v = ''suspect'' then setInterval Suspect s
      else if v = ''projection'' then setInterval Projection s
      else s)"

text \<open>A timer that runs fires.\<close>

definition tick :: "nat \<Rightarrow> switch \<Rightarrow> switch" where
  "tick i s = (case intervals s i of None \<Rightarrow> s | Some Suspect \<Rightarrow> tween_suspect s | Some Projection \<Rightarrow> tween_projection s)"

datatype switch_event = Choose string | Tick nat

fun switch_apply :: "switch \<Rightarrow> switch_event \<Rightarrow> switch" where
  "switch_apply s (Choose v) = onDataChange v s"
| "switch_apply s (Tick i) = tick i s"

definition switch_start :: switch where
  "switch_start = \<lparr>showfraud = 0, showprojected = 0, intervals = Map.empty, next_interval = 1, tweener = None, layouts = 0\<rparr>"

lemmas switch_defs = onDataChange_def tick_def tween_suspect_def tween_projection_def setInterval_def clear_tweener_def
  relayout_def Let_def

definition settings_ok :: "switch \<Rightarrow> bool" where
  "settings_ok s \<longleftrightarrow> 0 \<le> showfraud s \<and> showfraud s \<le> unity \<and> 0 \<le> showprojected s \<and> showprojected s \<le> unity"

lemma single_unity: "0 \<le> m \<Longrightarrow> m \<le> unity \<Longrightarrow> 0 \<le> to_single m \<and> to_single m \<le> unity"
  using rnd_le [of 24 m 57] rnd_nonneg [of m 24] by (simp add: unity_def)

lemma settings_apply: "settings_ok s \<Longrightarrow> settings_ok (switch_apply s e)"
proof (cases e)
  case (Tick i)
  assume a: "settings_ok s"
  have u: "0 \<le> unity" by (simp add: unity_def)
  have "settings_ok (tween_suspect s)" "settings_ok (tween_projection s)"
    using a u by (auto simp: settings_ok_def switch_defs single_unity not_less)
  then show ?thesis using a Tick by (simp add: tick_def split: option.split tween.split)
qed (simp add: settings_ok_def onDataChange_def setInterval_def)

lemma settings_run: "settings_ok s \<Longrightarrow> settings_ok (foldl switch_apply s es)"
  by (induction es arbitrary: s) (auto simp: settings_apply)

text \<open>What the highlighting makes of its setting in one tick, until the sum exceeds 1.\<close>

definition brighter :: "int \<Rightarrow> int" where
  "brighter x = to_single (to_double (x + delta))"

fun can_brighten :: "nat \<Rightarrow> int \<Rightarrow> bool" where
  "can_brighten 0 x \<longleftrightarrow> True"
| "can_brighten (Suc n) x \<longleftrightarrow> 
     0 \<le> to_double (x + delta) \<and> to_double (x + delta) \<le> unity \<and> can_brighten n (brighter x)"

lemma suspect_ticks:
  assumes "intervals s i = Some Suspect" and "can_brighten n (showfraud s)"
  shows "foldl switch_apply s (replicate n (Tick i)) = s\<lparr>showfraud := (brighter ^^ n) (showfraud s), layouts := layouts s + n\<rparr>"
  using assms
proof (induction n arbitrary: s)
  case (Suc n)
  let ?t = "s\<lparr>showfraud := brighter (showfraud s), layouts := layouts s + 1\<rparr>"
  have "switch_apply s (Tick i) = ?t" using Suc.prems by (simp add: switch_defs brighter_def)
  moreover have "foldl switch_apply ?t (replicate n (Tick i)) =
      ?t\<lparr>showfraud := (brighter ^^ n) (showfraud ?t), layouts := layouts ?t + n\<rparr>"
    using Suc.prems by (intro Suc.IH) simp_all
  ultimately show ?case by (simp add: funpow_swap1)
qed simp

lemma highlighting: "can_brighten 19 0" "unity < to_double ((brighter ^^ 19) 0 + delta)"
  by (simp_all add: numeral_eq_Suc brighter_def delta_def unity_def rnd_eval)

text \<open>
  C40.  The data switch: in any order of choices and timer ticks the settings stay between 0 and 1; and the
  highlighting chosen on an idle page ends after 20 ticks with the setting at 1 and no timer left,
  having laid out at each tick.
\<close>

theorem switch_settings:
  "settings_ok (foldl switch_apply switch_start es) \<and>
   (let s = foldl switch_apply switch_start (Choose ''suspect'' # replicate 20 (Tick 1))
    in showfraud s = unity \<and> intervals s = Map.empty \<and> tweener s = None \<and> layouts s = 20)"
proof -
  have "settings_ok switch_start" by (simp add: settings_ok_def switch_start_def unity_def)
  then have "settings_ok (foldl switch_apply switch_start es)" by (rule settings_run)
  moreover
  let ?s = "switch_apply switch_start (Choose ''suspect'')"
  have f: "intervals ?s 1 = Some Suspect" "showfraud ?s = 0" by (simp_all add: switch_start_def switch_defs)
  have "foldl switch_apply ?s (replicate 19 (Tick 1)) = ?s\<lparr>showfraud := (brighter ^^ 19) 0, layouts := layouts ?s + 19\<rparr>"
    using suspect_ticks [OF f(1), of 19] highlighting(1) by (simp only: f(2))
  moreover have "replicate 20 (Tick 1) = replicate 19 (Tick 1) @ [Tick 1]"
    using replicate_append_same [of 19 "Tick 1"] by (simp add: numeral_eq_Suc)
  ultimately show ?thesis using highlighting(2)
    by (simp add: Let_def) (simp add: switch_start_def switch_defs)
qed

text \<open>One round of both timers, the first firing twice as often as the second.\<close>

definition dimmer :: "int \<Rightarrow> int" where
  "dimmer x = to_single (to_double (x - to_double (delta * 2)))"

definition round_trip :: "int \<Rightarrow> int" where
  "round_trip x = dimmer (brighter (brighter x))"

definition can_round :: "int \<Rightarrow> bool" where
  "can_round x \<longleftrightarrow> can_brighten 2 x \<and>
     0 < brighter (brighter x) \<and> 0 \<le> to_double (brighter (brighter x) - to_double (delta * 2)) \<and>
     to_double (brighter (brighter x) - to_double (delta * 2)) \<le> unity"

lemma race_round:
  assumes "intervals s = [1 \<mapsto> Suspect, 2 \<mapsto> Projection]" and "can_round (showfraud s)"
  shows "\<exists>n. foldl switch_apply s [Tick 1, Tick 1, Tick 2] = s\<lparr>showfraud := round_trip (showfraud s), layouts := n\<rparr>"
proof -
  let ?t = "s\<lparr>showfraud := brighter (brighter (showfraud s)), layouts := layouts s + 2\<rparr>"
  have "foldl switch_apply s (replicate 2 (Tick 1)) = ?t"
    using suspect_ticks [of s 1 2] assms by (simp add: can_round_def numeral_2_eq_2)
  then have "foldl switch_apply s [Tick 1, Tick 1, Tick 2] = switch_apply ?t (Tick 2)" by (simp add: numeral_2_eq_2)
  also have "\<dots> = ?t\<lparr>showfraud := round_trip (showfraud s), layouts := layouts s + 4\<rparr>"
    using assms by (auto simp: can_round_def switch_defs dimmer_def round_trip_def)
  finally show ?thesis by auto
qed

lemma race_rounds:
  assumes "intervals s = [1 \<mapsto> Suspect, 2 \<mapsto> Projection]" and "can_round (showfraud s)"
    and "round_trip (showfraud s) = showfraud s"
  shows "\<exists>n. foldl switch_apply s (concat (replicate k [Tick 1, Tick 1, Tick 2])) = s\<lparr>layouts := n\<rparr>"
proof (induction k)
  case (Suc k)
  then obtain n where n: "foldl switch_apply s (concat (replicate k [Tick 1, Tick 1, Tick 2])) = s\<lparr>layouts := n\<rparr>" by blast
  from race_round [of "s\<lparr>layouts := n\<rparr>"] assms
  obtain n' where "foldl switch_apply (s\<lparr>layouts := n\<rparr>) [Tick 1, Tick 1, Tick 2] = s\<lparr>layouts := n'\<rparr>" by auto
  moreover have "replicate (Suc k) [Tick 1, Tick 1, Tick 2] = replicate k [Tick 1, Tick 1, Tick 2] @ [[Tick 1, Tick 1, Tick 2]]"
    by (simp add: replicate_append_same)
  ultimately show ?case using n by auto
qed (auto intro: exI [of _ "layouts s"])

lemma race_values:
  defines "x \<equiv> (brighter ^^ 10) 0"
  shows "can_brighten 10 0" "can_round x" "round_trip x = x"
proof -
  have x: "x = 72057602627862528"
    by (simp add: x_def numeral_eq_Suc brighter_def delta_def rnd_eval)
  show "can_brighten 10 0" by (simp add: numeral_eq_Suc brighter_def delta_def unity_def rnd_eval)
  show "round_trip x = x"
    by (simp add: x round_trip_def brighter_def dimmer_def delta_def rnd_eval)
  show "can_round x"
    by (simp add: x can_round_def numeral_2_eq_2 brighter_def delta_def unity_def rnd_eval)
qed

text \<open>
  Choosing the projection while the highlighting still runs leaves both timers running, and as long as
  the first fires twice as often as the second, as their periods of 20 and 40 ms say, neither ends:
  with the choice after ten steps every round restores both settings, so the projection is never shown.
\<close>

lemma switch_race:
  assumes "s = foldl switch_apply switch_start (Choose ''suspect'' # replicate 10 (Tick 1) @ [Choose ''projection''])"
  shows "\<exists>n. foldl switch_apply s (concat (replicate k [Tick 1, Tick 1, Tick 2])) = s\<lparr>layouts := n\<rparr> \<and>
    intervals s = [1 \<mapsto> Suspect, 2 \<mapsto> Projection] \<and> showprojected s = 0"
proof -
  let ?t = "switch_apply switch_start (Choose ''suspect'')"
  have f: "intervals ?t 1 = Some Suspect" "showfraud ?t = 0" by (simp_all add: switch_start_def switch_defs)
  from suspect_ticks [OF f(1), of 10, unfolded f(2), OF race_values(1)]
  have s: "s = onDataChange ''projection'' (?t\<lparr>showfraud := (brighter ^^ 10) 0, layouts := layouts ?t + 10\<rparr>)"
    by (simp only: assms foldl_append foldl_Cons foldl_Nil switch_apply.simps)
  have i: "intervals s = [1 \<mapsto> Suspect, 2 \<mapsto> Projection]" "showfraud s = (brighter ^^ 10) 0" "showprojected s = 0"
    unfolding s by (auto simp: switch_start_def switch_defs fun_upd_twist)
  from race_rounds [OF i(1)] race_values(2,3) i show ?thesis by simp
qed

end
