(* ===== verification/Spec2Isabelle.thy ===== *)
theory Spec2Isabelle
  imports Grammars Styles GL Canvas2D Workers TreemapVotes Compress KernelChunks RandomTrees TreemapDemo
begin

text \<open>
  Superconductor, the JavaScript library under \<open>src/superconductor/\<close> that lays out and renders large
  trees in a browser with WebCL and WebGL, and on the CPU without them.

  \<^bold>\<open>The program.\<close>  A layout compiler, which is not part of the repository, turns a grammar into
  functions of the runner (\<open>examples/*/kbindings.js\<close> for the buffers, \<open>kernels.visualization\<close> for the
  visits).  A page makes a \<open>Superconductor\<close> (\<open>main.js\<close>), which owns a \<open>CLRunner\<close> (data and layout) and a
  \<open>GLRunner\<close> (rendering).  Data come as a JSON tree, which the runner flattens into one array per
  field, or flattened before by the tool \<open>flattener.js\<close>, as dense, sparse or split sparse buffers;
  split files are fetched by a pool of workers.  Laying out runs the visits of the grammar over the
  levels of the tree, on the device, on the CPU or on several workers; the last visit writes the
  vertices that the renderer draws.  Style sheets are compiled into rules that set fields of the nodes.

  \<^bold>\<open>Theories and sources\<close> (paths below \<open>superconductorjs/\<close> unless they start with \<open>examples/\<close>).

  \<^item> Prelude: JavaScript arrays and objects with integer keys, strings, shared list lemmas.
  \<^item> SparseCodec, SparseFiles: \<open>deflate\<close>, \<open>inflate\<close> and \<open>deflateMT\<close> of \<open>src/CLRunner.js\<close>.  A buffer is a list
    over any type with a zero.
  \<^item> ParallelLoad, FlatLoad: the worker program, the pool of \<open>inflateMt\<close> and \<open>loadDataFlat\<close>,
    \<open>loadDataFlatMt\<close>.  \<open>pool_step\<close> delivers one message of one worker, in any order.
  \<^item> Compress: \<open>src/jzlib.js\<close> and \<open>src/flattener.js\<close>, from the flattened runner to the files written, and
    the answers of the file system to the writes.
  \<^item> FlatTree: \<open>treeSize\<close> to \<open>loadData\<close> of \<open>src/CLRunner.js\<close>.  The record \<open>flat\<close> holds the arrays of the runner.
  \<^item> Proxy, Bindings, Boxes, Sunburst, Linegraph, Treemap, Grammars: \<open>src/CLDataWrapper.js\<close> and the four
    \<open>kbindings.js\<close>.  The emitted functions of a file differ in their tables only, so a grammar is a record
    of tables, one definition per emitted function, and Bindings holds the operations on them.
  \<^item> SelParse, SelMatch, SelFlat, SelKernel, Styles: \<open>selectors.js\<close>, \<open>selectorsGPU.js\<close> and the kernel that
    \<open>src/CLRunner.js\<close> emits for selectors; the front ends, the three engines and how they compare.
  \<^item> Traverse, Workers: the passes over the levels, synchronous on the CPU and on the device, and
    \<open>traverseAsync\<close> with its workers.
  \<^item> TreemapStore, TreemapVisits, TreemapLayout, TreemapVotes: the layout engine of the treemap for the
    CPU, \<open>examples/treemap/kernels.visualization.js\<close>; TreemapVisits has one definition per visit.
  \<^item> Matrix, GL, Canvas2D: \<open>lib/J3DIMath.js\<close>, \<open>src/GLRunner.js\<close> and its mode for a 2D canvas.
  \<^item> Facade: \<open>src/main.js\<close> and what it drives in the two runners; \<open>page\<close> is the state of all three
    objects, \<open>async\<close> that of asynchronous rendering.
  \<^item> KernelChunks: \<open>tools/kernel-chunker.js\<close>.
  \<^item> Generators, RandomTrees, Rounding, TreemapDemo: \<open>src/genExamples.js\<close>, \<open>examples/sunburst/data-gen.js\<close>
    and \<open>examples/treemap/demo.js\<close>.

  \<^bold>\<open>What the theorems show.\<close>

  \<^item> Loading: encoding and decoding a buffer, whole or split, give the buffer back; every interleaving
    of the pool ends with one callback and the original buffers, and what the tool writes is what the
    loader restores, while a lost file means no callback ever.
  \<^item> Flattening: the arrays are those of the breadth-first order of the tree, the levels partition it,
    and exactly the well-formed trees are accepted.
  \<^item> Buffers: in the four grammars the windows of the fields tile the buffers, so that a store
    through a proxy changes one element of one field, and the shared buffers refine separate arrays.
  \<^item> Styles: a positive match is a match of CSS, the cascade runs to completion by specificity, the
    engine over flat arrays equals the one over objects while the names declared are identifiers, and
    the kernel applies the declarations that they apply, for any order of its work items, each value
    as its own parser reads it.  The cases in which the code differs from CSS are lemmas as well.
  \<^item> Passes: the device computes what the CPU computes for visits that stay near their node; a
    multicore pass ends with one callback and an outcome that does not depend on the order of answers.
  \<^item> Treemap: magnitudes are sums of what is below, every container is cut into its children without
    gap or overlap unless its magnitude or that of a container above it is 0, what is painted are the
    tiles, and areas are in proportion to the votes.
  \<^item> Rendering: in every reachable state the vertex buffer holds what is drawn, the uniforms belong to
    the position, the shader clips to the frustum; a page draws what was laid out.  Asynchronous requests
    are served one at a time without WebCL by an engine that has the asynchronous functions, which
    none of the repository has; with any other engine and with WebCL the page gets stuck.
  \<^item> Tools and examples: the kernels are cut and joined without loss, and the generated data load.

  \<^bold>\<open>Interfaces.\<close>  \<open>js_object\<close> (Prelude) is what the encoder relies on of an object with integer keys;
  \<open>cl_device\<close> (Proxy) what the proxies and transfers rely on of a device; \<open>host_alloc\<close> (FlatTree) what the
  flattener relies on of the generated allocation, interpreted on the grammars; \<open>engine\<close> (SelMatch) the
  sweep that the selector engines share, interpreted on the one over objects and on the kernel.

  \<^bold>\<open>Arguments and bounds.\<close>  Code outside the repository is an argument of the definitions: the network and
  the JSON parser (\<open>fetch\<close>, \<open>json_parse\<close>), the conversion into a typed array (\<open>coerce\<close>), the device, the
  engine that \<open>eval\<close> installs, the program text made of names that are no identifiers (\<open>ev\<close>), the
  compiler of the emitted kernel (\<open>assigned\<close>), the random draws.  Numbers of geometry are exact reals:
  rounding, NaN and overflow of floating point are outside, as are divisions by zero, whose value in
  HOL is 0: where a property of the treemap depends on a quotient, it excludes them.  The settings of
  the treemap page are rounded as the page rounds them (Rounding).  The search of \<open>RandomTrees\<close> counts in
  unbounded integers, which the doubles of the code are up to \<open>2 ^ 53\<close>.  The selector engines store values
  into the fields as they are.  Packed colours and specificities keep their 32 bits.  Sizes and indices of arrays are natural numbers, below
  the \<open>2 ^ 32\<close> elements of an array.  Loops that may not end are partial functions with value \<open>None\<close>, and
  their termination is a theorem where it holds; the walk along sibling links in the treemap engine has
  as its fuel the number of nodes, which is enough because a walk only goes to later nodes
  (\<open>walk_enough\<close>).

  \<^bold>\<open>Not modelled.\<close>  The OMeta parser under \<open>lib/ometa-js\<close> and \<open>tools/macro-processor.js\<close>, which only runs
  it: third-party code.  \<open>superconductor.js\<close>, the concatenation of the files above.  In \<open>GLRunner.js\<close> and
  \<open>CLRunner.js\<close> compiling shaders and kernels, timing and logging, which are calls of the platform
  without a state of the program.  The loading functions in \<open>kernels.visualization.js\<close>, which repeat
  \<open>kbindings.js\<close>.  The widgets of the example pages and their libraries.  The rest of the repository are
  project files and patched files of Chromium in other languages.
\<close>

end
